(* ===== verification/Prelude.thy ===== *)
theory Prelude
  imports Main "HOL-Library.Signed_Division" "HOL-Library.Sublist"
    "HOL-Library.Char_ord" "HOL-Library.List_Lexorder" "HOL-Library.Multiset"
begin

text \<open>
  Shared vocabulary of the development: Go's \<open>int64\<close> arithmetic written out over \<open>int\<close>,
  errors as values, and the four SQL shapes every store operation is made of (select one row,
  conditional update, insert, aggregate) over tables that are lists of rows in insertion order.
\<close>

named_theorems row_simps \<open>rewriting for selects, updates and aggregates over tables\<close>
named_theorems frame_simps \<open>what an operation leaves unchanged\<close>

section \<open>Machine integers\<close>

text \<open>
  Every Go quantity here is an \<open>int64\<close>: arithmetic wraps modulo \<open>2 ^ 64\<close>. Postgres \<open>bigint\<close>
  has the same range and raises an error instead of wrapping.
\<close>

definition int64 :: "int \<Rightarrow> bool" where
  "int64 x \<longleftrightarrow> - 9223372036854775808 \<le> x \<and> x \<le> 9223372036854775807"

definition i64 :: "int \<Rightarrow> int" where
  "i64 x = (x + 9223372036854775808) mod 18446744073709551616 - 9223372036854775808"

definition int4 :: "int \<Rightarrow> bool" where
  "int4 x \<longleftrightarrow> - 2147483648 \<le> x \<and> x \<le> 2147483647"

lemma int64_i64 [simp, intro]: "int64 (i64 x)"
proof -
  have "0 \<le> (x + 9223372036854775808) mod 18446744073709551616"
    and "(x + 9223372036854775808) mod 18446744073709551616 < 18446744073709551616"
    by simp_all
  then show ?thesis by (simp add: int64_def i64_def)
qed

lemma i64_id [simp]: "int64 x \<Longrightarrow> i64 x = x"
  by (simp add: int64_def i64_def)

lemma i64_cong_mod: "i64 x = i64 y \<longleftrightarrow> x mod 18446744073709551616 = y mod 18446744073709551616"
proof -
  have "(x + c) mod m = (y + c) mod m \<longleftrightarrow> x mod m = y mod m" for c m :: int
    by (metis add_diff_cancel_right' mod_add_left_eq mod_diff_left_eq)
  then show ?thesis by (simp add: i64_def)
qed

lemma i64_mod [simp]: "i64 x mod 18446744073709551616 = x mod 18446744073709551616"
  by (simp add: i64_def mod_diff_left_eq)

lemma i64_add_left [simp]: "i64 (i64 x + y) = i64 (x + y)"
  unfolding i64_cong_mod by (metis i64_mod mod_add_left_eq)

lemma i64_add_right [simp]: "i64 (x + i64 y) = i64 (x + y)"
  unfolding i64_cong_mod by (metis i64_mod mod_add_right_eq)

lemma int64_0 [simp]: "int64 0"
  by (simp add: int64_def)

lemma i64_0_iff: "i64 x = 0 \<longleftrightarrow> x mod 18446744073709551616 = 0"
  using i64_cong_mod [of x 0] by simp

lemma int64_neg: "int64 x \<Longrightarrow> 0 \<le> x \<Longrightarrow> int64 (- x)"
  by (simp add: int64_def)

text \<open>Go's \<open>/\<close> truncates towards zero; the only quotient that overflows divides by -1.\<close>

definition go_div :: "int \<Rightarrow> int \<Rightarrow> int" where
  "go_div a b = i64 (a sdiv b)"

section \<open>Errors and sequencing\<close>

datatype error =
    ErrInsufficientFunds
  | ErrConflict
  | ErrNoRows
  | ErrUnique
  | ErrForeignKey
  | ErrRange
  | ErrNoLegs
  | ErrUnbalanced
  | ErrNotPositive
  | ErrBadOutcome
  | ErrBadSide
  | ErrBadSize
  | ErrTooSmall
  | ErrHalted string
  | ErrEscrowExceedsCustody
  | ErrScan

text \<open>
  A transaction body is a function from the database to \<open>error + result \<times> database\<close>. An error
  carries no database, which is the rollback of \<open>tx\<close> in \<open>core.go\<close>: whatever the body had
  written is gone.
\<close>

definition try_bind :: "'e + 'a \<Rightarrow> ('a \<Rightarrow> 'e + 'b) \<Rightarrow> 'e + 'b" where
  "try_bind m f = (case m of Inl e \<Rightarrow> Inl e | Inr a \<Rightarrow> f a)"

definition require :: "bool \<Rightarrow> 'e \<Rightarrow> 'e + unit" where
  "require b e = (if b then Inr () else Inl e)"

definition of_option :: "'e \<Rightarrow> 'a option \<Rightarrow> 'e + 'a" where
  "of_option e x = (case x of None \<Rightarrow> Inl e | Some a \<Rightarrow> Inr a)"

lemma try_bind_simps [simp]:
  "try_bind (Inl e) f = Inl e"
  "try_bind (Inr a) f = f a"
  by (simp_all add: try_bind_def)

lemma try_bind_Inr [simp]: "try_bind m f = Inr b \<longleftrightarrow> (\<exists>a. m = Inr a \<and> f a = Inr b)"
  by (cases m) auto

lemma try_bind_Inl: "try_bind m f = Inl e \<longleftrightarrow> m = Inl e \<or> (\<exists>a. m = Inr a \<and> f a = Inl e)"
  by (cases m) auto

lemma require_Inr [simp]: "require b e = Inr u \<longleftrightarrow> b"
  by (simp add: require_def)

lemma require_Inl [simp]: "require b e = Inl e' \<longleftrightarrow> \<not> b \<and> e' = e"
  by (auto simp: require_def)

lemma of_option_Inr [simp]: "of_option e x = Inr a \<longleftrightarrow> x = Some a"
  by (auto simp: of_option_def split: option.splits)

lemma of_option_Inl [simp]: "of_option e x = Inl e' \<longleftrightarrow> x = None \<and> e' = e"
  by (auto simp: of_option_def split: option.splits)

lemma require_code [simp]: "require True e = Inr ()" "require False e = Inl e"
  by (simp_all add: require_def)

lemma of_option_code [simp]: "of_option e None = Inl e" "of_option e (Some a) = Inr a"
  by (simp_all add: of_option_def)

section \<open>Tables\<close>

definition select_one :: "('r \<Rightarrow> bool) \<Rightarrow> 'r list \<Rightarrow> 'r option" where
  "select_one p rs = List.find p rs"

definition update_where :: "('r \<Rightarrow> bool) \<Rightarrow> ('r \<Rightarrow> 'r) \<Rightarrow> 'r list \<Rightarrow> 'r list" where
  "update_where p f rs = map (\<lambda>r. if p r then f r else r) rs"

definition rows_affected :: "('r \<Rightarrow> bool) \<Rightarrow> 'r list \<Rightarrow> nat" where
  "rows_affected p rs = length (filter p rs)"

definition sum_where :: "('r \<Rightarrow> bool) \<Rightarrow> ('r \<Rightarrow> int) \<Rightarrow> 'r list \<Rightarrow> int" where
  "sum_where p v rs = sum_list (map v (filter p rs))"

lemma select_one_Nil [row_simps]: "select_one p [] = None"
  by (simp add: select_one_def)

lemma select_one_Cons [row_simps]:
  "select_one p (r # rs) = (if p r then Some r else select_one p rs)"
  by (simp add: select_one_def)

lemma select_one_None_iff: "select_one p rs = None \<longleftrightarrow> (\<forall>r \<in> set rs. \<not> p r)"
  by (auto simp: select_one_def find_None_iff)

lemma select_one_SomeD: "select_one p rs = Some r \<Longrightarrow> r \<in> set rs \<and> p r"
  by (induction rs) (auto simp: row_simps split: if_splits)

lemma select_one_append [row_simps]:
  "select_one p (xs @ ys) = (case select_one p xs of None \<Rightarrow> select_one p ys | Some r \<Rightarrow> Some r)"
  by (induction xs) (auto simp: row_simps)

lemma select_one_key_unique:
  assumes "distinct (map k rs)" and "r \<in> set rs" and "p r" and "\<And>x. p x \<Longrightarrow> k x = k r"
  shows "select_one p rs = Some r"
  using assms
proof (induction rs)
  case Nil
  then show ?case by simp
next
  case (Cons x xs)
  show ?case
  proof (cases "p x")
    case True
    with Cons.prems(4) have "k x = k r" by simp
    with Cons.prems(1,2) have "x = r" by (auto simp: image_iff)
    with True show ?thesis by (simp add: row_simps)
  next
    case False
    with Cons.prems(2,3) have "r \<in> set xs" by auto
    then have "select_one p xs = Some r"
      using Cons.prems(1,3,4) by (intro Cons.IH) (simp, assumption+)
    with False show ?thesis by (simp add: row_simps)
  qed
qed

lemma filter_key_unique:
  "distinct (map k rs) \<Longrightarrow> x \<in> k ` set rs \<Longrightarrow> \<exists>r. r \<in> set rs \<and> k r = x \<and> filter (\<lambda>q. k q = x) rs = [r]"
proof (induction rs)
  case (Cons r rs)
  show ?case
  proof (cases "k r = x")
    case True
    with Cons.prems(1) have "filter (\<lambda>q. k q = x) rs = []" by (auto simp: filter_empty_conv image_iff)
    with True show ?thesis by auto
  next
    case False
    with Cons show ?thesis by auto
  qed
qed simp

lemma update_where_Nil [row_simps]: "update_where p f [] = []"
  by (simp add: update_where_def)

lemma update_where_Cons [row_simps]:
  "update_where p f (r # rs) = (if p r then f r else r) # update_where p f rs"
  by (simp add: update_where_def)

lemma update_where_append [row_simps]:
  "update_where p f (xs @ ys) = update_where p f xs @ update_where p f ys"
  by (simp add: update_where_def)

lemma set_update_where: "set (update_where p f rs) = (\<lambda>r. if p r then f r else r) ` set rs"
  by (simp add: update_where_def)

text \<open>Reading off the results of a concrete run.\<close>

lemma run_okE: "(case x of Inl e \<Rightarrow> False | Inr y \<Rightarrow> P y) \<Longrightarrow> (\<And>y. x = Inr y \<Longrightarrow> P y \<Longrightarrow> R) \<Longrightarrow> R"
  by (cases x) auto

lemma found_okE: "(case x of None \<Rightarrow> False | Some y \<Rightarrow> P y) \<Longrightarrow> (\<And>y. x = Some y \<Longrightarrow> P y \<Longrightarrow> R) \<Longrightarrow> R"
  by (cases x) auto

lemma update_where_others:
  assumes "\<And>r. p r \<Longrightarrow> key r = k" "\<And>r. key (f r) = key r" "key q \<noteq> k"
  shows "q \<in> set (update_where p f rs) \<longleftrightarrow> q \<in> set rs"
proof -
  have "q \<in> set (update_where p f rs)" if "q \<in> set rs"
    using that assms(1) [of q] assms(3) unfolding set_update_where by (intro image_eqI [of _ _ q]) auto
  moreover have "q \<in> set rs" if "q \<in> set (update_where p f rs)"
  proof -
    from that obtain r where r: "r \<in> set rs" "q = (if p r then f r else r)" unfolding set_update_where by blast
    with assms show ?thesis by (cases "p r") auto
  qed
  ultimately show ?thesis by blast
qed

lemma update_where_noop: "(\<And>r. r \<in> set rs \<Longrightarrow> \<not> p r) \<Longrightarrow> update_where p f rs = rs"
  by (induction rs) (auto simp: row_simps)

lemma map_update_where [row_simps]:
  "(\<And>r. k (f r) = k r) \<Longrightarrow> map k (update_where p f rs) = map k rs"
  by (simp add: update_where_def)

lemma length_update_where [simp]: "length (update_where p f rs) = length rs"
  by (simp add: update_where_def)

lemma list_ex_key [row_simps]: "list_ex (\<lambda>r. k r = x) rs \<longleftrightarrow> x \<in> k ` set rs"
  by (induction rs) auto

lemma rows_affected_0_iff: "rows_affected p rs = 0 \<longleftrightarrow> (\<forall>r \<in> set rs. \<not> p r)"
  by (auto simp: rows_affected_def filter_empty_conv)

lemma sum_where_Nil [row_simps]: "sum_where p v [] = 0"
  by (simp add: sum_where_def)

lemma sum_where_Cons [row_simps]:
  "sum_where p v (r # rs) = (if p r then v r else 0) + sum_where p v rs"
  by (simp add: sum_where_def)

lemma sum_where_append [row_simps]:
  "sum_where p v (xs @ ys) = sum_where p v xs + sum_where p v ys"
  by (simp add: sum_where_def)

lemma sum_where_none: "(\<And>r. r \<in> set rs \<Longrightarrow> p r \<Longrightarrow> v r = 0) \<Longrightarrow> sum_where p v rs = 0"
  by (induction rs) (auto simp: row_simps)

lemma sum_where_no_rows: "\<forall>r \<in> set rs. \<not> p r \<Longrightarrow> sum_where p v rs = 0"
  by (rule sum_where_none) auto

lemma sum_where_cong:
  "(\<And>r. r \<in> set rs \<Longrightarrow> (if p r then v r else 0) = (if q r then w r else 0)) \<Longrightarrow>
   sum_where p v rs = sum_where q w rs"
  by (induction rs) (auto simp: row_simps)

lemma sum_where_nonneg: "(\<And>r. r \<in> set rs \<Longrightarrow> p r \<Longrightarrow> 0 \<le> v r) \<Longrightarrow> 0 \<le> sum_where p v rs"
  by (induction rs) (auto simp: row_simps)

lemma sum_where_member_le:
  "(\<And>r. r \<in> set rs \<Longrightarrow> p r \<Longrightarrow> 0 \<le> v r) \<Longrightarrow> r \<in> set rs \<Longrightarrow> p r \<Longrightarrow> v r \<le> sum_where p v rs"
proof (induction rs)
  case Nil
  then show ?case by simp
next
  case (Cons x xs)
  have "0 \<le> sum_where p v xs"
    using Cons.prems(1) by (auto intro: sum_where_nonneg)
  with Cons show ?case by (fastforce simp: row_simps)
qed

text \<open>
  The aggregate after an update of the one row with a given key: the row's old share leaves
  the sum and its new share enters it.
\<close>

lemma sum_where_update:
  assumes "distinct (map k rs)" and "r \<in> set rs" and "q r"
    and "\<And>x. x \<in> set rs \<Longrightarrow> q x \<Longrightarrow> k x = k r"
  shows "sum_where p v (update_where q f rs) =
    sum_where p v rs - (if p r then v r else 0) + (if p (f r) then v (f r) else 0)"
  using assms
proof (induction rs)
  case Nil
  then show ?case by simp
next
  case (Cons x xs)
  show ?case
  proof (cases "x = r")
    case True
    have "\<not> q y" if "y \<in> set xs" for y
    proof
      assume "q y"
      with Cons.prems(4) that have "k y = k r" by simp
      with True Cons.prems(1) that show False by (auto simp: image_iff)
    qed
    then have "update_where q f xs = xs" by (rule update_where_noop)
    with True Cons.prems(3) show ?thesis by (simp add: row_simps)
  next
    case False
    with Cons.prems have r: "r \<in> set xs" by simp
    then have "k x \<noteq> k r" using Cons.prems(1) by (auto simp: image_iff)
    then have "\<not> q x" using Cons.prems(4) [of x] by auto
    moreover have "sum_where p v (update_where q f xs) =
        sum_where p v xs - (if p r then v r else 0) + (if p (f r) then v (f r) else 0)"
    proof (rule Cons.IH)
      show "distinct (map k xs)" using Cons.prems(1) by simp
      show "k y = k r" if "y \<in> set xs" "q y" for y
        using Cons.prems(4) that by (meson list.set_intros(2))
    qed (fact r, fact Cons.prems(3))
    ultimately show ?thesis by (simp add: row_simps)
  qed
qed

lemma sum_where_update_same:
  "(\<And>r. r \<in> set rs \<Longrightarrow> q r \<Longrightarrow>
      (if p (f r) then v (f r) else 0) = (if p r then v r else 0)) \<Longrightarrow>
   sum_where p v (update_where q f rs) = sum_where p v rs"
proof (induction rs)
  case Nil
  then show ?case by (simp add: row_simps)
next
  case (Cons r rs)
  have "sum_where p v (update_where q f rs) = sum_where p v rs"
    using Cons.prems by (intro Cons.IH) simp
  with Cons.prems [of r] show ?case by (auto simp: row_simps)
qed

text \<open>Grouping: over distinct keys that cover every row, the group sums add up to the whole.\<close>

lemma sum_where_groups:
  "distinct ks \<Longrightarrow> (\<And>r. r \<in> set rs \<Longrightarrow> k r \<in> set ks) \<Longrightarrow>
   sum_list (map (\<lambda>x. sum_where (\<lambda>r. k r = x) v rs) ks) = sum_list (map v rs)"
proof (induction rs)
  case Nil
  then show ?case by (simp add: row_simps)
next
  case (Cons r rs)
  have out: "sum_list (map (\<lambda>x. if k r = x then v r else 0) ks) = 0" if "k r \<notin> set ks" for ks
    using that by (induction ks) auto
  have "sum_list (map (\<lambda>x. if k r = x then v r else 0) ks) = v r"
    if "distinct ks" "k r \<in> set ks" for ks
    using that by (induction ks) (auto simp: out)
  then have "sum_list (map (\<lambda>x. if k r = x then v r else 0) ks) = v r"
    using Cons.prems by simp
  with Cons show ?case by (simp add: row_simps sum_list_addf)
qed

lemma sum_where_split:
  "sum_list (map v rs) = sum_where p v rs + sum_where (\<lambda>r. \<not> p r) v rs"
  by (induction rs) (auto simp: row_simps)

section \<open>Strings\<close>

fun split_on :: "char \<Rightarrow> string \<Rightarrow> string list" where
  "split_on c [] = [[]]"
| "split_on c (x # xs) =
     (if x = c then [] # split_on c xs
      else case split_on c xs of [] \<Rightarrow> [[x]] | w # ws \<Rightarrow> (x # w) # ws)"

text \<open>Two codes with the same ends differ only in the middle; with different last letters they differ.\<close>

lemma append_last_neq: "xs \<noteq> [] \<Longrightarrow> ys \<noteq> [] \<Longrightarrow> last xs \<noteq> last ys \<Longrightarrow> as @ xs \<noteq> bs @ ys"
  by (metis last_appendR)

section \<open>JSON payloads\<close>

text \<open>
  The two payload columns hold flat JSON objects that are written by \<open>json.Marshal\<close> of a map
  and read back by \<open>json.Unmarshal\<close> into a struct: a field is found by its name, and is the
  type's zero value when it is absent or has another type.
\<close>

datatype json = JStr string | JNum int

type_synonym json_obj = "(string \<times> json) list"

definition json_str :: "json_obj \<Rightarrow> string \<Rightarrow> string" where
  "json_str ob k = (case map_of ob k of Some (JStr s) \<Rightarrow> s | _ \<Rightarrow> [])"

definition json_int :: "json_obj \<Rightarrow> string \<Rightarrow> int" where
  "json_int ob k = (case map_of ob k of Some (JNum n) \<Rightarrow> n | _ \<Rightarrow> 0)"

end
