(* ===== verification/Core.thy ===== *)
theory Core
  imports Prelude "HOL-Library.Word"
begin

text \<open>
  The small shared pieces of \<open>internal/core/core.go\<close>: the money scale, the printer of amounts,
  and the generator of ids. Go's \<open>%d\<close>, \<open>%06d\<close> and \<open>%x\<close> are written out for the arguments the
  code gives them.
\<close>

unbundle bit_operations_syntax

section \<open>Money\<close>

definition One :: int where "One = 1000000"

definition digit :: "nat \<Rightarrow> char" where
  "digit n = char_of (48 + n)"

fun digits :: "nat \<Rightarrow> string" where
  "digits n = (if n < 10 then [digit n] else digits (n div 10) @ [digit (n mod 10)])"

declare digits.simps [simp del]

definition fmt_d :: "int \<Rightarrow> string" where
  "fmt_d i = (if i < 0 then CHR ''-'' # digits (nat (- i)) else digits (nat i))"

text \<open>\<open>%06d\<close>: zeros between the sign and the digits up to width six.\<close>

definition fmt_06d :: "int \<Rightarrow> string" where
  "fmt_06d i =
    (if i < 0 then CHR ''-'' # replicate (5 - length (digits (nat (- i)))) CHR ''0'' @ digits (nat (- i))
     else replicate (6 - length (digits (nat i))) CHR ''0'' @ digits (nat i))"

definition TrimRight0 :: "string \<Rightarrow> string" where
  "TrimRight0 s = rev (dropWhile (\<lambda>c. c = CHR ''0'') (rev s))"

definition TrimSuffixDot :: "string \<Rightarrow> string" where
  "TrimSuffixDot s = (if s \<noteq> [] \<and> last s = CHR ''.'' then butlast s else s)"

definition USD :: "int \<Rightarrow> string" where
  "USD v =
    (let neg = v < 0;
         v1 = (if neg then i64 (- v) else v);
         s = TrimSuffixDot (TrimRight0 (fmt_d (go_div v1 One) @ ''.'' @ fmt_06d (v1 smod One)))
     in if neg then CHR ''-'' # s else s)"

section \<open>Ids\<close>

type_synonym byte = "8 word"

definition hex_digit :: "nat \<Rightarrow> char" where
  "hex_digit n = (if n < 10 then char_of (48 + n) else char_of (87 + n))"

text \<open>\<open>%x\<close> of a byte slice: two lower-case digits per byte.\<close>

definition fmt_x :: "byte list \<Rightarrow> string" where
  "fmt_x bs = concat (map (\<lambda>b. [hex_digit (unat b div 16), hex_digit (unat b mod 16)]) bs)"

text \<open>The sixteen random bytes are the argument; the panic of a failing source is not modelled.\<close>

definition NewID :: "byte list \<Rightarrow> string" where
  "NewID r =
    (let b = r[6 := (r ! 6 AND 0x0F) OR 0x40, 8 := (r ! 8 AND 0x3F) OR 0x80]
     in fmt_x (take 4 b) @ ''-'' @ fmt_x (take 2 (drop 4 b)) @ ''-'' @ fmt_x (take 2 (drop 6 b)) @ ''-'' @
        fmt_x (take 2 (drop 8 b)) @ ''-'' @ fmt_x (take 6 (drop 10 b)))"

text \<open>An id has no colon, so it can be cut out of an idempotency key.\<close>

definition id_ok :: "string \<Rightarrow> bool" where
  "id_ok i \<longleftrightarrow> CHR '':'' \<notin> set i"

lemma hex_digit_not_colon: "n < 16 \<Longrightarrow> hex_digit n \<noteq> CHR '':''"
proof -
  have "\<forall>n \<in> set [0..<16]. hex_digit n \<noteq> CHR '':''" by code_simp
  then show "n < 16 \<Longrightarrow> hex_digit n \<noteq> CHR '':''" by simp
qed

lemma fmt_x_not_colon: "CHR '':'' \<notin> set (fmt_x bs)"
proof -
  have hi: "unat b div 16 < 16" for b :: byte
  proof -
    have "unat b < 256" using unsigned_less [of b, where ?'a = nat] by simp
    then show ?thesis by (simp add: less_mult_imp_div_less)
  qed
  have "hex_digit (unat b div 16) \<noteq> CHR '':''" "hex_digit (unat b mod 16) \<noteq> CHR '':''" for b :: byte
    by (simp_all add: hex_digit_not_colon hi)
  then show ?thesis
    by (simp add: fmt_x_def) (metis)
qed

lemma NewID_id_ok: "id_ok (NewID r)"
  using fmt_x_not_colon by (auto simp: id_ok_def NewID_def Let_def)

lemma key_cut:
  assumes "a @ CHR '':'' # x = b @ CHR '':'' # y" and "id_ok a" and "id_ok b"
  shows "a = b \<and> x = y"
proof -
  have cut: "takeWhile (\<lambda>c. c \<noteq> CHR '':'') (i @ CHR '':'' # z) = i"
    and rest: "dropWhile (\<lambda>c. c \<noteq> CHR '':'') (i @ CHR '':'' # z) = CHR '':'' # z"
    if "id_ok i" for i z :: string
    using that by (auto simp: id_ok_def takeWhile_append dropWhile_append split: if_splits)
  have "a = b" using assms cut by metis
  moreover have "CHR '':'' # x = CHR '':'' # y" using assms rest by metis
  ultimately show ?thesis by simp
qed

section \<open>Reading decimals back\<close>

definition read_digits :: "string \<Rightarrow> nat" where
  "read_digits s = foldl (\<lambda>a c. a * 10 + (of_char c - 48)) 0 s"

lemma of_char_digit: "n < 10 \<Longrightarrow> of_char (digit n) = (48 + n :: nat)"
  by (simp add: digit_def)

lemma read_digits_digits: "read_digits (digits n) = n"
proof (induction n rule: digits.induct)
  case (1 n)
  show ?case
  proof (cases "n < 10")
    case True
    then show ?thesis by (simp add: digits.simps [of n] read_digits_def of_char_digit)
  next
    case False
    with 1 show ?thesis
      by (simp add: digits.simps [of n] read_digits_def of_char_digit)
  qed
qed

lemma digit_range: "c \<in> set (digits n) \<Longrightarrow> \<exists>m < 10. c = digit m"
proof (induction n rule: digits.induct)
  case (1 n)
  show ?case
  proof (cases "n < 10")
    case True
    with 1 show ?thesis by (auto simp: digits.simps [of n])
  next
    case False
    with 1(2) have "c \<in> set (digits (n div 10)) \<or> c = digit (n mod 10)"
      by (auto simp: digits.simps [of n])
    with 1(1) [OF False] show ?thesis by (metis mod_less_divisor zero_less_numeral)
  qed
qed

end
