(* ===== verification/Schema.thy ===== *)
theory Schema
  imports Core
begin

text \<open>
  The Postgres schema of \<open>internal/core/schema.sql\<close>: one record per table row, one list per
  table (insertion order, so \<open>bigserial\<close> ids and \<open>created_at\<close> order are list order). Columns
  that no code reads back (\<open>meta\<close>, \<open>created_at\<close>, \<open>updated_at\<close>, \<open>observed_at\<close>, \<open>applied_at\<close>,
  \<open>at\<close>) are not kept; the time columns that are compared with \<open>now()\<close> are integers. Columns
  whose texts are fixed by the code (kinds and states) are datatypes; texts that come from a
  caller (users, markets, sides, keys) are strings. The unused table \<open>system_state\<close> is left out.
\<close>

section \<open>Accounts, transfers, entries\<close>

datatype acct_kind = KExternal | KInsurance | KFees | KAvailable | KPendingWithdraw | KMargin | KOther

record account_row =
  ac_code :: string
  ac_kind :: acct_kind
  ac_owner :: "string option"

record transfer_row =
  tr_id :: string
  tr_kind :: string
  tr_key :: "string option"

record entry_row =
  en_transfer :: string
  en_account :: string
  en_amount :: int

record balance_row =
  ba_code :: string
  ba_balance :: int
  ba_version :: int

section \<open>Intents and outbox\<close>

datatype intent_kind = Withdraw | SettleMarket | EscrowSet

datatype intent_state = StateReserved | StateSubmitted | StateConfirmed | StateExpired | StateReverted

record intent_row =
  in_id :: string
  in_key :: "string option"
  in_kind :: intent_kind
  in_user :: "string option"
  in_market :: "string option"
  in_amount :: int
  in_state :: intent_state
  in_reserve_transfer :: "string option"
  in_final_transfer :: "string option"
  in_chain_tx :: "string option"
  in_height :: "int option"
  in_hash :: "string option"
  in_attempts :: int
  in_deadline :: int
  in_expiry :: int
  in_last_error :: "string option"

datatype outbox_state = OutPending | OutSending | OutSent

record outbox_row =
  ob_id :: nat
  ob_intent :: string
  ob_op :: string
  ob_payload :: json_obj
  ob_state :: outbox_state
  ob_attempts :: int
  ob_next_attempt :: int
  ob_lease_until :: "int option"
  ob_last_error :: "string option"

section \<open>Chain inbox\<close>

datatype event_status = EvReceived | EvApplied | EvIgnored | EvOrphaned

record chain_event_row =
  ce_id :: string
  ce_seq :: int
  ce_kind :: string
  ce_payload :: json_obj
  ce_height :: int
  ce_hash :: string
  ce_status :: event_status

record chain_fact_row =
  cf_event :: string
  cf_fact :: string
  cf_kind :: string
  cf_amount :: int
  cf_transfer :: string
  cf_height :: int
  cf_hash :: string
  cf_finalized :: bool
  cf_reverted :: bool

section \<open>Markets and positions\<close>

datatype market_state = MarketOpen | MarketSettling | MarketSettled

record market_row =
  mk_id :: string
  mk_question :: string
  mk_mark :: int
  mk_state :: market_state
  mk_outcome :: "int option"
  mk_version :: int

datatype position_state = PositionOpen | PositionClosed | PositionLiquidated

record position_row =
  po_id :: string
  po_user :: string
  po_market :: string
  po_side :: string
  po_size :: int
  po_entry :: int
  po_collateral :: int
  po_key :: "string option"
  po_state :: position_state
  po_version :: int

section \<open>Operations tables\<close>

datatype status = StatusOK | StatusExplained | StatusShortfall | StatusSurplus

record reconciliation_row =
  re_status :: status
  re_ledger_internal :: int
  re_chain_finalized :: int
  re_explained :: int
  re_unexplained :: int

record escrow_drift_row =
  ed_market :: string
  ed_want :: int
  ed_got :: int
  ed_misses :: int

record freeze_row =
  fr_subject :: string
  fr_reason :: string

section \<open>The database\<close>

record db =
  accounts :: "account_row list"
  transfers :: "transfer_row list"
  entries :: "entry_row list"
  account_balances :: "balance_row list"
  intents :: "intent_row list"
  outbox :: "outbox_row list"
  outbox_seq :: nat
  chain_events :: "chain_event_row list"
  chain_facts :: "chain_fact_row list"
  chain_cursor :: int
  markets :: "market_row list"
  positions :: "position_row list"
  reconciliations :: "reconciliation_row list"
  escrow_drift :: "escrow_drift_row list"
  freezes :: "freeze_row list"

text \<open>
  \<open>chain_cursor\<close> is the single row of its table; \<open>outbox_seq\<close> is the sequence behind the
  outbox's \<open>bigserial\<close>. The rest of the file's statements: the seed rows of the ledger.
\<close>

definition schema_db :: db where
  "schema_db =
    \<lparr> accounts =
        [\<lparr>ac_code = ''external'', ac_kind = KExternal, ac_owner = None\<rparr>,
         \<lparr>ac_code = ''insurance'', ac_kind = KInsurance, ac_owner = None\<rparr>,
         \<lparr>ac_code = ''fees'', ac_kind = KFees, ac_owner = None\<rparr>],
      transfers = [], entries = [],
      account_balances =
        [\<lparr>ba_code = ''external'', ba_balance = 0, ba_version = 0\<rparr>,
         \<lparr>ba_code = ''insurance'', ba_balance = 0, ba_version = 0\<rparr>,
         \<lparr>ba_code = ''fees'', ba_balance = 0, ba_version = 0\<rparr>],
      intents = [], outbox = [], outbox_seq = 0, chain_events = [], chain_facts = [],
      chain_cursor = 0, markets = [], positions = [], reconciliations = [],
      escrow_drift = [], freezes = [] \<rparr>"

text \<open>
  \<open>Reset\<close> of \<open>core.go\<close> drops the tables it lists and applies the schema again. The list does
  not name \<open>escrow_drift\<close>: dropping \<open>markets\<close> with \<open>cascade\<close> removes that table's foreign key
  and keeps its rows, and \<open>create table if not exists\<close> then leaves the table as it is.
\<close>

definition reset_db :: "db \<Rightarrow> db" where
  "reset_db d = schema_db\<lparr>escrow_drift := escrow_drift d\<rparr>"

end
