(* ===== verification/Ledger.thy ===== *)
theory Ledger
  imports Schema
begin

text \<open>
  The double-entry ledger of \<open>internal/core/ledger.go\<close>: account codes, the transfer request,
  \<open>PostTx\<close> with its guards in the code's order, and what a successful post does to balances,
  entries and idempotency keys. The contract the other components rely on is the locale
  \<open>double_entry\<close>, interpreted at the end on the model of \<open>PostTx\<close>.
\<close>

section \<open>Account codes\<close>

definition AvailableAcct :: "string \<Rightarrow> string" where
  "AvailableAcct user = ''user:'' @ user @ '':available''"

definition PendingAcct :: "string \<Rightarrow> string" where
  "PendingAcct user = ''user:'' @ user @ '':pending_withdraw''"

definition MarginAcct :: "string \<Rightarrow> string" where
  "MarginAcct user = ''user:'' @ user @ '':margin''"

definition AcctExternal :: string where "AcctExternal = ''external''"

definition AcctInsurance :: string where "AcctInsurance = ''insurance''"

definition AcctFees :: string where "AcctFees = ''fees''"

definition kindOf :: "string \<Rightarrow> acct_kind" where
  "kindOf code =
    (if code = AcctExternal then KExternal
     else if code = AcctInsurance then KInsurance
     else if code = AcctFees then KFees
     else if suffix '':available'' code then KAvailable
     else if suffix '':pending_withdraw'' code then KPendingWithdraw
     else if suffix '':margin'' code then KMargin
     else KOther)"

definition mustStayNonNegative :: "string \<Rightarrow> bool" where
  "mustStayNonNegative code =
    (case kindOf code of KAvailable \<Rightarrow> True | KPendingWithdraw \<Rightarrow> True | KMargin \<Rightarrow> True | _ \<Rightarrow> False)"

section \<open>Transfers\<close>

record leg =
  lg_account :: string
  lg_amount :: int

record transfer =
  t_kind :: string
  t_key :: string
  t_legs :: "leg list"

text \<open>\<open>Leg{Account: a, Amount: n}\<close>: the amount is a Go \<open>int64\<close> expression.\<close>

definition Leg :: "string \<Rightarrow> int \<Rightarrow> leg" where
  "Leg a n = \<lparr>lg_account = a, lg_amount = i64 n\<rparr>"

definition Transfer :: "string \<Rightarrow> string \<Rightarrow> leg list \<Rightarrow> transfer" where
  "Transfer kind key legs = \<lparr>t_kind = kind, t_key = key, t_legs = legs\<rparr>"

section \<open>PostTx\<close>

definition leg_sum :: "leg list \<Rightarrow> int" where
  "leg_sum legs = foldl (\<lambda>s lg. i64 (s + lg_amount lg)) 0 legs"

text \<open>
  \<open>insert into transfers ... on conflict (idempotency_key) do nothing\<close>: an empty key is NULL
  and never conflicts; a used key yields the existing transfer's id; a clash on the primary key
  is an error.
\<close>

definition insert_transfer :: "string \<Rightarrow> string \<Rightarrow> string \<Rightarrow> db \<Rightarrow> error + (string option \<times> db)" where
  "insert_transfer nid kind key d =
    (let k = (if key = [] then None else Some key) in
     case (if k = None then None else select_one (\<lambda>r. tr_key r = k) (transfers d)) of
       Some r \<Rightarrow> Inr (Some (tr_id r), d)
     | None \<Rightarrow>
         if list_ex (\<lambda>r. tr_id r = nid) (transfers d) then Inl ErrUnique
         else Inr (None, d\<lparr>transfers := transfers d @ [\<lparr>tr_id = nid, tr_kind = kind, tr_key = k\<rparr>]\<rparr>))"

definition account_owner :: "string \<Rightarrow> string option" where
  "account_owner code = (case split_on CHR '':'' code of [_, owner, _] \<Rightarrow> Some owner | _ \<Rightarrow> None)"

definition ensureAccount :: "string \<Rightarrow> db \<Rightarrow> db" where
  "ensureAccount code d =
    (let d1 = (if list_ex (\<lambda>r. ac_code r = code) (accounts d) then d
               else d\<lparr>accounts := accounts d @
                 [\<lparr>ac_code = code, ac_kind = kindOf code, ac_owner = account_owner code\<rparr>]\<rparr>)
     in if list_ex (\<lambda>r. ba_code r = code) (account_balances d1) then d1
        else d1\<lparr>account_balances := account_balances d1 @
          [\<lparr>ba_code = code, ba_balance = 0, ba_version = 0\<rparr>]\<rparr>)"

text \<open>The distinct account codes of a transfer in \<open>sort.Strings\<close> order: the lock order.\<close>

definition lock_order :: "leg list \<Rightarrow> string list" where
  "lock_order legs = sort (remdups (map lg_account legs))"

definition leg_entries :: "string \<Rightarrow> leg list \<Rightarrow> entry_row list" where
  "leg_entries tid legs =
    map (\<lambda>lg. \<lparr>en_transfer = tid, en_account = lg_account lg, en_amount = lg_amount lg\<rparr>)
      (filter (\<lambda>lg. lg_amount lg \<noteq> 0) legs)"

text \<open>\<open>delta[lg.Account] += lg.Amount\<close>, read at one account.\<close>

definition leg_delta :: "leg list \<Rightarrow> string \<Rightarrow> int" where
  "leg_delta legs a =
    foldl (\<lambda>s lg. if lg_amount lg \<noteq> 0 \<and> lg_account lg = a then i64 (s + lg_amount lg) else s) 0 legs"

text \<open>\<open>update account_balances set balance = balance + $2 ... returning balance\<close>\<close>

definition add_balance :: "string \<Rightarrow> int \<Rightarrow> db \<Rightarrow> error + (int \<times> db)" where
  "add_balance code n d =
    (case select_one (\<lambda>r. ba_code r = code) (account_balances d) of
       None \<Rightarrow> Inl ErrNoRows
     | Some b \<Rightarrow>
         if int64 (ba_balance b + n) then
           Inr (ba_balance b + n,
             d\<lparr>account_balances := update_where (\<lambda>r. ba_code r = code)
                (\<lambda>r. r\<lparr>ba_balance := ba_balance r + n, ba_version := ba_version r + 1\<rparr>)
                (account_balances d)\<rparr>)
         else Inl ErrRange)"

fun apply_deltas :: "leg list \<Rightarrow> string list \<Rightarrow> db \<Rightarrow> error + db" where
  "apply_deltas legs [] d = Inr d"
| "apply_deltas legs (c # cs) d =
    (if leg_delta legs c = 0 then apply_deltas legs cs d
     else case add_balance c (leg_delta legs c) d of
       Inl e \<Rightarrow> Inl e
     | Inr (nb, d') \<Rightarrow>
         if nb < 0 \<and> mustStayNonNegative c then Inl ErrInsufficientFunds
         else apply_deltas legs cs d')"

definition PostTx :: "string \<Rightarrow> transfer \<Rightarrow> db \<Rightarrow> error + ((string \<times> bool) \<times> db)" where
  "PostTx nid t d =
    (if t_legs t = [] then Inl ErrNoLegs
     else if leg_sum (t_legs t) \<noteq> 0 then Inl ErrUnbalanced
     else try_bind (insert_transfer nid (t_kind t) (t_key t) d) (\<lambda>(existing, d1).
       case existing of
         Some i \<Rightarrow> Inr ((i, True), d1)
       | None \<Rightarrow>
           let codes = lock_order (t_legs t);
               d2 = fold ensureAccount codes d1;
               d3 = d2\<lparr>entries := entries d2 @ leg_entries nid (t_legs t)\<rparr>
           in try_bind (apply_deltas (t_legs t) codes d3) (\<lambda>d4. Inr ((nid, False), d4))))"

section \<open>Reading the ledger\<close>

definition Balance :: "db \<Rightarrow> string \<Rightarrow> int" where
  "Balance d code =
    (case select_one (\<lambda>r. ba_code r = code) (account_balances d) of None \<Rightarrow> 0 | Some b \<Rightarrow> ba_balance b)"

text \<open>
  \<open>sum(bigint)\<close> is a Postgres \<open>numeric\<close>; scanning it into an \<open>int64\<close> fails outside the range.
\<close>

definition scan_int64 :: "int \<Rightarrow> error + int" where
  "scan_int64 x = (if int64 x then Inr x else Inl ErrRange)"

definition internal_sum :: "db \<Rightarrow> int" where
  "internal_sum d = sum_where (\<lambda>r. ba_code r \<noteq> ''external'') ba_balance (account_balances d)"

definition InternalTotal :: "db \<Rightarrow> error + int" where
  "InternalTotal d = scan_int64 (internal_sum d)"


section \<open>What the tables of the ledger say\<close>

definition entry_sum :: "db \<Rightarrow> string \<Rightarrow> int" where
  "entry_sum d a = sum_where (\<lambda>e. en_account e = a) en_amount (entries d)"

definition transfer_sum :: "db \<Rightarrow> string \<Rightarrow> int" where
  "transfer_sum d tid = sum_where (\<lambda>e. en_transfer e = tid) en_amount (entries d)"

definition posted :: "db \<Rightarrow> string \<Rightarrow> string option" where
  "posted d key = map_option tr_id (select_one (\<lambda>r. tr_key r = Some key) (transfers d))"

definition leg_total :: "leg list \<Rightarrow> string \<Rightarrow> int" where
  "leg_total legs a = sum_where (\<lambda>lg. lg_account lg = a) lg_amount legs"

text \<open>
  Legs whose arithmetic is exact in Go: each account once, amounts of type \<open>int64\<close>, and a true
  sum of zero. All transfers the engine posts are of this form.
\<close>

definition legs_exact :: "leg list \<Rightarrow> bool" where
  "legs_exact legs \<longleftrightarrow> legs \<noteq> [] \<and> distinct (map lg_account legs) \<and>
     list_all (\<lambda>lg. int64 (lg_amount lg)) legs \<and> sum_list (map lg_amount legs) = 0"

text \<open>
  The ledger's invariant. The conjuncts are queries one can run: unique keys of the tables,
  foreign keys of the entries, the \<open>bigint\<close> range, and the checks I0, I1, I3 and I5 of the
  verifier.
\<close>

definition ledger_inv :: "db \<Rightarrow> bool" where
  "ledger_inv d \<longleftrightarrow>
     distinct (map ba_code (account_balances d)) \<and>
     distinct (map tr_id (transfers d)) \<and>
     distinct (filter (\<lambda>k. k \<noteq> None) (map tr_key (transfers d))) \<and>
     list_all (\<lambda>e. list_ex (\<lambda>b. ba_code b = en_account e) (account_balances d)) (entries d) \<and>
     list_all (\<lambda>e. list_ex (\<lambda>r. tr_id r = en_transfer e) (transfers d)) (entries d) \<and>
     list_all (\<lambda>b. int64 (ba_balance b)) (account_balances d) \<and>
     list_all (\<lambda>b. ba_balance b = entry_sum d (ba_code b)) (account_balances d) \<and>
     list_all (\<lambda>r. transfer_sum d (tr_id r) = 0) (transfers d) \<and>
     list_all (\<lambda>b. mustStayNonNegative (ba_code b) \<longrightarrow> 0 \<le> ba_balance b) (account_balances d)"

lemma Balance_member:
  "distinct (map ba_code (account_balances d)) \<Longrightarrow> b \<in> set (account_balances d) \<Longrightarrow>
   Balance d (ba_code b) = ba_balance b"
  by (simp add: Balance_def select_one_key_unique [where k = ba_code and r = b])

lemma Balance_absent:
  "\<forall>b \<in> set (account_balances d). ba_code b \<noteq> a \<Longrightarrow> Balance d a = 0"
  by (simp add: Balance_def select_one_None_iff [THEN iffD2])

lemma ledger_inv_Balance_entries: "ledger_inv d \<Longrightarrow> Balance d a = entry_sum d a"
proof (cases "\<exists>b \<in> set (account_balances d). ba_code b = a")
  case True
  moreover assume "ledger_inv d"
  ultimately show ?thesis
    by (auto simp: ledger_inv_def Balance_member list_all_iff)
next
  case False
  moreover assume "ledger_inv d"
  ultimately have "\<forall>e \<in> set (entries d). en_account e \<noteq> a"
    by (force simp: ledger_inv_def list_all_iff list_ex_iff)
  with False show ?thesis
    by (simp add: Balance_absent entry_sum_def sum_where_no_rows)
qed

lemma ledger_inv_transfer_sum: "ledger_inv d \<Longrightarrow> transfer_sum d t = 0"
proof (cases "\<exists>r \<in> set (transfers d). tr_id r = t")
  case True
  moreover assume "ledger_inv d"
  ultimately show ?thesis by (auto simp: ledger_inv_def list_all_iff)
next
  case False
  moreover assume "ledger_inv d"
  ultimately have "\<forall>e \<in> set (entries d). en_transfer e \<noteq> t"
    by (force simp: ledger_inv_def list_all_iff list_ex_iff)
  then show ?thesis by (simp add: transfer_sum_def sum_where_no_rows)
qed

lemma ledger_inv_nonneg: "ledger_inv d \<Longrightarrow> mustStayNonNegative a \<Longrightarrow> 0 \<le> Balance d a"
  by (cases "\<exists>b \<in> set (account_balances d). ba_code b = a")
     (auto simp: ledger_inv_def Balance_member Balance_absent list_all_iff)

lemma ledger_inv_int64: "ledger_inv d \<Longrightarrow> int64 (Balance d a)"
  by (cases "\<exists>b \<in> set (account_balances d). ba_code b = a")
     (auto simp: ledger_inv_def Balance_member Balance_absent list_all_iff)

lemma ledger_inv_fk:
  assumes "ledger_inv d" and "e \<in> set (entries d)"
  shows "en_account e \<in> ba_code ` set (account_balances d)" and "en_transfer e \<in> tr_id ` set (transfers d)"
  using assms unfolding ledger_inv_def list_all_iff list_ex_iff by (metis imageI)+

lemma ledger_inv_schema: "ledger_inv schema_db"
  by code_simp

section \<open>Leg arithmetic\<close>

lemma foldl_i64_if:
  "foldl (\<lambda>s x. if p x then i64 (s + v x) else s) (i64 s0) xs = i64 (s0 + sum_where p v xs)"
proof (induction xs arbitrary: s0)
  case Nil
  then show ?case by (simp add: row_simps)
next
  case (Cons x xs)
  then show ?case by (simp add: row_simps add.assoc)
qed

lemma leg_sum_eq: "leg_sum legs = i64 (sum_list (map lg_amount legs))"
  using foldl_i64_if [of "\<lambda>_. True" lg_amount 0 legs] by (simp add: leg_sum_def sum_where_def)

lemma leg_delta_eq: "leg_delta legs a = i64 (leg_total legs a)"
proof -
  have "leg_delta legs a = i64 (sum_where (\<lambda>lg. lg_amount lg \<noteq> 0 \<and> lg_account lg = a) lg_amount legs)"
    using foldl_i64_if [of "\<lambda>lg. lg_amount lg \<noteq> 0 \<and> lg_account lg = a" lg_amount 0 legs]
    by (simp add: leg_delta_def)
  also have "sum_where (\<lambda>lg. lg_amount lg \<noteq> 0 \<and> lg_account lg = a) lg_amount legs = leg_total legs a"
    unfolding leg_total_def by (rule sum_where_cong) simp
  finally show ?thesis .
qed

lemma leg_total_distinct:
  "distinct (map lg_account legs) \<Longrightarrow> lg \<in> set legs \<Longrightarrow> leg_total legs (lg_account lg) = lg_amount lg"
proof (induction legs)
  case Nil
  then show ?case by simp
next
  case (Cons l legs)
  show ?case
  proof (cases "l = lg")
    case True
    with Cons.prems(1) have "\<forall>x \<in> set legs. lg_account x \<noteq> lg_account lg" by (auto simp: image_iff)
    with True show ?thesis by (simp add: leg_total_def row_simps sum_where_no_rows)
  next
    case False
    with Cons.prems have "lg \<in> set legs" "lg_account l \<noteq> lg_account lg" by (auto simp: image_iff)
    with Cons show ?thesis by (simp add: leg_total_def row_simps)
  qed
qed

lemma leg_total_absent: "a \<notin> lg_account ` set legs \<Longrightarrow> leg_total legs a = 0"
  unfolding leg_total_def by (rule sum_where_none) auto

lemma leg_total_int64: "legs_exact legs \<Longrightarrow> int64 (leg_total legs a)"
proof (cases "a \<in> lg_account ` set legs")
  case True
  moreover assume "legs_exact legs"
  ultimately show ?thesis
    by (auto simp: legs_exact_def leg_total_distinct list_all_iff)
next
  case False
  then show ?thesis by (simp add: leg_total_absent)
qed

lemma leg_delta_exact: "legs_exact legs \<Longrightarrow> leg_delta legs a = leg_total legs a"
  by (simp add: leg_delta_eq leg_total_int64)

lemma leg_sum_exact: "legs_exact legs \<Longrightarrow> leg_sum legs = 0"
  by (simp add: leg_sum_eq legs_exact_def)

lemma leg_total_Leg [row_simps]:
  "leg_total [] a = 0"
  "leg_total (Leg b n # legs) a = (if b = a then i64 n else 0) + leg_total legs a"
  by (simp_all add: leg_total_def row_simps Leg_def)

lemma leg_entries_sums [row_simps]:
  "sum_where (\<lambda>e. en_account e = a) en_amount (leg_entries tid legs) = leg_total legs a"
  "sum_where (\<lambda>e. en_transfer e = t) en_amount (leg_entries tid legs) =
     (if t = tid then sum_list (map lg_amount legs) else 0)"
  by (induction legs) (auto simp: leg_entries_def leg_total_def row_simps)


section \<open>What a successful post does\<close>

lemma Balance_add_balance:
  assumes "add_balance c n d = Inr (nb, d')"
  shows "nb = Balance d c + n"
    and "Balance d' a = (if a = c then Balance d c + n else Balance d a)"
    and "int64 nb"
    and "\<exists>ab. d' = d\<lparr>account_balances := ab\<rparr>"
    and "map ba_code (account_balances d') = map ba_code (account_balances d)"
proof -
  from assms obtain b where b: "select_one (\<lambda>r. ba_code r = c) (account_balances d) = Some b"
    and nb: "nb = ba_balance b + n" "int64 (ba_balance b + n)"
    and d': "d' = d\<lparr>account_balances := update_where (\<lambda>r. ba_code r = c)
        (\<lambda>r. r\<lparr>ba_balance := ba_balance r + n, ba_version := ba_version r + 1\<rparr>) (account_balances d)\<rparr>"
    by (auto simp: add_balance_def split: option.splits if_splits)
  have upd: "select_one (\<lambda>r. ba_code r = a) (update_where (\<lambda>r. ba_code r = c)
        (\<lambda>r. r\<lparr>ba_balance := ba_balance r + n, ba_version := ba_version r + 1\<rparr>) rs) =
      map_option (\<lambda>r. if ba_code r = c then r\<lparr>ba_balance := ba_balance r + n,
        ba_version := ba_version r + 1\<rparr> else r) (select_one (\<lambda>r. ba_code r = a) rs)" for rs a
    by (induction rs) (auto simp: row_simps)
  from b nb show "nb = Balance d c + n" "int64 nb" by (simp_all add: Balance_def)
  from b nb d' show "Balance d' a = (if a = c then Balance d c + n else Balance d a)"
    by (auto simp: Balance_def upd split: option.splits dest: select_one_SomeD)
  from d' show "\<exists>ab. d' = d\<lparr>account_balances := ab\<rparr>" by blast
  from d' show "map ba_code (account_balances d') = map ba_code (account_balances d)"
    by (simp add: row_simps)
qed

lemma apply_deltas_frame:
  "apply_deltas legs cs d = Inr d' \<Longrightarrow>
   (\<exists>ab. d' = d\<lparr>account_balances := ab\<rparr>) \<and>
   map ba_code (account_balances d') = map ba_code (account_balances d)"
proof (induction legs cs d rule: apply_deltas.induct)
  case (1 legs d)
  then show ?case by (auto intro: exI [where x = "account_balances d"])
next
  case (2 legs c cs d)
  show ?case
  proof (cases "leg_delta legs c = 0")
    case True
    with 2 show ?thesis by simp
  next
    case False
    with "2.prems" obtain nb d1 where d1: "add_balance c (leg_delta legs c) d = Inr (nb, d1)"
      and rest: "apply_deltas legs cs d1 = Inr d'"
      by (auto split: sum.splits prod.splits if_splits)
    obtain ab where ab: "d1 = d\<lparr>account_balances := ab\<rparr>"
      using Balance_add_balance(4) [OF d1] by blast
    have "(\<exists>ab. d' = d1\<lparr>account_balances := ab\<rparr>) \<and>
        map ba_code (account_balances d') = map ba_code (account_balances d1)"
      using "2.IH"(2) [OF False d1 refl] rest "2.prems" False d1 by (auto split: if_splits)
    with ab Balance_add_balance(5) [OF d1] show ?thesis by auto
  qed
qed

lemma apply_deltas_Balance:
  "apply_deltas legs cs d = Inr d' \<Longrightarrow> distinct cs \<Longrightarrow>
   Balance d' a = Balance d a + (if a \<in> set cs then leg_delta legs a else 0) \<and>
   (a \<in> set cs \<longrightarrow> leg_delta legs a \<noteq> 0 \<longrightarrow> int64 (Balance d' a) \<and>
     (mustStayNonNegative a \<longrightarrow> 0 \<le> Balance d' a))"
proof (induction legs cs d rule: apply_deltas.induct)
  case (1 legs d)
  then show ?case by simp
next
  case (2 legs c cs d)
  show ?case
  proof (cases "leg_delta legs c = 0")
    case True
    with 2 show ?thesis by auto
  next
    case False
    with "2.prems" obtain nb d1 where d1: "add_balance c (leg_delta legs c) d = Inr (nb, d1)"
      and ok: "\<not> (nb < 0 \<and> mustStayNonNegative c)" and rest: "apply_deltas legs cs d1 = Inr d'"
      by (auto split: sum.splits prod.splits if_splits)
    have "Balance d' a = Balance d1 a + (if a \<in> set cs then leg_delta legs a else 0) \<and>
        (a \<in> set cs \<longrightarrow> leg_delta legs a \<noteq> 0 \<longrightarrow> int64 (Balance d' a) \<and>
          (mustStayNonNegative a \<longrightarrow> 0 \<le> Balance d' a))"
      by (rule "2.IH"(2) [OF False d1 refl ok rest]) (use "2.prems"(2) in simp)
    with Balance_add_balance(1-3) [OF d1] "2.prems"(2) ok show ?thesis
      by (auto split: if_splits)
  qed
qed


lemma ensureAccount_frame:
  "\<exists>ac ab. ensureAccount c d = d\<lparr>accounts := ac, account_balances := ab\<rparr>"
proof -
  have "ensureAccount c d =
      d\<lparr>accounts := accounts (ensureAccount c d), account_balances := account_balances (ensureAccount c d)\<rparr>"
    by (simp add: ensureAccount_def Let_def)
  then show ?thesis by blast
qed

lemma ensureAccount_balances:
  "account_balances (ensureAccount c d) =
    (if c \<in> ba_code ` set (account_balances d) then account_balances d
     else account_balances d @ [\<lparr>ba_code = c, ba_balance = 0, ba_version = 0\<rparr>])"
  by (simp add: ensureAccount_def Let_def list_ex_iff image_iff eq_commute [of c])

lemma fold_ensureAccount_frame:
  "\<exists>ac ab. fold ensureAccount cs d = d\<lparr>accounts := ac, account_balances := ab\<rparr>"
proof (induction cs arbitrary: d)
  case Nil
  show ?case
    by (intro exI [where x = "accounts d"] exI [where x = "account_balances d"]) simp
next
  case (Cons c cs)
  obtain ac ab where e: "ensureAccount c d = d\<lparr>accounts := ac, account_balances := ab\<rparr>"
    using ensureAccount_frame by blast
  obtain ac' ab' where "fold ensureAccount cs (ensureAccount c d) =
      (ensureAccount c d)\<lparr>accounts := ac', account_balances := ab'\<rparr>"
    using Cons.IH by blast
  with e show ?case by auto
qed

lemma fold_ensureAccount:
  "distinct (map ba_code (account_balances d)) \<Longrightarrow>
   distinct (map ba_code (account_balances (fold ensureAccount cs d))) \<and>
   ba_code ` set (account_balances (fold ensureAccount cs d)) =
     ba_code ` set (account_balances d) \<union> set cs \<and>
   Balance (fold ensureAccount cs d) a = Balance d a"
proof (induction cs arbitrary: d)
  case Nil
  then show ?case by simp
next
  case (Cons c cs)
  have "distinct (map ba_code (account_balances (ensureAccount c d)))"
    using Cons.prems by (auto simp: ensureAccount_balances)
  note IH = Cons.IH [OF this]
  have "Balance (ensureAccount c d) a = Balance d a"
    by (cases "select_one (\<lambda>r. ba_code r = a) (account_balances d)")
       (simp_all add: Balance_def ensureAccount_balances row_simps)
  moreover have "ba_code ` set (account_balances (ensureAccount c d)) =
      insert c (ba_code ` set (account_balances d))"
    by (auto simp: ensureAccount_balances)
  ultimately show ?case using IH by auto
qed

lemma set_lock_order [simp]: "set (lock_order legs) = lg_account ` set legs"
  by (simp add: lock_order_def)

lemma distinct_lock_order [simp]: "distinct (lock_order legs)"
  by (simp add: lock_order_def)

lemma insert_transfer_cases:
  assumes "insert_transfer nid kind key d = Inr (ex, d1)"
  obtains (replay) r where "key \<noteq> []" "ex = Some (tr_id r)" "d1 = d"
      "select_one (\<lambda>r. tr_key r = Some key) (transfers d) = Some r"
  | (fresh) "ex = None" "nid \<notin> tr_id ` set (transfers d)"
      "key = [] \<or> Some key \<notin> tr_key ` set (transfers d)"
      "d1 = d\<lparr>transfers := transfers d @
        [\<lparr>tr_id = nid, tr_kind = kind, tr_key = (if key = [] then None else Some key)\<rparr>]\<rparr>"
proof (cases "if key = [] then None else select_one (\<lambda>r. tr_key r = Some key) (transfers d)")
  case None
  with assms show ?thesis
    by (intro fresh)
       (auto simp: insert_transfer_def Let_def list_ex_iff select_one_None_iff split: if_splits)
next
  case (Some r)
  with assms show ?thesis
    by (intro replay [of r]) (auto simp: insert_transfer_def Let_def split: if_splits)
qed

text \<open>
  The one lemma about \<open>PostTx\<close> the rest of the development needs: a success is either a replay
  that changes nothing, or a new transfer that touches only the four ledger tables and moves
  each account by its legs.
\<close>

lemma PostTx_cases:
  assumes "PostTx nid t d = Inr ((i, rep), d')" and "distinct (map ba_code (account_balances d))"
  obtains (replay) "rep" "t_key t \<noteq> []" "posted d (t_key t) = Some i" "d' = d"
  | (fresh) ac ab where "\<not> rep" "i = nid" "nid \<notin> tr_id ` set (transfers d)"
      "t_key t = [] \<or> Some (t_key t) \<notin> tr_key ` set (transfers d)"
      "leg_sum (t_legs t) = 0"
      "d' = d\<lparr>accounts := ac, account_balances := ab, entries := entries d @ leg_entries nid (t_legs t),
         transfers := transfers d @ [\<lparr>tr_id = nid, tr_kind = t_kind t,
           tr_key = (if t_key t = [] then None else Some (t_key t))\<rparr>]\<rparr>"
      "distinct (map ba_code ab)"
      "ba_code ` set ab = ba_code ` set (account_balances d) \<union> lg_account ` set (t_legs t)"
      "\<And>a. Balance d' a = Balance d a + leg_delta (t_legs t) a"
      "\<And>a. leg_delta (t_legs t) a \<noteq> 0 \<Longrightarrow> int64 (Balance d' a)"
      "\<And>a. leg_delta (t_legs t) a \<noteq> 0 \<Longrightarrow> mustStayNonNegative a \<Longrightarrow> 0 \<le> Balance d' a"
proof -
  from assms(1) obtain ex d1 where ins: "insert_transfer nid (t_kind t) (t_key t) d = Inr (ex, d1)"
    and ls: "leg_sum (t_legs t) = 0"
    by (auto simp: PostTx_def split: if_splits)
  from ins show ?thesis
  proof (cases rule: insert_transfer_cases)
    case (replay r)
    with assms(1) ins show ?thesis
      by (intro that(1)) (auto simp: PostTx_def posted_def split: if_splits)
  next
    case fresh
    let ?cs = "lock_order (t_legs t)"
    let ?d2 = "fold ensureAccount ?cs d1"
    let ?d3 = "?d2\<lparr>entries := entries ?d2 @ leg_entries nid (t_legs t)\<rparr>"
    from assms(1) ins fresh(1) have ad: "apply_deltas (t_legs t) ?cs ?d3 = Inr d'"
      and res: "\<not> rep" "i = nid"
      by (auto simp: PostTx_def Let_def split: if_splits)
    obtain ab where d': "d' = ?d3\<lparr>account_balances := ab\<rparr>"
      and ab: "map ba_code ab = map ba_code (account_balances ?d3)"
      using apply_deltas_frame [OF ad] by auto
    obtain ac ab2 where d2: "?d2 = d1\<lparr>accounts := ac, account_balances := ab2\<rparr>"
      using fold_ensureAccount_frame by blast
    have dist: "distinct (map ba_code (account_balances d1))" and Bd1: "Balance d1 a = Balance d a" for a
      using assms(2) fresh(4) by (simp_all add: Balance_def)
    note ens = fold_ensureAccount [OF dist, of ?cs]
    have B3: "Balance ?d3 a = Balance d a" for a using ens Bd1 by (simp add: Balance_def)
    note bal = apply_deltas_Balance [OF ad distinct_lock_order, unfolded B3]
    have del: "leg_delta (t_legs t) a = 0" if "a \<notin> lg_account ` set (t_legs t)" for a
      using that by (simp add: leg_delta_eq leg_total_absent)
    have set_ab: "ba_code ` set ab = ba_code ` set (account_balances d) \<union> lg_account ` set (t_legs t)"
      using arg_cong [OF ab, of set] ens fresh(4) by simp
    show ?thesis
    proof (rule that(2) [where ac = ac and ab = ab])
      show "d' = d\<lparr>accounts := ac, account_balances := ab, entries := entries d @ leg_entries nid (t_legs t),
         transfers := transfers d @ [\<lparr>tr_id = nid, tr_kind = t_kind t,
           tr_key = (if t_key t = [] then None else Some (t_key t))\<rparr>]\<rparr>"
        using d' d2 fresh(4) by simp
      show "distinct (map ba_code ab)" using ab ens by simp
      show "Balance d' a = Balance d a + leg_delta (t_legs t) a" for a
        using bal [of a] del [of a] by simp
      show "int64 (Balance d' a)" if "leg_delta (t_legs t) a \<noteq> 0" for a
        using bal [of a] del [of a] that by (metis set_lock_order)
      show "0 \<le> Balance d' a" if "leg_delta (t_legs t) a \<noteq> 0" "mustStayNonNegative a" for a
        using bal [of a] del [of a] that by (metis set_lock_order)
    qed (use res fresh ls set_ab in auto)
  qed
qed


lemma PostTx_frame [frame_simps]:
  assumes "PostTx nid t d = Inr (x, d')"
  shows "intents d' = intents d" "outbox d' = outbox d" "outbox_seq d' = outbox_seq d"
    "chain_events d' = chain_events d" "chain_facts d' = chain_facts d"
    "chain_cursor d' = chain_cursor d" "markets d' = markets d" "positions d' = positions d"
    "reconciliations d' = reconciliations d" "escrow_drift d' = escrow_drift d" "freezes d' = freezes d"
proof -
  have "d' = d \<or>
      (\<exists>ac ab en tr. d' = d\<lparr>transfers := tr, accounts := ac, entries := en, account_balances := ab\<rparr>)"
  proof -
    from assms obtain ex d1 where ins: "insert_transfer nid (t_kind t) (t_key t) d = Inr (ex, d1)"
      by (auto simp: PostTx_def split: if_splits)
    then show ?thesis
    proof (cases rule: insert_transfer_cases)
      case (replay r)
      with assms ins show ?thesis by (auto simp: PostTx_def split: if_splits)
    next
      case fresh
      let ?d2 = "fold ensureAccount (lock_order (t_legs t)) d1"
      from assms ins fresh(1) have ad: "apply_deltas (t_legs t) (lock_order (t_legs t))
          (?d2\<lparr>entries := entries ?d2 @ leg_entries nid (t_legs t)\<rparr>) = Inr d'"
        by (auto simp: PostTx_def Let_def split: if_splits)
      obtain ac ab where "?d2 = d1\<lparr>accounts := ac, account_balances := ab\<rparr>"
        using fold_ensureAccount_frame by blast
      moreover obtain ab' where "d' = ?d2\<lparr>entries := entries ?d2 @ leg_entries nid (t_legs t),
          account_balances := ab'\<rparr>"
        using apply_deltas_frame [OF ad] by auto
      ultimately show ?thesis using fresh(4) by auto
    qed
  qed
  then show "intents d' = intents d" "outbox d' = outbox d" "outbox_seq d' = outbox_seq d"
    "chain_events d' = chain_events d" "chain_facts d' = chain_facts d"
    "chain_cursor d' = chain_cursor d" "markets d' = markets d" "positions d' = positions d"
    "reconciliations d' = reconciliations d" "escrow_drift d' = escrow_drift d" "freezes d' = freezes d"
    by auto
qed

lemma PostTx_posted:
  assumes "PostTx nid t d = Inr ((i, False), d')" and "distinct (map ba_code (account_balances d))"
  shows "posted d' k = (if t_key t \<noteq> [] \<and> k = t_key t then Some nid else posted d k)"
  using assms
proof (cases rule: PostTx_cases)
  case (fresh ac ab)
  then show ?thesis
    by (cases "select_one (\<lambda>r. tr_key r = Some k) (transfers d)")
       (auto simp: posted_def row_simps image_iff dest!: select_one_SomeD)
qed simp

lemma PostTx_replay:
  assumes "leg_sum (t_legs t) = 0" and "t_legs t \<noteq> []" and "t_key t \<noteq> []"
    and "posted d (t_key t) = Some i"
  shows "PostTx nid t d = Inr ((i, True), d)"
  using assms by (auto simp: PostTx_def insert_transfer_def Let_def posted_def)

text \<open>Posting keeps the ledger's invariant: one lemma per conjunct that needs an argument.\<close>

lemma entry_sum_post:
  assumes "entries d' = entries d @ leg_entries nid legs"
  shows "entry_sum d' a = entry_sum d a + leg_total legs a"
    and "transfer_sum d' t = transfer_sum d t + (if t = nid then sum_list (map lg_amount legs) else 0)"
  using assms by (simp_all add: entry_sum_def transfer_sum_def row_simps)

lemma PostTx_inv_balanced:
  assumes "PostTx nid t d = Inr (x, d')" and inv: "ledger_inv d" and zero: "sum_list (map lg_amount (t_legs t)) = 0"
    and exact: "\<And>a. leg_delta (t_legs t) a = leg_total (t_legs t) a"
  shows "ledger_inv d'"
proof -
  have dist: "distinct (map ba_code (account_balances d))" using inv by (simp add: ledger_inv_def)
  obtain i rep where "PostTx nid t d = Inr ((i, rep), d')" using assms(1) by (cases x) auto
  then show ?thesis using dist
  proof (cases rule: PostTx_cases)
    case replay
    with inv show ?thesis by simp
  next
    case (fresh ac ab)
    have ab: "account_balances d' = ab" and en: "entries d' = entries d @ leg_entries nid (t_legs t)"
      using fresh(6) by simp_all
    have member: "Balance d' (ba_code b) = ba_balance b" if "b \<in> set ab" for b
      using that fresh(7) ab by (metis Balance_member)
    have bal: "Balance d' a = entry_sum d' a" for a
      by (simp add: fresh(9) exact entry_sum_post [OF en] ledger_inv_Balance_entries [OF inv])
    have ts: "transfer_sum d' tid = 0" for tid
      using zero by (simp add: entry_sum_post [OF en] ledger_inv_transfer_sum [OF inv])
    have rng: "int64 (Balance d' a)" for a
      using fresh(9,10) [of a] ledger_inv_int64 [OF inv, of a] by (cases "leg_delta (t_legs t) a = 0") simp_all
    have nn: "0 \<le> Balance d' a" if "mustStayNonNegative a" for a
      using fresh(9,11) [of a] ledger_inv_nonneg [OF inv that] that
      by (cases "leg_delta (t_legs t) a = 0") simp_all
    have keys: "distinct (filter (\<lambda>k. k \<noteq> None) (map tr_key (transfers d')))"
      and ids: "distinct (map tr_id (transfers d'))"
      using fresh(3,4,6) inv by (auto simp: ledger_inv_def)
    have codes: "ba_code ` set ab = ba_code ` set (account_balances d) \<union> lg_account ` set (t_legs t)"
      by (fact fresh(8))
    have fk1: "en_account e \<in> ba_code ` set ab" if "e \<in> set (entries d')" for e
    proof -
      have "en_account e \<in> ba_code ` set (account_balances d)" if "e \<in> set (entries d)"
        using ledger_inv_fk(1) [OF inv that] .
      moreover have "en_account e \<in> lg_account ` set (t_legs t)" if "e \<in> set (leg_entries nid (t_legs t))"
        using that by (auto simp: leg_entries_def)
      ultimately show ?thesis using that codes en by auto
    qed
    have fk2: "en_transfer e \<in> tr_id ` set (transfers d')" if "e \<in> set (entries d')" for e
    proof -
      have "en_transfer e \<in> tr_id ` set (transfers d)" if "e \<in> set (entries d)"
        using ledger_inv_fk(2) [OF inv that] .
      moreover have "en_transfer e = nid" if "e \<in> set (leg_entries nid (t_legs t))"
        using that by (auto simp: leg_entries_def)
      ultimately show ?thesis using that fresh(6) en by auto
    qed
    show ?thesis
      unfolding ledger_inv_def ab list_all_iff list_ex_iff
    proof (intro conjI ballI)
      show "\<exists>b \<in> set ab. ba_code b = en_account e" if "e \<in> set (entries d')" for e
        using fk1 [OF that] by auto
      show "\<exists>r \<in> set (transfers d'). tr_id r = en_transfer e" if "e \<in> set (entries d')" for e
        using fk2 [OF that] by auto
      show "int64 (ba_balance b)" if "b \<in> set ab" for b
        using rng [of "ba_code b"] member [OF that] by simp
      show "ba_balance b = entry_sum d' (ba_code b)" if "b \<in> set ab" for b
        using bal [of "ba_code b"] member [OF that] by simp
      show "mustStayNonNegative (ba_code b) \<longrightarrow> 0 \<le> ba_balance b" if "b \<in> set ab" for b
        using nn [of "ba_code b"] member [OF that] by simp
    qed (use fresh(7) ids keys ts in simp_all)
  qed
qed

lemma PostTx_inv: "PostTx nid t d = Inr (x, d') \<Longrightarrow> ledger_inv d \<Longrightarrow> legs_exact (t_legs t) \<Longrightarrow> ledger_inv d'"
  by (rule PostTx_inv_balanced) (auto simp: leg_delta_exact, simp add: legs_exact_def)


section \<open>When a post succeeds, and when it is refused\<close>

lemma add_balance_succeeds:
  "c \<in> ba_code ` set (account_balances d) \<Longrightarrow> int64 (Balance d c + n) \<Longrightarrow>
   \<exists>d'. add_balance c n d = Inr (Balance d c + n, d')"
  by (cases "select_one (\<lambda>r. ba_code r = c) (account_balances d)")
     (auto simp: add_balance_def Balance_def select_one_None_iff)

lemma apply_deltas_succeeds:
  assumes "distinct cs" and "set cs \<subseteq> ba_code ` set (account_balances d)"
    and "\<And>c. c \<in> set cs \<Longrightarrow> leg_delta legs c \<noteq> 0 \<Longrightarrow> int64 (Balance d c + leg_delta legs c) \<and>
       (mustStayNonNegative c \<longrightarrow> 0 \<le> Balance d c + leg_delta legs c)"
  shows "\<exists>d'. apply_deltas legs cs d = Inr d'"
  using assms
proof (induction cs arbitrary: d)
  case Nil
  then show ?case by simp
next
  case (Cons c cs)
  show ?case
  proof (cases "leg_delta legs c = 0")
    case True
    with Cons show ?thesis by simp
  next
    case False
    with Cons.prems(2,3) obtain d1
      where d1: "add_balance c (leg_delta legs c) d = Inr (Balance d c + leg_delta legs c, d1)"
      using add_balance_succeeds [of c d "leg_delta legs c"] by auto
    note facts = Balance_add_balance [OF d1]
    have "\<exists>d'. apply_deltas legs cs d1 = Inr d'"
    proof (rule Cons.IH)
      show "distinct cs" using Cons.prems(1) by simp
      show "set cs \<subseteq> ba_code ` set (account_balances d1)"
        using Cons.prems(2) arg_cong [OF facts(5), of set] by simp
      show "int64 (Balance d1 x + leg_delta legs x) \<and>
          (mustStayNonNegative x \<longrightarrow> 0 \<le> Balance d1 x + leg_delta legs x)"
        if "x \<in> set cs" "leg_delta legs x \<noteq> 0" for x
        using Cons.prems(1) Cons.prems(3) [of x] facts(2) [of x] that by auto
    qed
    with d1 False Cons.prems(3) [of c] show ?thesis by auto
  qed
qed

lemma apply_deltas_error:
  "apply_deltas legs cs d = Inl e \<Longrightarrow> set cs \<subseteq> ba_code ` set (account_balances d) \<Longrightarrow>
   e = ErrInsufficientFunds \<or> e = ErrRange"
proof (induction legs cs d rule: apply_deltas.induct)
  case (2 legs c cs d)
  show ?case
  proof (cases "leg_delta legs c = 0")
    case True
    with 2 show ?thesis by simp
  next
    case False
    show ?thesis
    proof (cases "add_balance c (leg_delta legs c) d")
      case (Inl e')
      with False "2.prems" show ?thesis
        by (auto simp: add_balance_def select_one_None_iff split: option.splits if_splits)
    next
      case (Inr x)
      then obtain nb d1 where d1: "add_balance c (leg_delta legs c) d = Inr (nb, d1)" by (cases x) auto
      have "set cs \<subseteq> ba_code ` set (account_balances d1)"
        using "2.prems"(2) arg_cong [OF Balance_add_balance(5) [OF d1], of set] by simp
      with "2.IH"(2) [OF False d1 refl] "2.prems"(1) False d1 show ?thesis
        by (auto split: if_splits)
    qed
  qed
qed simp

text \<open>The state in which the balances are updated: accounts exist, entries are written.\<close>

lemma PostTx_prepare:
  assumes inv: "ledger_inv d" and ex: "legs_exact (t_legs t)"
    and key: "t_key t = [] \<or> posted d (t_key t) = None" and nid: "nid \<notin> tr_id ` set (transfers d)"
  obtains d3 where "PostTx nid t d =
      try_bind (apply_deltas (t_legs t) (lock_order (t_legs t)) d3) (\<lambda>d4. Inr ((nid, False), d4))"
    and "set (lock_order (t_legs t)) \<subseteq> ba_code ` set (account_balances d3)"
    and "\<And>a. Balance d3 a = Balance d a"
proof -
  obtain d1 where ins: "insert_transfer nid (t_kind t) (t_key t) d = Inr (None, d1)"
    and d1: "account_balances d1 = account_balances d"
  proof -
    have "\<not> list_ex (\<lambda>r. tr_id r = nid) (transfers d)"
      using nid by (auto simp: list_ex_iff)
    with key show ?thesis
      by (intro that [of "d\<lparr>transfers := transfers d @ [\<lparr>tr_id = nid, tr_kind = t_kind t,
          tr_key = (if t_key t = [] then None else Some (t_key t))\<rparr>]\<rparr>"])
        (auto simp: insert_transfer_def posted_def Let_def split: option.splits)
  qed
  let ?d2 = "fold ensureAccount (lock_order (t_legs t)) d1"
  have dist: "distinct (map ba_code (account_balances d1))"
    using inv by (simp add: d1 ledger_inv_def)
  let ?d3 = "?d2\<lparr>entries := entries ?d2 @ leg_entries nid (t_legs t)\<rparr>"
  note ens = fold_ensureAccount [OF dist, of "lock_order (t_legs t)"]
  show ?thesis
  proof (rule that [of ?d3])
    show "PostTx nid t d =
        try_bind (apply_deltas (t_legs t) (lock_order (t_legs t)) ?d3) (\<lambda>d4. Inr ((nid, False), d4))"
      using ex by (simp add: PostTx_def ins leg_sum_exact Let_def) (simp add: legs_exact_def)
    show "set (lock_order (t_legs t)) \<subseteq> ba_code ` set (account_balances ?d3)"
      using ens by simp
    show "Balance ?d3 a = Balance d a" for a
      using ens [of a] by (simp add: Balance_def d1)
  qed
qed

lemma PostTx_succeeds:
  assumes "ledger_inv d" and ex: "legs_exact (t_legs t)"
    and "t_key t = [] \<or> posted d (t_key t) = None" and "nid \<notin> tr_id ` set (transfers d)"
    and ok: "\<And>a. a \<in> lg_account ` set (t_legs t) \<Longrightarrow> int64 (Balance d a + leg_total (t_legs t) a) \<and>
       (mustStayNonNegative a \<longrightarrow> 0 \<le> Balance d a + leg_total (t_legs t) a)"
  shows "\<exists>d'. PostTx nid t d = Inr ((nid, False), d')"
proof -
  obtain d3 where post: "PostTx nid t d =
      try_bind (apply_deltas (t_legs t) (lock_order (t_legs t)) d3) (\<lambda>d4. Inr ((nid, False), d4))"
    and codes: "set (lock_order (t_legs t)) \<subseteq> ba_code ` set (account_balances d3)"
    and bal: "\<And>a. Balance d3 a = Balance d a"
    using PostTx_prepare [OF assms(1) ex assms(3,4)] by blast
  have "\<exists>d'. apply_deltas (t_legs t) (lock_order (t_legs t)) d3 = Inr d'"
    using codes ok by (intro apply_deltas_succeeds) (auto simp: bal leg_delta_exact [OF ex])
  with post show ?thesis by auto
qed

lemma PostTx_refused:
  assumes inv: "ledger_inv d" and ex: "legs_exact (t_legs t)"
    and "t_key t = [] \<or> posted d (t_key t) = None" and "nid \<notin> tr_id ` set (transfers d)"
    and a: "mustStayNonNegative a" "Balance d a + leg_total (t_legs t) a < 0"
  shows "PostTx nid t d = Inl ErrInsufficientFunds \<or> PostTx nid t d = Inl ErrRange"
proof -
  obtain d3 where post: "PostTx nid t d =
      try_bind (apply_deltas (t_legs t) (lock_order (t_legs t)) d3) (\<lambda>d4. Inr ((nid, False), d4))"
    and codes: "set (lock_order (t_legs t)) \<subseteq> ba_code ` set (account_balances d3)"
    and bal: "\<And>a. Balance d3 a = Balance d a"
    using PostTx_prepare [OF assms(1) ex assms(3,4)] by blast
  have del: "leg_delta (t_legs t) a = leg_total (t_legs t) a" by (rule leg_delta_exact [OF ex])
  then have nz: "leg_delta (t_legs t) a \<noteq> 0"
    using a ledger_inv_nonneg [OF inv a(1)] by auto
  then have mem: "a \<in> set (lock_order (t_legs t))"
    using leg_total_absent [of a "t_legs t"] del by auto
  have "apply_deltas (t_legs t) (lock_order (t_legs t)) d3 \<noteq> Inr d'" for d'
    using apply_deltas_Balance [of "t_legs t" "lock_order (t_legs t)" d3 d' a] mem nz a
    by (auto simp: bal del)
  then obtain e where "apply_deltas (t_legs t) (lock_order (t_legs t)) d3 = Inl e"
    by (cases "apply_deltas (t_legs t) (lock_order (t_legs t)) d3") auto
  with post apply_deltas_error [OF this codes] show ?thesis by auto
qed

section \<open>Totals\<close>

lemma total_balance_zero: "ledger_inv d \<Longrightarrow> sum_list (map ba_balance (account_balances d)) = 0"
proof -
  assume inv: "ledger_inv d"
  have "map ba_balance (account_balances d) =
      map (\<lambda>c. entry_sum d c) (map ba_code (account_balances d))"
    using inv by (simp add: ledger_inv_def list_all_iff)
  also have "sum_list \<dots> = sum_list (map en_amount (entries d))"
    unfolding entry_sum_def
    by (rule sum_where_groups) (use inv ledger_inv_fk [OF inv] in \<open>auto simp: ledger_inv_def\<close>)
  also have "\<dots> = sum_list (map (\<lambda>t. transfer_sum d t) (map tr_id (transfers d)))"
    unfolding transfer_sum_def
    by (rule sum_where_groups [symmetric]) (use inv ledger_inv_fk [OF inv] in \<open>auto simp: ledger_inv_def\<close>)
  also have "\<dots> = 0"
    using ledger_inv_transfer_sum [OF inv] by (simp add: o_def sum_list_0)
  finally show ?thesis .
qed

lemma sum_where_Balance:
  assumes "distinct (map ba_code bs)"
  shows "sum_where (\<lambda>r. ba_code r = a) ba_balance bs =
    (case select_one (\<lambda>r. ba_code r = a) bs of None \<Rightarrow> 0 | Some b \<Rightarrow> ba_balance b)"
  using assms
proof (induction bs)
  case Nil
  then show ?case by (simp add: row_simps)
next
  case (Cons b bs)
  show ?case
  proof (cases "ba_code b = a")
    case True
    with Cons.prems have "\<forall>r \<in> set bs. ba_code r \<noteq> a" by (auto simp: image_iff)
    with True show ?thesis by (simp add: row_simps sum_where_no_rows)
  next
    case False
    with Cons show ?thesis by (simp add: row_simps)
  qed
qed

lemma internal_sum_eq: "ledger_inv d \<Longrightarrow> internal_sum d = - Balance d AcctExternal"
proof -
  assume inv: "ledger_inv d"
  have "sum_where (\<lambda>r. ba_code r = AcctExternal) ba_balance (account_balances d) + internal_sum d = 0"
    using sum_where_split [of ba_balance "account_balances d" "\<lambda>r. ba_code r = AcctExternal"]
      total_balance_zero [OF inv]
    by (simp add: internal_sum_def AcctExternal_def)
  then show ?thesis
    using inv by (simp add: sum_where_Balance ledger_inv_def Balance_def)
qed

section \<open>Account codes never collide\<close>

lemma AvailableAcct_inj [simp]: "AvailableAcct u = AvailableAcct v \<longleftrightarrow> u = v"
  by (simp add: AvailableAcct_def)

lemma PendingAcct_inj [simp]: "PendingAcct u = PendingAcct v \<longleftrightarrow> u = v"
  by (simp add: PendingAcct_def)

lemma MarginAcct_inj [simp]: "MarginAcct u = MarginAcct v \<longleftrightarrow> u = v"
  by (simp add: MarginAcct_def)

lemma last_acct:
  "last (AvailableAcct u) = CHR ''e''" "last (PendingAcct u) = CHR ''w''" "last (MarginAcct u) = CHR ''n''"
  by (simp_all add: AvailableAcct_def PendingAcct_def MarginAcct_def)

lemma neq_last: "last xs \<noteq> last ys \<Longrightarrow> xs \<noteq> ys"
  by auto

lemma acct_neq [simp]:
  "AvailableAcct u \<noteq> PendingAcct v" "PendingAcct v \<noteq> AvailableAcct u"
  "AvailableAcct u \<noteq> MarginAcct v" "MarginAcct v \<noteq> AvailableAcct u"
  "PendingAcct u \<noteq> MarginAcct v" "MarginAcct v \<noteq> PendingAcct u"
  by (rule neq_last, simp add: last_acct)+

lemma acct_neq_const [simp]:
  "AvailableAcct u \<noteq> AcctExternal" "AvailableAcct u \<noteq> AcctInsurance" "AvailableAcct u \<noteq> AcctFees"
  "PendingAcct u \<noteq> AcctExternal" "PendingAcct u \<noteq> AcctInsurance" "PendingAcct u \<noteq> AcctFees"
  "MarginAcct u \<noteq> AcctExternal" "MarginAcct u \<noteq> AcctInsurance" "MarginAcct u \<noteq> AcctFees"
  "AcctExternal \<noteq> AcctInsurance" "AcctExternal \<noteq> AvailableAcct u" "AcctInsurance \<noteq> AvailableAcct u"
  "AcctExternal \<noteq> PendingAcct u" "AcctInsurance \<noteq> PendingAcct u" "AcctExternal \<noteq> MarginAcct u"
  "AcctInsurance \<noteq> MarginAcct u" "AcctInsurance \<noteq> AcctExternal"
  by (simp_all add: AvailableAcct_def PendingAcct_def MarginAcct_def AcctExternal_def AcctInsurance_def
    AcctFees_def)

lemma suffix_last: "suffix xs ys \<Longrightarrow> xs \<noteq> [] \<Longrightarrow> last xs = last ys"
  by (auto simp: suffix_def)

lemma kindOf_acct [simp]:
  "kindOf (AvailableAcct u) = KAvailable"
  "kindOf (PendingAcct u) = KPendingWithdraw"
  "kindOf (MarginAcct u) = KMargin"
proof -
  have s: "suffix '':available'' (AvailableAcct u)" "suffix '':pending_withdraw'' (PendingAcct u)"
    "suffix '':margin'' (MarginAcct u)"
    by (auto simp: suffix_def AvailableAcct_def PendingAcct_def MarginAcct_def)
  have n: "\<not> suffix '':available'' (PendingAcct u)" "\<not> suffix '':available'' (MarginAcct u)"
    "\<not> suffix '':pending_withdraw'' (MarginAcct u)"
    using last_acct by (auto dest: suffix_last)
  show "kindOf (AvailableAcct u) = KAvailable" "kindOf (PendingAcct u) = KPendingWithdraw"
    "kindOf (MarginAcct u) = KMargin"
    using s n by (simp_all add: kindOf_def)
qed

lemma mustStayNonNegative_acct [simp]:
  "mustStayNonNegative (AvailableAcct u)" "mustStayNonNegative (PendingAcct u)"
  "mustStayNonNegative (MarginAcct u)"
  by (simp_all add: mustStayNonNegative_def)

lemma mustStayNonNegative_const [simp]:
  "\<not> mustStayNonNegative AcctExternal" "\<not> mustStayNonNegative AcctInsurance"
  "\<not> mustStayNonNegative AcctFees"
  by code_simp+


section \<open>Tables outside the ledger do not matter to it\<close>

lemma Balance_other [simp]:
  "Balance (d\<lparr>intents := x0\<rparr>) = Balance d"
  "Balance (d\<lparr>outbox := x1\<rparr>) = Balance d"
  "Balance (d\<lparr>outbox_seq := x2\<rparr>) = Balance d"
  "Balance (d\<lparr>chain_events := x3\<rparr>) = Balance d"
  "Balance (d\<lparr>chain_facts := x4\<rparr>) = Balance d"
  "Balance (d\<lparr>chain_cursor := x5\<rparr>) = Balance d"
  "Balance (d\<lparr>markets := x6\<rparr>) = Balance d"
  "Balance (d\<lparr>positions := x7\<rparr>) = Balance d"
  "Balance (d\<lparr>reconciliations := x8\<rparr>) = Balance d"
  "Balance (d\<lparr>escrow_drift := x9\<rparr>) = Balance d"
  "Balance (d\<lparr>freezes := x10\<rparr>) = Balance d"
  by (simp_all add: Balance_def fun_eq_iff)

lemma posted_other [simp]:
  "posted (d\<lparr>intents := x0\<rparr>) = posted d"
  "posted (d\<lparr>outbox := x1\<rparr>) = posted d"
  "posted (d\<lparr>outbox_seq := x2\<rparr>) = posted d"
  "posted (d\<lparr>chain_events := x3\<rparr>) = posted d"
  "posted (d\<lparr>chain_facts := x4\<rparr>) = posted d"
  "posted (d\<lparr>chain_cursor := x5\<rparr>) = posted d"
  "posted (d\<lparr>markets := x6\<rparr>) = posted d"
  "posted (d\<lparr>positions := x7\<rparr>) = posted d"
  "posted (d\<lparr>reconciliations := x8\<rparr>) = posted d"
  "posted (d\<lparr>escrow_drift := x9\<rparr>) = posted d"
  "posted (d\<lparr>freezes := x10\<rparr>) = posted d"
  by (simp_all add: posted_def fun_eq_iff)

lemma ledger_inv_other [simp]:
  "ledger_inv (d\<lparr>intents := x0\<rparr>) = ledger_inv d"
  "ledger_inv (d\<lparr>outbox := x1\<rparr>) = ledger_inv d"
  "ledger_inv (d\<lparr>outbox_seq := x2\<rparr>) = ledger_inv d"
  "ledger_inv (d\<lparr>chain_events := x3\<rparr>) = ledger_inv d"
  "ledger_inv (d\<lparr>chain_facts := x4\<rparr>) = ledger_inv d"
  "ledger_inv (d\<lparr>chain_cursor := x5\<rparr>) = ledger_inv d"
  "ledger_inv (d\<lparr>markets := x6\<rparr>) = ledger_inv d"
  "ledger_inv (d\<lparr>positions := x7\<rparr>) = ledger_inv d"
  "ledger_inv (d\<lparr>reconciliations := x8\<rparr>) = ledger_inv d"
  "ledger_inv (d\<lparr>escrow_drift := x9\<rparr>) = ledger_inv d"
  "ledger_inv (d\<lparr>freezes := x10\<rparr>) = ledger_inv d"
  by (simp_all add: ledger_inv_def entry_sum_def transfer_sum_def)

section \<open>The contract of the ledger\<close>

lemma legs_exact_two:
  "a \<noteq> b \<Longrightarrow> 0 \<le> x \<Longrightarrow> int64 x \<Longrightarrow> legs_exact [Leg a (- x), Leg b x]"
  by (simp add: legs_exact_def Leg_def int64_neg)

lemma legs_exact_three:
  "a \<noteq> b \<Longrightarrow> a \<noteq> c \<Longrightarrow> b \<noteq> c \<Longrightarrow> int64 (- x) \<Longrightarrow> int64 y \<Longrightarrow> int64 (x - y) \<Longrightarrow>
   legs_exact [Leg a (- x), Leg b y, Leg c (x - y)]"
  by (simp add: legs_exact_def Leg_def)

text \<open>
  What the store's operations rely on when they post: a new transfer moves exactly its legs, a
  key names one transfer for ever and posting it again returns that transfer and changes
  nothing, the invariant is kept, and user accounts stay non-negative.
\<close>

locale double_entry =
  fixes post :: "string \<Rightarrow> transfer \<Rightarrow> 'd \<Rightarrow> error + ((string \<times> bool) \<times> 'd)"
    and bal :: "'d \<Rightarrow> string \<Rightarrow> int"
    and key_owner :: "'d \<Rightarrow> string \<Rightarrow> string option"
    and inv :: "'d \<Rightarrow> bool"
  assumes post_inv: "inv d \<Longrightarrow> legs_exact (t_legs t) \<Longrightarrow> post n t d = Inr (x, d') \<Longrightarrow> inv d'"
    and post_moves: "inv d \<Longrightarrow> legs_exact (t_legs t) \<Longrightarrow> post n t d = Inr ((i, False), d') \<Longrightarrow>
      bal d' a = bal d a + leg_total (t_legs t) a"
    and post_key: "inv d \<Longrightarrow> post n t d = Inr ((i, False), d') \<Longrightarrow>
      i = n \<and> key_owner d' k = (if t_key t \<noteq> [] \<and> k = t_key t then Some n else key_owner d k)"
    and post_again: "inv d \<Longrightarrow> post n t d = Inr ((i, True), d') \<Longrightarrow>
      d' = d \<and> t_key t \<noteq> [] \<and> key_owner d (t_key t) = Some i"
    and post_known: "legs_exact (t_legs t) \<Longrightarrow> t_key t \<noteq> [] \<Longrightarrow> key_owner d (t_key t) = Some i \<Longrightarrow>
      post n t d = Inr ((i, True), d)"
    and nonneg: "inv d \<Longrightarrow> mustStayNonNegative a \<Longrightarrow> 0 \<le> bal d a"
begin

lemma retry:
  assumes "inv d" and "legs_exact (t_legs t)" and "t_key t \<noteq> []" and "post n t d = Inr ((i, r), d')"
  shows "post m t d' = Inr ((i, True), d')"
proof (cases r)
  case True
  with post_again [OF assms(1), of n t i d'] assms(4) have "d' = d" "key_owner d (t_key t) = Some i" by simp_all
  with assms(2,3) show ?thesis by (simp add: post_known)
next
  case False
  with assms(1,4) post_key [of d n t i d' "t_key t"] assms(3) have "key_owner d' (t_key t) = Some i" by simp
  with assms(2,3) show ?thesis by (rule post_known)
qed

lemma unused_key_posts:
  "inv d \<Longrightarrow> post n t d = Inr ((i, r), d') \<Longrightarrow> key_owner d (t_key t) = None \<Longrightarrow> i = n \<and> \<not> r"
  using post_again [of d n t i d'] post_key [of d n t i d'] by (cases r) auto

lemma two_legs:
  assumes "inv d" and "a \<noteq> b" and "0 \<le> x" and "int64 x"
    and "post n (Transfer k key [Leg a (- x), Leg b x]) d = Inr ((i, False), d')"
  shows "bal d' c = bal d c - (if c = a then x else 0) + (if c = b then x else 0)"
    and "mustStayNonNegative a \<Longrightarrow> x \<le> bal d a"
proof -
  have ex: "legs_exact (t_legs (Transfer k key [Leg a (- x), Leg b x]))"
    using assms by (simp add: Transfer_def legs_exact_two)
  have moves: "bal d' c = bal d c - (if c = a then x else 0) + (if c = b then x else 0)" for c
    using post_moves [OF assms(1) ex assms(5), of c] assms(2-4)
    by (auto simp: Transfer_def leg_total_Leg int64_neg)
  show "bal d' c = bal d c - (if c = a then x else 0) + (if c = b then x else 0)" by (rule moves)
  show "x \<le> bal d a" if "mustStayNonNegative a"
    using nonneg [OF post_inv [OF assms(1) ex assms(5)] that] moves [of a] assms(2) by simp
qed

lemma three_legs:
  assumes "inv d" and "a \<noteq> b" "a \<noteq> c" "b \<noteq> c" and "int64 (- x)" "int64 y" "int64 (x - y)"
    and "post n (Transfer k key [Leg a (- x), Leg b y, Leg c (x - y)]) d = Inr ((i, False), d')"
  shows "bal d' e = bal d e - (if e = a then x else 0) + (if e = b then y else 0) +
      (if e = c then x - y else 0)"
proof -
  have ex: "legs_exact (t_legs (Transfer k key [Leg a (- x), Leg b y, Leg c (x - y)]))"
    using assms(2-7) by (simp add: Transfer_def legs_exact_three)
  show ?thesis
    using post_moves [OF assms(1) ex assms(8), of e] assms(2-7)
    by (auto simp: Transfer_def leg_total_Leg)
qed

lemma conserves:
  assumes "inv d" and "legs_exact (t_legs t)" and "post n t d = Inr ((i, r), d')"
    and "finite A" and "lg_account ` set (t_legs t) \<subseteq> A"
  shows "(\<Sum>a\<in>A. bal d' a) = (\<Sum>a\<in>A. bal d a)"
proof (cases r)
  case True
  with assms(1,3) show ?thesis by (auto dest: post_again)
next
  case False
  have "(\<Sum>a\<in>A. leg_total legs a) = sum_list (map lg_amount legs)"
    if "lg_account ` set legs \<subseteq> A" for legs
    using that \<open>finite A\<close> by (induction legs) (auto simp: leg_total_def row_simps sum.distrib)
  then have "(\<Sum>a\<in>A. leg_total (t_legs t) a) = 0"
    using assms(2,5) by (simp add: legs_exact_def)
  with False assms(1-3) show ?thesis by (simp add: post_moves sum.distrib)
qed

end

interpretation pg: double_entry PostTx Balance posted ledger_inv
proof
  fix d d' :: db and t n i a k x
  show "ledger_inv d \<Longrightarrow> legs_exact (t_legs t) \<Longrightarrow> PostTx n t d = Inr (x, d') \<Longrightarrow> ledger_inv d'"
    by (rule PostTx_inv)
  show "ledger_inv d \<Longrightarrow> legs_exact (t_legs t) \<Longrightarrow> PostTx n t d = Inr ((i, False), d') \<Longrightarrow>
      Balance d' a = Balance d a + leg_total (t_legs t) a"
    by (erule PostTx_cases) (auto simp: ledger_inv_def leg_delta_exact)
  show "ledger_inv d \<Longrightarrow> PostTx n t d = Inr ((i, False), d') \<Longrightarrow>
      i = n \<and> posted d' k = (if t_key t \<noteq> [] \<and> k = t_key t then Some n else posted d k)"
    using PostTx_posted [of n t d i d' k] PostTx_cases [of n t d i False d']
    by (metis ledger_inv_def)
  show "ledger_inv d \<Longrightarrow> PostTx n t d = Inr ((i, True), d') \<Longrightarrow>
      d' = d \<and> t_key t \<noteq> [] \<and> posted d (t_key t) = Some i"
    by (erule PostTx_cases) (auto simp: ledger_inv_def)
  show "legs_exact (t_legs t) \<Longrightarrow> t_key t \<noteq> [] \<Longrightarrow> posted d (t_key t) = Some i \<Longrightarrow>
      PostTx n t d = Inr ((i, True), d)"
    by (rule PostTx_replay) (auto simp: leg_sum_exact legs_exact_def)
  show "ledger_inv d \<Longrightarrow> mustStayNonNegative a \<Longrightarrow> 0 \<le> Balance d a"
    by (rule ledger_inv_nonneg)
qed


lemma PostTx_other_key:
  assumes "ledger_inv d" and "PostTx n t d = Inr ((i, r), d')" and "k \<noteq> t_key t"
  shows "posted d' k = posted d k"
proof (cases r)
  case True
  with assms pg.post_again [of d n t i d'] show ?thesis by simp
next
  case False
  with assms pg.post_key [of d n t i d' k] show ?thesis by simp
qed

lemma PostTx_other_account:
  assumes "ledger_inv d" and "legs_exact (t_legs t)" and "PostTx n t d = Inr ((i, r), d')"
    and "a \<notin> lg_account ` set (t_legs t)"
  shows "Balance d' a = Balance d a"
proof (cases r)
  case True
  with assms pg.post_again [of d n t i d'] show ?thesis by simp
next
  case False
  with assms pg.post_moves [of d t n i d' a] show ?thesis by (simp add: leg_total_absent)
qed

end
