(* ===== verification/Market.thy ===== *)
theory Market
  imports Ledger
begin

text \<open>
  Markets and positions, \<open>internal/core/market.go\<close>: the micro-unit margin arithmetic with Go's
  wrap-around and truncation, marks, opening, closing, liquidating and settling positions, and
  the two totals invariant I4 compares. The invariant \<open>market_inv\<close> says that every margin
  account holds exactly the collateral of its user's open positions.
\<close>

section \<open>Margin arithmetic\<close>

definition InitialMarginRate :: int where "InitialMarginRate = 250000"

definition MaintenanceMarginRate :: int where "MaintenanceMarginRate = 150000"

definition LiquidationPenalty :: int where "LiquidationPenalty = 20000"

definition mul :: "int \<Rightarrow> int \<Rightarrow> int" where
  "mul a b = go_div (i64 (a * b)) One"

definition worstCase :: "string \<Rightarrow> int \<Rightarrow> int \<Rightarrow> int" where
  "worstCase side sz price =
    (if side = ''long'' then mul sz price else mul sz (i64 (One - price)))"

definition pnl :: "string \<Rightarrow> int \<Rightarrow> int \<Rightarrow> int \<Rightarrow> int" where
  "pnl side sz entry mark =
    (if side = ''long'' then mul sz (i64 (mark - entry)) else mul sz (i64 (entry - mark)))"

definition RequiredMargin :: "string \<Rightarrow> int \<Rightarrow> int \<Rightarrow> int" where
  "RequiredMargin side sz mark = mul (worstCase side sz mark) MaintenanceMarginRate"

section \<open>Markets\<close>

definition SeedMarket :: "string \<Rightarrow> string \<Rightarrow> int \<Rightarrow> db \<Rightarrow> error + db" where
  "SeedMarket mid question mark d =
    (if \<not> int4 mark then Inl ErrRange
     else if list_ex (\<lambda>m. mk_id m = mid) (markets d) then Inr d
     else Inr (d\<lparr>markets := markets d @ [\<lparr>mk_id = mid, mk_question = question, mk_mark = mark,
       mk_state = MarketOpen, mk_outcome = None, mk_version = 0\<rparr>]\<rparr>))"

definition SetMark :: "string \<Rightarrow> int \<Rightarrow> db \<Rightarrow> db" where
  "SetMark mid mark d =
    (let mark1 = (if mark < 1000 then 1000 else mark);
         mark2 = (if mark1 > One - 1000 then One - 1000 else mark1)
     in d\<lparr>markets := update_where (\<lambda>m. mk_id m = mid \<and> mk_state m = MarketOpen)
          (\<lambda>m. m\<lparr>mk_mark := mark2, mk_version := mk_version m + 1\<rparr>) (markets d)\<rparr>)"

definition OpenMarketIDs :: "db \<Rightarrow> string list" where
  "OpenMarketIDs d = sort (map mk_id (filter (\<lambda>m. mk_state m = MarketOpen) (markets d)))"

definition Markets :: "db \<Rightarrow> market_row list" where
  "Markets d = sort_key mk_id (markets d)"

section \<open>Opening and closing positions\<close>

text \<open>The two partial unique indexes and the primary key of \<open>positions\<close>.\<close>

definition insert_position :: "position_row \<Rightarrow> db \<Rightarrow> error + db" where
  "insert_position p d =
    (if list_ex (\<lambda>q. po_id q = po_id p) (positions d) then Inl ErrUnique
     else if list_ex (\<lambda>q. po_user q = po_user p \<and> po_market q = po_market p \<and>
         po_state q = PositionOpen) (positions d) then Inl ErrUnique
     else if po_key p \<noteq> None \<and> list_ex (\<lambda>q. po_key q = po_key p) (positions d) then Inl ErrUnique
     else Inr (d\<lparr>positions := positions d @ [p]\<rparr>))"

definition open_key :: "string \<Rightarrow> string" where "open_key pid = ''pos:'' @ pid @ '':open''"

definition close_key :: "string \<Rightarrow> string" where "close_key pid = ''pos:'' @ pid @ '':close''"

definition settle_key :: "string \<Rightarrow> string" where "settle_key pid = ''pos:'' @ pid @ '':settle''"

text \<open>\<open>npid\<close> and \<open>ntid\<close> are the two results of \<open>NewID\<close>.\<close>

definition open_new_position ::
  "string \<Rightarrow> string \<Rightarrow> string \<Rightarrow> string \<Rightarrow> string \<Rightarrow> int \<Rightarrow> string \<Rightarrow> db \<Rightarrow> error + (string \<times> db)" where
  "open_new_position npid ntid user marketID side sz idemKey d =
    try_bind (of_option ErrNoRows (select_one (\<lambda>m. mk_id m = marketID) (markets d))) (\<lambda>m.
    try_bind (require (mk_state m = MarketOpen) ErrConflict) (\<lambda>_.
    let collateral = mul (worstCase side sz (mk_mark m)) InitialMarginRate in
    try_bind (require (\<not> collateral \<le> 0) ErrTooSmall) (\<lambda>_.
    try_bind (insert_position
      \<lparr>po_id = npid, po_user = user, po_market = marketID, po_side = side, po_size = sz,
       po_entry = mk_mark m, po_collateral = collateral,
       po_key = (if idemKey = [] then None else Some idemKey),
       po_state = PositionOpen, po_version = 0\<rparr> d) (\<lambda>d1.
    try_bind (PostTx ntid (Transfer ''position.open'' (open_key npid)
      [Leg (AvailableAcct user) (- collateral), Leg (MarginAcct user) collateral]) d1) (\<lambda>(_, d2).
    Inr (npid, d2))))))"

definition OpenPosition ::
  "string \<Rightarrow> string \<Rightarrow> string \<Rightarrow> string \<Rightarrow> string \<Rightarrow> int \<Rightarrow> string \<Rightarrow> db \<Rightarrow> error + (string \<times> db)" where
  "OpenPosition npid ntid user marketID side sz idemKey d =
    (if side \<noteq> ''long'' \<and> side \<noteq> ''short'' then Inl ErrBadSide
     else if sz \<le> 0 then Inl ErrBadSize
     else case (if idemKey = [] then None
                else select_one (\<lambda>p. po_key p = Some idemKey) (positions d)) of
       Some old \<Rightarrow>
         if po_user old \<noteq> user \<or> po_market old \<noteq> marketID \<or> po_side old \<noteq> side \<or> po_size old \<noteq> sz
         then Inl ErrConflict else Inr (po_id old, d)
     | None \<Rightarrow> open_new_position npid ntid user marketID side sz idemKey d)"

text \<open>
  \<open>ClosePosition\<close> reads the row without a lock and then updates it under a version guard. The
  part after the read takes the row that was read, so two closers that read the same row can be
  run one after the other.
\<close>

definition close_payout :: "position_row \<Rightarrow> int \<Rightarrow> bool \<Rightarrow> int" where
  "close_payout p mark liquidation =
    (let penalty = (if liquidation then mul (po_collateral p) LiquidationPenalty else 0);
         profit = pnl (po_side p) (po_size p) (po_entry p) mark;
         payout = i64 (i64 (po_collateral p + profit) - penalty)
     in if payout < 0 then 0 else payout)"

definition close_read_position ::
  "string \<Rightarrow> position_row \<Rightarrow> int \<Rightarrow> string \<Rightarrow> db \<Rightarrow> error + db" where
  "close_read_position ntid p mark reason d =
    (if po_state p \<noteq> PositionOpen then Inl ErrConflict
     else
       let liq = (reason = ''liquidation'');
           newState = (if liq then PositionLiquidated else PositionClosed);
           hit = (\<lambda>r. po_id r = po_id p \<and> po_version r = po_version p \<and> po_state r = PositionOpen)
       in if rows_affected hit (positions d) = 0 then Inl ErrConflict
          else
            let d1 = d\<lparr>positions := update_where hit
                  (\<lambda>r. r\<lparr>po_state := newState, po_version := po_version r + 1\<rparr>) (positions d)\<rparr>;
                payout = close_payout p mark liq
            in try_bind (PostTx ntid
                 (Transfer (if liq then ''position.close.liquidated'' else ''position.close.closed'')
                   (close_key (po_id p))
                   [Leg (MarginAcct (po_user p)) (- po_collateral p),
                    Leg (AvailableAcct (po_user p)) payout,
                    Leg AcctInsurance (po_collateral p - payout)]) d1) (\<lambda>(_, d2). Inr d2))"

definition read_position :: "string \<Rightarrow> db \<Rightarrow> error + position_row" where
  "read_position pid d = of_option ErrNoRows (select_one (\<lambda>r. po_id r = pid) (positions d))"

definition ClosePosition :: "string \<Rightarrow> string \<Rightarrow> int \<Rightarrow> string \<Rightarrow> db \<Rightarrow> error + db" where
  "ClosePosition ntid pid mark reason d =
    try_bind (read_position pid d) (\<lambda>p. close_read_position ntid p mark reason d)"

definition AtRisk :: "(string \<rightharpoonup> int) \<Rightarrow> db \<Rightarrow> position_row list" where
  "AtRisk marks d = filter (\<lambda>p. po_state p = PositionOpen \<and>
      (case marks (po_market p) of None \<Rightarrow> False
       | Some mark \<Rightarrow>
           i64 (po_collateral p + pnl (po_side p) (po_size p) (po_entry p) mark)
             < RequiredMargin (po_side p) (po_size p) mark)) (positions d)"

section \<open>Settlement\<close>

definition settle_payout :: "position_row \<Rightarrow> int \<Rightarrow> int" where
  "settle_payout p outcome =
    (let payout = i64 (po_collateral p + pnl (po_side p) (po_size p) (po_entry p) outcome)
     in if payout < 0 then 0 else payout)"

text \<open>\<open>gen\<close> gives the transfer id that \<open>NewID\<close> returns when a position is paid.\<close>

fun settle_positions :: "(string \<Rightarrow> string) \<Rightarrow> int \<Rightarrow> position_row list \<Rightarrow> db \<Rightarrow> error + db" where
  "settle_positions gen outcome [] d = Inr d"
| "settle_positions gen outcome (p # ps) d =
    (let hit = (\<lambda>r. po_id r = po_id p \<and> po_state r = PositionOpen) in
     if rows_affected hit (positions d) \<noteq> 1 then Inl ErrConflict
     else
       let d1 = d\<lparr>positions := update_where hit
             (\<lambda>r. r\<lparr>po_state := PositionClosed, po_version := po_version r + 1\<rparr>) (positions d)\<rparr>;
           payout = settle_payout p outcome
       in case PostTx (gen (po_id p)) (Transfer ''market.settle'' (settle_key (po_id p))
            [Leg (MarginAcct (po_user p)) (- po_collateral p),
             Leg (AvailableAcct (po_user p)) payout,
             Leg AcctInsurance (po_collateral p - payout)]) d1 of
            Inl e \<Rightarrow> Inl e
          | Inr (_, d2) \<Rightarrow> settle_positions gen outcome ps d2)"

definition settleMarketTx :: "(string \<Rightarrow> string) \<Rightarrow> string \<Rightarrow> int \<Rightarrow> db \<Rightarrow> error + db" where
  "settleMarketTx gen marketID outcome d =
    try_bind (settle_positions gen outcome
      (sort_key po_id (filter (\<lambda>p. po_market p = marketID \<and> po_state p = PositionOpen) (positions d))) d)
      (\<lambda>d1. Inr (d1\<lparr>markets := update_where (\<lambda>m. mk_id m = marketID)
        (\<lambda>m. m\<lparr>mk_state := MarketSettled, mk_version := mk_version m + 1\<rparr>) (markets d1)\<rparr>))"

section \<open>The two sides of invariant I4\<close>

text \<open>\<open>account_code like 'user:%:margin'\<close>\<close>

definition margin_like :: "string \<Rightarrow> bool" where
  "margin_like code \<longleftrightarrow> prefix ''user:'' code \<and> suffix '':margin'' (drop 5 code)"

definition margin_sum :: "db \<Rightarrow> int" where
  "margin_sum d = sum_where (\<lambda>b. margin_like (ba_code b)) ba_balance (account_balances d)"

definition MarginTotal :: "db \<Rightarrow> error + int" where
  "MarginTotal d = scan_int64 (margin_sum d)"

definition collateral_sum :: "db \<Rightarrow> int" where
  "collateral_sum d = sum_where (\<lambda>p. po_state p = PositionOpen) po_collateral (positions d)"

definition OpenCollateral :: "db \<Rightarrow> error + int" where
  "OpenCollateral d = scan_int64 (collateral_sum d)"

definition user_collateral :: "db \<Rightarrow> string \<Rightarrow> int" where
  "user_collateral d u =
    sum_where (\<lambda>p. po_state p = PositionOpen \<and> po_user p = u) po_collateral (positions d)"

definition market_inv :: "db \<Rightarrow> bool" where
  "market_inv d \<longleftrightarrow>
     distinct (map po_id (positions d)) \<and>
     (\<forall>p \<in> set (positions d). 0 < po_collateral p \<and> int64 (po_collateral p)) \<and>
     (\<forall>u. Balance d (MarginAcct u) = user_collateral d u) \<and>
     (\<forall>pid. pid \<notin> po_id ` set (positions d) \<longrightarrow>
        posted d (open_key pid) = None \<and> posted d (close_key pid) = None \<and>
        posted d (settle_key pid) = None) \<and>
     (\<forall>p \<in> set (positions d). po_state p = PositionOpen \<longrightarrow>
        posted d (close_key (po_id p)) = None \<and> posted d (settle_key (po_id p)) = None)"


section \<open>Keys and arithmetic\<close>

lemma key_neq_rev: "rev xs \<noteq> rev ys \<Longrightarrow> xs \<noteq> ys"
  by auto

lemma pos_keys [simp]:
  "open_key a = open_key b \<longleftrightarrow> a = b" "close_key a = close_key b \<longleftrightarrow> a = b"
  "settle_key a = settle_key b \<longleftrightarrow> a = b"
  "open_key a \<noteq> close_key b" "close_key b \<noteq> open_key a" "open_key a \<noteq> settle_key b"
  "settle_key b \<noteq> open_key a" "close_key a \<noteq> settle_key b" "settle_key b \<noteq> close_key a"
  "open_key a \<noteq> []" "close_key a \<noteq> []" "settle_key a \<noteq> []"
  by (simp_all add: open_key_def close_key_def settle_key_def key_neq_rev)

lemma int64_mul [simp]: "int64 (mul a b)"
  by (simp add: mul_def go_div_def)

lemma close_payout_bounds: "0 \<le> close_payout p mark liq \<and> int64 (close_payout p mark liq)"
  by (simp add: close_payout_def Let_def)

lemma settle_payout_bounds: "0 \<le> settle_payout p outcome \<and> int64 (settle_payout p outcome)"
  by (simp add: settle_payout_def Let_def)

section \<open>Every operation keeps the invariant\<close>

lemma market_inv_frame:
  assumes "market_inv d" and "positions d' = positions d"
    and "\<And>u. Balance d' (MarginAcct u) = Balance d (MarginAcct u)"
    and "\<And>pid. posted d' (open_key pid) = posted d (open_key pid)"
    and "\<And>pid. posted d' (close_key pid) = posted d (close_key pid)"
    and "\<And>pid. posted d' (settle_key pid) = posted d (settle_key pid)"
  shows "market_inv d'"
  using assms by (simp add: market_inv_def user_collateral_def)

lemma user_collateral_append:
  "user_collateral (d\<lparr>positions := positions d @ [p]\<rparr>) u =
    user_collateral d u + (if po_state p = PositionOpen \<and> po_user p = u then po_collateral p else 0)"
  by (simp add: user_collateral_def row_simps)

lemma open_new_position_spec:
  assumes "ledger_inv d" and minv: "market_inv d"
    and "open_new_position npid ntid user marketID side sz idemKey d = Inr (pid, d')"
  obtains m p i where "pid = npid" "npid \<notin> po_id ` set (positions d)"
    "m \<in> set (markets d)" "mk_id m = marketID" "mk_state m = MarketOpen"
    "p = \<lparr>po_id = npid, po_user = user, po_market = marketID, po_side = side, po_size = sz,
       po_entry = mk_mark m, po_collateral = mul (worstCase side sz (mk_mark m)) InitialMarginRate,
       po_key = (if idemKey = [] then None else Some idemKey),
       po_state = PositionOpen, po_version = 0\<rparr>"
    "0 < po_collateral p" "positions d' = positions d @ [p]" "markets d' = markets d"
    "PostTx ntid (Transfer ''position.open'' (open_key npid)
      [Leg (AvailableAcct user) (- po_collateral p), Leg (MarginAcct user) (po_collateral p)])
      (d\<lparr>positions := positions d @ [p]\<rparr>) = Inr ((i, False), d')"
proof -
  from assms(3) obtain m d1 i r where m: "select_one (\<lambda>m. mk_id m = marketID) (markets d) = Some m"
      "mk_state m = MarketOpen" and pid: "pid = npid"
    and pos: "0 < mul (worstCase side sz (mk_mark m)) InitialMarginRate"
    and ins: "insert_position \<lparr>po_id = npid, po_user = user, po_market = marketID, po_side = side,
        po_size = sz, po_entry = mk_mark m,
        po_collateral = mul (worstCase side sz (mk_mark m)) InitialMarginRate,
        po_key = (if idemKey = [] then None else Some idemKey),
        po_state = PositionOpen, po_version = 0\<rparr> d = Inr d1"
    and post: "PostTx ntid (Transfer ''position.open'' (open_key npid)
      [Leg (AvailableAcct user) (- mul (worstCase side sz (mk_mark m)) InitialMarginRate),
       Leg (MarginAcct user) (mul (worstCase side sz (mk_mark m)) InitialMarginRate)]) d1 = Inr ((i, r), d')"
    unfolding open_new_position_def by (auto simp: Let_def)
  from ins have d1: "npid \<notin> po_id ` set (positions d)" "d1 = d\<lparr>positions := positions d @ [\<lparr>po_id = npid, po_user = user, po_market = marketID, po_side = side,
        po_size = sz, po_entry = mk_mark m,
        po_collateral = mul (worstCase side sz (mk_mark m)) InitialMarginRate,
        po_key = (if idemKey = [] then None else Some idemKey),
        po_state = PositionOpen, po_version = 0\<rparr>]\<rparr>"
    by (auto simp: insert_position_def list_ex_iff split: if_splits)
  have "posted d1 (open_key npid) = None" using minv d1 by (simp add: market_inv_def)
  then have "\<not> r" using pg.unused_key_posts [OF _ post] assms(1) d1(2) by (simp add: Transfer_def)
  with m pid pos post d1 select_one_SomeD [OF m(1)] show ?thesis
    by (intro that [of m _ i]) (auto simp: PostTx_frame [OF post])
qed

lemma open_new_position_inv:
  assumes "ledger_inv d" and minv: "market_inv d"
    and "open_new_position npid ntid user marketID side sz idemKey d = Inr (pid, d')"
  shows "ledger_inv d' \<and> market_inv d'"
  using assms
proof (cases rule: open_new_position_spec)
  case (1 m p i)
  note new = 1(2) and p0 = 1(6) and pos0 = 1(7) and pos = 1(8) and post = 1(10)
  have p: "po_id p = npid" "po_user p = user" "po_state p = PositionOpen" "0 < po_collateral p"
      "int64 (po_collateral p)"
    using pos0 by (simp_all add: p0)
  have inv1: "ledger_inv (d\<lparr>positions := positions d @ [p]\<rparr>)" using assms(1) by simp
  note two = pg.two_legs(1) [OF inv1 _ _ _ post]
  have led: "ledger_inv d'"
    by (rule pg.post_inv [OF inv1 _ post]) (use p in \<open>simp add: Transfer_def legs_exact_two\<close>)
  have bal: "Balance d' (MarginAcct u) = Balance d (MarginAcct u) + (if u = user then po_collateral p else 0)" for u
    using two [of "MarginAcct u"] p by auto
  have key: "posted d' k = (if k = open_key npid then Some ntid else posted d k)" for k
    using pg.post_key [OF inv1 post, of k] by (simp add: Transfer_def)
  show ?thesis
    using led minv new p pos bal key
    by (auto simp: market_inv_def user_collateral_def row_simps)
qed


text \<open>The common part of closing, liquidating and settling: one open position leaves the books.\<close>

lemma retire_position_inv:
  assumes inv: "ledger_inv d" and minv: "market_inv d"
    and p: "p \<in> set (positions d)" "po_state p = PositionOpen"
    and hit: "hit p" "\<And>r. r \<in> set (positions d) \<Longrightarrow> hit r \<Longrightarrow> po_id r = po_id p"
    and ns: "ns \<noteq> PositionOpen" and key: "key = close_key (po_id p) \<or> key = settle_key (po_id p)"
    and pay: "0 \<le> payout" "int64 payout"
    and post: "PostTx nid (Transfer kind key
        [Leg (MarginAcct (po_user p)) (- po_collateral p), Leg (AvailableAcct (po_user p)) payout,
         Leg AcctInsurance (po_collateral p - payout)])
      (d\<lparr>positions := update_where hit
        (\<lambda>r. r\<lparr>po_state := ns, po_version := po_version r + 1\<rparr>) (positions d)\<rparr>) = Inr ((i, rep), d')"
  shows "ledger_inv d'" and "market_inv d'" and "\<not> rep"
    and "positions d' = update_where hit (\<lambda>r. r\<lparr>po_state := ns, po_version := po_version r + 1\<rparr>) (positions d)"
    and "Balance d' a = Balance d a - (if a = MarginAcct (po_user p) then po_collateral p else 0) +
      (if a = AvailableAcct (po_user p) then payout else 0) +
      (if a = AcctInsurance then po_collateral p - payout else 0)"
proof -
  let ?f = "\<lambda>r. r\<lparr>po_state := ns, po_version := po_version r + 1\<rparr>"
  let ?d1 = "d\<lparr>positions := update_where hit ?f (positions d)\<rparr>"
  have inv1: "ledger_inv ?d1" using inv by simp
  have dist: "distinct (map po_id (positions d))" using minv by (simp add: market_inv_def)
  have col: "0 < po_collateral p" "int64 (po_collateral p)"
    using minv p(1) by (auto simp: market_inv_def)
  have none: "posted ?d1 key = None" using minv p key by (auto simp: market_inv_def)
  then show nr: "\<not> rep" using pg.unused_key_posts [OF inv1 post] by (simp add: Transfer_def)
  with post have post1: "PostTx nid (Transfer kind key
        [Leg (MarginAcct (po_user p)) (- po_collateral p), Leg (AvailableAcct (po_user p)) payout,
         Leg AcctInsurance (po_collateral p - payout)]) ?d1 = Inr ((i, False), d')" by simp
  have rng: "int64 (- po_collateral p)" "int64 (po_collateral p - payout)"
    using col pay by (auto simp: int64_def)
  have bal: "Balance d' a = Balance d a - (if a = MarginAcct (po_user p) then po_collateral p else 0) +
      (if a = AvailableAcct (po_user p) then payout else 0) +
      (if a = AcctInsurance then po_collateral p - payout else 0)" for a
    using pg.three_legs [OF inv1 _ _ _ rng(1) pay(2) rng(2) post1, of a] by simp
  then show "Balance d' a = Balance d a - (if a = MarginAcct (po_user p) then po_collateral p else 0) +
      (if a = AvailableAcct (po_user p) then payout else 0) +
      (if a = AcctInsurance then po_collateral p - payout else 0)" .
  show pos: "positions d' = update_where hit ?f (positions d)" by (simp add: PostTx_frame [OF post])
  show "ledger_inv d'"
    by (rule pg.post_inv [OF inv1 _ post1])
       (use rng pay in \<open>simp add: Transfer_def legs_exact_three\<close>)
  have key1: "posted d' k = (if k = key then Some nid else posted d k)" for k
  proof -
    have "key \<noteq> []" using key pos_keys(11,12) by metis
    then show ?thesis using pg.post_key [OF inv1 post1, of k] by (simp add: Transfer_def)
  qed
  have uc: "user_collateral d' u = user_collateral d u - (if u = po_user p then po_collateral p else 0)" for u
    using sum_where_update [of po_id "positions d" p hit
        "\<lambda>p. po_state p = PositionOpen \<and> po_user p = u" po_collateral ?f, OF dist p(1) hit]
      p(2) ns by (simp add: user_collateral_def pos)
  have ids: "po_id ` set (positions d') = po_id ` set (positions d)"
  proof -
    have "map po_id (positions d') = map po_id (positions d)" by (simp add: pos row_simps)
    then show ?thesis by (metis set_map)
  qed
  show "market_inv d'"
    unfolding market_inv_def
  proof (intro conjI ballI allI impI)
    show "distinct (map po_id (positions d'))" using dist by (simp add: pos row_simps)
    show "Balance d' (MarginAcct u) = user_collateral d' u" for u
      using minv by (simp add: bal uc market_inv_def)
    show "0 < po_collateral q" "int64 (po_collateral q)" if "q \<in> set (positions d')" for q
      using that minv by (auto simp: pos set_update_where market_inv_def split: if_splits)
    show "posted d' (open_key pid) = None" "posted d' (close_key pid) = None"
      "posted d' (settle_key pid) = None" if "pid \<notin> po_id ` set (positions d')" for pid
      using that minv key p(1) by (auto simp: ids key1 market_inv_def)
    show "posted d' (close_key (po_id q)) = None" "posted d' (settle_key (po_id q)) = None"
      if q: "q \<in> set (positions d')" "po_state q = PositionOpen" for q
    proof -
      from q ns have qd: "q \<in> set (positions d)" "\<not> hit q"
        by (auto simp: pos set_update_where split: if_splits)
      then have "po_id q \<noteq> po_id p"
        using dist p(1) hit(1) by (metis eq_key_imp_eq_value inj_on_def distinct_map)
      with qd q(2) minv key show "posted d' (close_key (po_id q)) = None"
        "posted d' (settle_key (po_id q)) = None"
        by (auto simp: key1 market_inv_def)
    qed
  qed
qed


lemma close_read_position_cases:
  assumes "close_read_position ntid p mark reason d = Inr d'"
  obtains i rep where "po_state p = PositionOpen"
    "\<exists>r \<in> set (positions d). po_id r = po_id p \<and> po_version r = po_version p \<and> po_state r = PositionOpen"
    "PostTx ntid (Transfer (if reason = ''liquidation'' then ''position.close.liquidated''
          else ''position.close.closed'') (close_key (po_id p))
        [Leg (MarginAcct (po_user p)) (- po_collateral p),
         Leg (AvailableAcct (po_user p)) (close_payout p mark (reason = ''liquidation'')),
         Leg AcctInsurance (po_collateral p - close_payout p mark (reason = ''liquidation''))])
      (d\<lparr>positions := update_where
          (\<lambda>r. po_id r = po_id p \<and> po_version r = po_version p \<and> po_state r = PositionOpen)
          (\<lambda>r. r\<lparr>po_state := (if reason = ''liquidation'' then PositionLiquidated else PositionClosed),
            po_version := po_version r + 1\<rparr>) (positions d)\<rparr>) = Inr ((i, rep), d')"
proof -
  from assms have "po_state p = PositionOpen"
    "rows_affected (\<lambda>r. po_id r = po_id p \<and> po_version r = po_version p \<and> po_state r = PositionOpen)
       (positions d) \<noteq> 0"
    by (auto simp: close_read_position_def Let_def split: if_splits)
  with assms show ?thesis
    unfolding rows_affected_0_iff
    by (auto simp: close_read_position_def Let_def rows_affected_0_iff intro!: that split: if_splits)
qed

lemma ClosePosition_spec:
  assumes "ledger_inv d" and "market_inv d" and "ClosePosition ntid pid mark reason d = Inr d'"
  obtains p where "p \<in> set (positions d)" "po_id p = pid" "po_state p = PositionOpen"
    "ledger_inv d'" "market_inv d'"
    "positions d' = update_where
       (\<lambda>r. po_id r = pid \<and> po_version r = po_version p \<and> po_state r = PositionOpen)
       (\<lambda>r. r\<lparr>po_state := (if reason = ''liquidation'' then PositionLiquidated else PositionClosed),
         po_version := po_version r + 1\<rparr>) (positions d)"
    "\<And>a. Balance d' a = Balance d a
       - (if a = MarginAcct (po_user p) then po_collateral p else 0)
       + (if a = AvailableAcct (po_user p) then close_payout p mark (reason = ''liquidation'') else 0)
       + (if a = AcctInsurance then po_collateral p - close_payout p mark (reason = ''liquidation'') else 0)"
proof -
  from assms(3) obtain p where sel: "select_one (\<lambda>r. po_id r = pid) (positions d) = Some p"
    and cl: "close_read_position ntid p mark reason d = Inr d'"
    by (auto simp: ClosePosition_def read_position_def)
  from select_one_SomeD [OF sel] have p: "p \<in> set (positions d)" "po_id p = pid" by auto
  from cl show ?thesis
  proof (cases rule: close_read_position_cases)
    case (1 i rep)
    note bounds = close_payout_bounds [of p mark "reason = ''liquidation''"]
    note ret = retire_position_inv [OF assms(1,2) p(1) 1(1) _ _ _ _ _ _ 1(3)]
    show ?thesis
      by (rule that [OF p 1(1)]) (use ret bounds p(2) 1(1) in auto)
  qed
qed

lemma settle_positions_inv:
  assumes "settle_positions gen outcome ps d = Inr d'"
    and "ledger_inv d" and "market_inv d" and "distinct (map po_id ps)"
    and "\<And>p. p \<in> set ps \<Longrightarrow> p \<in> set (positions d) \<and> po_state p = PositionOpen"
  shows "ledger_inv d' \<and> market_inv d' \<and> markets d' = markets d \<and>
    positions d' = map (\<lambda>r. if r \<in> set ps then r\<lparr>po_state := PositionClosed,
      po_version := po_version r + 1\<rparr> else r) (positions d)"
  using assms
proof (induction gen outcome ps d rule: settle_positions.induct)
  case (1 gen outcome d)
  then show ?case by simp
next
  case (2 gen outcome p ps d)
  let ?hit = "\<lambda>r. po_id r = po_id p \<and> po_state r = PositionOpen"
  let ?f = "\<lambda>r. r\<lparr>po_state := PositionClosed, po_version := po_version r + 1\<rparr>"
  let ?d1 = "d\<lparr>positions := update_where ?hit ?f (positions d)\<rparr>"
  let ?t = "Transfer ''market.settle'' (settle_key (po_id p))
            [Leg (MarginAcct (po_user p)) (- po_collateral p),
             Leg (AvailableAcct (po_user p)) (settle_payout p outcome),
             Leg AcctInsurance (po_collateral p - settle_payout p outcome)]"
  from "2.prems"(1) have one: "\<not> rows_affected ?hit (positions d) \<noteq> 1"
    by (auto simp: Let_def split: if_splits)
  with "2.prems"(1) obtain i rep d2 where post: "PostTx (gen (po_id p)) ?t ?d1 = Inr ((i, rep), d2)"
    and rest: "settle_positions gen outcome ps d2 = Inr d'"
    by (auto simp: Let_def split: sum.splits)
  have p: "p \<in> set (positions d)" "po_state p = PositionOpen" using "2.prems"(5) by auto
  have dist: "distinct (map po_id (positions d))" using "2.prems"(3) by (simp add: market_inv_def)
  have hit_iff: "?hit r \<longleftrightarrow> r = p" if "r \<in> set (positions d)" for r
    using dist p that by (metis eq_key_imp_eq_value inj_on_def distinct_map)
  note bounds = settle_payout_bounds [of p outcome]
  note ret = retire_position_inv [OF "2.prems"(2,3) p _ _ _ _ _ _ post]
  have led: "ledger_inv d2" and mar: "market_inv d2"
    and pos: "positions d2 = update_where ?hit ?f (positions d)"
    using ret bounds p by auto
  have pos2: "positions d2 = map (\<lambda>r. if r = p then ?f r else r) (positions d)"
    unfolding pos update_where_def using hit_iff by (intro map_cong) auto
  have mk: "markets d2 = markets d" by (simp add: PostTx_frame [OF post])
  have np: "p \<notin> set ps" using "2.prems"(4) by auto
  have "ledger_inv d' \<and> market_inv d' \<and> markets d' = markets d2 \<and>
      positions d' = map (\<lambda>r. if r \<in> set ps then ?f r else r) (positions d2)"
  proof (rule "2.IH" [OF refl one refl refl post _ rest led mar])
    show "distinct (map po_id ps)" using "2.prems"(4) by simp
    show "q \<in> set (positions d2) \<and> po_state q = PositionOpen" if "q \<in> set ps" for q
      using that "2.prems"(5) [of q] np by (auto simp: pos2 image_iff)
  qed simp
  moreover have "?f r \<notin> set ps" if "r = p" for r
    using "2.prems"(5) [of "?f r"] by auto
  ultimately show ?case by (auto simp: pos2 mk)
qed


lemma settleMarketTx_spec:
  assumes "settleMarketTx gen marketID outcome d = Inr d'" and "ledger_inv d" and "market_inv d"
  shows "ledger_inv d'" and "market_inv d'"
    and "positions d' = map (\<lambda>r. if po_market r = marketID \<and> po_state r = PositionOpen
      then r\<lparr>po_state := PositionClosed, po_version := po_version r + 1\<rparr> else r) (positions d)"
    and "markets d' = update_where (\<lambda>m. mk_id m = marketID)
      (\<lambda>m. m\<lparr>mk_state := MarketSettled, mk_version := mk_version m + 1\<rparr>) (markets d)"
proof -
  let ?ps = "sort_key po_id (filter (\<lambda>p. po_market p = marketID \<and> po_state p = PositionOpen) (positions d))"
  from assms(1) obtain d1 where ps: "settle_positions gen outcome ?ps d = Inr d1"
    and d': "d' = d1\<lparr>markets := update_where (\<lambda>m. mk_id m = marketID)
        (\<lambda>m. m\<lparr>mk_state := MarketSettled, mk_version := mk_version m + 1\<rparr>) (markets d1)\<rparr>"
    by (auto simp: settleMarketTx_def)
  have "distinct (map po_id (positions d))" using assms(3) by (simp add: market_inv_def)
  then have "distinct (map po_id ?ps)"
    by (simp add: distinct_map inj_on_def)
  then have sp: "ledger_inv d1 \<and> market_inv d1 \<and> markets d1 = markets d \<and>
      positions d1 = map (\<lambda>r. if r \<in> set ?ps then r\<lparr>po_state := PositionClosed,
        po_version := po_version r + 1\<rparr> else r) (positions d)"
    by (intro settle_positions_inv [OF ps assms(2,3)]) auto
  show "ledger_inv d'" using sp by (simp add: d')
  show "market_inv d'" by (rule market_inv_frame [of d1]) (use sp in \<open>simp_all add: d'\<close>)
  show "positions d' = map (\<lambda>r. if po_market r = marketID \<and> po_state r = PositionOpen
      then r\<lparr>po_state := PositionClosed, po_version := po_version r + 1\<rparr> else r) (positions d)"
    using sp by (auto simp: d')
  show "markets d' = update_where (\<lambda>m. mk_id m = marketID)
      (\<lambda>m. m\<lparr>mk_state := MarketSettled, mk_version := mk_version m + 1\<rparr>) (markets d)"
    using sp by (simp add: d')
qed

lemma OpenPosition_inv:
  "ledger_inv d \<Longrightarrow> market_inv d \<Longrightarrow>
   OpenPosition npid ntid user marketID side sz idemKey d = Inr (pid, d') \<Longrightarrow>
   ledger_inv d' \<and> market_inv d'"
  by (auto simp: OpenPosition_def split: if_splits option.splits dest: open_new_position_inv)

lemma ClosePosition_inv:
  "ledger_inv d \<Longrightarrow> market_inv d \<Longrightarrow> ClosePosition ntid pid mark reason d = Inr d' \<Longrightarrow>
   ledger_inv d' \<and> market_inv d'"
  by (erule (2) ClosePosition_spec) simp

lemma SeedMarket_inv:
  assumes "ledger_inv d" and "market_inv d" and "SeedMarket mid q mark d = Inr d'"
  shows "ledger_inv d' \<and> market_inv d'"
proof -
  from assms(3) have "\<exists>ms. d' = d\<lparr>markets := ms\<rparr>"
    by (auto simp: SeedMarket_def split: if_splits intro: exI [where x = "markets d"])
  then show ?thesis using assms(1,2) market_inv_frame [OF assms(2), of d'] by auto
qed

lemma SetMark_inv:
  "ledger_inv d \<Longrightarrow> market_inv d \<Longrightarrow> ledger_inv (SetMark mid mark d) \<and> market_inv (SetMark mid mark d)"
  by (auto simp: SetMark_def Let_def intro: market_inv_frame)

lemma market_inv_schema: "market_inv schema_db"
proof -
  have b: "Balance schema_db (MarginAcct u) = 0" for u
    by (rule Balance_absent)
       (auto simp: schema_db_def MarginAcct_def)
  have "posted schema_db k = None" for k by (simp add: posted_def schema_db_def row_simps)
  then show ?thesis using b by (simp add: market_inv_def user_collateral_def) (simp add: schema_db_def row_simps)
qed

section \<open>Two closers of one position\<close>

text \<open>
  Both read the row \<open>p\<close>; whoever updates second finds neither the version nor the state and is
  told \<open>ErrConflict\<close>.
\<close>

lemma second_closer_conflicts:
  assumes "distinct (map po_id (positions d))" and "p \<in> set (positions d)"
    and first: "close_read_position t1 p m1 r1 d = Inr d1"
  shows "close_read_position t2 p m2 r2 d1 = Inl ErrConflict"
  using first
proof (cases rule: close_read_position_cases)
  case (1 i rep)
  have pos: "positions d1 = update_where
      (\<lambda>r. po_id r = po_id p \<and> po_version r = po_version p \<and> po_state r = PositionOpen)
      (\<lambda>r. r\<lparr>po_state := (if r1 = ''liquidation'' then PositionLiquidated else PositionClosed),
        po_version := po_version r + 1\<rparr>) (positions d)"
    by (simp add: PostTx_frame [OF 1(3)])
  have "\<not> (po_id r = po_id p \<and> po_version r = po_version p \<and> po_state r = PositionOpen)"
    if "r \<in> set (positions d1)" for r
    using that by (auto simp: pos set_update_where split: if_splits)
  then have "rows_affected (\<lambda>r. po_id r = po_id p \<and> po_version r = po_version p \<and>
      po_state r = PositionOpen) (positions d1) = 0"
    by (simp add: rows_affected_0_iff)
  then show ?thesis by (simp add: close_read_position_def Let_def)
qed

section \<open>Invariant I4\<close>

lemma margin_like_iff: "margin_like code \<longleftrightarrow> (\<exists>u. code = MarginAcct u)"
proof
  assume "margin_like code"
  then obtain rest u where "code = ''user:'' @ rest" and "drop 5 code = u @ '':margin''"
    by (auto simp: margin_like_def prefix_def suffix_def)
  then show "\<exists>u. code = MarginAcct u" by (auto simp: MarginAcct_def)
next
  assume "\<exists>u. code = MarginAcct u"
  then show "margin_like code" by (auto simp: margin_like_def MarginAcct_def suffix_def)
qed

lemma margin_total_is_collateral:
  assumes "ledger_inv d" and minv: "market_inv d"
  shows "margin_sum d = collateral_sum d"
proof -
  let ?rows = "filter (\<lambda>b. margin_like (ba_code b)) (account_balances d)"
  let ?open = "filter (\<lambda>p. po_state p = PositionOpen) (positions d)"
  have dist: "distinct (map ba_code (account_balances d))" using assms(1) by (simp add: ledger_inv_def)
  have row: "ba_balance b = sum_where (\<lambda>p. MarginAcct (po_user p) = ba_code b) po_collateral ?open"
    if "b \<in> set ?rows" for b
  proof -
    from that obtain u where u: "ba_code b = MarginAcct u" by (auto simp: margin_like_iff)
    have "ba_balance b = user_collateral d u"
      using Balance_member [OF dist, of b] that u minv by (simp add: market_inv_def)
    also have "\<dots> = sum_where (\<lambda>p. MarginAcct (po_user p) = ba_code b) po_collateral ?open"
      by (simp add: user_collateral_def sum_where_def u conj_commute)
    finally show ?thesis .
  qed
  have cover: "MarginAcct (po_user p) \<in> set (map ba_code ?rows)" if p: "p \<in> set ?open" for p
  proof (rule ccontr)
    assume "MarginAcct (po_user p) \<notin> set (map ba_code ?rows)"
    then have "\<forall>b \<in> set (account_balances d). ba_code b \<noteq> MarginAcct (po_user p)"
      by (auto simp: margin_like_iff image_iff)
    then have "user_collateral d (po_user p) = 0"
      using minv Balance_absent [of d "MarginAcct (po_user p)"] by (simp add: market_inv_def)
    moreover have "po_collateral p \<le> user_collateral d (po_user p)"
      unfolding user_collateral_def
      by (rule sum_where_member_le) (use p minv in \<open>auto simp: market_inv_def intro: less_imp_le\<close>)
    ultimately show False using p minv by (auto simp: market_inv_def)
  qed
  have eq: "map ba_balance ?rows =
      map (\<lambda>c. sum_where (\<lambda>p. MarginAcct (po_user p) = c) po_collateral ?open) (map ba_code ?rows)"
    unfolding map_map o_def by (rule map_cong [OF refl row])
  have "margin_sum d = sum_list (map (\<lambda>c. sum_where (\<lambda>p. MarginAcct (po_user p) = c) po_collateral ?open)
      (map ba_code ?rows))"
    unfolding margin_sum_def sum_where_def [of _ _ "account_balances d"] eq ..
  also have "\<dots> = sum_list (map po_collateral ?open)"
    by (rule sum_where_groups) (use dist cover in \<open>auto simp: distinct_map_filter\<close>)
  finally show ?thesis by (simp add: collateral_sum_def sum_where_def)
qed


section \<open>Where the arithmetic is exact\<close>

lemma mul_exact: "int64 (a * b) \<Longrightarrow> mul a b = (a * b) sdiv One"
proof -
  assume ab: "int64 (a * b)"
  have "\<bar>(a * b) sdiv One\<bar> \<le> \<bar>a * b\<bar>"
    using sdiv_int_range [of "a * b" One] by auto
  then have "int64 ((a * b) sdiv One)"
    using ab by (auto simp: int64_def One_def signed_divide_int_def sgn_if split: if_splits)
  with ab show ?thesis by (simp add: mul_def go_div_def)
qed

lemma mul_nonneg: "0 \<le> a \<Longrightarrow> 0 \<le> b \<Longrightarrow> int64 (a * b) \<Longrightarrow> mul a b = (a * b) div 1000000"
  by (simp add: mul_exact signed_divide_int_def One_def sgn_if)

lemma sdiv_minus_left: "(- a) sdiv b = - (a sdiv b)" for a b :: int
  by (simp add: signed_divide_int_def sgn_if)

lemma abs_sdiv_pos: "0 < b \<Longrightarrow> \<bar>a sdiv b\<bar> = \<bar>a\<bar> div b" for a b :: int
  by (cases "a = 0") (auto simp: signed_divide_int_def abs_mult sgn_if pos_imp_zdiv_nonneg_iff)

lemma size_times_price_int64:
  assumes "0 < sz" and "sz * 1000000 \<le> 9223372036854775807" and "\<bar>x\<bar> \<le> 1000000"
  shows "int64 (sz * x)"
proof -
  have "\<bar>sz * x\<bar> \<le> sz * 1000000"
    using assms mult_left_mono [of "\<bar>x\<bar>" 1000000 sz] by (simp add: abs_mult)
  with assms(2) show ?thesis by (auto simp: int64_def abs_le_iff)
qed

lemma worstCase_exact:
  assumes "0 < sz" and "sz * 1000000 \<le> 9223372036854775807" and "0 \<le> price" "price \<le> One"
  shows "worstCase side sz price = (if side = ''long'' then sz * price else sz * (One - price)) div 1000000"
    and "0 \<le> worstCase side sz price" and "worstCase side sz price \<le> sz"
proof -
  have i: "int64 (One - price)" "int64 (sz * price)" "int64 (sz * (One - price))"
    using assms size_times_price_int64 [OF assms(1,2)] by (auto simp: One_def int64_def)
  show eq: "worstCase side sz price = (if side = ''long'' then sz * price else sz * (One - price)) div 1000000"
    using assms i by (simp add: worstCase_def mul_nonneg One_def)
  have "sz * price \<le> sz * 1000000" "sz * (One - price) \<le> sz * 1000000"
    using assms by (auto simp: One_def intro: mult_left_mono)
  then show "worstCase side sz price \<le> sz"
    unfolding eq using zdiv_mono1 [of _ "sz * 1000000" 1000000] by fastforce
  show "0 \<le> worstCase side sz price"
    unfolding eq using assms by (simp add: pos_imp_zdiv_nonneg_iff)
qed

lemma collateral_exact:
  assumes "0 < sz" and "sz * 1000000 \<le> 9223372036854775807" and "0 \<le> price" "price \<le> One"
  shows "mul (worstCase side sz price) InitialMarginRate = worstCase side sz price div 4"
    and "RequiredMargin side sz price = worstCase side sz price * 150000 div 1000000"
    and "RequiredMargin side sz price \<le> mul (worstCase side sz price) InitialMarginRate"
proof -
  let ?w = "worstCase side sz price"
  note w = worstCase_exact [OF assms, of side]
  have r: "int64 (?w * 250000)" "int64 (?w * 150000)"
    using w(2,3) assms(2) by (auto simp: int64_def)
  show c: "mul ?w InitialMarginRate = ?w div 4"
    using w(2) r by (simp add: mul_nonneg InitialMarginRate_def)
  show m: "RequiredMargin side sz price = ?w * 150000 div 1000000"
    using w(2) r by (simp add: RequiredMargin_def mul_nonneg MaintenanceMarginRate_def)
  have "?w * 150000 div 1000000 \<le> ?w * 250000 div 1000000"
    using w(2) by (intro zdiv_mono1) auto
  then show "RequiredMargin side sz price \<le> mul ?w InitialMarginRate"
    unfolding c m by simp
qed

lemma pnl_antisymmetric:
  assumes "0 < sz" and "sz * 1000000 \<le> 9223372036854775807"
    and "0 \<le> entry" "entry \<le> One" "0 \<le> mark" "mark \<le> One"
  shows "pnl ''short'' sz entry mark = - pnl ''long'' sz entry mark"
proof -
  have i: "int64 (mark - entry)" "int64 (entry - mark)" "int64 (sz * (mark - entry))" "int64 (sz * (entry - mark))"
    using assms size_times_price_int64 [OF assms(1,2)] by (auto simp: One_def int64_def)
  have "sz * (entry - mark) = - (sz * (mark - entry))" by (simp add: algebra_simps)
  then show ?thesis using i by (simp add: pnl_def mul_exact sdiv_minus_left)
qed

lemma pnl_bounded:
  assumes "0 < sz" and "sz * 1000000 \<le> 9223372036854775807"
    and "0 \<le> entry" "entry \<le> One" "0 \<le> mark" "mark \<le> One"
  shows "\<bar>pnl side sz entry mark\<bar> \<le> sz"
proof -
  have bound: "\<bar>mul sz x\<bar> \<le> sz" if "\<bar>x\<bar> \<le> 1000000" for x
  proof -
    have i: "int64 (sz * x)" by (rule size_times_price_int64 [OF assms(1,2) that])
    have "\<bar>sz * x\<bar> \<le> sz * 1000000"
      using assms(1) that mult_left_mono [of "\<bar>x\<bar>" 1000000 sz] by (simp add: abs_mult)
    then have "\<bar>sz * x\<bar> div 1000000 \<le> sz"
      using zdiv_mono1 [of "\<bar>sz * x\<bar>" "sz * 1000000" 1000000] by simp
    then show ?thesis using i by (simp add: mul_exact One_def abs_sdiv_pos)
  qed
  have "int64 (mark - entry)" "int64 (entry - mark)" using assms by (auto simp: One_def int64_def)
  with bound [of "mark - entry"] bound [of "entry - mark"] assms show ?thesis
    by (simp add: pnl_def One_def)
qed


section \<open>Trading leaves the rest of the books alone\<close>

text \<open>
  Opening, closing and settling positions move money between user accounts and the insurance
  fund only. Nothing an intent, the inbox or the reconciler reads is touched.
\<close>

definition trade_frame :: "db \<Rightarrow> db \<Rightarrow> bool" where
  "trade_frame d d' \<longleftrightarrow>
     intents d' = intents d \<and> outbox d' = outbox d \<and> outbox_seq d' = outbox_seq d \<and>
     chain_events d' = chain_events d \<and> chain_facts d' = chain_facts d \<and>
     chain_cursor d' = chain_cursor d \<and> freezes d' = freezes d \<and>
     escrow_drift d' = escrow_drift d \<and> reconciliations d' = reconciliations d \<and>
     Balance d' AcctExternal = Balance d AcctExternal \<and>
     (\<forall>u. Balance d' (PendingAcct u) = Balance d (PendingAcct u)) \<and>
     (\<forall>k. \<not> prefix ''pos:'' k \<longrightarrow> posted d' k = posted d k)"

lemma trade_frame_refl [simp]: "trade_frame d d"
  by (simp add: trade_frame_def)

lemma trade_frame_trans: "trade_frame a b \<Longrightarrow> trade_frame b c \<Longrightarrow> trade_frame a c"
  by (simp add: trade_frame_def)

lemma trade_frame_tables [simp]:
  "trade_frame d (d'\<lparr>positions := ps\<rparr>) = trade_frame d d'"
  "trade_frame (d\<lparr>positions := ps\<rparr>) d' = trade_frame d d'"
  "trade_frame d (d'\<lparr>markets := ms\<rparr>) = trade_frame d d'"
  by (simp_all add: trade_frame_def)

lemma prefix_pos_keys [simp]:
  "prefix ''pos:'' (open_key p)" "prefix ''pos:'' (close_key p)" "prefix ''pos:'' (settle_key p)"
  by (simp_all add: open_key_def close_key_def settle_key_def)

lemma trade_frame_post:
  assumes "ledger_inv d" and "legs_exact legs" and post: "PostTx n (Transfer kind key legs) d = Inr ((i, r), d')"
    and "prefix ''pos:'' key" and "AcctExternal \<notin> lg_account ` set legs"
    and "\<And>u. PendingAcct u \<notin> lg_account ` set legs"
  shows "trade_frame d d'"
  using assms PostTx_other_key [OF assms(1) post] PostTx_other_account [OF assms(1) _ post]
  by (auto simp: trade_frame_def PostTx_frame [OF post] Transfer_def)

lemma lg_account_Leg [simp]: "lg_account (Leg a n) = a"
  by (simp add: Leg_def)

lemma OpenPosition_frame:
  assumes "ledger_inv d" and "market_inv d"
    and "OpenPosition npid ntid user marketID side sz idemKey d = Inr (pid, d')"
  shows "trade_frame d d'"
proof (cases "d' = d")
  case False
  with assms(3) have "open_new_position npid ntid user marketID side sz idemKey d = Inr (pid, d')"
    by (auto simp: OpenPosition_def split: if_splits option.splits)
  with assms(1,2) show ?thesis
  proof (cases rule: open_new_position_spec)
    case (1 m p i)
    have "trade_frame (d\<lparr>positions := positions d @ [p]\<rparr>) d'"
      by (rule trade_frame_post [OF _ _ 1(10)])
         (use assms(1) 1(6,7) in \<open>auto simp: legs_exact_two less_imp_le\<close>)
    then show ?thesis by simp
  qed
qed simp

lemma retire_position_frame:
  assumes inv: "ledger_inv d" and minv: "market_inv d" and p: "p \<in> set (positions d)"
    and key: "prefix ''pos:'' key" and pay: "0 \<le> payout" "int64 payout"
    and post: "PostTx nid (Transfer kind key
        [Leg (MarginAcct (po_user p)) (- po_collateral p), Leg (AvailableAcct (po_user p)) payout,
         Leg AcctInsurance (po_collateral p - payout)]) (d\<lparr>positions := ps\<rparr>) = Inr ((i, rep), d')"
  shows "trade_frame d d'"
proof -
  have "0 < po_collateral p" "int64 (po_collateral p)" using minv p by (auto simp: market_inv_def)
  then have "int64 (- po_collateral p)" "int64 (po_collateral p - payout)"
    using pay by (auto simp: int64_def)
  then have "trade_frame (d\<lparr>positions := ps\<rparr>) d'"
    by (intro trade_frame_post [OF _ _ post]) (use inv key pay in \<open>auto simp: legs_exact_three\<close>)
  then show ?thesis by simp
qed

lemma ClosePosition_frame:
  assumes "ledger_inv d" and "market_inv d" and "ClosePosition ntid pid mark reason d = Inr d'"
  shows "trade_frame d d'"
proof -
  from assms(3) obtain p where sel: "select_one (\<lambda>r. po_id r = pid) (positions d) = Some p"
    and cl: "close_read_position ntid p mark reason d = Inr d'"
    by (auto simp: ClosePosition_def read_position_def)
  from cl show ?thesis
  proof (cases rule: close_read_position_cases)
    case (1 i rep)
    show ?thesis
      by (rule retire_position_frame [OF assms(1,2) _ _ _ _ 1(3)])
         (use close_payout_bounds select_one_SomeD [OF sel] in auto)
  qed
qed

lemma settle_positions_frame:
  assumes "settle_positions gen outcome ps d = Inr d'"
    and "ledger_inv d" and "market_inv d" and "distinct (map po_id ps)"
    and "\<And>p. p \<in> set ps \<Longrightarrow> p \<in> set (positions d) \<and> po_state p = PositionOpen"
  shows "trade_frame d d'"
  using assms
proof (induction ps arbitrary: d)
  case Nil
  then show ?case by simp
next
  case (Cons p ps)
  from Cons.prems(1) obtain d2 where one: "settle_positions gen outcome [p] d = Inr d2"
    and rest: "settle_positions gen outcome ps d2 = Inr d'"
    by (auto simp: Let_def split: sum.splits if_splits)
  from one obtain i rep where post: "PostTx (gen (po_id p)) (Transfer ''market.settle'' (settle_key (po_id p))
            [Leg (MarginAcct (po_user p)) (- po_collateral p),
             Leg (AvailableAcct (po_user p)) (settle_payout p outcome),
             Leg AcctInsurance (po_collateral p - settle_payout p outcome)])
      (d\<lparr>positions := update_where (\<lambda>r. po_id r = po_id p \<and> po_state r = PositionOpen)
             (\<lambda>r. r\<lparr>po_state := PositionClosed, po_version := po_version r + 1\<rparr>) (positions d)\<rparr>) =
      Inr ((i, rep), d2)"
    by (auto simp: Let_def split: sum.splits if_splits)
  have p: "p \<in> set (positions d)" using Cons.prems(5) by simp
  have "trade_frame d d2"
    by (rule retire_position_frame [OF Cons.prems(2,3) p _ _ _ post]) (simp_all add: settle_payout_bounds)
  moreover have inv2: "ledger_inv d2 \<and> market_inv d2 \<and> markets d2 = markets d \<and>
      positions d2 = map (\<lambda>r. if r \<in> set [p] then r\<lparr>po_state := PositionClosed,
        po_version := po_version r + 1\<rparr> else r) (positions d)"
    by (rule settle_positions_inv [OF one Cons.prems(2,3)]) (use Cons.prems(5) in auto)
  have "trade_frame d2 d'"
  proof (rule Cons.IH [OF rest])
    show "q \<in> set (positions d2) \<and> po_state q = PositionOpen" if "q \<in> set ps" for q
      using that Cons.prems(4,5) inv2 by (force simp: image_iff)
  qed (use inv2 Cons.prems(4) in simp_all)
  ultimately show ?case by (rule trade_frame_trans)
qed

lemma settleMarketTx_frame:
  assumes "settleMarketTx gen marketID outcome d = Inr d'" and "ledger_inv d" and "market_inv d"
  shows "trade_frame d d'"
proof -
  have "distinct (map po_id (positions d))" using assms(3) by (simp add: market_inv_def)
  then have "distinct (map po_id (sort_key po_id (filter (\<lambda>p. po_market p = marketID \<and>
      po_state p = PositionOpen) (positions d))))"
    by (simp add: distinct_map inj_on_def)
  note dist = this
  from assms(1) obtain d1 where ps: "settle_positions gen outcome (sort_key po_id
        (filter (\<lambda>p. po_market p = marketID \<and> po_state p = PositionOpen) (positions d))) d = Inr d1"
    and d': "\<exists>ms. d' = d1\<lparr>markets := ms\<rparr>"
    by (auto simp: settleMarketTx_def)
  have "trade_frame d d1"
    by (rule settle_positions_frame [OF ps assms(2,3) dist]) auto
  with d' show ?thesis by auto
qed

end
