(* ===== verification/Freezes.thy ===== *)
theory Freezes
  imports Schema
begin

text \<open>
  Halting withdrawals, the last section of \<open>internal/core/inbox.go\<close>: one row per frozen
  subject, where the subject \<open>*\<close> is the whole system.
\<close>

definition Freeze :: "string \<Rightarrow> string \<Rightarrow> db \<Rightarrow> db" where
  "Freeze subject reason d =
    (if list_ex (\<lambda>r. fr_subject r = subject) (freezes d) then d
     else d\<lparr>freezes := freezes d @ [\<lparr>fr_subject = subject, fr_reason = reason\<rparr>]\<rparr>)"

definition Unfreeze :: "string \<Rightarrow> db \<Rightarrow> db" where
  "Unfreeze subject d = d\<lparr>freezes := filter (\<lambda>r. fr_subject r \<noteq> subject) (freezes d)\<rparr>"

text \<open>\<open>select reason ... where subject in ('*', $1) order by subject limit 1\<close>\<close>

definition Frozen :: "string \<Rightarrow> db \<Rightarrow> string option" where
  "Frozen subject d =
    (case sort_key fr_subject (filter (\<lambda>r. fr_subject r = ''*'' \<or> fr_subject r = subject) (freezes d)) of
       [] \<Rightarrow> None
     | r # _ \<Rightarrow> Some (fr_reason r))"

definition Freezes :: "db \<Rightarrow> (string \<times> string) list" where
  "Freezes d = map (\<lambda>r. (fr_subject r, fr_reason r)) (sort_key fr_subject (freezes d))"

lemma Frozen_None_iff:
  "Frozen subject d = None \<longleftrightarrow> (\<forall>r \<in> set (freezes d). fr_subject r \<noteq> ''*'' \<and> fr_subject r \<noteq> subject)"
proof -
  let ?hits = "filter (\<lambda>r. fr_subject r = ''*'' \<or> fr_subject r = subject) (freezes d)"
  have "Frozen subject d = None \<longleftrightarrow> sort_key fr_subject ?hits = []"
    by (simp add: Frozen_def split: list.splits)
  also have "\<dots> \<longleftrightarrow> set (sort_key fr_subject ?hits) = {}" by (simp only: set_empty)
  also have "\<dots> \<longleftrightarrow> set ?hits = {}" by (simp only: set_sort)
  finally show ?thesis by auto
qed

lemma Freeze_freezes: "fr_subject ` set (freezes (Freeze s r d)) = insert s (fr_subject ` set (freezes d))"
  by (auto simp: Freeze_def list_ex_iff image_iff)

lemma Frozen_after_Freeze:
  "Frozen u (Freeze s r d) = None \<longleftrightarrow> Frozen u d = None \<and> s \<noteq> ''*'' \<and> s \<noteq> u"
proof -
  have "Frozen u d' = None \<longleftrightarrow> ''*'' \<notin> fr_subject ` set (freezes d') \<and> u \<notin> fr_subject ` set (freezes d')"
    for d'
    unfolding Frozen_None_iff by (metis (no_types, lifting) imageE imageI)
  then show ?thesis by (auto simp: Freeze_freezes)
qed

lemma Frozen_after_Unfreeze:
  "Frozen u (Unfreeze s d) = None \<longleftrightarrow>
   (\<forall>r \<in> set (freezes d). fr_subject r = s \<or> fr_subject r \<noteq> ''*'' \<and> fr_subject r \<noteq> u)"
  unfolding Frozen_None_iff by (auto simp: Unfreeze_def)

text \<open>A freeze of the system halts every user until the system, not the user, is unfrozen.\<close>

lemma system_freeze_outlasts_user_unfreeze:
  "u \<noteq> ''*'' \<Longrightarrow> Frozen v (Unfreeze u (Freeze ''*'' r d)) \<noteq> None"
proof -
  assume u: "u \<noteq> ''*''"
  have "''*'' \<in> fr_subject ` set (freezes (Freeze ''*'' r d))" by (simp add: Freeze_freezes)
  then obtain x where "x \<in> set (freezes (Freeze ''*'' r d))" "fr_subject x = ''*''" by auto
  with u show ?thesis by (auto simp: Frozen_after_Unfreeze)
qed

end
