(* ===== verification/Intent.thy ===== *)
theory Intent
  imports Market Freezes
begin

text \<open>
  The intent state machine and the transactional outbox, \<open>internal/core/intent.go\<close>. An intent's
  id is the nonce of its on-chain call. Every operation is one transaction; the times are
  milliseconds. \<open>intent_inv\<close> says that a user's \<open>pending_withdraw\<close> account holds exactly the
  user's in-flight withdrawals and that every in-flight intent has an outbox row.
\<close>

section \<open>Inserting intents and outbox rows\<close>

definition WithdrawTTL :: int where "WithdrawTTL = 30000"

definition inflight :: "intent_row \<Rightarrow> bool" where
  "inflight r \<longleftrightarrow> in_state r = StateReserved \<or> in_state r = StateSubmitted"

text \<open>
  A new row has the columns the statements leave out at their defaults. The insert fails on the
  primary key and on the partial index \<open>intents_one_escrow_inflight_idx\<close>; a conflict on the
  idempotency key is the caller's business. \<open>escrow_clash\<close> is the index's test for a row that is
  about to become in-flight.
\<close>

definition new_intent :: "string \<Rightarrow> string option \<Rightarrow> intent_kind \<Rightarrow> string option \<Rightarrow> string option \<Rightarrow>
    int \<Rightarrow> int \<Rightarrow> int \<Rightarrow> intent_row" where
  "new_intent nid key kind user market amount deadline expiry =
    \<lparr>in_id = nid, in_key = key, in_kind = kind, in_user = user, in_market = market,
     in_amount = amount, in_state = StateReserved, in_reserve_transfer = None,
     in_final_transfer = None, in_chain_tx = None, in_height = None, in_hash = None,
     in_attempts = 0, in_deadline = deadline, in_expiry = expiry, in_last_error = None\<rparr>"

definition escrow_clash :: "intent_row \<Rightarrow> db \<Rightarrow> bool" where
  "escrow_clash r d \<longleftrightarrow> in_kind r = EscrowSet \<and> in_market r \<noteq> None \<and>
     list_ex (\<lambda>q. in_kind q = EscrowSet \<and> inflight q \<and> in_market q = in_market r) (intents d)"

definition insert_intent :: "intent_row \<Rightarrow> db \<Rightarrow> error + db" where
  "insert_intent r d =
    (if list_ex (\<lambda>q. in_id q = in_id r) (intents d) then Inl ErrUnique
     else if inflight r \<and> escrow_clash r d then Inl ErrUnique
     else Inr (d\<lparr>intents := intents d @ [r]\<rparr>))"

text \<open>\<open>insert into outbox ... on conflict (intent_id, op) do nothing\<close>\<close>

definition insert_outbox :: "string \<Rightarrow> string \<Rightarrow> json_obj \<Rightarrow> int \<Rightarrow> db \<Rightarrow> db" where
  "insert_outbox iid oper payload now d =
    (if list_ex (\<lambda>q. ob_intent q = iid \<and> ob_op q = oper) (outbox d) then d
     else d\<lparr>outbox := outbox d @ [\<lparr>ob_id = Suc (outbox_seq d), ob_intent = iid, ob_op = oper,
              ob_payload = payload, ob_state = OutPending, ob_attempts = 0,
              ob_next_attempt = now, ob_lease_until = None, ob_last_error = None\<rparr>],
            outbox_seq := Suc (outbox_seq d)\<rparr>)"

definition text_or_empty :: "string option \<Rightarrow> string" where
  "text_or_empty x = (case x of None \<Rightarrow> [] | Some s \<Rightarrow> s)"

definition null_if_empty :: "string \<Rightarrow> string option" where
  "null_if_empty s = (if s = [] then None else Some s)"

definition reserve_key :: "string \<Rightarrow> string" where "reserve_key iid = ''intent:'' @ iid @ '':reserve''"

definition final_key :: "string \<Rightarrow> string" where "final_key iid = ''intent:'' @ iid @ '':final''"

definition refund_key :: "string \<Rightarrow> string" where "refund_key iid = ''intent:'' @ iid @ '':refund''"

definition revert_key :: "string \<Rightarrow> string \<Rightarrow> string" where
  "revert_key iid hash = ''intent:'' @ iid @ '':revert:'' @ hash"

section \<open>Requests\<close>

definition withdraw_payload :: "string \<Rightarrow> string \<Rightarrow> int \<Rightarrow> int \<Rightarrow> json_obj" where
  "withdraw_payload iid user amount expiry =
    [(''nonce'', JStr iid), (''kind'', JStr ''withdraw''), (''user'', JStr user),
     (''amount'', JNum amount), (''expiry_height'', JNum expiry)]"

definition settle_payload :: "string \<Rightarrow> string \<Rightarrow> int \<Rightarrow> json_obj" where
  "settle_payload iid market outcome =
    [(''nonce'', JStr iid), (''kind'', JStr ''settle_market''), (''market_id'', JStr market),
     (''outcome'', JNum outcome)]"

definition escrow_payload :: "string \<Rightarrow> string \<Rightarrow> int \<Rightarrow> int \<Rightarrow> json_obj" where
  "escrow_payload iid market target expiry =
    [(''nonce'', JStr iid), (''kind'', JStr ''escrow_set''), (''market_id'', JStr market),
     (''target'', JNum target), (''expiry_height'', JNum expiry)]"

definition reserve_withdraw :: "string \<Rightarrow> string \<Rightarrow> string \<Rightarrow> int \<Rightarrow> string \<Rightarrow> int \<Rightarrow> int \<Rightarrow> db \<Rightarrow>
    error + ((string \<times> bool) \<times> db)" where
  "reserve_withdraw nid ntid user amount idemKey expiry now d =
    try_bind (insert_intent (new_intent nid (null_if_empty idemKey) Withdraw (Some user) None amount
        (now + WithdrawTTL) expiry) d) (\<lambda>d1.
    try_bind (case Frozen user d of None \<Rightarrow> Inr () | Some reason \<Rightarrow> Inl (ErrHalted reason)) (\<lambda>_.
    try_bind (PostTx ntid (Transfer ''withdraw.reserve'' (reserve_key nid)
        [Leg (AvailableAcct user) (- amount), Leg (PendingAcct user) amount]) d1) (\<lambda>((tid, _), d2).
    let d3 = d2\<lparr>intents := update_where (\<lambda>r. in_id r = nid)
               (\<lambda>r. r\<lparr>in_reserve_transfer := Some tid\<rparr>) (intents d2)\<rparr>
    in Inr ((nid, False), insert_outbox nid ''withdraw'' (withdraw_payload nid user amount expiry) now d3))))"

definition RequestWithdraw :: "string \<Rightarrow> string \<Rightarrow> string \<Rightarrow> int \<Rightarrow> string \<Rightarrow> int \<Rightarrow> int \<Rightarrow> db \<Rightarrow>
    error + ((string \<times> bool) \<times> db)" where
  "RequestWithdraw nid ntid user amount idemKey expiry now d =
    (if amount \<le> 0 then Inl ErrNotPositive
     else case (if idemKey = [] then None
                else select_one (\<lambda>r. in_key r = Some idemKey) (intents d)) of
       Some old \<Rightarrow>
         if text_or_empty (in_user old) \<noteq> user \<or> in_amount old \<noteq> amount then Inl ErrConflict
         else Inr ((in_id old, True), d)
     | None \<Rightarrow> reserve_withdraw nid ntid user amount idemKey expiry now d)"

definition RequestSettlement :: "string \<Rightarrow> string \<Rightarrow> int \<Rightarrow> int \<Rightarrow> db \<Rightarrow>
    error + ((string \<times> bool) \<times> db)" where
  "RequestSettlement nid marketID outcome now d =
    (if outcome \<noteq> 0 \<and> outcome \<noteq> One then Inl ErrBadOutcome
     else
       let key = ''settle:'' @ marketID in
       case select_one (\<lambda>r. in_key r = Some key) (intents d) of
         Some old \<Rightarrow>
           try_bind (of_option ErrNoRows (select_one (\<lambda>m. Some (mk_id m) = in_market old) (markets d))) (\<lambda>m.
           if mk_outcome m \<noteq> Some outcome then Inl ErrConflict
           else Inr ((in_id old, True), d))
       | None \<Rightarrow>
           try_bind (insert_intent (new_intent nid (Some key) SettleMarket None (Some marketID) 0
               (now + 60000) 0) d) (\<lambda>d1.
           let hit = (\<lambda>m. mk_id m = marketID \<and> mk_state m = MarketOpen);
               d2 = d1\<lparr>markets := update_where hit (\<lambda>m. m\<lparr>mk_state := MarketSettling,
                      mk_outcome := Some outcome, mk_version := mk_version m + 1\<rparr>) (markets d1)\<rparr>
           in if rows_affected hit (markets d1) \<noteq> 1 then Inl ErrConflict
              else Inr ((nid, False),
                insert_outbox nid ''settle'' (settle_payload nid marketID outcome) now d2)))"

definition RequestEscrowSet :: "string \<Rightarrow> string \<Rightarrow> int \<Rightarrow> int \<Rightarrow> int \<Rightarrow> db \<Rightarrow>
    error + ((string \<times> bool) \<times> db)" where
  "RequestEscrowSet nid marketID target expiry now d =
    (case select_one (\<lambda>r. in_kind r = EscrowSet \<and> in_market r = Some marketID \<and> inflight r) (intents d) of
       Some old \<Rightarrow> Inr ((in_id old, True), d)
     | None \<Rightarrow>
         try_bind (insert_intent (new_intent nid None EscrowSet None (Some marketID) target
             (now + 60000) expiry) d) (\<lambda>d1.
         Inr ((nid, False),
           insert_outbox nid ''escrow_set'' (escrow_payload nid marketID target expiry) now d1)))"

section \<open>Transitions\<close>

definition MarkSubmitted :: "string \<Rightarrow> string \<Rightarrow> string \<Rightarrow> db \<Rightarrow> db" where
  "MarkSubmitted iid chainTx errMsg d =
    d\<lparr>intents := update_where (\<lambda>r. in_id r = iid \<and> inflight r)
       (\<lambda>r. r\<lparr>in_state := (if in_state r = StateReserved then StateSubmitted else in_state r),
             in_attempts := in_attempts r + 1,
             in_chain_tx := (if chainTx = [] then in_chain_tx r else Some chainTx),
             in_last_error := null_if_empty errMsg\<rparr>) (intents d)\<rparr>"

definition confirm_effect :: "(string \<Rightarrow> string) \<Rightarrow> string \<Rightarrow> intent_row \<Rightarrow> db \<Rightarrow>
    error + (string option \<times> db)" where
  "confirm_effect gen ntid r d =
    (case in_kind r of
       Withdraw \<Rightarrow>
         try_bind (PostTx ntid (Transfer ''withdraw.settle'' (final_key (in_id r))
             [Leg (PendingAcct (text_or_empty (in_user r))) (- in_amount r),
              Leg AcctExternal (in_amount r)]) d) (\<lambda>((tid, _), d1). Inr (null_if_empty tid, d1))
     | SettleMarket \<Rightarrow>
         try_bind (of_option ErrNoRows
             (select_one (\<lambda>m. mk_id m = text_or_empty (in_market r)) (markets d))) (\<lambda>m.
         try_bind (of_option ErrConflict (mk_outcome m)) (\<lambda>outcome.
         try_bind (settleMarketTx gen (text_or_empty (in_market r)) outcome d) (\<lambda>d1. Inr (None, d1))))
     | EscrowSet \<Rightarrow> Inr (None, d))"

definition set_confirmed :: "string \<Rightarrow> int \<Rightarrow> string \<Rightarrow> string option \<Rightarrow> db \<Rightarrow> db" where
  "set_confirmed iid height blockHash tid d =
    d\<lparr>intents := update_where (\<lambda>r. in_id r = iid)
       (\<lambda>r. r\<lparr>in_state := StateConfirmed, in_height := Some height, in_hash := Some blockHash,
             in_final_transfer := tid\<rparr>) (intents d)\<rparr>"

definition Confirm :: "(string \<Rightarrow> string) \<Rightarrow> string \<Rightarrow> string \<Rightarrow> int \<Rightarrow> string \<Rightarrow> db \<Rightarrow> error + db" where
  "Confirm gen ntid iid height blockHash d =
    try_bind (of_option ErrNoRows (select_one (\<lambda>r. in_id r = iid) (intents d))) (\<lambda>r.
    if in_state r = StateConfirmed then Inr d
    else if in_state r \<noteq> StateSubmitted \<and> in_state r \<noteq> StateReserved \<and> in_state r \<noteq> StateReverted
    then Inl ErrConflict
    else try_bind (confirm_effect gen ntid r d) (\<lambda>(tid, d1).
         Inr (set_confirmed iid height blockHash tid d1)))"

text \<open>\<open>update outbox set state = 'pending', lease_until = null, next_attempt_at = now()\<close>\<close>

definition repend_outbox :: "string \<Rightarrow> int \<Rightarrow> db \<Rightarrow> db" where
  "repend_outbox iid now d =
    d\<lparr>outbox := update_where (\<lambda>q. ob_intent q = iid)
       (\<lambda>q. q\<lparr>ob_state := OutPending, ob_lease_until := None, ob_next_attempt := now\<rparr>) (outbox d)\<rparr>"

definition update_intent :: "string \<Rightarrow> (intent_row \<Rightarrow> intent_row) \<Rightarrow> db \<Rightarrow> db" where
  "update_intent iid f d = d\<lparr>intents := update_where (\<lambda>r. in_id r = iid) f (intents d)\<rparr>"

definition Expire :: "string \<Rightarrow> string \<Rightarrow> int \<Rightarrow> int \<Rightarrow> db \<Rightarrow> error + db" where
  "Expire ntid iid observedHeight now d =
    try_bind (of_option ErrNoRows (select_one (\<lambda>r. in_id r = iid) (intents d))) (\<lambda>r.
    if in_state r = StateExpired then Inr d
    else if in_state r \<noteq> StateSubmitted \<and> in_state r \<noteq> StateReserved then Inl ErrConflict
    else case in_kind r of
      Withdraw \<Rightarrow>
        if in_expiry r \<le> 0 \<or> observedHeight \<le> in_expiry r then Inl ErrConflict
        else try_bind (PostTx ntid (Transfer ''withdraw.refund'' (refund_key iid)
               [Leg (PendingAcct (text_or_empty (in_user r))) (- in_amount r),
                Leg (AvailableAcct (text_or_empty (in_user r))) (in_amount r)]) d) (\<lambda>(_, d1).
             Inr (update_intent iid (\<lambda>r. r\<lparr>in_state := StateExpired\<rparr>) d1))
    | SettleMarket \<Rightarrow>
        Inr (update_intent iid (\<lambda>r. r\<lparr>in_deadline := now + 60000\<rparr>) (repend_outbox iid now d))
    | EscrowSet \<Rightarrow> Inr (update_intent iid (\<lambda>r. r\<lparr>in_state := StateExpired\<rparr>) d))"

definition Revert :: "string \<Rightarrow> string \<Rightarrow> string \<Rightarrow> int \<Rightarrow> db \<Rightarrow> error + db" where
  "Revert ntid iid orphanHash now d =
    try_bind (of_option ErrNoRows (select_one (\<lambda>r. in_id r = iid) (intents d))) (\<lambda>r.
    if in_state r \<noteq> StateConfirmed then Inr d
    else
      try_bind (if in_kind r = Withdraw then
          try_bind (PostTx ntid (Transfer ''withdraw.settle.reverted'' (revert_key iid orphanHash)
            [Leg AcctExternal (- in_amount r),
             Leg (PendingAcct (text_or_empty (in_user r))) (in_amount r)]) d) (\<lambda>(_, d1). Inr d1)
        else Inr d) (\<lambda>d1.
      if escrow_clash r d then Inl ErrUnique
      else Inr (repend_outbox iid now (update_intent iid (\<lambda>r. r\<lparr>in_state := StateSubmitted,
        in_height := None, in_hash := None, in_deadline := now + WithdrawTTL\<rparr>) d1))))"

section \<open>Queries\<close>

definition InFlight :: "db \<Rightarrow> intent_row list" where
  "InFlight d = filter inflight (intents d)"

definition ConfirmedIntentsInBlock :: "string \<Rightarrow> db \<Rightarrow> string list" where
  "ConfirmedIntentsInBlock blockHash d =
    map in_id (filter (\<lambda>r. in_state r = StateConfirmed \<and> in_hash r = Some blockHash) (intents d))"

definition market_collateral :: "string \<Rightarrow> db \<Rightarrow> int" where
  "market_collateral m d = sum_where (\<lambda>p. po_market p = m \<and> po_state p = PositionOpen) po_collateral (positions d)"

text \<open>The two maps of the escrow pass: a sum beyond \<open>int64\<close> or a NULL market cannot be scanned.\<close>

definition MarketCollateral :: "db \<Rightarrow> error + (string \<times> int) list" where
  "MarketCollateral d =
    (let rows = map (\<lambda>m. (mk_id m, market_collateral (mk_id m) d)) (filter (\<lambda>m. mk_state m \<noteq> MarketSettled) (markets d))
     in if list_ex (\<lambda>r. \<not> int64 (snd r)) rows then Inl ErrRange else Inr rows)"

definition InFlightEscrowTargets :: "db \<Rightarrow> error + (string \<rightharpoonup> int)" where
  "InFlightEscrowTargets d =
    (let rows = filter (\<lambda>r. in_kind r = EscrowSet \<and> inflight r) (intents d)
     in if list_ex (\<lambda>r. in_market r = None) rows then Inl ErrScan
        else Inr (map_of (rev (map (\<lambda>r. (the (in_market r), in_amount r)) rows))))"

section \<open>What the intent tables promise\<close>

definition pending_of :: "string \<Rightarrow> intent_row \<Rightarrow> bool" where
  "pending_of u r \<longleftrightarrow> in_kind r = Withdraw \<and> inflight r \<and> in_user r = Some u"

definition pending_sum :: "db \<Rightarrow> string \<Rightarrow> int" where
  "pending_sum d u = sum_where (pending_of u) in_amount (intents d)"

definition escrow_inflight :: "intent_row \<Rightarrow> bool" where
  "escrow_inflight r \<longleftrightarrow> in_kind r = EscrowSet \<and> inflight r \<and> in_market r \<noteq> None"

definition row_ok :: "intent_row \<Rightarrow> bool" where
  "row_ok r \<longleftrightarrow> id_ok (in_id r) \<and> in_state r \<noteq> StateReverted \<and>
     (in_kind r = Withdraw \<longrightarrow> 0 < in_amount r \<and> int64 (in_amount r) \<and> in_user r \<noteq> None)"

definition one_escrow_inflight :: "intent_row list \<Rightarrow> bool" where
  "one_escrow_inflight rs \<longleftrightarrow> (\<forall>a \<in> set rs. \<forall>b \<in> set rs. escrow_inflight a \<longrightarrow> escrow_inflight b \<longrightarrow>
     in_market a = in_market b \<longrightarrow> in_id a = in_id b)"

definition intent_books :: "db \<Rightarrow> bool" where
  "intent_books d \<longleftrightarrow>
     distinct (map in_id (intents d)) \<and>
     (\<forall>r \<in> set (intents d). row_ok r) \<and>
     (\<forall>r \<in> set (intents d). in_id r \<in> ob_intent ` set (outbox d)) \<and>
     one_escrow_inflight (intents d) \<and>
     (\<forall>u. Balance d (PendingAcct u) = pending_sum d u)"

text \<open>
  Which transfers have been posted for an intent: none before it exists, and neither the payment
  nor the refund while a withdrawal is in flight. \<open>Revert\<close> alone breaks the second part.
\<close>

definition intent_keys :: "db \<Rightarrow> bool" where
  "intent_keys d \<longleftrightarrow>
     (\<forall>i. id_ok i \<longrightarrow> i \<notin> in_id ` set (intents d) \<longrightarrow>
        posted d (reserve_key i) = None \<and> posted d (final_key i) = None \<and>
        posted d (refund_key i) = None) \<and>
     (\<forall>r \<in> set (intents d). in_kind r = Withdraw \<longrightarrow> inflight r \<longrightarrow>
        posted d (final_key (in_id r)) = None \<and> posted d (refund_key (in_id r)) = None)"

definition intent_inv :: "db \<Rightarrow> bool" where
  "intent_inv d \<longleftrightarrow> intent_books d \<and> intent_keys d"

section \<open>Keys\<close>

lemma intent_keys_simps [simp]:
  "reserve_key a = reserve_key b \<longleftrightarrow> a = b" "final_key a = final_key b \<longleftrightarrow> a = b"
  "refund_key a = refund_key b \<longleftrightarrow> a = b"
  "reserve_key a \<noteq> final_key b" "final_key b \<noteq> reserve_key a"
  "reserve_key a \<noteq> refund_key b" "refund_key b \<noteq> reserve_key a"
  "final_key a \<noteq> refund_key b" "refund_key b \<noteq> final_key a"
  "reserve_key a \<noteq> []" "final_key a \<noteq> []" "refund_key a \<noteq> []" "revert_key a h \<noteq> []"
  by (simp_all add: reserve_key_def final_key_def refund_key_def revert_key_def key_neq_rev)

lemma revert_key_simps [simp]:
  "id_ok a \<Longrightarrow> id_ok b \<Longrightarrow> revert_key a g = revert_key b h \<longleftrightarrow> a = b \<and> g = h"
  "id_ok a \<Longrightarrow> id_ok b \<Longrightarrow> final_key a \<noteq> revert_key b h"
  "id_ok a \<Longrightarrow> id_ok b \<Longrightarrow> refund_key a \<noteq> revert_key b h"
  "id_ok a \<Longrightarrow> id_ok b \<Longrightarrow> reserve_key a \<noteq> revert_key b h"
  by (auto simp: reserve_key_def final_key_def refund_key_def revert_key_def dest: key_cut)

lemma no_pos_prefix [simp]:
  "\<not> prefix ''pos:'' (reserve_key i)" "\<not> prefix ''pos:'' (final_key i)"
  "\<not> prefix ''pos:'' (refund_key i)" "\<not> prefix ''pos:'' (revert_key i h)"
  by (simp_all add: reserve_key_def final_key_def refund_key_def revert_key_def)

section \<open>Posting outside trading keeps the margin books\<close>

lemma post_keeps_market_inv:
  assumes "ledger_inv d" and "market_inv d" and "legs_exact (t_legs t)"
    and post: "PostTx n t d = Inr ((i, rep), d')" and "\<not> prefix ''pos:'' (t_key t)"
    and "\<And>u. MarginAcct u \<notin> lg_account ` set (t_legs t)"
  shows "market_inv d'"
proof (rule market_inv_frame [OF assms(2)])
  show "positions d' = positions d" by (rule PostTx_frame [OF post])
  show "Balance d' (MarginAcct u) = Balance d (MarginAcct u)" for u
    by (rule PostTx_other_account [OF assms(1,3) post assms(6)])
  have "prefix ''pos:'' k \<Longrightarrow> k \<noteq> t_key t" for k using assms(5) by auto
  then show "posted d' (open_key p) = posted d (open_key p)"
    "posted d' (close_key p) = posted d (close_key p)"
    "posted d' (settle_key p) = posted d (settle_key p)" for p
    by (auto intro: PostTx_other_key [OF assms(1) post])
qed

lemma intent_inv_frame:
  assumes "intent_inv d" and "intents d' = intents d"
    and "ob_intent ` set (outbox d') = ob_intent ` set (outbox d)"
    and "\<And>u. Balance d' (PendingAcct u) = Balance d (PendingAcct u)"
    and "\<And>i. posted d' (reserve_key i) = posted d (reserve_key i)"
    and "\<And>i. posted d' (final_key i) = posted d (final_key i)"
    and "\<And>i. posted d' (refund_key i) = posted d (refund_key i)"
  shows "intent_inv d'"
  using assms(1) unfolding intent_inv_def intent_books_def intent_keys_def pending_sum_def assms(2-) .

section \<open>Two shapes of change: a new intent, an updated intent\<close>

lemma intent_books_parts:
  assumes "intent_books d"
  shows "distinct (map in_id (intents d))" and "r \<in> set (intents d) \<Longrightarrow> row_ok r"
    and "r \<in> set (intents d) \<Longrightarrow> in_id r \<in> ob_intent ` set (outbox d)"
    and "a \<in> set (intents d) \<Longrightarrow> b \<in> set (intents d) \<Longrightarrow> escrow_inflight a \<Longrightarrow> escrow_inflight b \<Longrightarrow>
      in_market a = in_market b \<Longrightarrow> in_id a = in_id b"
    and "Balance d (PendingAcct u) = pending_sum d u"
  using assms unfolding intent_books_def one_escrow_inflight_def by blast+

lemma intent_books_new:
  assumes inv: "intent_books d" and eq: "intents d' = intents d @ [r]"
    and "in_id r \<notin> in_id ` set (intents d)"
    and "row_ok r" and ob: "ob_intent ` set (outbox d') = insert (in_id r) (ob_intent ` set (outbox d))"
    and esc: "\<And>q. escrow_inflight r \<Longrightarrow> q \<in> set (intents d) \<Longrightarrow> escrow_inflight q \<Longrightarrow> in_market q \<noteq> in_market r"
    and bal: "\<And>u. Balance d' (PendingAcct u) = Balance d (PendingAcct u) + (if pending_of u r then in_amount r else 0)"
  shows "intent_books d'"
  unfolding intent_books_def one_escrow_inflight_def
proof (intro conjI allI ballI impI)
  note parts = intent_books_parts [OF inv]
  have rows: "q \<in> set (intents d) \<or> q = r" if "q \<in> set (intents d')" for q using that eq by auto
  show "distinct (map in_id (intents d'))" using parts(1) assms(3) by (simp add: eq)
  show "row_ok q" if "q \<in> set (intents d')" for q using rows [OF that] parts(2) assms(4) by auto
  show "in_id q \<in> ob_intent ` set (outbox d')" if "q \<in> set (intents d')" for q
    using rows [OF that] parts(3) ob by auto
  show "in_id a = in_id b"
    if "a \<in> set (intents d')" "b \<in> set (intents d')" "escrow_inflight a" "escrow_inflight b"
      "in_market a = in_market b" for a b
    using rows [OF that(1)] rows [OF that(2)] parts(4) [of a b] esc that(3-5) by metis
  show "Balance d' (PendingAcct u) = pending_sum d' u" for u
    using parts(5) [of u] bal [of u] by (simp add: pending_sum_def eq row_simps)
qed

lemma intent_keys_new:
  assumes "intent_keys d" and "intents d' = intents d @ [r]" and "in_id r \<notin> in_id ` set (intents d)"
    and "id_ok (in_id r)"
    and "\<And>k. k \<noteq> reserve_key (in_id r) \<Longrightarrow> posted d' k = posted d k"
  shows "intent_keys d'"
  using assms by (auto simp: intent_keys_def)

lemma intent_books_update:
  assumes "intent_books d" and r: "select_one (\<lambda>r. in_id r = iid) (intents d) = Some r"
    and "intents d' = update_where (\<lambda>r. in_id r = iid) f (intents d)"
    and f: "\<And>q. in_id (f q) = in_id q \<and> in_market (f q) = in_market q" and "row_ok (f r)"
    and "ob_intent ` set (outbox d') = ob_intent ` set (outbox d)"
    and esc: "\<And>q. escrow_inflight (f r) \<Longrightarrow> \<not> escrow_inflight r \<Longrightarrow> q \<in> set (intents d) \<Longrightarrow>
      escrow_inflight q \<Longrightarrow> in_market q \<noteq> in_market r"
    and "\<And>u. Balance d' (PendingAcct u) = Balance d (PendingAcct u)
      - (if pending_of u r then in_amount r else 0) + (if pending_of u (f r) then in_amount (f r) else 0)"
  shows "intent_books d'"
  unfolding intent_books_def one_escrow_inflight_def
proof (intro conjI allI ballI impI)
  have dist: "distinct (map in_id (intents d))" using assms(1) by (simp add: intent_books_def)
  from select_one_SomeD [OF r] have mem: "r \<in> set (intents d)" "in_id r = iid" by auto
  have only: "q = r" if "q \<in> set (intents d)" "in_id q = iid" for q
    using dist mem that by (metis eq_key_imp_eq_value inj_on_def distinct_map)
  have rows: "q \<in> set (intents d) \<and> in_id q \<noteq> iid \<or> q = f r" if "q \<in> set (intents d')" for q
    using that only by (auto simp: assms(3) set_update_where)
  show "distinct (map in_id (intents d'))" using dist f by (simp add: assms(3) row_simps)
  show "row_ok q" if "q \<in> set (intents d')" for q
    using rows [OF that] assms(1,5) by (auto simp: intent_books_def)
  show "in_id q \<in> ob_intent ` set (outbox d')" if "q \<in> set (intents d')" for q
    using rows [OF that] assms(1,6) f mem by (auto simp: intent_books_def)
  show "Balance d' (PendingAcct u) = pending_sum d' u" for u
    using assms(1) assms(8) [of u] mem
      sum_where_update [of in_id "intents d" r "\<lambda>r. in_id r = iid" "pending_of u" in_amount f, OF dist]
    by (simp add: intent_books_def pending_sum_def assms(3))
  show "in_id a = in_id b"
    if "a \<in> set (intents d')" "b \<in> set (intents d')" "escrow_inflight a" "escrow_inflight b"
      "in_market a = in_market b" for a b
  proof -
    have old: "in_id x = in_id y" if "x \<in> set (intents d)" "y \<in> set (intents d)" "escrow_inflight x"
      "escrow_inflight y" "in_market x = in_market y" for x y
      using intent_books_parts(4) [OF assms(1)] that by blast
    have mixed: "in_id x = iid" if "x \<in> set (intents d)" "escrow_inflight x" "escrow_inflight (f r)"
      "in_market x = in_market r" for x
      using old [OF that(1) mem(1) that(2) _ that(4)] esc [OF that(3) _ that(1,2)] that(4) mem(2) by auto
    show ?thesis
      using rows [OF that(1)] rows [OF that(2)] that(3-5) old mixed f mem by metis
  qed
qed

lemma intent_keys_update:
  assumes "intent_keys d" and r: "select_one (\<lambda>r. in_id r = iid) (intents d) = Some r"
    and eq: "intents d' = update_where (\<lambda>r. in_id r = iid) f (intents d)"
    and f: "\<And>q. in_id (f q) = in_id q \<and> in_kind (f q) = in_kind q"
    and other: "\<And>i. id_ok i \<Longrightarrow> i \<noteq> iid \<Longrightarrow> posted d' (reserve_key i) = posted d (reserve_key i) \<and>
      posted d' (final_key i) = posted d (final_key i) \<and> posted d' (refund_key i) = posted d (refund_key i)"
    and ids: "\<And>q. q \<in> set (intents d) \<Longrightarrow> id_ok (in_id q)" and dist: "distinct (map in_id (intents d))"
    and same: "in_kind r = Withdraw \<Longrightarrow> inflight (f r) \<Longrightarrow>
      posted d' (final_key iid) = None \<and> posted d' (refund_key iid) = None"
  shows "intent_keys d'"
  unfolding intent_keys_def
proof (intro conjI allI ballI impI)
  from select_one_SomeD [OF r] have mem: "r \<in> set (intents d)" "in_id r = iid" by auto
  have "map in_id (intents d') = map in_id (intents d)" using f by (simp add: eq row_simps)
  then have idset: "in_id ` set (intents d') = in_id ` set (intents d)" by (metis set_map)
  show "posted d' (reserve_key i) = None" "posted d' (final_key i) = None" "posted d' (refund_key i) = None"
    if "id_ok i" "i \<notin> in_id ` set (intents d')" for i
    using that other [OF that(1)] mem assms(1) by (auto simp: idset intent_keys_def)
  show "posted d' (final_key (in_id q)) = None" "posted d' (refund_key (in_id q)) = None"
    if q: "q \<in> set (intents d')" "in_kind q = Withdraw" "inflight q" for q
  proof -
    have only: "x = r" if "x \<in> set (intents d)" "in_id x = iid" for x
      using dist mem that by (metis eq_key_imp_eq_value inj_on_def distinct_map)
    have "q \<in> set (intents d) \<and> in_id q \<noteq> iid \<or> q = f r"
      using q(1) only by (auto simp: eq set_update_where)
    then show "posted d' (final_key (in_id q)) = None" "posted d' (refund_key (in_id q)) = None"
      using other [OF ids, of q] q(2,3) assms(1) same f mem by (auto simp: intent_keys_def)
  qed
qed

text \<open>What the requests and transitions leave alone.\<close>

lemma ledger_tables_eq:
  assumes "transfers d' = transfers d" and "entries d' = entries d"
    and "account_balances d' = account_balances d"
  shows "Balance d' = Balance d" and "posted d' = posted d" and "ledger_inv d' = ledger_inv d"
  using assms by (simp_all add: Balance_def posted_def ledger_inv_def entry_sum_def transfer_sum_def fun_eq_iff)

lemma insert_outbox_simps [simp]:
  "ob_intent ` set (outbox (insert_outbox i op p now d)) = insert i (ob_intent ` set (outbox d))"
  "intents (insert_outbox i op p now d) = intents d"
  "markets (insert_outbox i op p now d) = markets d"
  "positions (insert_outbox i op p now d) = positions d"
  "chain_facts (insert_outbox i op p now d) = chain_facts d"
  "chain_events (insert_outbox i op p now d) = chain_events d"
  "freezes (insert_outbox i op p now d) = freezes d"
  "Balance (insert_outbox i op p now d) = Balance d"
  "posted (insert_outbox i op p now d) = posted d"
  "ledger_inv (insert_outbox i op p now d) = ledger_inv d"
  by (auto simp: insert_outbox_def list_ex_iff image_iff)

lemma repend_outbox_simps [simp]:
  "ob_intent ` set (outbox (repend_outbox i now d)) = ob_intent ` set (outbox d)"
  "intents (repend_outbox i now d) = intents d"
  "positions (repend_outbox i now d) = positions d"
  "chain_facts (repend_outbox i now d) = chain_facts d"
  "Balance (repend_outbox i now d) = Balance d"
  "posted (repend_outbox i now d) = posted d"
  "ledger_inv (repend_outbox i now d) = ledger_inv d"
proof -
  have "map ob_intent (outbox (repend_outbox i now d)) = map ob_intent (outbox d)"
    by (simp add: repend_outbox_def row_simps)
  then show "ob_intent ` set (outbox (repend_outbox i now d)) = ob_intent ` set (outbox d)"
    by (metis set_map)
qed (simp_all add: repend_outbox_def)

lemma insert_intent_Inr:
  "insert_intent r d = Inr d' \<longleftrightarrow> in_id r \<notin> in_id ` set (intents d) \<and> \<not> (inflight r \<and> escrow_clash r d) \<and>
     d' = d\<lparr>intents := intents d @ [r]\<rparr>"
  by (auto simp: insert_intent_def row_simps)

lemma new_intent_simps [simp]:
  "in_id (new_intent nid key kind user market amount deadline expiry) = nid"
  "in_kind (new_intent nid key kind user market amount deadline expiry) = kind"
  "in_user (new_intent nid key kind user market amount deadline expiry) = user"
  "in_market (new_intent nid key kind user market amount deadline expiry) = market"
  "in_amount (new_intent nid key kind user market amount deadline expiry) = amount"
  "in_key (new_intent nid key kind user market amount deadline expiry) = key"
  "in_state (new_intent nid key kind user market amount deadline expiry) = StateReserved"
  by (simp_all add: new_intent_def)

lemma update_fresh_row:
  "in_id r \<notin> in_id ` set rs \<Longrightarrow> update_where (\<lambda>q. in_id q = in_id r) f (rs @ [r]) = rs @ [f r]"
proof -
  assume "in_id r \<notin> in_id ` set rs"
  then have "update_where (\<lambda>q. in_id q = in_id r) f rs = rs"
    by (intro update_where_noop) (metis imageI)
  then show ?thesis by (simp add: row_simps)
qed

section \<open>Requesting a withdrawal\<close>

lemma reserve_withdraw_spec:
  assumes inv: "ledger_inv d" "intent_inv d" and nid: "id_ok nid" and amt: "0 < amount" "int64 amount"
    and res: "reserve_withdraw nid ntid user amount idemKey expiry now d = Inr ((i, rep), d')"
  obtains "i = nid" "\<not> rep" "nid \<notin> in_id ` set (intents d)" "Frozen user d = None"
    "amount \<le> Balance d (AvailableAcct user)" "ledger_inv d'"
    "\<And>a. Balance d' a = Balance d a - (if a = AvailableAcct user then amount else 0) +
       (if a = PendingAcct user then amount else 0)"
    "intents d' = intents d @ [(new_intent nid (null_if_empty idemKey) Withdraw (Some user) None amount
        (now + WithdrawTTL) expiry)\<lparr>in_reserve_transfer := Some ntid\<rparr>]"
    "ob_intent ` set (outbox d') = insert nid (ob_intent ` set (outbox d))"
    "\<And>k. k \<noteq> reserve_key nid \<Longrightarrow> posted d' k = posted d k"
    "positions d' = positions d" "chain_facts d' = chain_facts d"
proof -
  let ?r = "new_intent nid (null_if_empty idemKey) Withdraw (Some user) None amount (now + WithdrawTTL) expiry"
  from res obtain tid rep0 d2 where new: "nid \<notin> in_id ` set (intents d)"
    and fz: "Frozen user d = None"
    and post: "PostTx ntid (Transfer ''withdraw.reserve'' (reserve_key nid)
        [Leg (AvailableAcct user) (- amount), Leg (PendingAcct user) amount])
        (d\<lparr>intents := intents d @ [?r]\<rparr>) = Inr ((tid, rep0), d2)"
    and out: "i = nid" "\<not> rep"
    and d': "d' = insert_outbox nid ''withdraw'' (withdraw_payload nid user amount expiry) now
       (d2\<lparr>intents := update_where (\<lambda>r. in_id r = nid) (\<lambda>r. r\<lparr>in_reserve_transfer := Some tid\<rparr>) (intents d2)\<rparr>)"
    by (auto simp: reserve_withdraw_def insert_intent_Inr Let_def split: option.splits)
  let ?d1 = "d\<lparr>intents := intents d @ [?r]\<rparr>"
  have inv1: "ledger_inv ?d1" using inv(1) by simp
  have "posted ?d1 (reserve_key nid) = None"
    using inv(2) nid new by (simp add: intent_inv_def intent_keys_def)
  then have "tid = ntid \<and> \<not> rep0"
    using pg.unused_key_posts [OF inv1 post] by (simp add: Transfer_def)
  with post have tid: "tid = ntid" and post1: "PostTx ntid (Transfer ''withdraw.reserve'' (reserve_key nid)
        [Leg (AvailableAcct user) (- amount), Leg (PendingAcct user) amount]) ?d1 = Inr ((tid, False), d2)"
    by simp_all
  have legs: "legs_exact (t_legs (Transfer ''withdraw.reserve'' (reserve_key nid)
      [Leg (AvailableAcct user) (- amount), Leg (PendingAcct user) amount]))"
    using amt by (simp add: Transfer_def legs_exact_two)
  note two = pg.two_legs [OF inv1 _ less_imp_le [OF amt(1)] amt(2) post1]
  show ?thesis
  proof (rule that)
    show "amount \<le> Balance d (AvailableAcct user)" using two(2) by simp
    show "ledger_inv d'" using pg.post_inv [OF inv1 legs post1] by (simp add: d')
    show "Balance d' a = Balance d a - (if a = AvailableAcct user then amount else 0) +
       (if a = PendingAcct user then amount else 0)" for a
      using two(1) [of a] by (simp add: d')
    show "intents d' = intents d @ [?r\<lparr>in_reserve_transfer := Some ntid\<rparr>]"
      using update_fresh_row [of ?r "intents d"] new by (simp add: d' PostTx_frame [OF post] tid)
    show "ob_intent ` set (outbox d') = insert nid (ob_intent ` set (outbox d))"
      by (simp add: d' PostTx_frame [OF post])
    show "posted d' k = posted d k" if "k \<noteq> reserve_key nid" for k
      using pg.post_key [OF inv1 post1, of k] that by (simp add: d' Transfer_def)
  qed (use out new fz in \<open>simp_all add: d' PostTx_frame [OF post]\<close>)
qed

lemma reserve_withdraw_inv:
  assumes inv: "ledger_inv d" "market_inv d" "intent_inv d" and nid: "id_ok nid"
    and amt: "0 < amount" "int64 amount"
    and res: "reserve_withdraw nid ntid user amount idemKey expiry now d = Inr ((i, rep), d')"
  shows "ledger_inv d' \<and> market_inv d' \<and> intent_inv d'"
proof (rule reserve_withdraw_spec [OF inv(1,3) nid amt res])
  let ?r = "(new_intent nid (null_if_empty idemKey) Withdraw (Some user) None amount
        (now + WithdrawTTL) expiry)\<lparr>in_reserve_transfer := Some ntid\<rparr>"
  assume new: "nid \<notin> in_id ` set (intents d)" and led: "ledger_inv d'"
    and bal: "\<And>a. Balance d' a = Balance d a - (if a = AvailableAcct user then amount else 0) +
       (if a = PendingAcct user then amount else 0)"
    and ins: "intents d' = intents d @ [?r]"
    and ob: "ob_intent ` set (outbox d') = insert nid (ob_intent ` set (outbox d))"
    and key: "\<And>k. k \<noteq> reserve_key nid \<Longrightarrow> posted d' k = posted d k"
    and pos: "positions d' = positions d"
  have books: "intent_books d" and keys: "intent_keys d" using inv(3) by (simp_all add: intent_inv_def)
  have "intent_books d'"
    by (rule intent_books_new [OF books ins])
       (use new nid amt in \<open>auto simp: row_ok_def ob bal escrow_inflight_def pending_of_def inflight_def\<close>)
  moreover have "intent_keys d'"
    by (rule intent_keys_new [OF keys ins]) (use new nid key in auto)
  moreover have "market_inv d'"
  proof (rule market_inv_frame [OF inv(2) pos])
    have "prefix ''pos:'' k \<Longrightarrow> k \<noteq> reserve_key nid" for k by auto
    then show "posted d' (open_key p) = posted d (open_key p)"
      "posted d' (close_key p) = posted d (close_key p)"
      "posted d' (settle_key p) = posted d (settle_key p)" for p by (auto intro: key)
  qed (simp add: bal)
  ultimately show ?thesis using led by (simp add: intent_inv_def)
qed

lemma RequestWithdraw_cases:
  assumes "RequestWithdraw nid ntid user amount idemKey expiry now d = Inr ((i, rep), d')"
  obtains (replay) old where "rep" "d' = d" "0 < amount" "idemKey \<noteq> []" "old \<in> set (intents d)"
      "in_key old = Some idemKey" "i = in_id old" "text_or_empty (in_user old) = user" "in_amount old = amount"
  | (fresh) "0 < amount" "idemKey = [] \<or> Some idemKey \<notin> in_key ` set (intents d)"
      "reserve_withdraw nid ntid user amount idemKey expiry now d = Inr ((i, rep), d')"
proof (cases "if idemKey = [] then None else select_one (\<lambda>r. in_key r = Some idemKey) (intents d)")
  case None
  with assms show ?thesis
    by (intro fresh) (auto simp: RequestWithdraw_def select_one_None_iff split: if_splits)
next
  case (Some old)
  with assms show ?thesis
    by (intro replay [of old])
       (auto simp: RequestWithdraw_def split: if_splits dest: select_one_SomeD)
qed

lemma RequestWithdraw_inv:
  assumes "ledger_inv d" "market_inv d" "intent_inv d" and "id_ok nid" and "int64 amount"
    and "RequestWithdraw nid ntid user amount idemKey expiry now d = Inr ((i, rep), d')"
  shows "ledger_inv d' \<and> market_inv d' \<and> intent_inv d'"
  using assms(6)
proof (cases rule: RequestWithdraw_cases)
  case (replay old)
  with assms show ?thesis by simp
next
  case fresh
  with assms reserve_withdraw_inv show ?thesis by blast
qed

section \<open>Requesting a settlement or an escrow target\<close>

lemma no_withdraw_new:
  assumes inv: "ledger_inv d" "market_inv d" "intent_inv d" and nid: "id_ok nid"
    and new: "nid \<notin> in_id ` set (intents d)" and kind: "kind \<noteq> Withdraw"
    and esc: "\<And>q. kind = EscrowSet \<Longrightarrow> q \<in> set (intents d) \<Longrightarrow> escrow_inflight q \<Longrightarrow> in_market q \<noteq> market"
    and d': "d' = insert_outbox nid op p now (d\<lparr>intents := intents d @
        [new_intent nid key kind None market amount deadline expiry], markets := ms\<rparr>)"
  shows "ledger_inv d' \<and> market_inv d' \<and> intent_inv d'"
proof -
  let ?r = "new_intent nid key kind None market amount deadline expiry"
  have books: "intent_books d" and keys: "intent_keys d" using inv(3) by (simp_all add: intent_inv_def)
  have ins: "intents d' = intents d @ [?r]" by (simp add: d')
  have "intent_books d'"
    by (rule intent_books_new [OF books ins])
       (use new nid kind esc in \<open>auto simp: row_ok_def d' pending_of_def escrow_inflight_def\<close>)
  moreover have "intent_keys d'"
    by (rule intent_keys_new [OF keys ins]) (use new nid in \<open>simp_all add: d'\<close>)
  moreover have "market_inv d'" by (rule market_inv_frame [OF inv(2)]) (simp_all add: d')
  ultimately show ?thesis using inv(1) by (simp add: intent_inv_def d')
qed

lemma RequestSettlement_cases:
  assumes "RequestSettlement nid marketID outcome now d = Inr ((i, rep), d')"
  obtains (replay) old m where "rep" "d' = d" "old \<in> set (intents d)" "in_key old = Some (''settle:'' @ marketID)"
      "i = in_id old" "m \<in> set (markets d)" "Some (mk_id m) = in_market old" "mk_outcome m = Some outcome"
  | (fresh) "\<not> rep" "i = nid" "nid \<notin> in_id ` set (intents d)" "outcome = 0 \<or> outcome = One"
      "Some (''settle:'' @ marketID) \<notin> in_key ` set (intents d)"
      "rows_affected (\<lambda>m. mk_id m = marketID \<and> mk_state m = MarketOpen) (markets d) = 1"
      "d' = insert_outbox nid ''settle'' (settle_payload nid marketID outcome) now (d\<lparr>intents := intents d @
        [new_intent nid (Some (''settle:'' @ marketID)) SettleMarket None (Some marketID) 0 (now + 60000) 0],
        markets := update_where (\<lambda>m. mk_id m = marketID \<and> mk_state m = MarketOpen)
          (\<lambda>m. m\<lparr>mk_state := MarketSettling, mk_outcome := Some outcome,
             mk_version := mk_version m + 1\<rparr>) (markets d)\<rparr>)"
proof (cases "select_one (\<lambda>r. in_key r = Some (''settle:'' @ marketID)) (intents d)")
  case None
  then have "Some (''settle:'' @ marketID) \<notin> in_key ` set (intents d)"
    by (auto simp: select_one_None_iff)
  with None assms show ?thesis
    by (intro fresh) (auto simp: RequestSettlement_def Let_def insert_intent_Inr split: if_splits)
next
  case (Some old)
  have "\<not> (outcome \<noteq> 0 \<and> outcome \<noteq> One)"
    by (rule ccontr) (use assms in \<open>simp add: RequestSettlement_def\<close>)
  then have "try_bind (of_option ErrNoRows (select_one (\<lambda>m. Some (mk_id m) = in_market old) (markets d)))
      (\<lambda>m. if mk_outcome m \<noteq> Some outcome then Inl ErrConflict else Inr ((in_id old, True), d)) =
      Inr ((i, rep), d')"
    using assms by (simp only: RequestSettlement_def Let_def Some if_False option.case)
  then obtain m where m: "select_one (\<lambda>m. Some (mk_id m) = in_market old) (markets d) = Some m"
    and res: "(if mk_outcome m \<noteq> Some outcome then Inl ErrConflict else Inr ((in_id old, True), d)) =
      Inr ((i, rep), d')"
    unfolding try_bind_Inr of_option_Inr by blast
  from res have out: "mk_outcome m = Some outcome" "rep" "d' = d" "i = in_id old"
    by (simp_all split: if_splits)
  show ?thesis
    using select_one_SomeD [OF Some] select_one_SomeD [OF m]
    by (intro replay [OF out(2,3) _ _ out(4) _ _ out(1)]) blast+
qed

lemma RequestSettlement_inv:
  assumes "ledger_inv d" "market_inv d" "intent_inv d" and "id_ok nid"
    and "RequestSettlement nid marketID outcome now d = Inr ((i, rep), d')"
  shows "ledger_inv d' \<and> market_inv d' \<and> intent_inv d'"
  using assms(5)
proof (cases rule: RequestSettlement_cases)
  case (replay old m)
  with assms show ?thesis by simp
next
  case fresh
  show ?thesis by (rule no_withdraw_new [OF assms(1-4) fresh(3) _ _ fresh(7)]) simp_all
qed

lemma RequestEscrowSet_cases:
  assumes "RequestEscrowSet nid marketID target expiry now d = Inr ((i, rep), d')"
  obtains (replay) old where "rep" "d' = d" "old \<in> set (intents d)" "i = in_id old"
      "escrow_inflight old" "in_market old = Some marketID"
  | (fresh) "\<not> rep" "i = nid" "nid \<notin> in_id ` set (intents d)"
      "\<And>q. q \<in> set (intents d) \<Longrightarrow> escrow_inflight q \<Longrightarrow> in_market q \<noteq> Some marketID"
      "d' = insert_outbox nid ''escrow_set'' (escrow_payload nid marketID target expiry) now
        (d\<lparr>intents := intents d @
          [new_intent nid None EscrowSet None (Some marketID) target (now + 60000) expiry]\<rparr>)"
proof (cases "select_one (\<lambda>r. in_kind r = EscrowSet \<and> in_market r = Some marketID \<and> inflight r) (intents d)")
  case None
  with assms show ?thesis
    by (intro fresh) (auto simp: RequestEscrowSet_def insert_intent_Inr escrow_inflight_def select_one_None_iff)
next
  case (Some old)
  with assms select_one_SomeD [OF Some] show ?thesis
    by (intro replay [of old]) (auto simp: RequestEscrowSet_def escrow_inflight_def)
qed

lemma RequestEscrowSet_inv:
  assumes "ledger_inv d" "market_inv d" "intent_inv d" and "id_ok nid"
    and "RequestEscrowSet nid marketID target expiry now d = Inr ((i, rep), d')"
  shows "ledger_inv d' \<and> market_inv d' \<and> intent_inv d'"
  using assms(5)
proof (cases rule: RequestEscrowSet_cases)
  case (replay old)
  with assms show ?thesis by simp
next
  case fresh
  have "markets d = markets d" ..
  show ?thesis
    by (rule no_withdraw_new [OF assms(1-4) fresh(3), where ms = "markets d"])
       (use fresh(4,5) in simp_all)
qed

end
