(* ===== verification/Transitions.thy ===== *)
theory Transitions
  imports Intent
begin

text \<open>
  What the transitions of \<open>internal/core/intent.go\<close> do to the books: submitting, confirming and
  expiring keep every invariant; reverting a confirmed withdrawal keeps the books but leaves the
  payment's idempotency key used.
\<close>

section \<open>Trading does not touch intents\<close>

lemma trade_frame_intent_inv:
  assumes "intent_inv d" and fr: "trade_frame d d'"
  shows "intent_inv d'"
  by (rule intent_inv_frame [OF assms(1)]) (use fr in \<open>simp_all add: trade_frame_def\<close>)

section \<open>Submitting\<close>

lemma MarkSubmitted_frame:
  "Balance (MarkSubmitted iid tx msg d) = Balance d" "posted (MarkSubmitted iid tx msg d) = posted d"
  "ledger_inv (MarkSubmitted iid tx msg d) = ledger_inv d"
  "positions (MarkSubmitted iid tx msg d) = positions d" "outbox (MarkSubmitted iid tx msg d) = outbox d"
  "chain_facts (MarkSubmitted iid tx msg d) = chain_facts d"
  by (simp_all add: MarkSubmitted_def)

text \<open>The conditional update written as an unconditional one on the row's key.\<close>

definition submit_row :: "string \<Rightarrow> string \<Rightarrow> intent_row \<Rightarrow> intent_row" where
  "submit_row tx msg r = (if inflight r then r\<lparr>in_state := StateSubmitted, in_attempts := in_attempts r + 1,
     in_chain_tx := (if tx = [] then in_chain_tx r else Some tx), in_last_error := null_if_empty msg\<rparr> else r)"

lemma MarkSubmitted_rows:
  "intents (MarkSubmitted iid tx msg d) = update_where (\<lambda>r. in_id r = iid) (submit_row tx msg) (intents d)"
  by (auto simp: MarkSubmitted_def update_where_def submit_row_def inflight_def)

lemma submit_row_simps [simp]:
  "in_id (submit_row tx msg r) = in_id r" "in_kind (submit_row tx msg r) = in_kind r"
  "in_user (submit_row tx msg r) = in_user r" "in_market (submit_row tx msg r) = in_market r"
  "in_amount (submit_row tx msg r) = in_amount r" "inflight (submit_row tx msg r) = inflight r"
  "pending_of u (submit_row tx msg r) = pending_of u r"
  "escrow_inflight (submit_row tx msg r) = escrow_inflight r" "row_ok r \<Longrightarrow> row_ok (submit_row tx msg r)"
  by (auto simp: submit_row_def inflight_def pending_of_def escrow_inflight_def row_ok_def)

lemma MarkSubmitted_inv:
  assumes "ledger_inv d" "market_inv d" "intent_inv d"
  shows "ledger_inv (MarkSubmitted iid tx msg d) \<and> market_inv (MarkSubmitted iid tx msg d) \<and>
    intent_inv (MarkSubmitted iid tx msg d)"
proof -
  have books: "intent_books d" and keys: "intent_keys d" using assms(3) by (simp_all add: intent_inv_def)
  have "intent_inv (MarkSubmitted iid tx msg d)"
  proof (cases "select_one (\<lambda>r. in_id r = iid) (intents d)")
    case None
    then have "update_where (\<lambda>r. in_id r = iid) (submit_row tx msg) (intents d) = intents d"
      by (intro update_where_noop) (auto simp: select_one_None_iff)
    then have "intents (MarkSubmitted iid tx msg d) = intents d" by (simp add: MarkSubmitted_rows)
    then show ?thesis
      by (intro intent_inv_frame [OF assms(3)]) (simp_all add: MarkSubmitted_frame)
  next
    case (Some r)
    from select_one_SomeD [OF Some] have mem: "r \<in> set (intents d)" "in_id r = iid" by auto
    have ok: "row_ok r" by (rule intent_books_parts(2) [OF books mem(1)])
    have "intent_books (MarkSubmitted iid tx msg d)"
      by (rule intent_books_update [OF books Some MarkSubmitted_rows])
         (use ok in \<open>simp_all add: MarkSubmitted_frame\<close>)
    moreover have "intent_keys (MarkSubmitted iid tx msg d)"
    proof (rule intent_keys_update [OF keys Some MarkSubmitted_rows])
      show "id_ok (in_id q)" if "q \<in> set (intents d)" for q
        using intent_books_parts(2) [OF books that] by (simp add: row_ok_def)
      show "distinct (map in_id (intents d))" by (rule intent_books_parts(1) [OF books])
      show "posted (MarkSubmitted iid tx msg d) (final_key iid) = None \<and>
          posted (MarkSubmitted iid tx msg d) (refund_key iid) = None"
        if "in_kind r = Withdraw" "inflight (submit_row tx msg r)"
        using that keys mem by (auto simp: intent_keys_def MarkSubmitted_frame)
    qed (simp_all add: MarkSubmitted_frame)
    ultimately show ?thesis by (simp add: intent_inv_def)
  qed
  moreover have "market_inv (MarkSubmitted iid tx msg d)"
    by (rule market_inv_frame [OF assms(2)]) (simp_all add: MarkSubmitted_frame)
  ultimately show ?thesis using assms(1) by (simp add: MarkSubmitted_frame)
qed

section \<open>The books of one intent\<close>

definition core_inv :: "db \<Rightarrow> bool" where
  "core_inv d \<longleftrightarrow> ledger_inv d \<and> market_inv d \<and> intent_inv d"

lemma core_invI: "ledger_inv d \<Longrightarrow> market_inv d \<Longrightarrow> intent_inv d \<Longrightarrow> core_inv d"
  by (simp add: core_inv_def)

lemma core_invD:
  assumes "core_inv d"
  shows "ledger_inv d" "market_inv d" "intent_inv d" "intent_books d" "intent_keys d"
  using assms by (simp_all add: core_inv_def intent_inv_def)

lemma intent_row:
  assumes "intent_books d" and "select_one (\<lambda>r. in_id r = iid) (intents d) = Some r"
  shows "r \<in> set (intents d)" "in_id r = iid" "row_ok r" "id_ok iid"
    and "iid \<in> ob_intent ` set (outbox d)"
    and "in_kind r = Withdraw \<Longrightarrow> in_user r = Some (text_or_empty (in_user r))"
  using assms select_one_SomeD [OF assms(2)] intent_books_parts(2,3) [OF assms(1), of r]
  by (auto simp: row_ok_def text_or_empty_def)

lemma intent_row_unique:
  assumes "intent_books d" and "select_one (\<lambda>r. in_id r = iid) (intents d) = Some r"
    and "q \<in> set (intents d)" and "in_id q = iid"
  shows "q = r"
  using intent_books_parts(1) [OF assms(1)] intent_row(1,2) [OF assms(1,2)] assms(3,4)
  by (metis eq_key_imp_eq_value inj_on_def distinct_map)

lemma pending_covers:
  assumes "intent_books d" and r: "select_one (\<lambda>r. in_id r = iid) (intents d) = Some r"
    and "in_kind r = Withdraw" and "inflight r"
  shows "in_amount r \<le> Balance d (PendingAcct (text_or_empty (in_user r)))"
proof -
  note row = intent_row [OF assms(1,2)]
  have "in_amount r \<le> pending_sum d (text_or_empty (in_user r))"
    unfolding pending_sum_def
  proof (rule sum_where_member_le)
    show "pending_of (text_or_empty (in_user r)) r"
      using assms(3,4) row(6) by (simp add: pending_of_def)
    show "0 \<le> in_amount q" if "q \<in> set (intents d)" "pending_of (text_or_empty (in_user r)) q" for q
      using that intent_books_parts(2) [OF assms(1) that(1)] by (auto simp: pending_of_def row_ok_def)
  qed (rule row(1))
  then show ?thesis using intent_books_parts(5) [OF assms(1)] by simp
qed

lemma reverted_never_stored:
  "intent_books d \<Longrightarrow> select_one (\<lambda>r. in_id r = iid) (intents d) = Some r \<Longrightarrow> in_state r \<noteq> StateReverted"
  using intent_row(3) by (auto simp: row_ok_def)

section \<open>Confirming\<close>

lemma Confirm_cases:
  assumes "intent_books d" and "Confirm gen ntid iid height hash d = Inr d'"
  obtains (already) r where "select_one (\<lambda>r. in_id r = iid) (intents d) = Some r"
      "in_state r = StateConfirmed" "d' = d"
  | (withdraw) r i rep d1 where "select_one (\<lambda>r. in_id r = iid) (intents d) = Some r"
      "inflight r" "in_kind r = Withdraw"
      "PostTx ntid (Transfer ''withdraw.settle'' (final_key iid)
         [Leg (PendingAcct (text_or_empty (in_user r))) (- in_amount r), Leg AcctExternal (in_amount r)]) d =
       Inr ((i, rep), d1)" "d' = set_confirmed iid height hash (null_if_empty i) d1"
  | (settle) r m outcome d1 where "select_one (\<lambda>r. in_id r = iid) (intents d) = Some r"
      "inflight r" "in_kind r = SettleMarket"
      "select_one (\<lambda>m. mk_id m = text_or_empty (in_market r)) (markets d) = Some m"
      "mk_outcome m = Some outcome"
      "settleMarketTx gen (text_or_empty (in_market r)) outcome d = Inr d1"
      "d' = set_confirmed iid height hash None d1"
  | (escrow) r where "select_one (\<lambda>r. in_id r = iid) (intents d) = Some r"
      "inflight r" "in_kind r = EscrowSet" "d' = set_confirmed iid height hash None d"
proof -
  from assms(2) obtain r where r: "select_one (\<lambda>r. in_id r = iid) (intents d) = Some r"
    and rest: "(if in_state r = StateConfirmed then Inr d
      else if in_state r \<noteq> StateSubmitted \<and> in_state r \<noteq> StateReserved \<and> in_state r \<noteq> StateReverted
      then Inl ErrConflict
      else try_bind (confirm_effect gen ntid r d) (\<lambda>(tid, d1).
         Inr (set_confirmed iid height hash tid d1))) = Inr d'"
    by (auto simp: Confirm_def)
  show ?thesis
  proof (cases "in_state r = StateConfirmed")
    case True
    with rest show ?thesis by (intro already [OF r]) auto
  next
    case False
    with rest reverted_never_stored [OF assms(1) r] have fl: "inflight r"
      and eff: "try_bind (confirm_effect gen ntid r d) (\<lambda>(tid, d1).
         Inr (set_confirmed iid height hash tid d1)) = Inr d'"
      by (auto simp: inflight_def split: if_splits)
    have id: "in_id r = iid" using select_one_SomeD [OF r] by simp
    show ?thesis
    proof (cases "in_kind r")
      case Withdraw
      with eff show ?thesis
        by (auto simp: confirm_effect_def id intro: withdraw [OF r fl Withdraw])
    next
      case SettleMarket
      with eff show ?thesis
        by (auto simp: confirm_effect_def intro: settle [OF r fl SettleMarket])
    next
      case EscrowSet
      with eff show ?thesis
        by (auto simp: confirm_effect_def intro: escrow [OF r fl EscrowSet])
    qed
  qed
qed

lemma set_confirmed_simps [simp]:
  "Balance (set_confirmed iid h hash tid d) = Balance d" "posted (set_confirmed iid h hash tid d) = posted d"
  "ledger_inv (set_confirmed iid h hash tid d) = ledger_inv d"
  "positions (set_confirmed iid h hash tid d) = positions d"
  "markets (set_confirmed iid h hash tid d) = markets d"
  "outbox (set_confirmed iid h hash tid d) = outbox d"
  "chain_facts (set_confirmed iid h hash tid d) = chain_facts d"
  "intents (set_confirmed iid h hash tid d) = update_where (\<lambda>r. in_id r = iid)
     (\<lambda>r. r\<lparr>in_state := StateConfirmed, in_height := Some h, in_hash := Some hash,
        in_final_transfer := tid\<rparr>) (intents d)"
  by (simp_all add: set_confirmed_def)

text \<open>
  Once the books of a withdrawal's two accounts are moved, its row leaves the set of in-flight
  intents: the update that \<open>Confirm\<close> and \<open>Expire\<close> share.
\<close>

lemma leave_inflight_inv:
  assumes inv: "core_inv d" and r: "select_one (\<lambda>r. in_id r = iid) (intents d) = Some r"
    and led: "ledger_inv d'" and mar: "market_inv d'"
    and ins: "intents d' = update_where (\<lambda>r. in_id r = iid) f (intents d)"
    and ob: "outbox d' = outbox d"
    and f: "\<And>q. in_id (f q) = in_id q \<and> in_kind (f q) = in_kind q \<and> in_market (f q) = in_market q \<and>
      in_user (f q) = in_user q \<and> in_amount (f q) = in_amount q"
    and out: "in_state (f r) = StateConfirmed \<or> in_state (f r) = StateExpired"
    and bal: "\<And>u. Balance d' (PendingAcct u) = Balance d (PendingAcct u) - (if pending_of u r then in_amount r else 0)"
    and key: "\<And>k. k \<noteq> final_key iid \<Longrightarrow> k \<noteq> refund_key iid \<Longrightarrow> \<not> prefix ''pos:'' k \<Longrightarrow> posted d' k = posted d k"
  shows "core_inv d'"
proof -
  note books = core_invD(4) [OF inv] and keys = core_invD(5) [OF inv]
  note row = intent_row [OF books r]
  have nofl: "\<not> inflight (f r)" using out by (auto simp: inflight_def)
  have "row_ok (f r)" using row(3) f out by (auto simp: row_ok_def)
  then have "intent_books d'"
    by (intro intent_books_update [OF books r ins])
       (use f ob nofl bal in \<open>auto simp: escrow_inflight_def pending_of_def\<close>)
  moreover have "intent_keys d'"
  proof (rule intent_keys_update [OF keys r ins])
    show "id_ok (in_id q)" if "q \<in> set (intents d)" for q
      using intent_books_parts(2) [OF books that] by (simp add: row_ok_def)
    show "distinct (map in_id (intents d))" by (rule intent_books_parts(1) [OF books])
    show "posted d' (reserve_key i) = posted d (reserve_key i) \<and>
        posted d' (final_key i) = posted d (final_key i) \<and> posted d' (refund_key i) = posted d (refund_key i)"
      if "i \<noteq> iid" for i
      using that by (simp add: key)
  qed (use f nofl in auto)
  ultimately show ?thesis using led mar by (simp add: core_inv_def intent_inv_def)
qed

text \<open>Both ways a withdrawal leaves \<open>pending_withdraw\<close>: one transfer out of the pending account.\<close>

lemma pending_out:
  assumes inv: "core_inv d" and r: "select_one (\<lambda>r. in_id r = iid) (intents d) = Some r"
    and kind: "in_kind r = Withdraw" and fl: "inflight r"
    and key: "key = final_key iid \<or> key = refund_key iid"
    and tgt: "target = AcctExternal \<or> target = AvailableAcct (text_or_empty (in_user r))"
    and post: "PostTx ntid (Transfer k key
      [Leg (PendingAcct (text_or_empty (in_user r))) (- in_amount r), Leg target (in_amount r)]) d =
      Inr ((i, rep), d1)"
  shows "\<not> rep" "i = ntid" "ledger_inv d1" "market_inv d1"
    and "Balance d1 a = Balance d a - (if a = PendingAcct (text_or_empty (in_user r)) then in_amount r else 0) +
      (if a = target then in_amount r else 0)"
    and "x \<noteq> key \<Longrightarrow> posted d1 x = posted d x"
proof -
  note led = core_invD(1) [OF inv] and books = core_invD(4) [OF inv] and keys = core_invD(5) [OF inv]
  note row = intent_row [OF books r]
  have amt: "0 < in_amount r" "int64 (in_amount r)" using row(3) kind by (auto simp: row_ok_def)
  have fresh: "posted d key = None"
    using keys row(1,2) kind fl key by (auto simp: intent_keys_def)
  then have nrep: "i = ntid \<and> \<not> rep"
    using pg.unused_key_posts [OF led post] by (simp add: Transfer_def)
  then show "\<not> rep" "i = ntid" by simp_all
  have neq: "PendingAcct (text_or_empty (in_user r)) \<noteq> target" using tgt by auto
  have legs: "legs_exact (t_legs (Transfer k key
      [Leg (PendingAcct (text_or_empty (in_user r))) (- in_amount r), Leg target (in_amount r)]))"
    using amt neq by (simp add: Transfer_def legs_exact_two)
  have post1: "PostTx ntid (Transfer k key
      [Leg (PendingAcct (text_or_empty (in_user r))) (- in_amount r), Leg target (in_amount r)]) d =
      Inr ((i, False), d1)" using post nrep by simp
  show "ledger_inv d1" by (rule pg.post_inv [OF led legs post])
  show "market_inv d1"
    by (rule post_keeps_market_inv [OF led core_invD(2) [OF inv] legs post])
       (use key tgt in \<open>auto simp: Transfer_def\<close>)
  show "Balance d1 a = Balance d a - (if a = PendingAcct (text_or_empty (in_user r)) then in_amount r else 0) +
      (if a = target then in_amount r else 0)"
    by (rule pg.two_legs(1) [OF led neq less_imp_le [OF amt(1)] amt(2) post1])
  show "posted d1 x = posted d x" if "x \<noteq> key"
    by (rule PostTx_other_key [OF led post]) (use that in \<open>simp add: Transfer_def\<close>)
qed

lemma pending_of_row:
  "in_kind r = Withdraw \<Longrightarrow> inflight r \<Longrightarrow> in_user r = Some (text_or_empty (in_user r)) \<Longrightarrow>
   pending_of u r \<longleftrightarrow> u = text_or_empty (in_user r)"
  by (auto simp: pending_of_def text_or_empty_def)

lemma Confirm_inv:
  assumes inv: "core_inv d" and res: "Confirm gen ntid iid height hash d = Inr d'"
  shows "core_inv d'"
proof -
  note books = core_invD(4) [OF inv]
  from books res show ?thesis
  proof (cases rule: Confirm_cases)
    case (already r)
    with inv show ?thesis by simp
  next
    case (withdraw r i rep d1)
    note row = intent_row [OF books withdraw(1)]
    note out = pending_out [OF inv withdraw(1,3,2) _ _ withdraw(4), simplified]
    have mar: "market_inv d'"
      by (rule market_inv_frame [OF out(4)]) (simp_all add: withdraw(5))
    show ?thesis
      by (rule leave_inflight_inv [OF inv withdraw(1) _ mar, where f = "\<lambda>r. r\<lparr>in_state := StateConfirmed,
            in_height := Some height, in_hash := Some hash, in_final_transfer := null_if_empty i\<rparr>"])
         (use out(3,5,6) withdraw(2,3) row(6) in
           \<open>simp_all add: withdraw(5) PostTx_frame [OF withdraw(4)] pending_of_row\<close>)
  next
    case (settle r m outcome d1)
    note led = core_invD(1) [OF inv] and mar = core_invD(2) [OF inv]
    note sp = settleMarketTx_spec [OF settle(6) led mar] and fr = settleMarketTx_frame [OF settle(6) led mar]
    have mar1: "market_inv d'"
      by (rule market_inv_frame [OF sp(2)]) (simp_all add: settle(7))
    show ?thesis
      by (rule leave_inflight_inv [OF inv settle(1) _ mar1, where f = "\<lambda>r. r\<lparr>in_state := StateConfirmed,
            in_height := Some height, in_hash := Some hash, in_final_transfer := None\<rparr>"])
         (use sp(1) fr settle(3) in \<open>simp_all add: settle(7) trade_frame_def pending_of_def\<close>)
  next
    case (escrow r)
    have mar1: "market_inv d'"
      by (rule market_inv_frame [OF core_invD(2) [OF inv]]) (simp_all add: escrow(4))
    show ?thesis
      by (rule leave_inflight_inv [OF inv escrow(1) _ mar1, where f = "\<lambda>r. r\<lparr>in_state := StateConfirmed,
            in_height := Some height, in_hash := Some hash, in_final_transfer := None\<rparr>"])
         (use core_invD(1) [OF inv] escrow(3) in \<open>simp_all add: escrow(4) pending_of_def\<close>)
  qed
qed

section \<open>Expiring\<close>

lemma Expire_cases:
  assumes "intent_books d" and "Expire ntid iid observedHeight now d = Inr d'"
  obtains (already) r where "select_one (\<lambda>r. in_id r = iid) (intents d) = Some r"
      "in_state r = StateExpired" "d' = d"
  | (withdraw) r i rep d1 where "select_one (\<lambda>r. in_id r = iid) (intents d) = Some r"
      "inflight r" "in_kind r = Withdraw" "0 < in_expiry r" "in_expiry r < observedHeight"
      "PostTx ntid (Transfer ''withdraw.refund'' (refund_key iid)
         [Leg (PendingAcct (text_or_empty (in_user r))) (- in_amount r),
          Leg (AvailableAcct (text_or_empty (in_user r))) (in_amount r)]) d = Inr ((i, rep), d1)"
      "d' = update_intent iid (\<lambda>r. r\<lparr>in_state := StateExpired\<rparr>) d1"
  | (settle) r where "select_one (\<lambda>r. in_id r = iid) (intents d) = Some r"
      "inflight r" "in_kind r = SettleMarket"
      "d' = update_intent iid (\<lambda>r. r\<lparr>in_deadline := now + 60000\<rparr>) (repend_outbox iid now d)"
  | (escrow) r where "select_one (\<lambda>r. in_id r = iid) (intents d) = Some r"
      "inflight r" "in_kind r = EscrowSet" "d' = update_intent iid (\<lambda>r. r\<lparr>in_state := StateExpired\<rparr>) d"
proof -
  from assms(2) obtain r where r: "select_one (\<lambda>r. in_id r = iid) (intents d) = Some r"
    by (auto simp: Expire_def)
  note res = assms(2) [unfolded Expire_def r of_option_code try_bind_simps]
  show ?thesis
  proof (cases "in_state r = StateExpired")
    case True
    with res show ?thesis by (intro already [OF r]) auto
  next
    case False
    with res have fl: "inflight r" by (auto simp: inflight_def split: if_splits)
    then have st: "\<not> (in_state r \<noteq> StateSubmitted \<and> in_state r \<noteq> StateReserved)"
      by (auto simp: inflight_def)
    note res1 = res [unfolded if_not_P [OF False] if_not_P [OF st]]
    show ?thesis
    proof (cases "in_kind r")
      case Withdraw
      with res1 show ?thesis
        by (auto intro!: withdraw [OF r fl Withdraw] split: if_splits)
    next
      case SettleMarket
      with res1 show ?thesis by (intro settle [OF r fl SettleMarket]) simp
    next
      case EscrowSet
      with res1 show ?thesis by (intro escrow [OF r fl EscrowSet]) simp
    qed
  qed
qed

lemma update_intent_simps [simp]:
  "Balance (update_intent iid f d) = Balance d" "posted (update_intent iid f d) = posted d"
  "ledger_inv (update_intent iid f d) = ledger_inv d" "positions (update_intent iid f d) = positions d"
  "outbox (update_intent iid f d) = outbox d" "chain_facts (update_intent iid f d) = chain_facts d"
  "markets (update_intent iid f d) = markets d"
  "intents (update_intent iid f d) = update_where (\<lambda>r. in_id r = iid) f (intents d)"
  by (simp_all add: update_intent_def)

lemma still_inflight_inv:
  assumes inv: "core_inv d" and r: "select_one (\<lambda>r. in_id r = iid) (intents d) = Some r"
    and kind: "in_kind r \<noteq> Withdraw"
    and f: "\<And>q. in_id (f q) = in_id q \<and> in_kind (f q) = in_kind q \<and> in_market (f q) = in_market q \<and>
      in_state (f q) = in_state q \<and> in_user (f q) = in_user q \<and> in_amount (f q) = in_amount q"
  shows "core_inv (update_intent iid f (repend_outbox iid now d))"
proof -
  let ?d' = "update_intent iid f (repend_outbox iid now d)"
  note books = core_invD(4) [OF inv] and keys = core_invD(5) [OF inv]
  note row = intent_row [OF books r]
  have ins: "intents ?d' = update_where (\<lambda>r. in_id r = iid) f (intents d)" by simp
  have same: "inflight (f r) = inflight r" "escrow_inflight (f r) = escrow_inflight r"
    "pending_of u (f r) = pending_of u r" "row_ok (f r)" for u
    using f [of r] row(3) by (auto simp: inflight_def escrow_inflight_def pending_of_def row_ok_def)
  have "intent_books ?d'"
    by (rule intent_books_update [OF books r ins]) (use f same row(5) in auto)
  moreover have "intent_keys ?d'"
  proof (rule intent_keys_update [OF keys r ins])
    show "id_ok (in_id q)" if "q \<in> set (intents d)" for q
      using intent_books_parts(2) [OF books that] by (simp add: row_ok_def)
    show "distinct (map in_id (intents d))" by (rule intent_books_parts(1) [OF books])
  qed (use f kind in auto)
  moreover have "market_inv ?d'" by (rule market_inv_frame [OF core_invD(2) [OF inv]]) simp_all
  ultimately show ?thesis using core_invD(1) [OF inv] by (simp add: core_inv_def intent_inv_def)
qed

lemma Expire_inv:
  assumes inv: "core_inv d" and res: "Expire ntid iid observedHeight now d = Inr d'"
  shows "core_inv d'"
proof -
  note books = core_invD(4) [OF inv]
  from books res show ?thesis
  proof (cases rule: Expire_cases)
    case (already r)
    with inv show ?thesis by simp
  next
    case (withdraw r i rep d1)
    note row = intent_row [OF books withdraw(1)]
    note out = pending_out [OF inv withdraw(1,3,2) _ _ withdraw(6), simplified]
    have mar: "market_inv d'"
      by (rule market_inv_frame [OF out(4)]) (simp_all add: withdraw(7))
    show ?thesis
      by (rule leave_inflight_inv [OF inv withdraw(1) _ mar, where f = "\<lambda>r. r\<lparr>in_state := StateExpired\<rparr>"])
         (use out(3,5,6) withdraw(2,3) row(6) in
           \<open>simp_all add: withdraw(7) PostTx_frame [OF withdraw(6)] pending_of_row\<close>)
  next
    case (settle r)
    then show ?thesis using still_inflight_inv [OF inv settle(1)] by simp
  next
    case (escrow r)
    have mar1: "market_inv d'"
      by (rule market_inv_frame [OF core_invD(2) [OF inv]]) (simp_all add: escrow(4))
    show ?thesis
      by (rule leave_inflight_inv [OF inv escrow(1) _ mar1, where f = "\<lambda>r. r\<lparr>in_state := StateExpired\<rparr>"])
         (use core_invD(1) [OF inv] escrow(3) in \<open>simp_all add: escrow(4) pending_of_def\<close>)
  qed
qed

section \<open>What a confirmation and a refund do, and that they are possible\<close>

lemma select_update_id:
  assumes "\<And>q. in_id (f q) = in_id q"
  shows "select_one (\<lambda>r. in_id r = iid) (update_where (\<lambda>r. in_id r = iid) f rs) =
    map_option f (select_one (\<lambda>r. in_id r = iid) rs)"
  using assms by (induction rs) (auto simp: row_simps)

lemma Confirm_withdraw:
  assumes inv: "core_inv d" and r: "select_one (\<lambda>r. in_id r = iid) (intents d) = Some r"
    and kind: "in_kind r = Withdraw" and fl: "inflight r"
    and res: "Confirm gen ntid iid height hash d = Inr d'"
  shows "Balance d' a = Balance d a - (if a = PendingAcct (text_or_empty (in_user r)) then in_amount r else 0) +
      (if a = AcctExternal then in_amount r else 0)"
    and "select_one (\<lambda>r. in_id r = iid) (intents d') =
      Some (r\<lparr>in_state := StateConfirmed, in_height := Some height, in_hash := Some hash,
        in_final_transfer := null_if_empty ntid\<rparr>)"
    and "posted d' (final_key iid) = Some ntid"
    and "x \<noteq> final_key iid \<Longrightarrow> posted d' x = posted d x"
proof -
  from core_invD(4) [OF inv] res obtain i rep d1 where
    post: "PostTx ntid (Transfer ''withdraw.settle'' (final_key iid)
         [Leg (PendingAcct (text_or_empty (in_user r))) (- in_amount r), Leg AcctExternal (in_amount r)]) d =
       Inr ((i, rep), d1)" and d': "d' = set_confirmed iid height hash (null_if_empty i) d1"
    by (cases rule: Confirm_cases) (use r kind fl in \<open>auto simp: inflight_def\<close>)
  note out = pending_out [OF inv r kind fl _ _ post, simplified]
  show "Balance d' a = Balance d a - (if a = PendingAcct (text_or_empty (in_user r)) then in_amount r else 0) +
      (if a = AcctExternal then in_amount r else 0)"
    by (simp add: d' out(5))
  show "posted d' x = posted d x" if "x \<noteq> final_key iid" using that by (simp add: d' out(6))
  have post1: "PostTx ntid (Transfer ''withdraw.settle'' (final_key iid)
         [Leg (PendingAcct (text_or_empty (in_user r))) (- in_amount r), Leg AcctExternal (in_amount r)]) d =
       Inr ((i, False), d1)" using post out(1) by simp
  show "posted d' (final_key iid) = Some ntid"
    using pg.post_key [OF core_invD(1) [OF inv] post1, of "final_key iid"] by (simp add: d' Transfer_def)
  show "select_one (\<lambda>r. in_id r = iid) (intents d') =
      Some (r\<lparr>in_state := StateConfirmed, in_height := Some height, in_hash := Some hash,
        in_final_transfer := null_if_empty ntid\<rparr>)"
    by (simp add: d' select_update_id PostTx_frame [OF post] r out(2))
qed

lemma Confirm_withdraw_possible:
  assumes inv: "core_inv d" and r: "select_one (\<lambda>r. in_id r = iid) (intents d) = Some r"
    and kind: "in_kind r = Withdraw" and fl: "inflight r"
    and "ntid \<notin> tr_id ` set (transfers d)" and rng: "int64 (Balance d AcctExternal + in_amount r)"
  shows "\<exists>d'. Confirm gen ntid iid height hash d = Inr d'"
proof -
  note led = core_invD(1) [OF inv] and books = core_invD(4) [OF inv] and keys = core_invD(5) [OF inv]
  note row = intent_row [OF books r]
  have amt: "0 < in_amount r" "int64 (in_amount r)" using row(3) kind by (auto simp: row_ok_def)
  let ?u = "text_or_empty (in_user r)"
  let ?t = "Transfer ''withdraw.settle'' (final_key iid)
         [Leg (PendingAcct ?u) (- in_amount r), Leg AcctExternal (in_amount r)]"
  have cover: "in_amount r \<le> Balance d (PendingAcct ?u)" by (rule pending_covers [OF books r kind fl])
  have "int64 (Balance d (PendingAcct ?u) - in_amount r)"
    using cover ledger_inv_int64 [OF led, of "PendingAcct ?u"] amt by (auto simp: int64_def)
  then have "\<exists>d'. PostTx ntid ?t d = Inr ((ntid, False), d')"
    using amt rng cover keys row kind fl assms(5)
    by (intro PostTx_succeeds [OF led])
       (auto simp: Transfer_def legs_exact_two leg_total_Leg int64_neg intent_keys_def)
  then show ?thesis
    using r kind fl row(2) by (auto simp: Confirm_def confirm_effect_def inflight_def)
qed

lemma Expire_withdraw:
  assumes inv: "core_inv d" and r: "select_one (\<lambda>r. in_id r = iid) (intents d) = Some r"
    and kind: "in_kind r = Withdraw" and fl: "inflight r"
    and res: "Expire ntid iid observedHeight now d = Inr d'"
  shows "in_expiry r < observedHeight"
    and "Balance d' a = Balance d a - (if a = PendingAcct (text_or_empty (in_user r)) then in_amount r else 0) +
      (if a = AvailableAcct (text_or_empty (in_user r)) then in_amount r else 0)"
    and "select_one (\<lambda>r. in_id r = iid) (intents d') = Some (r\<lparr>in_state := StateExpired\<rparr>)"
proof -
  from core_invD(4) [OF inv] res obtain i rep d1 where
    post: "PostTx ntid (Transfer ''withdraw.refund'' (refund_key iid)
         [Leg (PendingAcct (text_or_empty (in_user r))) (- in_amount r),
          Leg (AvailableAcct (text_or_empty (in_user r))) (in_amount r)]) d = Inr ((i, rep), d1)"
    and d': "d' = update_intent iid (\<lambda>r. r\<lparr>in_state := StateExpired\<rparr>) d1"
    and ex: "in_expiry r < observedHeight"
    by (cases rule: Expire_cases) (use r kind fl in \<open>auto simp: inflight_def\<close>)
  show "in_expiry r < observedHeight" by (rule ex)
  show "Balance d' a = Balance d a - (if a = PendingAcct (text_or_empty (in_user r)) then in_amount r else 0) +
      (if a = AvailableAcct (text_or_empty (in_user r)) then in_amount r else 0)"
    using pending_out(5) [OF inv r kind fl _ _ post] by (simp add: d')
  show "select_one (\<lambda>r. in_id r = iid) (intents d') = Some (r\<lparr>in_state := StateExpired\<rparr>)"
    using r by (simp add: d' PostTx_frame [OF post] select_update_id)
qed

section \<open>Reverting a confirmation\<close>

definition unconfirm :: "int \<Rightarrow> intent_row \<Rightarrow> intent_row" where
  "unconfirm now r = r\<lparr>in_state := StateSubmitted, in_height := None, in_hash := None,
     in_deadline := now + WithdrawTTL\<rparr>"

lemma Revert_cases:
  assumes "Revert ntid iid orphanHash now d = Inr d'"
  obtains (idle) r where "select_one (\<lambda>r. in_id r = iid) (intents d) = Some r"
      "in_state r \<noteq> StateConfirmed" "d' = d"
  | (withdraw) r i rep d1 where "select_one (\<lambda>r. in_id r = iid) (intents d) = Some r"
      "in_state r = StateConfirmed" "in_kind r = Withdraw"
      "PostTx ntid (Transfer ''withdraw.settle.reverted'' (revert_key iid orphanHash)
         [Leg AcctExternal (- in_amount r), Leg (PendingAcct (text_or_empty (in_user r))) (in_amount r)]) d =
       Inr ((i, rep), d1)"
      "d' = repend_outbox iid now (update_intent iid (unconfirm now) d1)"
  | (other) r where "select_one (\<lambda>r. in_id r = iid) (intents d) = Some r"
      "in_state r = StateConfirmed" "in_kind r \<noteq> Withdraw" "\<not> escrow_clash r d"
      "d' = repend_outbox iid now (update_intent iid (unconfirm now) d)"
proof -
  from assms obtain r where r: "select_one (\<lambda>r. in_id r = iid) (intents d) = Some r"
    by (auto simp: Revert_def)
  note res = assms [unfolded Revert_def r of_option_code try_bind_simps, folded unconfirm_def]
  show ?thesis
  proof (cases "in_state r = StateConfirmed")
    case False
    with res show ?thesis by (intro idle [OF r]) auto
  next
    case True
    show ?thesis
    proof (cases "in_kind r = Withdraw")
      case W: True
      with res True obtain i rep d1 where "PostTx ntid (Transfer ''withdraw.settle.reverted''
          (revert_key iid orphanHash) [Leg AcctExternal (- in_amount r),
           Leg (PendingAcct (text_or_empty (in_user r))) (in_amount r)]) d = Inr ((i, rep), d1)"
        "d' = repend_outbox iid now (update_intent iid (unconfirm now) d1)"
        by (auto split: if_splits)
      then show ?thesis by (rule withdraw [OF r True W])
    next
      case W: False
      with res True show ?thesis
        by (auto intro!: other [OF r True W] split: if_splits)
    qed
  qed
qed

lemma unconfirm_simps [simp]:
  "in_id (unconfirm now r) = in_id r" "in_kind (unconfirm now r) = in_kind r"
  "in_user (unconfirm now r) = in_user r" "in_market (unconfirm now r) = in_market r"
  "in_amount (unconfirm now r) = in_amount r" "in_state (unconfirm now r) = StateSubmitted"
  "inflight (unconfirm now r)"
  by (simp_all add: unconfirm_def inflight_def)

text \<open>
  Reverting restores the books: the money is back in the pending account of an intent that is in
  flight again. The compensation is keyed by the orphaned block, so it must not have been posted
  for this block before.
\<close>

lemma Revert_books:
  assumes led: "ledger_inv d" and mar: "market_inv d" and books: "intent_books d"
    and fresh: "posted d (revert_key iid orphanHash) = None"
    and res: "Revert ntid iid orphanHash now d = Inr d'"
  shows "ledger_inv d' \<and> market_inv d' \<and> intent_books d'"
  using res
proof (cases rule: Revert_cases)
  case (idle r)
  with led mar books show ?thesis by simp
next
  case (withdraw r i rep d1)
  note row = intent_row [OF books withdraw(1)]
  let ?u = "text_or_empty (in_user r)"
  have amt: "0 < in_amount r" "int64 (in_amount r)" using row(3) withdraw(3) by (auto simp: row_ok_def)
  let ?t = "Transfer ''withdraw.settle.reverted'' (revert_key iid orphanHash)
         [Leg AcctExternal (- in_amount r), Leg (PendingAcct ?u) (in_amount r)]"
  have legs: "legs_exact (t_legs ?t)" using amt by (simp add: Transfer_def legs_exact_two)
  have "\<not> rep"
    using pg.unused_key_posts [OF led withdraw(4)] fresh by (simp add: Transfer_def)
  then have post: "PostTx ntid ?t d = Inr ((i, False), d1)" using withdraw(4) by simp
  have bal: "Balance d1 a = Balance d a - (if a = AcctExternal then in_amount r else 0) +
      (if a = PendingAcct ?u then in_amount r else 0)" for a
    by (rule pg.two_legs(1) [OF led _ less_imp_le [OF amt(1)] amt(2) post]) simp
  have "market_inv d1"
    by (rule post_keeps_market_inv [OF led mar legs post]) (auto simp: Transfer_def)
  then have "market_inv d'" by (rule market_inv_frame) (simp_all add: withdraw(5))
  moreover have "ledger_inv d'" using pg.post_inv [OF led legs post] by (simp add: withdraw(5))
  moreover have "intent_books d'"
  proof (rule intent_books_update [OF books withdraw(1)])
    show "intents d' = update_where (\<lambda>r. in_id r = iid) (unconfirm now) (intents d)"
      "ob_intent ` set (outbox d') = ob_intent ` set (outbox d)"
      by (simp_all add: withdraw(5) PostTx_frame [OF post])
    show "row_ok (unconfirm now r)" using row(3) by (simp add: row_ok_def)
    show "Balance d' (PendingAcct u) = Balance d (PendingAcct u) - (if pending_of u r then in_amount r else 0) +
        (if pending_of u (unconfirm now r) then in_amount (unconfirm now r) else 0)" for u
      using withdraw(2,3) row(6) pending_of_row [of "unconfirm now r" u]
      by (simp add: withdraw(5) bal pending_of_def inflight_def)
  qed (use withdraw(3) in \<open>simp_all add: escrow_inflight_def\<close>)
  ultimately show ?thesis by simp
next
  case (other r)
  note row = intent_row [OF books other(1)]
  have "intent_books d'"
  proof (rule intent_books_update [OF books other(1)])
    show "intents d' = update_where (\<lambda>r. in_id r = iid) (unconfirm now) (intents d)"
      "ob_intent ` set (outbox d') = ob_intent ` set (outbox d)"
      by (simp_all add: other(5))
    show "row_ok (unconfirm now r)" using row(3) by (simp add: row_ok_def)
    show "in_market q \<noteq> in_market r" if "escrow_inflight (unconfirm now r)" "q \<in> set (intents d)" "escrow_inflight q" for q
      using other(4) that by (auto simp: escrow_clash_def escrow_inflight_def list_ex_iff)
  qed (use other(3) in \<open>simp_all add: other(5) pending_of_def\<close>)
  moreover have "market_inv d'" by (rule market_inv_frame [OF mar]) (simp_all add: other(5))
  ultimately show ?thesis using led by (simp add: other(5))
qed

lemma Revert_withdraw:
  assumes led: "ledger_inv d" and books: "intent_books d"
    and r: "select_one (\<lambda>r. in_id r = iid) (intents d) = Some r"
    and kind: "in_kind r = Withdraw" and st: "in_state r = StateConfirmed"
    and fresh: "posted d (revert_key iid orphanHash) = None"
    and res: "Revert ntid iid orphanHash now d = Inr d'"
  shows "Balance d' a = Balance d a - (if a = AcctExternal then in_amount r else 0) +
      (if a = PendingAcct (text_or_empty (in_user r)) then in_amount r else 0)"
    and "posted d' (final_key iid) = posted d (final_key iid)"
    and "select_one (\<lambda>r. in_id r = iid) (intents d') = Some (unconfirm now r)"
proof -
  note row = intent_row [OF books r]
  have amt: "0 < in_amount r" "int64 (in_amount r)" using row(3) kind by (auto simp: row_ok_def)
  from res obtain i rep d1 where
    post: "PostTx ntid (Transfer ''withdraw.settle.reverted'' (revert_key iid orphanHash)
         [Leg AcctExternal (- in_amount r), Leg (PendingAcct (text_or_empty (in_user r))) (in_amount r)]) d =
       Inr ((i, rep), d1)"
    and d': "d' = repend_outbox iid now (update_intent iid (unconfirm now) d1)"
    by (cases rule: Revert_cases) (use r kind st in auto)
  have "\<not> rep" using pg.unused_key_posts [OF led post] fresh by (simp add: Transfer_def)
  with post have post1: "PostTx ntid (Transfer ''withdraw.settle.reverted'' (revert_key iid orphanHash)
         [Leg AcctExternal (- in_amount r), Leg (PendingAcct (text_or_empty (in_user r))) (in_amount r)]) d =
       Inr ((i, False), d1)" by simp
  show "Balance d' a = Balance d a - (if a = AcctExternal then in_amount r else 0) +
      (if a = PendingAcct (text_or_empty (in_user r)) then in_amount r else 0)"
    using pg.two_legs(1) [OF led _ less_imp_le [OF amt(1)] amt(2) post1] by (simp add: d')
  show "posted d' (final_key iid) = posted d (final_key iid)"
    using PostTx_other_key [OF led post, of "final_key iid"] row(4) by (simp add: d' Transfer_def)
  show "select_one (\<lambda>r. in_id r = iid) (intents d') = Some (unconfirm now r)"
    using r by (simp add: d' PostTx_frame [OF post] select_update_id)
qed

text \<open>
  After a revert the payment's key \<open>intent:<id>:final\<close> is still used, so confirming the same
  withdrawal again replays the first payment: the row becomes confirmed and no money moves.
\<close>

lemma Confirm_replays:
  assumes "select_one (\<lambda>r. in_id r = iid) (intents d) = Some r"
    and "in_kind r = Withdraw" and "inflight r" and "0 < in_amount r" "int64 (in_amount r)"
    and "posted d (final_key iid) = Some i"
  shows "Confirm gen ntid iid height hash d = Inr (set_confirmed iid height hash (null_if_empty i) d)"
proof -
  have "in_id r = iid" using select_one_SomeD [OF assms(1)] by simp
  moreover have "PostTx ntid (Transfer ''withdraw.settle'' (final_key iid)
      [Leg (PendingAcct (text_or_empty (in_user r))) (- in_amount r), Leg AcctExternal (in_amount r)]) d =
      Inr ((i, True), d)"
    by (rule pg.post_known) (use assms in \<open>simp_all add: Transfer_def legs_exact_two\<close>)
  ultimately show ?thesis
    using assms(1-3) by (auto simp: Confirm_def confirm_effect_def inflight_def)
qed

end
