(* ===== verification/Inbox.thy ===== *)
theory Inbox
  imports Transitions
begin

text \<open>
  The chain inbox, \<open>internal/core/inbox.go\<close>: the cursor, deduplicated events, provisional
  deposit credits, and \<open>RevertBlock\<close>, which compensates the credits of an orphaned block. The
  invariant \<open>fact_inv\<close> says which transfers exist for which facts; \<open>custody_inv\<close> says that
  the \<open>external\<close> account is the confirmed withdrawals less the live deposits.
\<close>

section \<open>Events\<close>

record stored_event =
  se_id :: string
  se_fact :: string
  se_seq :: int
  se_kind :: string
  se_user :: string
  se_amount :: int
  se_market :: string
  se_height :: int
  se_hash :: string
  se_status :: event_status

definition Cursor :: "db \<Rightarrow> int" where
  "Cursor d = chain_cursor d"

definition AdvanceCursor :: "int \<Rightarrow> db \<Rightarrow> db" where
  "AdvanceCursor sq d = d\<lparr>chain_cursor := max (chain_cursor d) sq\<rparr>"

definition event_payload :: "stored_event \<Rightarrow> json_obj" where
  "event_payload e = [(''fact_id'', JStr (se_fact e)), (''user'', JStr (se_user e)),
     (''amount'', JNum (se_amount e)), (''market_id'', JStr (se_market e))]"

definition RecordEvent :: "stored_event \<Rightarrow> db \<Rightarrow> bool \<times> db" where
  "RecordEvent e d =
    (if list_ex (\<lambda>q. ce_id q = se_id e) (chain_events d) then (False, d)
     else (True, d\<lparr>chain_events := chain_events d @
       [\<lparr>ce_id = se_id e, ce_seq = se_seq e, ce_kind = se_kind e, ce_payload = event_payload e,
         ce_height = se_height e, ce_hash = se_hash e, ce_status = EvReceived\<rparr>]\<rparr>))"

text \<open>A row read back: the payload's fields are found by name in the stored JSON.\<close>

definition read_event :: "chain_event_row \<Rightarrow> stored_event" where
  "read_event q =
    \<lparr>se_id = ce_id q, se_fact = json_str (ce_payload q) ''fact_id'', se_seq = ce_seq q, se_kind = ce_kind q,
     se_user = json_str (ce_payload q) ''user'', se_amount = json_int (ce_payload q) ''amount'',
     se_market = json_str (ce_payload q) ''market_id'', se_height = ce_height q, se_hash = ce_hash q,
     se_status = ce_status q\<rparr>"

definition PendingEvents :: "nat \<Rightarrow> db \<Rightarrow> stored_event list" where
  "PendingEvents lim d =
    map read_event (take lim (sort_key ce_seq (filter (\<lambda>q. ce_status q = EvReceived) (chain_events d))))"

definition SetEventStatus :: "string \<Rightarrow> event_status \<Rightarrow> db \<Rightarrow> db" where
  "SetEventStatus eid st d =
    d\<lparr>chain_events := update_where (\<lambda>q. ce_id q = eid) (\<lambda>q. q\<lparr>ce_status := st\<rparr>) (chain_events d)\<rparr>"

section \<open>Provisional credits\<close>

definition deposit_key :: "string \<Rightarrow> string" where "deposit_key eid = ''deposit:'' @ eid"

definition unwind_key :: "string \<Rightarrow> string" where "unwind_key eid = ''deposit:'' @ eid @ '':revert''"

text \<open>
  The insert fails on its foreign key to \<open>chain_events\<close>; a fact that exists is left as it is.
  The other foreign key, to \<open>transfers\<close>, holds because \<open>tid\<close> is a posted transfer.
\<close>

definition insert_fact :: "stored_event \<Rightarrow> string \<Rightarrow> db \<Rightarrow> error + db" where
  "insert_fact e tid d =
    (if list_ex (\<lambda>f. cf_event f = se_id e) (chain_facts d) then Inr d
     else if \<not> list_ex (\<lambda>q. ce_id q = se_id e) (chain_events d) then Inl ErrForeignKey
     else Inr (d\<lparr>chain_facts := chain_facts d @
       [\<lparr>cf_event = se_id e, cf_fact = se_fact e, cf_kind = se_kind e, cf_amount = se_amount e,
         cf_transfer = tid, cf_height = se_height e, cf_hash = se_hash e,
         cf_finalized = False, cf_reverted = False\<rparr>]\<rparr>))"

definition ApplyDeposit :: "string \<Rightarrow> stored_event \<Rightarrow> db \<Rightarrow> error + db" where
  "ApplyDeposit ntid e d =
    try_bind (PostTx ntid (Transfer ''deposit.provisional'' (deposit_key (se_id e))
      [Leg AcctExternal (- se_amount e), Leg (AvailableAcct (se_user e)) (se_amount e)]) d)
      (\<lambda>((tid, replayed), d1).
    try_bind (insert_fact e tid d1) (\<lambda>d2.
    Inr (SetEventStatus (se_id e) EvApplied d2)))"

definition ProvisionalFacts :: "db \<Rightarrow> chain_fact_row list" where
  "ProvisionalFacts d =
    sort_key cf_height (filter (\<lambda>f. \<not> cf_finalized f \<and> \<not> cf_reverted f) (chain_facts d))"

definition MarkFactFinalized :: "string \<Rightarrow> db \<Rightarrow> db" where
  "MarkFactFinalized eid d =
    d\<lparr>chain_facts := update_where (\<lambda>f. cf_event f = eid \<and> \<not> cf_reverted f)
       (\<lambda>f. f\<lparr>cf_finalized := True\<rparr>) (chain_facts d)\<rparr>"

definition unfinalized_sum :: "int \<Rightarrow> db \<Rightarrow> int" where
  "unfinalized_sum finalizedHeight d =
    sum_where (\<lambda>f. \<not> cf_reverted f \<and> cf_kind f = ''deposit'' \<and> cf_height f > finalizedHeight)
      cf_amount (chain_facts d)"

definition UnfinalizedApplied :: "int \<Rightarrow> db \<Rightarrow> error + int" where
  "UnfinalizedApplied finalizedHeight d = scan_int64 (unfinalized_sum finalizedHeight d)"

definition AppliedFactIDs :: "db \<Rightarrow> string set" where
  "AppliedFactIDs d = set (map cf_fact (filter (\<lambda>f. \<not> cf_reverted f) (chain_facts d)))"

section \<open>Orphaned blocks\<close>

text \<open>
  \<open>ConfirmedBlocks\<close> builds a map, so of two hashes at one height it keeps the one scanned
  last; a NULL hash cannot be scanned into a string.
\<close>

definition ConfirmedBlocks :: "db \<Rightarrow> error + (int \<rightharpoonup> string)" where
  "ConfirmedBlocks d =
    (let rows = filter (\<lambda>r. in_state r = StateConfirmed \<and> in_height r \<noteq> None) (intents d) in
     if list_ex (\<lambda>r. in_hash r = None) rows then Inl ErrScan
     else Inr (map_of (rev (remdups (map (\<lambda>r. (the (in_height r), the (in_hash r))) rows)))))"

record revert_item =
  ri_event :: string
  ri_fact :: string
  ri_kind :: string
  ri_user :: string
  ri_amount :: int

text \<open>The join of facts and events; the user is read from the event's payload.\<close>

definition revert_items :: "string \<Rightarrow> db \<Rightarrow> revert_item list" where
  "revert_items blockHash d =
    concat (map (\<lambda>f. map (\<lambda>q. \<lparr>ri_event = cf_event f, ri_fact = cf_fact f, ri_kind = cf_kind f,
        ri_user = json_str (ce_payload q) ''user'', ri_amount = cf_amount f\<rparr>)
        (filter (\<lambda>q. ce_id q = cf_event f) (chain_events d)))
      (filter (\<lambda>f. cf_hash f = blockHash \<and> \<not> cf_reverted f) (chain_facts d)))"

definition clawback :: "int \<Rightarrow> int \<Rightarrow> int" where
  "clawback amount avail =
    (let c = (if avail < amount then avail else amount) in if c < 0 then 0 else c)"

text \<open>The body of one item's transaction.\<close>

definition revert_item_tx :: "string \<Rightarrow> string \<Rightarrow> revert_item \<Rightarrow> db \<Rightarrow> error + db" where
  "revert_item_tx ntid blockHash it d =
    (let back = clawback (ri_amount it) (Balance d (AvailableAcct (ri_user it)));
         shortfall = i64 (ri_amount it - back) in
     try_bind (PostTx ntid (Transfer ''deposit.reverted'' (unwind_key (ri_event it))
       [Leg (AvailableAcct (ri_user it)) (- back), Leg AcctInsurance (- shortfall),
        Leg AcctExternal (ri_amount it)]) d) (\<lambda>(_, d1).
     let d2 = d1\<lparr>chain_facts := update_where (\<lambda>f. cf_event f = ri_event it)
               (\<lambda>f. f\<lparr>cf_reverted := True\<rparr>) (chain_facts d1)\<rparr>;
         d3 = SetEventStatus (ri_event it) EvOrphaned d2
     in Inr (if shortfall > 0 then
               Freeze (ri_user it) (''spent '' @ USD shortfall @
                 '' of a provisional deposit orphaned in '' @ blockHash) d3
             else d3)))"

text \<open>
  Every item commits on its own: an error ends the loop and what was committed stays. The
  result is the count and the error, if any, beside the database.
\<close>

fun revert_loop :: "(string \<Rightarrow> string) \<Rightarrow> string \<Rightarrow> revert_item list \<Rightarrow> nat \<Rightarrow> db \<Rightarrow> (nat \<times> error option) \<times> db" where
  "revert_loop gen blockHash [] n d = ((n, None), d)"
| "revert_loop gen blockHash (it # its) n d =
    (if ri_kind it \<noteq> ''deposit'' then revert_loop gen blockHash its n d
     else case revert_item_tx (gen (ri_event it)) blockHash it d of
       Inl e \<Rightarrow> ((n, Some e), d)
     | Inr d' \<Rightarrow> revert_loop gen blockHash its (Suc n) d')"

definition RevertBlock :: "(string \<Rightarrow> string) \<Rightarrow> string \<Rightarrow> db \<Rightarrow> (nat \<times> error option) \<times> db" where
  "RevertBlock gen blockHash d = revert_loop gen blockHash (revert_items blockHash d) 0 d"

section \<open>The invariants\<close>

definition deposit_fact :: "chain_fact_row \<Rightarrow> bool" where
  "deposit_fact f \<longleftrightarrow> cf_kind f = ''deposit'' \<and> 0 < cf_amount f \<and> int64 (cf_amount f)"

definition fact_inv :: "db \<Rightarrow> bool" where
  "fact_inv d \<longleftrightarrow>
     distinct (map cf_event (chain_facts d)) \<and>
     distinct (map ce_id (chain_events d)) \<and>
     (\<forall>q \<in> set (chain_events d). id_ok (ce_id q)) \<and>
     (\<forall>f \<in> set (chain_facts d). deposit_fact f \<and> cf_event f \<in> ce_id ` set (chain_events d)) \<and>
     (\<forall>e. id_ok e \<longrightarrow> e \<notin> cf_event ` set (chain_facts d) \<longrightarrow>
        posted d (deposit_key e) = None \<and> posted d (unwind_key e) = None) \<and>
     (\<forall>f \<in> set (chain_facts d). posted d (deposit_key (cf_event f)) \<noteq> None \<and>
        (\<not> cf_reverted f \<longrightarrow> posted d (unwind_key (cf_event f)) = None))"

definition live_deposits :: "db \<Rightarrow> int" where
  "live_deposits d = sum_where (\<lambda>f. \<not> cf_reverted f) cf_amount (chain_facts d)"

definition paid_out :: "db \<Rightarrow> int" where
  "paid_out d = sum_where (\<lambda>r. in_kind r = Withdraw \<and> in_state r = StateConfirmed) in_amount (intents d)"

definition custody_inv :: "db \<Rightarrow> bool" where
  "custody_inv d \<longleftrightarrow> Balance d AcctExternal = paid_out d - live_deposits d"

lemma fact_inv_parts:
  assumes "fact_inv d"
  shows "distinct (map cf_event (chain_facts d))" and "distinct (map ce_id (chain_events d))"
    and "q \<in> set (chain_events d) \<Longrightarrow> id_ok (ce_id q)"
    and "f \<in> set (chain_facts d) \<Longrightarrow> deposit_fact f"
    and "f \<in> set (chain_facts d) \<Longrightarrow> cf_event f \<in> ce_id ` set (chain_events d)"
    and "f \<in> set (chain_facts d) \<Longrightarrow> id_ok (cf_event f)"
    and "id_ok e \<Longrightarrow> e \<notin> cf_event ` set (chain_facts d) \<Longrightarrow>
      posted d (deposit_key e) = None \<and> posted d (unwind_key e) = None"
    and "f \<in> set (chain_facts d) \<Longrightarrow> posted d (deposit_key (cf_event f)) \<noteq> None"
    and "f \<in> set (chain_facts d) \<Longrightarrow> \<not> cf_reverted f \<Longrightarrow> posted d (unwind_key (cf_event f)) = None"
  using assms unfolding fact_inv_def by auto

lemma deposit_keys [simp]:
  "deposit_key a = deposit_key b \<longleftrightarrow> a = b" "unwind_key a = unwind_key b \<longleftrightarrow> a = b"
  "id_ok a \<Longrightarrow> deposit_key a \<noteq> unwind_key b" "id_ok a \<Longrightarrow> unwind_key b \<noteq> deposit_key a"
  "deposit_key a \<noteq> []" "unwind_key a \<noteq> []"
  "prefix ''deposit:'' (deposit_key a)" "prefix ''deposit:'' (unwind_key a)"
  by (auto simp: deposit_key_def unwind_key_def id_ok_def)

text \<open>The operations of the other components leave facts, events and their keys alone.\<close>

definition fact_frame :: "db \<Rightarrow> db \<Rightarrow> bool" where
  "fact_frame d d' \<longleftrightarrow> chain_facts d' = chain_facts d \<and> chain_events d' = chain_events d \<and>
     (\<forall>k. prefix ''deposit:'' k \<longrightarrow> posted d' k = posted d k)"

lemma fact_frame_inv: "fact_frame d d' \<Longrightarrow> fact_inv d \<Longrightarrow> fact_inv d'"
  by (simp add: fact_frame_def fact_inv_def)

lemma fact_frame_refl [simp]: "fact_frame d d"
  by (simp add: fact_frame_def)

lemma fact_frame_trans: "fact_frame a b \<Longrightarrow> fact_frame b c \<Longrightarrow> fact_frame a c"
  by (simp add: fact_frame_def)

lemma trade_fact_frame: "trade_frame d d' \<Longrightarrow> fact_frame d d'"
proof -
  have "\<not> prefix ''pos:'' k" if "prefix ''deposit:'' k" for k
    using that by (cases k) auto
  then show "trade_frame d d' \<Longrightarrow> fact_frame d d'"
    unfolding trade_frame_def fact_frame_def by auto
qed

lemma post_fact_frame:
  "ledger_inv d \<Longrightarrow> PostTx n t d = Inr ((i, r), d') \<Longrightarrow> \<not> prefix ''deposit:'' (t_key t) \<Longrightarrow> fact_frame d d'"
  unfolding fact_frame_def by (auto simp: PostTx_frame intro: PostTx_other_key)

lemma fact_frame_tables [simp]:
  "fact_frame d (d'\<lparr>intents := x\<rparr>) = fact_frame d d'" "fact_frame (d\<lparr>intents := x\<rparr>) d' = fact_frame d d'"
  "fact_frame d (d'\<lparr>markets := y\<rparr>) = fact_frame d d'"
  "fact_frame d (insert_outbox i op p now d') = fact_frame d d'"
  "fact_frame d (set_confirmed i h hash tid d') = fact_frame d d'"
  "fact_frame d (update_intent i f d') = fact_frame d d'"
  "fact_frame d (repend_outbox i now d') = fact_frame d d'"
  "fact_frame d (MarkSubmitted i tx msg d') = fact_frame d d'"
  by (simp_all add: fact_frame_def set_confirmed_def update_intent_def repend_outbox_def MarkSubmitted_def)

lemma not_deposit_prefix [simp]:
  "\<not> prefix ''deposit:'' (reserve_key i)" "\<not> prefix ''deposit:'' (final_key i)"
  "\<not> prefix ''deposit:'' (refund_key i)" "\<not> prefix ''deposit:'' (revert_key i h)"
  by (simp_all add: reserve_key_def final_key_def refund_key_def revert_key_def)

lemma reserve_withdraw_fact_frame:
  assumes "ledger_inv d" and "reserve_withdraw nid ntid user amount idemKey expiry now d = Inr (x, d')"
  shows "fact_frame d d'"
  using assms
  by (auto simp: reserve_withdraw_def insert_intent_Inr Let_def Transfer_def split: option.splits
    dest!: post_fact_frame [rotated])

section \<open>Applying a deposit\<close>

definition new_fact :: "stored_event \<Rightarrow> string \<Rightarrow> chain_fact_row" where
  "new_fact e tid = \<lparr>cf_event = se_id e, cf_fact = se_fact e, cf_kind = se_kind e, cf_amount = se_amount e,
     cf_transfer = tid, cf_height = se_height e, cf_hash = se_hash e, cf_finalized = False, cf_reverted = False\<rparr>"

lemma SetEventStatus_simps [simp]:
  "Balance (SetEventStatus e st d) = Balance d" "posted (SetEventStatus e st d) = posted d"
  "ledger_inv (SetEventStatus e st d) = ledger_inv d" "chain_facts (SetEventStatus e st d) = chain_facts d"
  "intents (SetEventStatus e st d) = intents d" "outbox (SetEventStatus e st d) = outbox d"
  "positions (SetEventStatus e st d) = positions d" "freezes (SetEventStatus e st d) = freezes d"
  "map ce_id (chain_events (SetEventStatus e st d)) = map ce_id (chain_events d)"
  by (simp_all add: SetEventStatus_def row_simps)

lemma SetEventStatus_ids [simp]:
  "ce_id ` set (chain_events (SetEventStatus e st d)) = ce_id ` set (chain_events d)"
  using SetEventStatus_simps(9) [of e st d] by (metis set_map)

lemma fact_inv_events:
  assumes "fact_inv d" and "chain_facts d' = chain_facts d" and "posted d' = posted d"
    and ids: "map ce_id (chain_events d') = map ce_id (chain_events d)"
  shows "fact_inv d'"
proof -
  have set_ids: "ce_id ` set (chain_events d') = ce_id ` set (chain_events d)" using ids by (metis set_map)
  have "\<forall>i \<in> ce_id ` set (chain_events d). id_ok i" using fact_inv_parts(3) [OF assms(1)] by auto
  then have "\<forall>q \<in> set (chain_events d'). id_ok (ce_id q)" unfolding set_ids [symmetric] by simp
  with set_ids assms show ?thesis by (simp add: fact_inv_def)
qed

lemma ApplyDeposit_cases:
  assumes led: "ledger_inv d" and fi: "fact_inv d" and ok: "id_ok (se_id e)"
    and amt: "0 < se_amount e" "int64 (se_amount e)"
    and res: "ApplyDeposit ntid e d = Inr d'"
  obtains (replay) "se_id e \<in> cf_event ` set (chain_facts d)" "d' = SetEventStatus (se_id e) EvApplied d"
  | (fresh) i d1 where "se_id e \<notin> cf_event ` set (chain_facts d)" "se_id e \<in> ce_id ` set (chain_events d)"
      "PostTx ntid (Transfer ''deposit.provisional'' (deposit_key (se_id e))
        [Leg AcctExternal (- se_amount e), Leg (AvailableAcct (se_user e)) (se_amount e)]) d = Inr ((i, False), d1)"
      "d' = SetEventStatus (se_id e) EvApplied (d1\<lparr>chain_facts := chain_facts d @ [new_fact e i]\<rparr>)"
proof -
  let ?t = "Transfer ''deposit.provisional'' (deposit_key (se_id e))
        [Leg AcctExternal (- se_amount e), Leg (AvailableAcct (se_user e)) (se_amount e)]"
  have legs: "legs_exact (t_legs ?t)" using amt by (simp add: Transfer_def legs_exact_two)
  from res obtain i rep d1 d2 where post: "PostTx ntid ?t d = Inr ((i, rep), d1)"
    and ins: "insert_fact e i d1 = Inr d2" and d': "d' = SetEventStatus (se_id e) EvApplied d2"
    by (auto simp: ApplyDeposit_def)
  have fr: "chain_facts d1 = chain_facts d" "chain_events d1 = chain_events d"
    using PostTx_frame [OF post] by simp_all
  show ?thesis
  proof (cases "se_id e \<in> cf_event ` set (chain_facts d)")
    case True
    then have "posted d (deposit_key (se_id e)) \<noteq> None" using fact_inv_parts(8) [OF fi] by auto
    then obtain j where "posted d (deposit_key (se_id e)) = Some j" by auto
    then have "PostTx ntid ?t d = Inr ((j, True), d)"
      by (intro pg.post_known [OF legs]) (simp_all add: Transfer_def)
    with post have "d1 = d" by simp
    with True ins d' show ?thesis by (intro replay) (simp_all add: insert_fact_def row_simps)
  next
    case False
    then have "posted d (deposit_key (se_id e)) = None" using fact_inv_parts(7) [OF fi ok] by simp
    then have "\<not> rep" using pg.unused_key_posts [OF led post] by (simp add: Transfer_def)
    with post have "PostTx ntid ?t d = Inr ((i, False), d1)" by simp
    moreover from ins False fr have "se_id e \<in> ce_id ` set (chain_events d)"
      "d2 = d1\<lparr>chain_facts := chain_facts d @ [new_fact e i]\<rparr>"
      by (auto simp: insert_fact_def row_simps new_fact_def split: if_splits)
    ultimately show ?thesis using fresh [OF False] d' by blast
  qed
qed

lemma ApplyDeposit_spec:
  assumes led: "ledger_inv d" and fi: "fact_inv d" and ok: "id_ok (se_id e)" and kind: "se_kind e = ''deposit''"
    and amt: "0 < se_amount e" "int64 (se_amount e)"
    and res: "ApplyDeposit ntid e d = Inr d'"
  defines "n \<equiv> if se_id e \<in> cf_event ` set (chain_facts d) then 0 else se_amount e"
  shows "ledger_inv d'" and "fact_inv d'"
    and "Balance d' a = Balance d a - (if a = AcctExternal then n else 0) +
      (if a = AvailableAcct (se_user e) then n else 0)"
    and "live_deposits d' = live_deposits d + n"
    and "k \<noteq> deposit_key (se_id e) \<Longrightarrow> posted d' k = posted d k"
    and "intents d' = intents d" and "outbox d' = outbox d" and "positions d' = positions d"
    and "freezes d' = freezes d"
proof -
  let ?goal = "ledger_inv d' \<and> fact_inv d' \<and> (\<forall>a. Balance d' a = Balance d a -
      (if a = AcctExternal then n else 0) + (if a = AvailableAcct (se_user e) then n else 0)) \<and>
      live_deposits d' = live_deposits d + n \<and> (\<forall>k. k \<noteq> deposit_key (se_id e) \<longrightarrow> posted d' k = posted d k) \<and>
      intents d' = intents d \<and> outbox d' = outbox d \<and> positions d' = positions d \<and> freezes d' = freezes d"
  have ?goal
  proof (rule ApplyDeposit_cases [OF led fi ok amt res])
    assume old: "se_id e \<in> cf_event ` set (chain_facts d)" and d': "d' = SetEventStatus (se_id e) EvApplied d"
    have "fact_inv d'" by (rule fact_inv_events [OF fi]) (simp_all add: d')
    then show ?goal using led old by (simp add: d' n_def live_deposits_def)
  next
    fix i d1
    assume new: "se_id e \<notin> cf_event ` set (chain_facts d)" and ev: "se_id e \<in> ce_id ` set (chain_events d)"
      and post: "PostTx ntid (Transfer ''deposit.provisional'' (deposit_key (se_id e))
        [Leg AcctExternal (- se_amount e), Leg (AvailableAcct (se_user e)) (se_amount e)]) d = Inr ((i, False), d1)"
      and d': "d' = SetEventStatus (se_id e) EvApplied (d1\<lparr>chain_facts := chain_facts d @ [new_fact e i]\<rparr>)"
    have legs: "legs_exact (t_legs (Transfer ''deposit.provisional'' (deposit_key (se_id e))
        [Leg AcctExternal (- se_amount e), Leg (AvailableAcct (se_user e)) (se_amount e)]))"
      using amt by (simp add: Transfer_def legs_exact_two)
    note two = pg.two_legs(1) [OF led _ less_imp_le [OF amt(1)] amt(2) post]
    have key: "posted d' k = (if k = deposit_key (se_id e) then Some ntid else posted d k)" for k
      using pg.post_key [OF led post, of k] by (simp add: d' Transfer_def)
    have fr: "chain_events d1 = chain_events d" using PostTx_frame [OF post] by simp
    have "fact_inv (d1\<lparr>chain_facts := chain_facts d @ [new_fact e i]\<rparr>)"
      unfolding fact_inv_def
      using fact_inv_parts [OF fi] key new ev kind amt ok
      by (auto simp: new_fact_def deposit_fact_def fr d' inj_on_def)
    then have "fact_inv d'" by (rule fact_inv_events) (simp_all add: d')
    then show ?goal
      using pg.post_inv [OF led legs post] two new key
      by (simp add: d' n_def live_deposits_def row_simps new_fact_def PostTx_frame [OF post])
  qed
  then show "ledger_inv d'" and "fact_inv d'"
    and "Balance d' a = Balance d a - (if a = AcctExternal then n else 0) +
      (if a = AvailableAcct (se_user e) then n else 0)"
    and "live_deposits d' = live_deposits d + n"
    and "k \<noteq> deposit_key (se_id e) \<Longrightarrow> posted d' k = posted d k"
    and "intents d' = intents d" and "outbox d' = outbox d" and "positions d' = positions d"
    and "freezes d' = freezes d"
    by blast+
qed

section \<open>Compensating one fact\<close>

lemma clawback_eq: "0 < amount \<Longrightarrow> 0 \<le> avail \<Longrightarrow> clawback amount avail = min amount avail"
  by (simp add: clawback_def Let_def min_def)

definition revert_fact :: "chain_fact_row \<Rightarrow> chain_fact_row" where
  "revert_fact f = f\<lparr>cf_reverted := True\<rparr>"

lemma Freeze_simps [simp]:
  "Balance (Freeze s r d) = Balance d" "posted (Freeze s r d) = posted d" "ledger_inv (Freeze s r d) = ledger_inv d"
  "intents (Freeze s r d) = intents d" "outbox (Freeze s r d) = outbox d" "positions (Freeze s r d) = positions d"
  "chain_facts (Freeze s r d) = chain_facts d" "chain_events (Freeze s r d) = chain_events d"
  by (simp_all add: Freeze_def)

lemma fact_row:
  assumes "fact_inv d" and "f \<in> set (chain_facts d)"
  shows "0 < cf_amount f" "int64 (cf_amount f)" "cf_kind f = ''deposit''" "id_ok (cf_event f)"
    and "g \<in> set (chain_facts d) \<Longrightarrow> cf_event g = cf_event f \<Longrightarrow> g = f"
proof -
  show "0 < cf_amount f" "int64 (cf_amount f)" "cf_kind f = ''deposit''" "id_ok (cf_event f)"
    using fact_inv_parts(4,6) [OF assms] by (simp_all add: deposit_fact_def)
  show "g = f" if "g \<in> set (chain_facts d)" "cf_event g = cf_event f"
    using fact_inv_parts(1) [OF assms(1)] assms(2) that by (metis eq_key_imp_eq_value inj_on_def distinct_map)
qed

definition item_of :: "chain_fact_row \<Rightarrow> revert_item \<Rightarrow> bool" where
  "item_of f it \<longleftrightarrow> ri_event it = cf_event f \<and> ri_amount it = cf_amount f \<and> ri_kind it = cf_kind f"

lemma revert_item_spec:
  assumes led: "ledger_inv d" and fi: "fact_inv d" and f: "f \<in> set (chain_facts d)" "\<not> cf_reverted f"
    and it: "item_of f it" and res: "revert_item_tx ntid blockHash it d = Inr d'"
  defines "c \<equiv> min (cf_amount f) (Balance d (AvailableAcct (ri_user it)))"
  shows "ledger_inv d'" and "fact_inv d'"
    and "Balance d' a = Balance d a - (if a = AvailableAcct (ri_user it) then c else 0)
      - (if a = AcctInsurance then cf_amount f - c else 0) + (if a = AcctExternal then cf_amount f else 0)"
    and "chain_facts d' = update_where (\<lambda>g. cf_event g = cf_event f) revert_fact (chain_facts d)"
    and "live_deposits d' = live_deposits d - cf_amount f"
    and "\<not> prefix ''deposit:'' k \<Longrightarrow> posted d' k = posted d k"
    and "intents d' = intents d" "outbox d' = outbox d" "positions d' = positions d"
    and "c < cf_amount f \<Longrightarrow> Frozen (ri_user it) d' \<noteq> None"
    and "0 \<le> c"
proof -
  note row = fact_row [OF fi f(1)]
  let ?u = "AvailableAcct (ri_user it)" and ?n = "cf_amount f"
  have nn: "0 \<le> Balance d ?u" by (rule ledger_inv_nonneg [OF led]) simp
  have it1: "ri_event it = cf_event f" "ri_amount it = ?n" using it by (simp_all add: item_of_def)
  have c: "clawback ?n (Balance d ?u) = c" by (simp add: clawback_eq row nn c_def)
  have cb: "0 \<le> c" "c \<le> ?n" using row(1) nn by (simp_all add: c_def)
  then have rng: "int64 c" "int64 (?n - c)" "int64 (- c)" "int64 (c - ?n)"
    using row(2) by (auto simp: int64_def)
  let ?legs = "[Leg ?u (- c), Leg AcctInsurance (- (?n - c)), Leg AcctExternal ?n]"
  let ?t = "Transfer ''deposit.reverted'' (unwind_key (cf_event f)) ?legs"
  let ?f1 = "\<lambda>d1. SetEventStatus (cf_event f) EvOrphaned
      (d1\<lparr>chain_facts := update_where (\<lambda>g. cf_event g = cf_event f) revert_fact (chain_facts d1)\<rparr>)"
  have i64n: "i64 (?n - c) = ?n - c" using rng by simp
  have rf: "(\<lambda>f. f\<lparr>cf_reverted := True\<rparr>) = revert_fact" by (simp add: fun_eq_iff revert_fact_def)
  from res [unfolded revert_item_tx_def Let_def it1 c i64n rf]
  obtain i rep d1 where post: "PostTx ntid ?t d = Inr ((i, rep), d1)"
    and d': "d' = (if ?n - c > 0 then Freeze (ri_user it) (''spent '' @ USD (?n - c) @
        '' of a provisional deposit orphaned in '' @ blockHash) (?f1 d1) else ?f1 d1)"
    unfolding try_bind_Inr by (auto simp del: diff_gt_0_iff_gt)
  have legs: "legs_exact (t_legs ?t)" using rng row by (simp add: legs_exact_def Leg_def Transfer_def)
  have "posted d (unwind_key (cf_event f)) = None" by (rule fact_inv_parts(9) [OF fi f])
  then have "\<not> rep" using pg.unused_key_posts [OF led post] by (simp add: Transfer_def)
  with post have post1: "PostTx ntid ?t d = Inr ((i, False), d1)" by simp
  have facts: "chain_facts d1 = chain_facts d" and events: "chain_events d1 = chain_events d"
    using PostTx_frame [OF post] by simp_all
  have key: "posted d' k = (if k = unwind_key (cf_event f) then Some ntid else posted d k)" for k
    using pg.post_key [OF led post1, of k] by (auto simp: d' Transfer_def)
  show "ledger_inv d'" using pg.post_inv [OF led legs post1] by (simp add: d')
  show "Balance d' a = Balance d a - (if a = ?u then c else 0)
      - (if a = AcctInsurance then ?n - c else 0) + (if a = AcctExternal then ?n else 0)"
    using pg.post_moves [OF led legs post1, of a] rng row
    by (auto simp: d' Transfer_def leg_total_Leg)
  show cf: "chain_facts d' = update_where (\<lambda>g. cf_event g = cf_event f) revert_fact (chain_facts d)"
    by (simp add: d' facts)
  show "intents d' = intents d" "outbox d' = outbox d" "positions d' = positions d"
    by (simp_all add: d' PostTx_frame [OF post])
  show "0 \<le> c" by (rule cb(1))
  show "posted d' k = posted d k" if "\<not> prefix ''deposit:'' k" using that by (auto simp: key)
  show "Frozen (ri_user it) d' \<noteq> None" if "c < ?n"
    using that Frozen_after_Freeze [of "ri_user it" "ri_user it"] by (simp add: d')
  show "live_deposits d' = live_deposits d - ?n"
    unfolding live_deposits_def cf
    using sum_where_update [of cf_event "chain_facts d" f "\<lambda>g. cf_event g = cf_event f"
        "\<lambda>f. \<not> cf_reverted f" cf_amount revert_fact, OF fact_inv_parts(1) [OF fi] f(1)] f(2)
    by (simp add: revert_fact_def)
  have "map cf_event (chain_facts d') = map cf_event (chain_facts d)" by (simp add: cf row_simps revert_fact_def)
  then have fids: "cf_event ` set (chain_facts d') = cf_event ` set (chain_facts d)" by (metis set_map)
  have eids: "map ce_id (chain_events d') = map ce_id (chain_events d)" by (simp add: d' events)
  have rows: "\<exists>h \<in> set (chain_facts d). g = h \<and> cf_event h \<noteq> cf_event f \<or> g = revert_fact h \<and> h = f"
    if "g \<in> set (chain_facts d')" for g
    using that f row(5) by (auto simp: cf set_update_where)
  have facts1: "deposit_fact g \<and> cf_event g \<in> ce_id ` set (chain_events d) \<and> posted d' (deposit_key (cf_event g)) \<noteq> None \<and>
      (\<not> cf_reverted g \<longrightarrow> posted d' (unwind_key (cf_event g)) = None)" if "g \<in> set (chain_facts d')" for g
    using rows [OF that] fact_inv_parts(4,5,6,8,9) [OF fi]
    by (auto simp: key revert_fact_def deposit_fact_def)
  have "fact_inv (d'\<lparr>chain_events := chain_events d\<rparr>)"
    unfolding fact_inv_def
  proof (intro conjI ballI allI impI)
    let ?d = "d'\<lparr>chain_events := chain_events d\<rparr>"
    show "distinct (map cf_event (chain_facts ?d))"
      using fact_inv_parts(1) [OF fi] by (simp add: cf row_simps revert_fact_def)
    show "distinct (map ce_id (chain_events ?d))" using fact_inv_parts(2) [OF fi] by simp
    show "id_ok (ce_id q)" if "q \<in> set (chain_events ?d)" for q
      using fact_inv_parts(3) [OF fi] that by simp
    show "deposit_fact g" "cf_event g \<in> ce_id ` set (chain_events ?d)"
      "posted ?d (deposit_key (cf_event g)) \<noteq> None"
      if "g \<in> set (chain_facts ?d)" for g using facts1 [of g] that by simp_all
    show "posted ?d (unwind_key (cf_event g)) = None" if "g \<in> set (chain_facts ?d)" "\<not> cf_reverted g" for g
      using facts1 [of g] that by simp
    show "posted ?d (deposit_key e) = None" "posted ?d (unwind_key e) = None"
      if "id_ok e" "e \<notin> cf_event ` set (chain_facts ?d)" for e
    proof -
      have "e \<notin> cf_event ` set (chain_facts d)" using that(2) fids by simp
      moreover from this have "e \<noteq> cf_event f" using f(1) by auto
      ultimately show "posted ?d (deposit_key e) = None" "posted ?d (unwind_key e) = None"
        using fact_inv_parts(7) [OF fi that(1)] that(1) by (simp_all add: key)
    qed
  qed
  then show "fact_inv d'" by (rule fact_inv_events) (simp_all add: eids)
qed

section \<open>Compensating a block\<close>

text \<open>What a run of the loop leaves alone, whether or not it ends early.\<close>

definition revert_frame :: "db \<Rightarrow> db \<Rightarrow> bool" where
  "revert_frame d d' \<longleftrightarrow> intents d' = intents d \<and> outbox d' = outbox d \<and> positions d' = positions d \<and>
     (\<forall>k. \<not> prefix ''deposit:'' k \<longrightarrow> posted d' k = posted d k) \<and>
     (\<forall>u. Balance d' (MarginAcct u) = Balance d (MarginAcct u)) \<and>
     (\<forall>u. Balance d' (PendingAcct u) = Balance d (PendingAcct u)) \<and>
     Balance d' AcctExternal + live_deposits d' = Balance d AcctExternal + live_deposits d"

lemma revert_loop_spec:
  assumes "revert_loop gen blockHash its n d = ((n', eo), d')"
    and "ledger_inv d" and "fact_inv d" and "distinct (map ri_event its)"
    and "\<And>it. it \<in> set its \<Longrightarrow> \<exists>f \<in> set (chain_facts d). \<not> cf_reverted f \<and> item_of f it"
  shows "ledger_inv d' \<and> fact_inv d' \<and> revert_frame d d' \<and>
    (eo = None \<longrightarrow> n' = n + length its \<and>
      chain_facts d' = update_where (\<lambda>f. cf_event f \<in> ri_event ` set its) revert_fact (chain_facts d))"
  using assms
proof (induction its arbitrary: n d)
  case Nil
  then show ?case by (auto simp: revert_frame_def update_where_def)
next
  case (Cons it its)
  obtain f where f: "f \<in> set (chain_facts d)" "\<not> cf_reverted f" and it: "item_of f it"
    using Cons.prems(5) [of it] by auto
  have kind: "ri_kind it = ''deposit''" using it fact_row(3) [OF Cons.prems(3) f(1)] by (simp add: item_of_def)
  have ev: "ri_event it = cf_event f" using it by (simp add: item_of_def)
  show ?case
  proof (cases "revert_item_tx (gen (ri_event it)) blockHash it d")
    case (Inl e)
    with Cons.prems kind show ?thesis by (auto simp: revert_frame_def)
  next
    case (Inr d1)
    note sp = revert_item_spec [OF Cons.prems(2,3) f it Inr]
    have rest: "revert_loop gen blockHash its (Suc n) d1 = ((n', eo), d')"
      using Cons.prems(1) kind Inr by simp
    have items: "\<exists>g \<in> set (chain_facts d1). \<not> cf_reverted g \<and> item_of g jt" if jt: "jt \<in> set its" for jt
    proof -
      obtain g where g: "g \<in> set (chain_facts d)" "\<not> cf_reverted g" "item_of g jt"
        using Cons.prems(5) [of jt] jt by auto
      have "cf_event g \<noteq> cf_event f"
        using Cons.prems(4) jt g(3) ev by (auto simp: item_of_def image_iff)
      then have "g \<in> set (chain_facts d1)" using g(1) by (force simp: sp(4) set_update_where)
      with g show ?thesis by blast
    qed
    have "distinct (map ri_event its)" using Cons.prems(4) by simp
    note IH = Cons.IH [OF rest sp(1,2) this items]
    have "revert_frame d d1"
      using sp(3,5-9) by (simp add: revert_frame_def)
    then have "revert_frame d d'" using IH by (simp add: revert_frame_def)
    moreover have "update_where (\<lambda>f. cf_event f \<in> ri_event ` set its) revert_fact (chain_facts d1) =
        update_where (\<lambda>f. cf_event f \<in> ri_event ` set (it # its)) revert_fact (chain_facts d)"
      unfolding sp(4) update_where_def by (auto simp: revert_fact_def ev)
    ultimately show ?thesis using IH by auto
  qed
qed

lemma revert_items_spec:
  assumes fi: "fact_inv d"
  shows "map ri_event (revert_items h d) = map cf_event (filter (\<lambda>f. cf_hash f = h \<and> \<not> cf_reverted f) (chain_facts d))"
    and "it \<in> set (revert_items h d) \<Longrightarrow> \<exists>f \<in> set (chain_facts d). cf_hash f = h \<and> \<not> cf_reverted f \<and> item_of f it"
proof -
  let ?items = "\<lambda>f. map (\<lambda>q. \<lparr>ri_event = cf_event f, ri_fact = cf_fact f, ri_kind = cf_kind f,
        ri_user = json_str (ce_payload q) ''user'', ri_amount = cf_amount f\<rparr>)
        (filter (\<lambda>q. ce_id q = cf_event f) (chain_events d))"
  have one: "\<exists>it. ?items f = [it] \<and> item_of f it" if "f \<in> set (chain_facts d)" for f
    using filter_key_unique [OF fact_inv_parts(2) [OF fi] fact_inv_parts(5) [OF fi that]]
    by (auto simp: item_of_def)
  have "map ri_event (concat (map ?items fs)) = map cf_event fs" if "set fs \<subseteq> set (chain_facts d)" for fs
    using that
  proof (induction fs)
    case (Cons f fs)
    then obtain it where "?items f = [it]" "item_of f it" using one [of f] by auto
    with Cons show ?case by (simp add: item_of_def)
  qed simp
  then show "map ri_event (revert_items h d) =
      map cf_event (filter (\<lambda>f. cf_hash f = h \<and> \<not> cf_reverted f) (chain_facts d))"
    unfolding revert_items_def by auto
  show "\<exists>f \<in> set (chain_facts d). cf_hash f = h \<and> \<not> cf_reverted f \<and> item_of f it"
    if "it \<in> set (revert_items h d)"
    using that unfolding revert_items_def by (auto simp: item_of_def)
qed

lemma RevertBlock_spec:
  assumes led: "ledger_inv d" and fi: "fact_inv d" and res: "RevertBlock gen h d = ((n, eo), d')"
  shows "ledger_inv d'" and "fact_inv d'" and "revert_frame d d'"
    and "eo = None \<Longrightarrow> n = length (filter (\<lambda>f. cf_hash f = h \<and> \<not> cf_reverted f) (chain_facts d))"
    and "eo = None \<Longrightarrow> chain_facts d' = update_where (\<lambda>f. cf_hash f = h) revert_fact (chain_facts d)"
proof -
  note its = revert_items_spec(1) [OF fi, of h]
  have dist: "distinct (map ri_event (revert_items h d))"
    unfolding its using fact_inv_parts(1) [OF fi] by (simp add: distinct_map_filter)
  have "\<exists>f \<in> set (chain_facts d). \<not> cf_reverted f \<and> item_of f it" if "it \<in> set (revert_items h d)" for it
    using revert_items_spec(2) [OF fi that] by blast
  note sp = revert_loop_spec [OF res [unfolded RevertBlock_def] led fi dist this]
  show "ledger_inv d'" and "fact_inv d'" and "revert_frame d d'" using sp by simp_all
  show "n = length (filter (\<lambda>f. cf_hash f = h \<and> \<not> cf_reverted f) (chain_facts d))" if "eo = None"
    using sp that arg_cong [OF its, of length] by simp
  have evs: "ri_event ` set (revert_items h d) = cf_event ` {f \<in> set (chain_facts d). cf_hash f = h \<and> \<not> cf_reverted f}"
    using arg_cong [OF its, of set] by simp
  have "update_where (\<lambda>f. cf_event f \<in> ri_event ` set (revert_items h d)) revert_fact (chain_facts d) =
      update_where (\<lambda>f. cf_hash f = h) revert_fact (chain_facts d)"
    unfolding update_where_def
  proof (rule map_cong [OF refl])
    fix f assume f: "f \<in> set (chain_facts d)"
    have "cf_event f \<in> ri_event ` set (revert_items h d) \<longleftrightarrow> cf_hash f = h \<and> \<not> cf_reverted f"
    proof
      assume "cf_event f \<in> ri_event ` set (revert_items h d)"
      then obtain g where g: "g \<in> set (chain_facts d)" "cf_hash g = h" "\<not> cf_reverted g" "cf_event f = cf_event g"
        unfolding evs by blast
      have "f = g" by (rule fact_row(5) [OF fi g(1) f g(4)])
      with g show "cf_hash f = h \<and> \<not> cf_reverted f" by simp
    next
      assume "cf_hash f = h \<and> \<not> cf_reverted f"
      with f show "cf_event f \<in> ri_event ` set (revert_items h d)" unfolding evs by blast
    qed
    then show "(if cf_event f \<in> ri_event ` set (revert_items h d) then revert_fact f else f) =
        (if cf_hash f = h then revert_fact f else f)"
      by (simp add: revert_fact_def)
  qed
  with sp show "chain_facts d' = update_where (\<lambda>f. cf_hash f = h) revert_fact (chain_facts d)" if "eo = None"
    using that by simp
qed

lemma RevertBlock_again:
  assumes "ledger_inv d" and "fact_inv d" and "RevertBlock gen h d = ((n, None), d')"
  shows "RevertBlock gen2 h d' = ((0, None), d')"
proof -
  note sp = RevertBlock_spec [OF assms]
  have cf: "chain_facts d' = update_where (\<lambda>f. cf_hash f = h) revert_fact (chain_facts d)"
    by (rule sp(5)) simp
  have "filter (\<lambda>f. cf_hash f = h \<and> \<not> cf_reverted f) (update_where (\<lambda>f. cf_hash f = h) revert_fact fs) = []" for fs
    by (induction fs) (simp_all add: row_simps revert_fact_def)
  with cf have "filter (\<lambda>f. cf_hash f = h \<and> \<not> cf_reverted f) (chain_facts d') = []" by simp
  then have "revert_items h d' = []" using revert_items_spec(1) [OF sp(2), of h] by simp
  then show ?thesis by (simp add: RevertBlock_def)
qed

end
