(* ===== verification/Store.thy ===== *)
theory Store
  imports Inbox
begin

text \<open>
  The store as a whole: the invariant of all components together, the step relation whose steps
  are the store's transactions, and the equation of custody that every reachable database
  satisfies. \<open>Intent.Revert\<close> is not a step: it undoes a final block, and \<open>Transitions\<close> shows
  what it breaks.
\<close>

section \<open>Facts and custody under the other components' operations\<close>

lemma withdraw_frame:
  assumes "ledger_inv d" and "RequestWithdraw nid ntid user amount idemKey expiry now d = Inr ((i, rep), d')"
  shows "fact_frame d d'"
  using assms(2)
proof (cases rule: RequestWithdraw_cases)
  case (replay old)
  then show ?thesis by simp
next
  case fresh
  with assms(1) reserve_withdraw_fact_frame show ?thesis by blast
qed

lemma settlement_frame:
  "RequestSettlement nid marketID outcome now d = Inr ((i, rep), d') \<Longrightarrow>
   fact_frame d d' \<and> Balance d' = Balance d \<and> paid_out d' = paid_out d"
  by (erule RequestSettlement_cases) (simp_all add: paid_out_def row_simps)

lemma escrow_frame:
  "RequestEscrowSet nid marketID target expiry now d = Inr ((i, rep), d') \<Longrightarrow>
   fact_frame d d' \<and> Balance d' = Balance d \<and> paid_out d' = paid_out d"
  by (erule RequestEscrowSet_cases) (simp_all add: paid_out_def row_simps)

lemma paid_out_update:
  assumes "intent_books d" and r: "select_one (\<lambda>r. in_id r = iid) (intents d) = Some r"
    and "intents d' = update_where (\<lambda>r. in_id r = iid) f (intents d)"
  shows "paid_out d' = paid_out d
    - (if in_kind r = Withdraw \<and> in_state r = StateConfirmed then in_amount r else 0)
    + (if in_kind (f r) = Withdraw \<and> in_state (f r) = StateConfirmed then in_amount (f r) else 0)"
  using sum_where_update [of in_id "intents d" r "\<lambda>r. in_id r = iid"
      "\<lambda>r. in_kind r = Withdraw \<and> in_state r = StateConfirmed" in_amount f]
    intent_books_parts(1) [OF assms(1)] select_one_SomeD [OF r]
  by (simp add: paid_out_def assms(3))

lemma inflight_not_confirmed [simp]: "inflight r \<Longrightarrow> in_state r \<noteq> StateConfirmed"
  by (auto simp: inflight_def)

lemma custody_frame:
  assumes "custody_inv d" and "fact_frame d d'" and "Balance d' AcctExternal = Balance d AcctExternal + n"
    and "paid_out d' = paid_out d + n"
  shows "custody_inv d'"
  using assms by (simp add: custody_inv_def live_deposits_def fact_frame_def)

lemma submitted_paid_out: "paid_out (MarkSubmitted iid tx msg d) = paid_out d"
  unfolding paid_out_def MarkSubmitted_rows
  by (rule sum_where_update_same) (auto simp: submit_row_def inflight_def)

lemma withdraw_paid_out:
  assumes "ledger_inv d" "intent_inv d" "id_ok nid" "int64 amount"
    and "RequestWithdraw nid ntid user amount idemKey expiry now d = Inr ((i, rep), d')"
  shows "paid_out d' = paid_out d \<and> Balance d' AcctExternal = Balance d AcctExternal"
  using assms(5)
proof (cases rule: RequestWithdraw_cases)
  case (replay old)
  then show ?thesis by simp
next
  case fresh
  show ?thesis
    by (rule reserve_withdraw_spec [OF assms(1-3) fresh(1) assms(4) fresh(3)])
       (simp add: paid_out_def row_simps)
qed

lemma Confirm_custody:
  assumes inv: "core_inv d" and res: "Confirm gen ntid iid height hash d = Inr d'"
  shows "fact_frame d d' \<and> paid_out d' - paid_out d = Balance d' AcctExternal - Balance d AcctExternal"
proof -
  note led = core_invD(1) [OF inv] and books = core_invD(4) [OF inv]
  from books res show ?thesis
  proof (cases rule: Confirm_cases)
    case (already r)
    then show ?thesis by simp
  next
    case (withdraw r i rep d1)
    note out = pending_out [OF inv withdraw(1,3,2) _ _ withdraw(4), simplified]
    have "fact_frame d d'"
      using post_fact_frame [OF led withdraw(4)] by (simp add: withdraw(5) Transfer_def)
    moreover have "paid_out d' = paid_out d + in_amount r"
      using paid_out_update [OF books withdraw(1), of d' "\<lambda>r. r\<lparr>in_state := StateConfirmed, in_height := Some height,
          in_hash := Some hash, in_final_transfer := null_if_empty i\<rparr>"] withdraw(2,3)
      by (simp add: withdraw(5) PostTx_frame [OF withdraw(4)])
    ultimately show ?thesis by (simp add: withdraw(5) out(5))
  next
    case (settle r m outcome d1)
    note fr = settleMarketTx_frame [OF settle(6) led core_invD(2) [OF inv]]
    have ins: "intents d1 = intents d" and bal: "Balance d1 AcctExternal = Balance d AcctExternal"
      using fr by (simp_all add: trade_frame_def)
    have "paid_out d' = paid_out d"
      using paid_out_update [OF books settle(1), of d' "\<lambda>r. r\<lparr>in_state := StateConfirmed, in_height := Some height,
          in_hash := Some hash, in_final_transfer := None\<rparr>"] settle(3)
      by (simp add: settle(7) ins)
    then show ?thesis using trade_fact_frame [OF fr] bal by (simp add: settle(7))
  next
    case (escrow r)
    have "paid_out d' = paid_out d"
      using paid_out_update [OF books escrow(1), of d' "\<lambda>r. r\<lparr>in_state := StateConfirmed, in_height := Some height,
          in_hash := Some hash, in_final_transfer := None\<rparr>"] escrow(3)
      by (simp add: escrow(4))
    then show ?thesis by (simp add: escrow(4))
  qed
qed

lemma Expire_custody:
  assumes inv: "core_inv d" and res: "Expire ntid iid observedHeight now d = Inr d'"
  shows "fact_frame d d' \<and> paid_out d' = paid_out d \<and> Balance d' AcctExternal = Balance d AcctExternal"
proof -
  note led = core_invD(1) [OF inv] and books = core_invD(4) [OF inv]
  from books res show ?thesis
  proof (cases rule: Expire_cases)
    case (already r)
    then show ?thesis by simp
  next
    case (withdraw r i rep d1)
    note out = pending_out [OF inv withdraw(1,3,2) _ _ withdraw(6), simplified]
    have "fact_frame d d'"
      using post_fact_frame [OF led withdraw(6)] by (simp add: withdraw(7) Transfer_def)
    moreover have "paid_out d' = paid_out d"
      using paid_out_update [OF books withdraw(1), of d' "\<lambda>r. r\<lparr>in_state := StateExpired\<rparr>"] withdraw(2)
      by (simp add: withdraw(7) PostTx_frame [OF withdraw(6)])
    ultimately show ?thesis by (simp add: withdraw(7) out(5))
  next
    case (settle r)
    have "paid_out d' = paid_out d"
      using paid_out_update [OF books settle(1), of d' "\<lambda>r. r\<lparr>in_deadline := now + 60000\<rparr>"] settle(3)
      by (simp add: settle(4))
    then show ?thesis by (simp add: settle(4))
  next
    case (escrow r)
    have "paid_out d' = paid_out d"
      using paid_out_update [OF books escrow(1), of d' "\<lambda>r. r\<lparr>in_state := StateExpired\<rparr>"] escrow(3)
      by (simp add: escrow(4))
    then show ?thesis by (simp add: escrow(4))
  qed
qed

section \<open>The store as a transition system\<close>

text \<open>
  One step is one transaction that commits, with whatever arguments its caller gives: ids come
  from \<open>NewID\<close>, amounts are \<open>int64\<close>, and a deposit event has a positive amount. A transaction
  that fails leaves the database as it is and is no step.
\<close>

inductive store_step :: "db \<Rightarrow> db \<Rightarrow> bool" where
  seed: "SeedMarket mid question mark d = Inr d' \<Longrightarrow> store_step d d'"
| mark: "store_step d (SetMark mid mark d)"
| open_position: "OpenPosition npid ntid user marketID side sz idemKey d = Inr (pid, d') \<Longrightarrow> store_step d d'"
| close_position: "ClosePosition ntid pid mark reason d = Inr d' \<Longrightarrow> store_step d d'"
| withdraw: "id_ok nid \<Longrightarrow> int64 amount \<Longrightarrow>
    RequestWithdraw nid ntid user amount idemKey expiry now d = Inr ((i, rep), d') \<Longrightarrow> store_step d d'"
| settlement: "id_ok nid \<Longrightarrow> RequestSettlement nid marketID outcome now d = Inr ((i, rep), d') \<Longrightarrow> store_step d d'"
| escrow: "id_ok nid \<Longrightarrow> RequestEscrowSet nid marketID target expiry now d = Inr ((i, rep), d') \<Longrightarrow> store_step d d'"
| submitted: "store_step d (MarkSubmitted iid chainTx msg d)"
| confirm: "Confirm gen ntid iid height hash d = Inr d' \<Longrightarrow> store_step d d'"
| expire: "Expire ntid iid observedHeight now d = Inr d' \<Longrightarrow> store_step d d'"
| record_event: "id_ok (se_id e) \<Longrightarrow> store_step d (snd (RecordEvent e d))"
| advance: "store_step d (AdvanceCursor sq d)"
| event_status: "store_step d (SetEventStatus eid st d)"
| deposit: "id_ok (se_id e) \<Longrightarrow> se_kind e = ''deposit'' \<Longrightarrow> 0 < se_amount e \<Longrightarrow> int64 (se_amount e) \<Longrightarrow>
    ApplyDeposit ntid e d = Inr d' \<Longrightarrow> store_step d d'"
| finalize: "store_step d (MarkFactFinalized eid d)"
| revert_block: "store_step d (snd (RevertBlock gen hash d))"
| freeze: "store_step d (Freeze subject reason d)"
| unfreeze: "store_step d (Unfreeze subject d)"

inductive store_reachable :: "db \<Rightarrow> bool" where
  init: "store_reachable schema_db"
| step: "store_reachable d \<Longrightarrow> store_step d d' \<Longrightarrow> store_reachable d'"

definition store_inv :: "db \<Rightarrow> bool" where
  "store_inv d \<longleftrightarrow> core_inv d \<and> fact_inv d \<and> custody_inv d"

lemma store_invD:
  assumes "store_inv d"
  shows "core_inv d" "fact_inv d" "custody_inv d" "ledger_inv d" "market_inv d" "intent_inv d"
  using assms by (simp_all add: store_inv_def core_inv_def)

text \<open>Operations that touch neither the ledger nor the intents nor the facts.\<close>

lemma quiet_step:
  assumes "store_inv d" and "transfers d' = transfers d" "entries d' = entries d"
    "account_balances d' = account_balances d" "positions d' = positions d" "intents d' = intents d"
    "outbox d' = outbox d" "chain_facts d' = chain_facts d"
    "map ce_id (chain_events d') = map ce_id (chain_events d)"
  shows "store_inv d'"
proof -
  note inv = store_invD [OF assms(1)]
  note eq = ledger_tables_eq [OF assms(2-4)]
  have "ledger_inv d'" using inv(4) eq by simp
  moreover have "market_inv d'" by (rule market_inv_frame [OF inv(5)]) (simp_all add: eq assms)
  moreover have "intent_inv d'" by (rule intent_inv_frame [OF inv(6)]) (simp_all add: eq assms)
  moreover have "fact_inv d'" by (rule fact_inv_events [OF inv(2)]) (simp_all add: eq assms)
  moreover have "custody_inv d'"
    using inv(3) by (simp add: custody_inv_def live_deposits_def paid_out_def eq assms)
  ultimately show ?thesis by (simp add: store_inv_def core_inv_def)
qed

lemma trade_step:
  assumes inv: "store_inv d" and fr: "trade_frame d d'" and led: "ledger_inv d'" and mar: "market_inv d'"
  shows "store_inv d'"
proof -
  note parts = store_invD [OF inv]
  have "intent_inv d'" by (rule trade_frame_intent_inv [OF parts(6) fr])
  moreover have "fact_inv d'" by (rule fact_frame_inv [OF trade_fact_frame [OF fr] parts(2)])
  moreover have "custody_inv d'"
    by (rule custody_frame [OF parts(3) trade_fact_frame [OF fr], of 0])
       (use fr in \<open>simp_all add: trade_frame_def paid_out_def\<close>)
  ultimately show ?thesis using led mar by (simp add: store_inv_def core_inv_def)
qed

lemma intent_step:
  assumes inv: "store_inv d" and "core_inv d'" and "fact_frame d d'"
    and "paid_out d' - paid_out d = Balance d' AcctExternal - Balance d AcctExternal"
  shows "store_inv d'"
proof -
  note parts = store_invD [OF inv]
  have "custody_inv d'"
    by (rule custody_frame [OF parts(3) assms(3), of "Balance d' AcctExternal - Balance d AcctExternal"])
       (use assms(4) in simp_all)
  then show ?thesis
    using assms(2) fact_frame_inv [OF assms(3) parts(2)] by (simp add: store_inv_def)
qed

lemma RecordEvent_inv:
  assumes inv: "store_inv d" and ok: "id_ok (se_id e)"
  shows "store_inv (snd (RecordEvent e d))"
proof (cases "se_id e \<in> ce_id ` set (chain_events d)")
  case True
  then show ?thesis using inv by (simp add: RecordEvent_def row_simps)
next
  case False
  let ?d = "snd (RecordEvent e d)"
  note parts = store_invD [OF inv]
  have d': "?d = d\<lparr>chain_events := chain_events d @ [\<lparr>ce_id = se_id e, ce_seq = se_seq e, ce_kind = se_kind e,
      ce_payload = event_payload e, ce_height = se_height e, ce_hash = se_hash e, ce_status = EvReceived\<rparr>]\<rparr>"
    using False by (simp add: RecordEvent_def row_simps)
  have "fact_inv ?d"
    using fact_inv_parts [OF parts(2)] False ok unfolding fact_inv_def by (auto simp: d')
  moreover have "market_inv ?d" by (rule market_inv_frame [OF parts(5)]) (simp_all add: d')
  moreover have "intent_inv ?d" by (rule intent_inv_frame [OF parts(6)]) (simp_all add: d')
  moreover have "custody_inv ?d"
    using parts(3) by (simp add: custody_inv_def live_deposits_def paid_out_def d')
  ultimately show ?thesis using parts(4) by (simp add: store_inv_def core_inv_def d')
qed

lemma MarkFactFinalized_inv:
  assumes inv: "store_inv d"
  shows "store_inv (MarkFactFinalized eid d)"
proof -
  let ?d = "MarkFactFinalized eid d"
  let ?f = "\<lambda>f. if cf_event f = eid \<and> \<not> cf_reverted f then f\<lparr>cf_finalized := True\<rparr> else f"
  note parts = store_invD [OF inv]
  have facts: "set (chain_facts ?d) = ?f ` set (chain_facts d)"
    by (simp add: MarkFactFinalized_def set_update_where)
  have ids: "map cf_event (chain_facts ?d) = map cf_event (chain_facts d)"
    by (simp add: MarkFactFinalized_def row_simps)
  then have idset: "cf_event ` set (chain_facts ?d) = cf_event ` set (chain_facts d)" by (metis set_map)
  have same: "posted ?d = posted d" "Balance ?d = Balance d" "chain_events ?d = chain_events d"
    "intents ?d = intents d" "outbox ?d = outbox d" "positions ?d = positions d" "ledger_inv ?d = ledger_inv d"
    by (simp_all add: MarkFactFinalized_def)
  have rows: "deposit_fact (?f f) = deposit_fact f" "cf_event (?f f) = cf_event f" "cf_reverted (?f f) = cf_reverted f" for f
    by (simp_all add: deposit_fact_def)
  have "fact_inv ?d"
    unfolding fact_inv_def ids idset same
  proof (intro conjI ballI allI impI)
    fix f assume "f \<in> set (chain_facts ?d)"
    then obtain g where g: "g \<in> set (chain_facts d)" and f: "f = ?f g" unfolding facts by blast
    have ev: "cf_event f = cf_event g" and rv: "cf_reverted f = cf_reverted g" unfolding f by (rule rows)+
    show "deposit_fact f" unfolding f rows by (rule fact_inv_parts(4) [OF parts(2) g])
    show "cf_event f \<in> ce_id ` set (chain_events d)" unfolding ev by (rule fact_inv_parts(5) [OF parts(2) g])
    show "posted d (deposit_key (cf_event f)) \<noteq> None" unfolding ev by (rule fact_inv_parts(8) [OF parts(2) g])
    show "posted d (unwind_key (cf_event f)) = None" if "\<not> cf_reverted f"
      unfolding ev by (rule fact_inv_parts(9) [OF parts(2) g]) (use that rv in simp)
  qed (use fact_inv_parts [OF parts(2)] in simp_all)
  moreover have "live_deposits ?d = live_deposits d"
    unfolding live_deposits_def MarkFactFinalized_def by simp (rule sum_where_update_same, simp)
  then have "custody_inv ?d" using parts(3) by (simp add: custody_inv_def paid_out_def same)
  moreover have "market_inv ?d" by (rule market_inv_frame [OF parts(5)]) (simp_all add: same)
  moreover have "intent_inv ?d" by (rule intent_inv_frame [OF parts(6)]) (simp_all add: same)
  ultimately show ?thesis using parts(4) same by (simp add: store_inv_def core_inv_def)
qed

lemma RevertBlock_inv:
  assumes inv: "store_inv d"
  shows "store_inv (snd (RevertBlock gen h d))"
proof -
  note parts = store_invD [OF inv]
  obtain n eo d' where res: "RevertBlock gen h d = ((n, eo), d')" by (metis prod.collapse)
  note sp = RevertBlock_spec [OF parts(4,2) res]
  have fr: "revert_frame d d'" by (rule sp(3))
  have pos: "\<not> prefix ''deposit:'' (open_key p)" "\<not> prefix ''deposit:'' (close_key p)"
    "\<not> prefix ''deposit:'' (settle_key p)" for p
    by (simp_all add: open_key_def close_key_def settle_key_def)
  have "market_inv d'"
    by (rule market_inv_frame [OF parts(5)]) (use fr pos in \<open>simp_all add: revert_frame_def\<close>)
  moreover have "intent_inv d'"
    by (rule intent_inv_frame [OF parts(6)]) (use fr in \<open>simp_all add: revert_frame_def\<close>)
  moreover have "custody_inv d'"
    using parts(3) fr by (simp add: custody_inv_def revert_frame_def paid_out_def)
  ultimately show ?thesis using sp(1,2) by (simp add: res store_inv_def core_inv_def)
qed

lemma ApplyDeposit_inv:
  assumes inv: "store_inv d" and ok: "id_ok (se_id e)" and kind: "se_kind e = ''deposit''"
    and amt: "0 < se_amount e" "int64 (se_amount e)" and res: "ApplyDeposit ntid e d = Inr d'"
  shows "store_inv d'"
proof -
  note parts = store_invD [OF inv]
  note sp = ApplyDeposit_spec [OF parts(4,2) ok kind amt res]
  have neq: "k \<noteq> deposit_key (se_id e)" if "\<not> prefix ''deposit:'' k" for k using that by auto
  have pos: "\<not> prefix ''deposit:'' (open_key p)" "\<not> prefix ''deposit:'' (close_key p)"
    "\<not> prefix ''deposit:'' (settle_key p)" for p
    by (simp_all add: open_key_def close_key_def settle_key_def)
  have "market_inv d'"
    by (rule market_inv_frame [OF parts(5) sp(8)]) (simp_all add: sp(3,5) neq pos)
  moreover have "intent_inv d'"
    by (rule intent_inv_frame [OF parts(6) sp(6)]) (simp_all add: sp(3,5,7) neq)
  moreover have "custody_inv d'"
    using parts(3) by (simp add: custody_inv_def sp(3,4,6) paid_out_def)
  ultimately show ?thesis using sp(1,2) by (simp add: store_inv_def core_inv_def)
qed

lemma store_inv_step:
  assumes "store_step d d'" and inv: "store_inv d"
  shows "store_inv d'"
  using assms(1)
proof (cases rule: store_step.cases)
  case (seed mid question mark)
  note parts = store_invD [OF inv]
  from seed show ?thesis
    by (intro quiet_step [OF inv]) (auto simp: SeedMarket_def split: if_splits)
next
  case (mark mid mark)
  then show ?thesis by (intro quiet_step [OF inv]) (simp_all add: SetMark_def Let_def)
next
  case (open_position npid ntid user marketID side sz idemKey pid)
  note parts = store_invD [OF inv]
  show ?thesis
    using OpenPosition_inv [OF parts(4,5) open_position] OpenPosition_frame [OF parts(4,5) open_position]
    by (auto intro: trade_step [OF inv])
next
  case (close_position ntid pid mark reason)
  note parts = store_invD [OF inv]
  show ?thesis
    using ClosePosition_inv [OF parts(4,5) close_position] ClosePosition_frame [OF parts(4,5) close_position]
    by (auto intro: trade_step [OF inv])
next
  case (withdraw nid amount ntid user idemKey expiry now i rep)
  note parts = store_invD [OF inv]
  show ?thesis
    by (rule intent_step [OF inv])
       (use RequestWithdraw_inv [OF parts(4,5,6) withdraw] withdraw_frame [OF parts(4) withdraw(3)]
         withdraw_paid_out [OF parts(4,6) withdraw] in \<open>simp_all add: core_inv_def\<close>)
next
  case (settlement nid marketID outcome now i rep)
  note parts = store_invD [OF inv]
  show ?thesis
    by (rule intent_step [OF inv])
       (use RequestSettlement_inv [OF parts(4,5,6) settlement] settlement_frame [OF settlement(2)] in
         \<open>simp_all add: core_inv_def\<close>)
next
  case (escrow nid marketID target expiry now i rep)
  note parts = store_invD [OF inv]
  show ?thesis
    by (rule intent_step [OF inv])
       (use RequestEscrowSet_inv [OF parts(4,5,6) escrow] escrow_frame [OF escrow(2)] in
         \<open>simp_all add: core_inv_def\<close>)
next
  case (submitted iid chainTx msg)
  note parts = store_invD [OF inv]
  show ?thesis
    unfolding submitted
    by (rule intent_step [OF inv])
       (use MarkSubmitted_inv [OF parts(4,5,6)] in
         \<open>simp_all add: core_inv_def submitted_paid_out MarkSubmitted_frame\<close>)
next
  case (confirm gen ntid iid height hash)
  note core = store_invD(1) [OF inv]
  show ?thesis
    by (rule intent_step [OF inv Confirm_inv [OF core confirm]])
       (use Confirm_custody [OF core confirm] in simp_all)
next
  case (expire ntid iid observedHeight now)
  note core = store_invD(1) [OF inv]
  show ?thesis
    by (rule intent_step [OF inv Expire_inv [OF core expire]])
       (use Expire_custody [OF core expire] in simp_all)
next
  case (record_event e)
  then show ?thesis using RecordEvent_inv [OF inv] by simp
next
  case (advance sq)
  then show ?thesis by (intro quiet_step [OF inv]) (simp_all add: AdvanceCursor_def)
next
  case (event_status eid st)
  then show ?thesis by (intro quiet_step [OF inv]) (simp_all add: SetEventStatus_def row_simps)
next
  case (deposit e ntid)
  then show ?thesis using ApplyDeposit_inv [OF inv] by blast
next
  case (finalize eid)
  then show ?thesis using MarkFactFinalized_inv [OF inv] by simp
next
  case (revert_block gen hash)
  then show ?thesis using RevertBlock_inv [OF inv] by simp
next
  case (freeze subject reason)
  then show ?thesis by (intro quiet_step [OF inv]) (simp_all add: Freeze_def)
next
  case (unfreeze subject)
  then show ?thesis by (intro quiet_step [OF inv]) (simp_all add: Unfreeze_def)
qed

lemma store_inv_schema: "store_inv schema_db"
proof -
  have p: "posted schema_db k = None" for k by (simp add: posted_def schema_db_def row_simps)
  have b: "Balance schema_db (PendingAcct u) = 0" for u
    by (rule Balance_absent) (auto simp: schema_db_def PendingAcct_def)
  have e: "Balance schema_db AcctExternal = 0" by code_simp
  have t: "intents schema_db = []" "chain_facts schema_db = []" "chain_events schema_db = []"
    by (simp_all add: schema_db_def)
  have "intent_inv schema_db"
    by (simp add: intent_inv_def intent_books_def intent_keys_def one_escrow_inflight_def pending_sum_def t p b row_simps)
  moreover have "fact_inv schema_db" by (simp add: fact_inv_def t p)
  moreover have "custody_inv schema_db"
    by (simp add: custody_inv_def paid_out_def live_deposits_def t e row_simps)
  ultimately show ?thesis
    using ledger_inv_schema market_inv_schema by (simp add: store_inv_def core_inv_def)
qed

lemma store_reachable_inv: "store_reachable d \<Longrightarrow> store_inv d"
  by (induction rule: store_reachable.induct) (auto intro: store_inv_schema store_inv_step)

text \<open>The equation of custody: what users own is what they paid in less what was paid out.\<close>

lemma internal_is_custody: "store_inv d \<Longrightarrow> internal_sum d = live_deposits d - paid_out d"
  using internal_sum_eq [of d] by (simp add: store_inv_def core_inv_def custody_inv_def)

end
