(* ===== verification/Vault.thy ===== *)
theory Vault
  imports Core "HOL-Library.AList"
begin

text \<open>
  The contract's storage and its executor as \<open>internal/chain/sim.go\<close> writes them: \<open>Tx\<close>,
  \<open>vault\<close> and \<open>applyTx\<close> with its checks in the code's order. The laws the simulator relies on
  are the locale \<open>nonce_contract\<close>: a nonce executes at most once, a cancelled nonce never, and
  custody changes by what was deposited and paid. \<open>vault_ok\<close> is the safety of custody.
\<close>

section \<open>Calls and storage\<close>

record tx =
  tx_nonce :: string
  tx_kind :: string
  tx_user :: string
  tx_amount :: int
  tx_market :: string
  tx_target :: int
  tx_outcome :: int
  tx_expiry :: int

text \<open>
  A Go map from strings to amounts is an association list with distinct keys, and a map to
  \<open>bool\<close> that only ever holds \<open>true\<close> is the set of its keys.
\<close>

record vault =
  va_balance :: int
  va_escrow :: "(string \<times> int) list"
  va_settled :: "string set"
  va_processed :: "string set"
  va_cancelled :: "string set"

definition newVault :: vault where
  "newVault = \<lparr>va_balance = 0, va_escrow = [], va_settled = {}, va_processed = {}, va_cancelled = {}\<rparr>"

definition escrowTotal :: "vault \<Rightarrow> int" where
  "escrowTotal v = foldl (\<lambda>t e. i64 (t + e)) 0 (map snd (va_escrow v))"

definition free :: "vault \<Rightarrow> int" where
  "free v = i64 (va_balance v - escrowTotal v)"

definition escrow_at :: "vault \<Rightarrow> string \<Rightarrow> int" where
  "escrow_at v m = (case map_of (va_escrow v) m of None \<Rightarrow> 0 | Some e \<Rightarrow> e)"

section \<open>The executor\<close>

definition consume :: "tx \<Rightarrow> vault \<Rightarrow> (string \<times> bool) \<times> vault" where
  "consume t v = (('''', True), v\<lparr>va_processed := insert (tx_nonce t) (va_processed v)\<rparr>)"

definition applyTx :: "tx \<Rightarrow> int \<Rightarrow> vault \<Rightarrow> (string \<times> bool) \<times> vault" where
  "applyTx t height v =
    (if tx_nonce t \<in> va_processed v then ((''already_processed'', False), v)
     else if tx_nonce t \<in> va_cancelled v then ((''expired'', False), v)
     else if tx_kind t \<noteq> ''cancel'' \<and> tx_expiry t > 0 \<and> height > tx_expiry t then ((''expired'', False), v)
     else if tx_kind t = ''deposit'' then
       if tx_amount t \<le> 0 then ((''zero_amount'', False), v)
       else consume t (v\<lparr>va_balance := i64 (va_balance v + tx_amount t)\<rparr>)
     else if tx_kind t = ''withdraw'' then
       if tx_amount t \<le> 0 then ((''zero_amount'', False), v)
       else if free v < tx_amount t then (('''', False), v)
       else consume t (v\<lparr>va_balance := i64 (va_balance v - tx_amount t)\<rparr>)
     else if tx_kind t = ''escrow_set'' then
       if tx_market t \<in> va_settled v then ((''market_settled'', False), v)
       else if tx_target t > escrow_at v (tx_market t) \<and>
         free v < i64 (tx_target t - escrow_at v (tx_market t)) then (('''', False), v)
       else if tx_target t = 0 then
         consume t (v\<lparr>va_escrow := AList.delete (tx_market t) (va_escrow v)\<rparr>)
       else consume t (v\<lparr>va_escrow := AList.update (tx_market t) (tx_target t) (va_escrow v)\<rparr>)
     else if tx_kind t = ''settle_market'' then
       if tx_market t \<in> va_settled v then ((''market_settled'', False), v)
       else consume t (v\<lparr>va_escrow := AList.delete (tx_market t) (va_escrow v),
              va_settled := insert (tx_market t) (va_settled v)\<rparr>)
     else if tx_kind t = ''cancel'' then
       if tx_expiry t = 0 \<or> height \<le> tx_expiry t then ((''not_yet_expired'', False), v)
       else (('''', True), v\<lparr>va_cancelled := insert (tx_nonce t) (va_cancelled v)\<rparr>)
     else ((''unknown_call'', False), v))"

text \<open>The state after a call, when the call is accepted.\<close>

definition accepts :: "tx \<Rightarrow> int \<Rightarrow> vault \<Rightarrow> vault option" where
  "accepts t height v = (if snd (fst (applyTx t height v)) then Some (snd (applyTx t height v)) else None)"

section \<open>What a contract with nonces promises\<close>

text \<open>Calls offered one after the other; a refused call changes nothing.\<close>

fun run_calls :: "('t \<Rightarrow> 'v \<Rightarrow> 'v option) \<Rightarrow> 't list \<Rightarrow> 'v \<Rightarrow> 'v" where
  "run_calls ex [] v = v"
| "run_calls ex (t # ts) v = (case ex t v of None \<Rightarrow> run_calls ex ts v | Some v' \<Rightarrow> run_calls ex ts v')"

text \<open>The calls among them that were accepted, in order.\<close>

fun accepted :: "('t \<Rightarrow> 'v \<Rightarrow> 'v option) \<Rightarrow> 't list \<Rightarrow> 'v \<Rightarrow> 't list" where
  "accepted ex [] v = []"
| "accepted ex (t # ts) v = (case ex t v of None \<Rightarrow> accepted ex ts v | Some v' \<Rightarrow> t # accepted ex ts v')"

locale nonce_contract =
  fixes ex :: "'t \<Rightarrow> 'v \<Rightarrow> 'v option"
    and nonce :: "'t \<Rightarrow> string"
    and cancels :: "'t \<Rightarrow> bool"
    and executed :: "'v \<Rightarrow> string set"
    and cancelled :: "'v \<Rightarrow> string set"
  assumes once: "nonce t \<in> executed v \<Longrightarrow> ex t v = None"
    and refused: "nonce t \<in> cancelled v \<Longrightarrow> ex t v = None"
    and executes: "ex t v = Some v' \<Longrightarrow> \<not> cancels t \<Longrightarrow>
      executed v' = insert (nonce t) (executed v) \<and> cancelled v' = cancelled v"
    and cancelling: "ex t v = Some v' \<Longrightarrow> cancels t \<Longrightarrow>
      executed v' = executed v \<and> cancelled v' = insert (nonce t) (cancelled v)"
begin

lemma executed_mono: "executed v \<subseteq> executed (run_calls ex ts v)"
proof (induction ts arbitrary: v)
  case (Cons t ts)
  show ?case
  proof (cases "ex t v")
    case (Some v')
    then have "executed v \<subseteq> executed v'" using executes [OF Some] cancelling [OF Some] by (cases "cancels t") auto
    with Cons [of v'] Some show ?thesis by auto
  qed (use Cons in simp)
qed simp

lemma cancelled_mono: "cancelled v \<subseteq> cancelled (run_calls ex ts v)"
proof (induction ts arbitrary: v)
  case (Cons t ts)
  show ?case
  proof (cases "ex t v")
    case (Some v')
    then have "cancelled v \<subseteq> cancelled v'" using executes [OF Some] cancelling [OF Some] by (cases "cancels t") auto
    with Cons [of v'] Some show ?thesis by auto
  qed (use Cons in simp)
qed simp

lemma executed_run:
  "executed (run_calls ex ts v) = executed v \<union> nonce ` {t \<in> set (accepted ex ts v). \<not> cancels t}"
proof (induction ts arbitrary: v)
  case (Cons t ts)
  show ?case
  proof (cases "ex t v")
    case (Some v')
    show ?thesis
    proof (cases "cancels t")
      case True
      with Cons [of v'] Some cancelling [OF Some] show ?thesis by auto
    next
      case False
      with Cons [of v'] Some executes [OF Some] show ?thesis by auto
    qed
  qed (use Cons in simp)
qed simp

lemma separate: "executed v \<inter> cancelled v = {} \<Longrightarrow> executed (run_calls ex ts v) \<inter> cancelled (run_calls ex ts v) = {}"
proof (induction ts arbitrary: v)
  case (Cons t ts)
  show ?case
  proof (cases "ex t v")
    case (Some v')
    have "nonce t \<notin> executed v" "nonce t \<notin> cancelled v"
      using once [of t v] refused [of t v] Some by auto
    then have "executed v' \<inter> cancelled v' = {}"
      using Cons.prems executes [OF Some] cancelling [OF Some] by (cases "cancels t") auto
    with Cons.IH [of v'] Some show ?thesis by simp
  qed (use Cons in simp)
qed simp

text \<open>
  However often a call is offered, its nonce is accepted at most once, and never after it ran or
  was cancelled before.
\<close>

lemma accepted_distinct:
  "distinct (map nonce (accepted ex ts v)) \<and>
   nonce ` set (accepted ex ts v) \<inter> (executed v \<union> cancelled v) = {}"
proof (induction ts arbitrary: v)
  case (Cons t ts)
  show ?case
  proof (cases "ex t v")
    case (Some v')
    have "nonce t \<notin> executed v" "nonce t \<notin> cancelled v"
      using once [of t v] refused [of t v] Some by auto
    moreover have "executed v' \<union> cancelled v' = insert (nonce t) (executed v \<union> cancelled v)"
      using executes [OF Some] cancelling [OF Some] by (cases "cancels t") auto
    ultimately show ?thesis using Cons [of v'] Some by auto
  qed (use Cons in simp)
qed simp

text \<open>Replaying exactly the accepted calls accepts all of them and gives the same state.\<close>

lemma replay:
  "run_calls ex (accepted ex ts v) v = run_calls ex ts v \<and> accepted ex (accepted ex ts v) v = accepted ex ts v"
proof (induction ts arbitrary: v)
  case (Cons t ts)
  then show ?case by (cases "ex t v") auto
qed simp

end

lemma run_calls_append: "run_calls ex (xs @ ys) v = run_calls ex ys (run_calls ex xs v)"
  by (induction xs arbitrary: v) (auto split: option.splits)

lemma accepted_append: "accepted ex (xs @ ys) v = accepted ex xs v @ accepted ex ys (run_calls ex xs v)"
  by (induction xs arbitrary: v) (auto split: option.splits)

section \<open>The executor keeps the contract\<close>

definition is_cancel :: "tx \<times> int \<Rightarrow> bool" where
  "is_cancel c \<longleftrightarrow> tx_kind (fst c) = ''cancel''"

definition call_nonce :: "tx \<times> int \<Rightarrow> string" where
  "call_nonce c = tx_nonce (fst c)"

definition execAt :: "tx \<times> int \<Rightarrow> vault \<Rightarrow> vault option" where
  "execAt c v = accepts (fst c) (snd c) v"

lemma applyTx_refused: "applyTx t h v = ((r, False), v') \<Longrightarrow> v' = v"
  by (auto simp: applyTx_def consume_def split: if_splits)

lemma applyTx_state: "snd (applyTx t h v) = (case accepts t h v of None \<Rightarrow> v | Some v' \<Rightarrow> v')"
  using applyTx_refused [of t h v "fst (fst (applyTx t h v))" "snd (applyTx t h v)"]
  by (cases "applyTx t h v" rule: prod.exhaust) (auto simp: accepts_def split: if_splits)

lemma accepts_fresh:
  assumes "accepts t h v = Some v'"
  shows "tx_nonce t \<notin> va_processed v" "tx_nonce t \<notin> va_cancelled v"
    and "tx_kind t \<noteq> ''cancel'' \<Longrightarrow> 0 < tx_expiry t \<Longrightarrow> h \<le> tx_expiry t"
proof -
  show p: "tx_nonce t \<notin> va_processed v"
    by (rule notI) (use assms in \<open>simp add: accepts_def applyTx_def\<close>)
  show c: "tx_nonce t \<notin> va_cancelled v"
    by (rule notI) (use assms p in \<open>simp add: accepts_def applyTx_def\<close>)
  show "h \<le> tx_expiry t" if "tx_kind t \<noteq> ''cancel''" "0 < tx_expiry t"
    by (rule ccontr) (use assms p c that in \<open>simp add: accepts_def applyTx_def\<close>)
qed

lemma accepts_cases:
  assumes "accepts t h v = Some v'"
  obtains (deposit) "tx_kind t = ''deposit''" "0 < tx_amount t"
      "v' = v\<lparr>va_balance := i64 (va_balance v + tx_amount t),
        va_processed := insert (tx_nonce t) (va_processed v)\<rparr>"
  | (withdraw) "tx_kind t = ''withdraw''" "0 < tx_amount t" "tx_amount t \<le> free v"
      "v' = v\<lparr>va_balance := i64 (va_balance v - tx_amount t),
        va_processed := insert (tx_nonce t) (va_processed v)\<rparr>"
  | (unset) "tx_kind t = ''escrow_set''" "tx_market t \<notin> va_settled v" "tx_target t = 0"
      "v' = v\<lparr>va_escrow := AList.delete (tx_market t) (va_escrow v),
        va_processed := insert (tx_nonce t) (va_processed v)\<rparr>"
  | (set) "tx_kind t = ''escrow_set''" "tx_market t \<notin> va_settled v" "tx_target t \<noteq> 0"
      "tx_target t > escrow_at v (tx_market t) \<Longrightarrow> i64 (tx_target t - escrow_at v (tx_market t)) \<le> free v"
      "v' = v\<lparr>va_escrow := AList.update (tx_market t) (tx_target t) (va_escrow v),
        va_processed := insert (tx_nonce t) (va_processed v)\<rparr>"
  | (settle) "tx_kind t = ''settle_market''" "tx_market t \<notin> va_settled v"
      "v' = v\<lparr>va_escrow := AList.delete (tx_market t) (va_escrow v),
        va_settled := insert (tx_market t) (va_settled v),
        va_processed := insert (tx_nonce t) (va_processed v)\<rparr>"
  | (cancel) "tx_kind t = ''cancel''" "tx_expiry t < h"
      "v' = v\<lparr>va_cancelled := insert (tx_nonce t) (va_cancelled v)\<rparr>"
proof -
  note fresh = accepts_fresh [OF assms]
  have late: "\<not> (tx_kind t \<noteq> ''cancel'' \<and> tx_expiry t > 0 \<and> h > tx_expiry t)" using fresh(3) by auto
  note res = assms [unfolded accepts_def applyTx_def consume_def if_not_P [OF fresh(1)] if_not_P [OF fresh(2)]
      if_not_P [OF late]]
  consider "tx_kind t = ''deposit''" | "tx_kind t = ''withdraw''" | "tx_kind t = ''escrow_set''"
    | "tx_kind t = ''settle_market''" | "tx_kind t = ''cancel''"
    | "tx_kind t \<notin> {''deposit'', ''withdraw'', ''escrow_set'', ''settle_market'', ''cancel''}" by blast
  then show ?thesis
  proof cases
    case 1
    with res show ?thesis by (intro deposit) (simp_all split: if_splits)
  next
    case 2
    with res show ?thesis by (intro withdraw) (simp_all split: if_splits)
  next
    case 3
    show ?thesis
    proof (cases "tx_target t = 0")
      case True
      with res 3 show ?thesis by (intro unset) (simp_all split: if_splits)
    next
      case False
      with res 3 show ?thesis by (intro set) (simp_all split: if_splits)
    qed
  next
    case 4
    with res show ?thesis by (intro settle) (simp_all split: if_splits)
  next
    case 5
    with res show ?thesis by (intro cancel) (simp_all split: if_splits)
  next
    case 6
    with res show ?thesis by simp
  qed
qed

interpretation sim: nonce_contract execAt call_nonce is_cancel va_processed va_cancelled
proof
  fix c v v'
  show "execAt c v = None" if "call_nonce c \<in> va_processed v"
    using accepts_fresh(1) [of "fst c" "snd c" v] that
    by (cases "execAt c v") (auto simp: execAt_def call_nonce_def)
  show "execAt c v = None" if "call_nonce c \<in> va_cancelled v"
    using accepts_fresh(2) [of "fst c" "snd c" v] that
    by (cases "execAt c v") (auto simp: execAt_def call_nonce_def)
  show "va_processed v' = insert (call_nonce c) (va_processed v) \<and> va_cancelled v' = va_cancelled v"
    if "execAt c v = Some v'" "\<not> is_cancel c"
    using that unfolding execAt_def is_cancel_def call_nonce_def by (auto elim: accepts_cases)
  show "va_processed v' = va_processed v \<and> va_cancelled v' = insert (call_nonce c) (va_cancelled v)"
    if "execAt c v = Some v'" "is_cancel c"
    using that unfolding execAt_def is_cancel_def call_nonce_def by (auto elim: accepts_cases)
qed

section \<open>Custody is safe\<close>

definition escrow_sum :: "vault \<Rightarrow> int" where
  "escrow_sum v = sum_list (map snd (va_escrow v))"

text \<open>The contract's own \<open>check\<close>, with the ranges in which Go's arithmetic is exact.\<close>

definition vault_ok :: "vault \<Rightarrow> bool" where
  "vault_ok v \<longleftrightarrow> distinct (map fst (va_escrow v)) \<and> (\<forall>e \<in> set (map snd (va_escrow v)). 0 < e) \<and>
     escrow_sum v \<le> va_balance v \<and> int64 (va_balance v) \<and>
     (\<forall>m \<in> set (map fst (va_escrow v)). m \<notin> va_settled v)"

definition tx_ok :: "tx \<Rightarrow> bool" where
  "tx_ok t \<longleftrightarrow> int64 (tx_amount t) \<and> 0 \<le> tx_target t \<and> int64 (tx_target t)"

definition room :: "tx \<Rightarrow> vault \<Rightarrow> bool" where
  "room t v \<longleftrightarrow> tx_kind t = ''deposit'' \<longrightarrow> int64 (va_balance v + tx_amount t)"

lemma sum_positive: "\<forall>e \<in> set xs. 0 < e \<Longrightarrow> 0 \<le> sum_list (xs :: int list)"
  by (induction xs) auto

lemma foldl_i64: "foldl (\<lambda>t e. i64 (t + e)) (i64 a) xs = i64 (a + sum_list xs)"
  by (induction xs arbitrary: a) (simp_all add: add.assoc)

lemma vault_ok_exact:
  assumes "vault_ok v"
  shows "escrowTotal v = escrow_sum v" and "free v = va_balance v - escrow_sum v"
    and "0 \<le> escrow_sum v" and "0 \<le> free v" and "0 \<le> va_balance v"
proof -
  have nn: "0 \<le> escrow_sum v" unfolding escrow_sum_def
    by (rule sum_positive) (use assms in \<open>simp add: vault_ok_def\<close>)
  have rng: "escrow_sum v \<le> va_balance v" "int64 (va_balance v)" using assms by (simp_all add: vault_ok_def)
  then have i: "int64 (escrow_sum v)" using nn by (auto simp: int64_def)
  have "escrowTotal v = i64 (escrow_sum v)"
    using foldl_i64 [of 0 "map snd (va_escrow v)"] by (simp add: escrowTotal_def escrow_sum_def)
  with i show t: "escrowTotal v = escrow_sum v" by simp
  have "int64 (va_balance v - escrow_sum v)" using rng nn by (auto simp: int64_def)
  then show f: "free v = va_balance v - escrow_sum v" by (simp add: free_def t)
  show "0 \<le> escrow_sum v" "0 \<le> free v" "0 \<le> va_balance v" using nn rng f by simp_all
qed

lemma alist_sums:
  fixes xs :: "(string \<times> int) list"
  fixes m :: string
  assumes "distinct (map fst xs)"
  defines "old \<equiv> case map_of xs m of None \<Rightarrow> 0 | Some e \<Rightarrow> e"
  shows "sum_list (map snd (AList.update m n xs)) = sum_list (map snd xs) - old + n"
    and "sum_list (map snd (AList.delete m xs)) = sum_list (map snd xs) - old"
proof -
  have absent: "AList.delete m ys = ys" if "m \<notin> set (map fst ys)" for ys :: "(string \<times> int) list"
    using that by (induction ys) (auto simp: AList.delete_eq)
  have "sum_list (map snd (AList.update m n xs)) = sum_list (map snd xs)
      - (case map_of xs m of None \<Rightarrow> 0 | Some e \<Rightarrow> e) + n \<and>
    sum_list (map snd (AList.delete m xs)) = sum_list (map snd xs)
      - (case map_of xs m of None \<Rightarrow> 0 | Some e \<Rightarrow> e)"
    using assms(1)
  proof (induction xs)
    case Nil
    then show ?case by (simp add: AList.delete_eq)
  next
    case (Cons p xs)
    show ?case
    proof (cases "fst p = m")
      case True
      with Cons.prems have "AList.delete m xs = xs" by (intro absent) auto
      with True show ?thesis by (cases p) (simp add: AList.delete_eq)
    next
      case False
      with Cons show ?thesis by (cases p) (simp add: AList.delete_eq)
    qed
  qed
  then show "sum_list (map snd (AList.update m n xs)) = sum_list (map snd xs) - old + n"
    "sum_list (map snd (AList.delete m xs)) = sum_list (map snd xs) - old"
    by (simp_all add: old_def)
qed

lemma alist_values:
  fixes xs :: "(string \<times> int) list"
  shows "e \<in> set (map snd (AList.update m n xs)) \<Longrightarrow> e = n \<or> e \<in> set (map snd xs)"
    and "e \<in> set (map snd (AList.delete m xs)) \<Longrightarrow> e \<in> set (map snd xs)"
    and "set (map fst (AList.update m n xs)) = insert m (set (map fst xs))"
    and "set (map fst (AList.delete m xs)) = set (map fst xs) - {m}"
    and "distinct (map fst xs) \<Longrightarrow> distinct (map fst (AList.update m n xs))"
    and "distinct (map fst xs) \<Longrightarrow> distinct (map fst (AList.delete m xs))"
proof -
  show "e \<in> set (map snd (AList.update m n xs)) \<Longrightarrow> e = n \<or> e \<in> set (map snd xs)"
    by (induction xs) (auto split: if_splits)
  show "e \<in> set (map snd (AList.delete m xs)) \<Longrightarrow> e \<in> set (map snd xs)"
    by (auto simp: AList.delete_eq)
  show "set (map fst (AList.update m n xs)) = insert m (set (map fst xs))"
    by (induction xs) auto
  show "set (map fst (AList.delete m xs)) = set (map fst xs) - {m}"
    by (auto simp: AList.delete_eq)
qed (simp_all add: AList.distinct_update AList.distinct_delete)

lemma escrow_at_le: "vault_ok v \<Longrightarrow> 0 \<le> escrow_at v m \<and> escrow_at v m \<le> escrow_sum v"
proof -
  assume ok: "vault_ok v"
  have "e \<le> sum_list (map snd xs)" if "(m, e) \<in> set xs" "\<forall>e \<in> set (map snd xs). 0 < e" for e and xs :: "(string \<times> int) list"
    using that
  proof (induction xs)
    case (Cons p xs)
    moreover have "0 \<le> sum_list (map snd xs)" by (rule sum_positive) (use Cons.prems(2) in auto)
    ultimately show ?case by (auto simp: less_imp_le)
  qed simp
  then show ?thesis
    using ok vault_ok_exact(3) [OF ok]
    by (auto simp: escrow_at_def vault_ok_def escrow_sum_def split: option.split dest!: map_of_SomeD intro: less_imp_le)
qed

lemma vault_ok_delete:
  assumes ok: "vault_ok v" and esc: "va_escrow v' = AList.delete m (va_escrow v)"
    and bal: "va_balance v' = va_balance v" and settled: "va_settled v' \<subseteq> insert m (va_settled v)"
  shows "vault_ok v'"
proof -
  have parts: "distinct (map fst (va_escrow v))" "\<forall>e \<in> set (map snd (va_escrow v)). 0 < e"
    "escrow_sum v \<le> va_balance v" "int64 (va_balance v)" "\<forall>m \<in> set (map fst (va_escrow v)). m \<notin> va_settled v"
    using ok by (simp_all add: vault_ok_def)
  have "escrow_sum v' \<le> escrow_sum v"
    using alist_sums(2) [OF parts(1), of m] escrow_at_le [OF ok, of m]
    by (simp add: esc escrow_sum_def escrow_at_def)
  moreover have "0 < e" if "e \<in> set (map snd (va_escrow v'))" for e
    using alist_values(2) [of e m "va_escrow v"] that parts(2) esc by auto
  moreover have "k \<notin> va_settled v'" if "k \<in> set (map fst (va_escrow v'))" for k
    using alist_values(4) [of m "va_escrow v"] that parts(5) settled esc by auto
  moreover have "distinct (map fst (va_escrow v'))" using alist_values(6) [OF parts(1)] by (simp add: esc)
  ultimately show ?thesis using parts by (simp add: vault_ok_def bal)
qed

text \<open>The money a call moves into and out of the vault.\<close>

definition tx_delta :: "tx \<Rightarrow> int" where
  "tx_delta t = (if tx_kind t = ''deposit'' then tx_amount t
     else if tx_kind t = ''withdraw'' then - tx_amount t else 0)"

lemma accepts_safe:
  assumes acc: "accepts t h v = Some v'" and ok: "vault_ok v" and tok: "tx_ok t" and rm: "room t v"
  shows "vault_ok v'" and "va_balance v' = va_balance v + tx_delta t"
proof -
  note ex = vault_ok_exact [OF ok]
  have parts: "distinct (map fst (va_escrow v))" "\<forall>e \<in> set (map snd (va_escrow v)). 0 < e"
    "escrow_sum v \<le> va_balance v" "int64 (va_balance v)" "\<forall>m \<in> set (map fst (va_escrow v)). m \<notin> va_settled v"
    using ok by (simp_all add: vault_ok_def)
  note sums = alist_sums [OF parts(1)]
  have at: "0 \<le> escrow_at v m" "escrow_at v m \<le> escrow_sum v" for m using escrow_at_le [OF ok] by auto
  have "vault_ok v' \<and> va_balance v' = va_balance v + tx_delta t"
    using acc
  proof (cases rule: accepts_cases)
    case deposit
    have "i64 (va_balance v + tx_amount t) = va_balance v + tx_amount t"
      using rm deposit(1) by (simp add: room_def)
    then show ?thesis using deposit parts rm by (simp add: vault_ok_def escrow_sum_def tx_delta_def room_def)
  next
    case withdraw
    have "int64 (va_balance v - tx_amount t)" using withdraw(2,3) ex parts(4) by (auto simp: int64_def)
    then show ?thesis using withdraw parts ex by (simp add: vault_ok_def escrow_sum_def tx_delta_def)
  next
    case unset
    then show ?thesis using vault_ok_delete [OF ok, of v' "tx_market t"] by (simp add: tx_delta_def subset_insertI)
  next
    case set
    have n: "0 < tx_target t" "int64 (tx_target t)" using tok set(3) by (auto simp: tx_ok_def)
    have "escrow_sum v' = escrow_sum v - escrow_at v (tx_market t) + tx_target t"
      using sums(1) [of "tx_market t" "tx_target t"] by (simp add: set(5) escrow_sum_def escrow_at_def)
    moreover have "int64 (tx_target t - escrow_at v (tx_market t))"
      using n at [of "tx_market t"] parts(3,4) by (auto simp: int64_def)
    then have "tx_target t - escrow_at v (tx_market t) \<le> free v"
      using set(4) ex(4) by (cases "tx_target t > escrow_at v (tx_market t)") simp_all
    ultimately have le: "escrow_sum v' \<le> va_balance v" using ex(2) by simp
    have vals: "0 < e" if "e \<in> set (map snd (va_escrow v'))" for e
      using alist_values(1) [of e "tx_market t" "tx_target t" "va_escrow v"] that n parts(2) by (auto simp: set(5))
    have keys: "m \<notin> va_settled v'" if "m \<in> set (map fst (va_escrow v'))" for m
      using alist_values(3) [of "tx_market t" "tx_target t" "va_escrow v"] that parts(5) set(2) by (auto simp: set(5))
    have "distinct (map fst (va_escrow v'))" using parts(1) by (simp add: set(5) alist_values(5))
    then show ?thesis using le vals keys parts(4) set(1) by (simp add: vault_ok_def tx_delta_def set(5))
  next
    case settle
    then show ?thesis using vault_ok_delete [OF ok, of v' "tx_market t"] by (simp add: tx_delta_def)
  next
    case cancel
    then show ?thesis using ok by (simp add: vault_ok_def escrow_sum_def tx_delta_def)
  qed
  then show "vault_ok v'" "va_balance v' = va_balance v + tx_delta t" by simp_all
qed

lemma vault_ok_new: "vault_ok newVault"
  by (simp add: vault_ok_def newVault_def escrow_sum_def)

text \<open>An absolute target converges: a second call with the same target changes no escrow.\<close>

lemma escrow_at_set: "tx_target t \<noteq> 0 \<Longrightarrow> tx_kind t = ''escrow_set'' \<Longrightarrow> accepts t h v = Some v' \<Longrightarrow>
  escrow_at v' (tx_market t) = tx_target t"
  by (erule accepts_cases) (auto simp: escrow_at_def AList.update_conv')

end
