(* ===== verification/Contract.thy ===== *)
theory Contract
  imports Vault
begin

text \<open>
  The on-chain contract, \<open>contracts/vault/src/lib.rs\<close>: \<open>Vault::execute\<close> over \<open>u128\<close> amounts with
  overflow checks, and its agreement with the simulator's \<open>applyTx\<close>, which calls itself its
  mirror. A panic (overflow or underflow of an amount) is the result \<open>None\<close>. The checked build
  also asserts \<open>check\<close> after every call; \<open>check_ok\<close> below is that predicate, not a branch.
\<close>

section \<open>The contract\<close>

definition U128 :: nat where "U128 = 2 ^ 128"

definition checked_add :: "nat \<Rightarrow> nat \<Rightarrow> nat option" where
  "checked_add a b = (if a + b < U128 then Some (a + b) else None)"

definition checked_sub :: "nat \<Rightarrow> nat \<Rightarrow> nat option" where
  "checked_sub a b = (if b \<le> a then Some (a - b) else None)"

datatype call =
    CDeposit string string nat
  | CWithdraw string string nat nat
  | CEscrowSet string string nat nat
  | CSettleMarket string string bool nat
  | CCancel string nat

fun nonce :: "call \<Rightarrow> string" where
  "nonce (CDeposit fid user amount) = fid"
| "nonce (CWithdraw n user amount expiry) = n"
| "nonce (CEscrowSet n market target expiry) = n"
| "nonce (CSettleMarket n market outcome expiry) = n"
| "nonce (CCancel n expiry) = n"

fun expiry :: "call \<Rightarrow> nat" where
  "expiry (CDeposit fid user amount) = 0"
| "expiry (CWithdraw n user amount e) = e"
| "expiry (CEscrowSet n market target e) = e"
| "expiry (CSettleMarket n market outcome e) = e"
| "expiry (CCancel n e) = e"

fun is_cancel_call :: "call \<Rightarrow> bool" where
  "is_cancel_call (CCancel n e) = True"
| "is_cancel_call c = False"

datatype vault_error =
    AlreadyProcessed | NonceExpired | InsufficientFree | EscrowExceedsCustody | MarketIsSettled
  | NotYetExpired | ZeroAmount

record receipt =
  rc_height :: nat
  rc_free_after :: nat
  rc_escrow_total_after :: nat
  rc_paid_out :: nat

record rvault =
  rv_height :: nat
  rv_balance :: nat
  rv_escrow :: "(string \<times> nat) list"
  rv_settled :: "string \<rightharpoonup> bool"
  rv_processed :: "string \<rightharpoonup> receipt"
  rv_cancelled :: "string set"
  rv_deposited :: "string \<rightharpoonup> nat"

definition new_rvault :: rvault where
  "new_rvault = \<lparr>rv_height = 0, rv_balance = 0, rv_escrow = [], rv_settled = Map.empty,
     rv_processed = Map.empty, rv_cancelled = {}, rv_deposited = Map.empty\<rparr>"

text \<open>\<open>values().sum()\<close> with overflow checks.\<close>

fun checked_sum :: "nat list \<Rightarrow> nat \<Rightarrow> nat option" where
  "checked_sum [] a = Some a"
| "checked_sum (x # xs) a = (case checked_add a x of None \<Rightarrow> None | Some b \<Rightarrow> checked_sum xs b)"

definition escrow_total :: "rvault \<Rightarrow> nat option" where
  "escrow_total v = checked_sum (map snd (rv_escrow v)) 0"

definition escrow_of :: "rvault \<Rightarrow> string \<Rightarrow> nat" where
  "escrow_of v m = (case map_of (rv_escrow v) m of None \<Rightarrow> 0 | Some e \<Rightarrow> e)"

definition rfree :: "rvault \<Rightarrow> nat option" where
  "rfree v = Option.bind (escrow_total v) (checked_sub (rv_balance v))"

definition deposited_by :: "rvault \<Rightarrow> string \<Rightarrow> nat" where
  "deposited_by v u = (case rv_deposited v u of None \<Rightarrow> 0 | Some n \<Rightarrow> n)"

definition advance_block :: "rvault \<Rightarrow> rvault" where
  "advance_block v = v\<lparr>rv_height := rv_height v + 1\<rparr>"

text \<open>The \<open>match\<close> of \<open>execute\<close>: the amount paid out and the state, an error, or a panic.\<close>

fun effect :: "call \<Rightarrow> rvault \<Rightarrow> (vault_error + nat \<times> rvault) option" where
  "effect (CDeposit fid user amount) v =
    (if amount = 0 then Some (Inl ZeroAmount)
     else Option.bind (checked_add (rv_balance v) amount) (\<lambda>b.
       Option.bind (checked_add (deposited_by v user) amount) (\<lambda>s.
       Some (Inr (0, v\<lparr>rv_balance := b, rv_deposited := (rv_deposited v)(user \<mapsto> s)\<rparr>)))))"
| "effect (CWithdraw n user amount e) v =
    (if amount = 0 then Some (Inl ZeroAmount)
     else Option.bind (rfree v) (\<lambda>f.
       if f < amount then Some (Inl InsufficientFree)
       else Option.bind (checked_sub (rv_balance v) amount) (\<lambda>b.
         Some (Inr (amount, v\<lparr>rv_balance := b\<rparr>)))))"
| "effect (CEscrowSet n market target e) v =
    (if rv_settled v market \<noteq> None then Some (Inl MarketIsSettled)
     else
       let current = escrow_of v market;
           v' = (if target = 0 then v\<lparr>rv_escrow := AList.delete market (rv_escrow v)\<rparr>
                 else v\<lparr>rv_escrow := AList.update market target (rv_escrow v)\<rparr>)
       in if target > current then
            Option.bind (rfree v) (\<lambda>f.
              if f < target - current then Some (Inl EscrowExceedsCustody) else Some (Inr (0, v')))
          else Some (Inr (0, v')))"
| "effect (CSettleMarket n market outcome e) v =
    (if rv_settled v market \<noteq> None then Some (Inl MarketIsSettled)
     else Some (Inr (0, v\<lparr>rv_escrow := AList.delete market (rv_escrow v),
            rv_settled := (rv_settled v)(market \<mapsto> outcome)\<rparr>)))"
| "effect (CCancel n e) v =
    (if e = 0 \<or> rv_height v \<le> e then Some (Inl NotYetExpired)
     else Some (Inr (0, v\<lparr>rv_cancelled := insert n (rv_cancelled v)\<rparr>)))"

definition execute :: "call \<Rightarrow> rvault \<Rightarrow> ((vault_error + receipt) \<times> rvault) option" where
  "execute c v =
    (if rv_processed v (nonce c) \<noteq> None then Some (Inl AlreadyProcessed, v)
     else if nonce c \<in> rv_cancelled v then Some (Inl NonceExpired, v)
     else if expiry c > 0 \<and> rv_height v > expiry c \<and> \<not> is_cancel_call c then Some (Inl NonceExpired, v)
     else case effect c v of
       None \<Rightarrow> None
     | Some (Inl e) \<Rightarrow> Some (Inl e, v)
     | Some (Inr (paid, v')) \<Rightarrow>
         Option.bind (rfree v') (\<lambda>f. Option.bind (escrow_total v') (\<lambda>t.
         let receipt = \<lparr>rc_height = rv_height v', rc_free_after = f, rc_escrow_total_after = t,
               rc_paid_out = paid\<rparr>
         in Some (Inr receipt,
              if is_cancel_call c then v'
              else v'\<lparr>rv_processed := (rv_processed v')(nonce c \<mapsto> receipt)\<rparr>))))"

definition check_ok :: "rvault \<Rightarrow> bool" where
  "check_ok v \<longleftrightarrow> (case escrow_total v of None \<Rightarrow> False | Some t \<Rightarrow> t \<le> rv_balance v) \<and>
     (\<forall>e \<in> set (map snd (rv_escrow v)). e \<noteq> 0) \<and>
     (\<forall>m \<in> set (map fst (rv_escrow v)). rv_settled v m = None)"

section \<open>The contract keeps the nonce rules\<close>

definition rexec :: "call \<Rightarrow> rvault \<Rightarrow> rvault option" where
  "rexec c v = (case execute c v of Some (Inr r, v') \<Rightarrow> Some v' | _ \<Rightarrow> None)"

lemma effect_nonces:
  "effect c v = Some (Inr (p, v')) \<Longrightarrow> rv_processed v' = rv_processed v \<and> rv_height v' = rv_height v \<and>
    rv_cancelled v' = (if is_cancel_call c then insert (nonce c) (rv_cancelled v) else rv_cancelled v)"
  by (cases c) (auto simp: Let_def bind_eq_Some_conv split: if_splits)

lemma rexec_cases:
  assumes "rexec c v = Some v'"
  obtains p v1 r where "rv_processed v (nonce c) = None" "nonce c \<notin> rv_cancelled v"
    "\<not> (expiry c > 0 \<and> rv_height v > expiry c \<and> \<not> is_cancel_call c)"
    "effect c v = Some (Inr (p, v1))"
    "v' = (if is_cancel_call c then v1 else v1\<lparr>rv_processed := (rv_processed v1)(nonce c \<mapsto> r)\<rparr>)"
  using assms
  by (auto simp: rexec_def execute_def Let_def bind_eq_Some_conv split: option.splits sum.splits if_splits)

interpretation rust: nonce_contract rexec nonce is_cancel_call "\<lambda>v. dom (rv_processed v)" rv_cancelled
proof
  fix c v v'
  show "rexec c v = None" if "nonce c \<in> dom (rv_processed v)"
    using that by (cases "rexec c v") (auto elim: rexec_cases)
  show "rexec c v = None" if "nonce c \<in> rv_cancelled v"
    using that by (cases "rexec c v") (auto elim: rexec_cases)
  show "dom (rv_processed v') = insert (nonce c) (dom (rv_processed v)) \<and> rv_cancelled v' = rv_cancelled v"
    if "rexec c v = Some v'" "\<not> is_cancel_call c"
    using that(1)
  proof (cases rule: rexec_cases)
    case (1 p v1 r)
    with that(2) effect_nonces [OF 1(4)] show ?thesis by auto
  qed
  show "dom (rv_processed v') = dom (rv_processed v) \<and> rv_cancelled v' = insert (nonce c) (rv_cancelled v)"
    if "rexec c v = Some v'" "is_cancel_call c"
    using that(1)
  proof (cases rule: rexec_cases)
    case (1 p v1 r)
    with that(2) effect_nonces [OF 1(4)] show ?thesis by auto
  qed
qed

section \<open>The simulator is its mirror\<close>

text \<open>The call that \<open>writeTrace\<close> writes and the replay reads: settlement outcomes become a bit.\<close>

definition call_of :: "tx \<Rightarrow> call option" where
  "call_of t =
    (if tx_kind t = ''deposit'' then Some (CDeposit (tx_nonce t) (tx_user t) (nat (tx_amount t)))
     else if tx_kind t = ''withdraw'' then
       Some (CWithdraw (tx_nonce t) (tx_user t) (nat (tx_amount t)) (nat (tx_expiry t)))
     else if tx_kind t = ''escrow_set'' then
       Some (CEscrowSet (tx_nonce t) (tx_market t) (nat (tx_target t)) (nat (tx_expiry t)))
     else if tx_kind t = ''settle_market'' then
       Some (CSettleMarket (tx_nonce t) (tx_market t) (tx_outcome t > 0) (nat (tx_expiry t)))
     else if tx_kind t = ''cancel'' then Some (CCancel (tx_nonce t) (nat (tx_expiry t)))
     else None)"

text \<open>Go reports a transient refusal by an empty reason.\<close>

fun reason_of :: "vault_error \<Rightarrow> string" where
  "reason_of AlreadyProcessed = ''already_processed''"
| "reason_of NonceExpired = ''expired''"
| "reason_of InsufficientFree = ''''"
| "reason_of EscrowExceedsCustody = ''''"
| "reason_of MarketIsSettled = ''market_settled''"
| "reason_of NotYetExpired = ''not_yet_expired''"
| "reason_of ZeroAmount = ''zero_amount''"

definition mirrors :: "vault \<Rightarrow> rvault \<Rightarrow> bool" where
  "mirrors g r \<longleftrightarrow> va_balance g = int (rv_balance r) \<and>
     va_escrow g = map (\<lambda>(m, e). (m, int e)) (rv_escrow r) \<and>
     va_settled g = dom (rv_settled r) \<and> va_processed g = dom (rv_processed r) \<and>
     va_cancelled g = rv_cancelled r"

lemma checked_sum_eq: "a + sum_list xs < U128 \<Longrightarrow> checked_sum xs a = Some (a + sum_list xs)"
  by (induction xs arbitrary: a) (auto simp: checked_add_def add.assoc)

lemma mirror_free:
  assumes "mirrors g r" and ok: "vault_ok g"
  obtains t f where "escrow_total r = Some t" "rfree r = Some f" "int t = escrow_sum g" "int f = free g"
    "rv_balance r < U128" "f \<le> rv_balance r"
proof -
  have int_sum: "int (sum_list xs) = sum_list (map int xs)" for xs
    by (induction xs) auto
  have "map snd (va_escrow g) = map int (map snd (rv_escrow r))"
    using assms(1) by (auto simp: mirrors_def)
  then have t: "int (sum_list (map snd (rv_escrow r))) = escrow_sum g"
    unfolding escrow_sum_def using int_sum [of "map snd (rv_escrow r)"] by simp
  have b: "va_balance g = int (rv_balance r)" using assms(1) by (simp add: mirrors_def)
  have le: "escrow_sum g \<le> va_balance g" "int64 (va_balance g)" using ok by (simp_all add: vault_ok_def)
  then have lt: "rv_balance r < U128" "sum_list (map snd (rv_escrow r)) \<le> rv_balance r"
    using b t by (auto simp: int64_def U128_def)
  then have et: "escrow_total r = Some (sum_list (map snd (rv_escrow r)))"
    using checked_sum_eq [of 0 "map snd (rv_escrow r)"] by (simp add: escrow_total_def)
  have fr: "rfree r = Some (rv_balance r - sum_list (map snd (rv_escrow r)))"
    using lt by (simp add: rfree_def et checked_sub_def)
  have ff: "int (rv_balance r - sum_list (map snd (rv_escrow r))) = free g"
    using lt(2) b t vault_ok_exact(2) [OF ok] by (simp add: of_nat_diff)
  show ?thesis by (rule that [OF et fr t ff lt(1)]) simp
qed

lemma mirror_escrow:
  assumes "mirrors g r"
  shows "escrow_at g m = int (escrow_of r m)"
    and "AList.delete m (va_escrow g) = map (\<lambda>(m, e). (m, int e)) (AList.delete m (rv_escrow r))"
    and "AList.update m (int n) (va_escrow g) = map (\<lambda>(m, e). (m, int e)) (AList.update m n (rv_escrow r))"
proof -
  have e: "va_escrow g = map (\<lambda>(m, e). (m, int e)) (rv_escrow r)" using assms by (simp add: mirrors_def)
  show "escrow_at g m = int (escrow_of r m)"
    by (auto simp: escrow_at_def escrow_of_def e map_of_map split: option.split)
  show "AList.delete m (va_escrow g) = map (\<lambda>(m, e). (m, int e)) (AList.delete m (rv_escrow r))"
  proof -
    have "AList.delete m (map (\<lambda>(m, e). (m, int e)) xs) = map (\<lambda>(m, e). (m, int e)) (AList.delete m xs)" for xs
      by (induction xs) (auto simp: AList.delete_eq)
    then show ?thesis by (simp add: e)
  qed
  have "AList.update m (int n) (map (\<lambda>(m, e). (m, int e)) xs) = map (\<lambda>(m, e). (m, int e)) (AList.update m n xs)" for xs
    by (induction xs) auto
  then show "AList.update m (int n) (va_escrow g) = map (\<lambda>(m, e). (m, int e)) (AList.update m n (rv_escrow r))"
    by (simp add: e)
qed

text \<open>Calls whose fields the two integer types can both carry.\<close>

definition plain_tx :: "tx \<Rightarrow> bool" where
  "plain_tx t \<longleftrightarrow> tx_ok t \<and> 0 \<le> tx_expiry t \<and> (tx_kind t = ''deposit'' \<longrightarrow> tx_expiry t = 0)"

text \<open>The part after the nonce checks: the simulator's switch against the contract's match.\<close>

definition outcomes_agree :: "(string \<times> bool) \<times> vault \<Rightarrow> (vault_error + receipt) \<times> rvault \<Rightarrow> bool" where
  "outcomes_agree go rs \<longleftrightarrow> mirrors (snd go) (snd rs) \<and>
     (case fst rs of Inl e \<Rightarrow> fst go = (reason_of e, False) | Inr _ \<Rightarrow> fst go = ('''', True))"

lemma call_of_simps:
  "call_of t = Some c \<Longrightarrow> nonce c = tx_nonce t"
  "call_of t = Some c \<Longrightarrow> is_cancel_call c \<longleftrightarrow> tx_kind t = ''cancel''"
  "call_of t = Some c \<Longrightarrow> plain_tx t \<Longrightarrow> int (expiry c) = tx_expiry t"
  by (auto simp: call_of_def plain_tx_def split: if_splits)

lemma execute_finishes:
  assumes "rv_processed r (nonce c) = None" "nonce c \<notin> rv_cancelled r"
    "\<not> (expiry c > 0 \<and> rv_height r > expiry c \<and> \<not> is_cancel_call c)"
    and eff: "effect c r = Some (Inr (p, r1))"
    and m: "\<And>x. mirrors g' (if is_cancel_call c then r1 else r1\<lparr>rv_processed := (rv_processed r1)(nonce c \<mapsto> x)\<rparr>)"
    and ok: "vault_ok g'"
  shows "\<exists>out. execute c r = Some out \<and> outcomes_agree (('''', True), g') out"
proof -
  obtain t f where tf: "escrow_total (if is_cancel_call c then r1 else r1\<lparr>rv_processed := (rv_processed r1)(nonce c \<mapsto> undefined)\<rparr>) = Some t"
      "rfree (if is_cancel_call c then r1 else r1\<lparr>rv_processed := (rv_processed r1)(nonce c \<mapsto> undefined)\<rparr>) = Some f"
    by (rule mirror_free [OF m ok, of undefined])
  then have "escrow_total r1 = Some t" "rfree r1 = Some f"
    by (auto simp: escrow_total_def rfree_def split: if_splits)
  then show ?thesis
    using assms(1-3) m by (auto simp: execute_def eff Let_def outcomes_agree_def)
qed

lemma applyTx_mirrors_execute:
  assumes m: "mirrors g r" and ok: "vault_ok g" and pl: "plain_tx t" and rm: "room t g"
    and c: "call_of t = Some c" and h: "h = int (rv_height r)"
    and dep: "tx_kind t = ''deposit'' \<Longrightarrow> deposited_by r (tx_user t) + nat (tx_amount t) < U128"
  shows "\<exists>out. execute c r = Some out \<and> outcomes_agree (applyTx t h g) out"
proof -
  note cs = call_of_simps(1,2) [OF c] call_of_simps(3) [OF c pl]
  have sets: "va_processed g = dom (rv_processed r)" "va_cancelled g = rv_cancelled r"
    "va_settled g = dom (rv_settled r)" "va_balance g = int (rv_balance r)"
    using m by (simp_all add: mirrors_def)
  have expired: "(expiry c > 0 \<and> rv_height r > expiry c \<and> \<not> is_cancel_call c) \<longleftrightarrow>
      tx_kind t \<noteq> ''cancel'' \<and> tx_expiry t > 0 \<and> h > tx_expiry t"
    unfolding h cs(3) [symmetric] cs(2) by auto
  show ?thesis
  proof (cases "nonce c \<in> dom (rv_processed r) \<or> nonce c \<in> rv_cancelled r \<or>
      (expiry c > 0 \<and> rv_height r > expiry c \<and> \<not> is_cancel_call c)")
    case True
    then consider (ran) "tx_nonce t \<in> va_processed g"
      | (out) "tx_nonce t \<notin> va_processed g" "tx_nonce t \<in> va_cancelled g"
      | (late) "tx_nonce t \<notin> va_processed g" "tx_nonce t \<notin> va_cancelled g"
          "expiry c > 0 \<and> rv_height r > expiry c \<and> \<not> is_cancel_call c"
      by (auto simp: sets cs(1))
    then show ?thesis
    proof cases
      case ran
      then have "rv_processed r (nonce c) \<noteq> None" by (auto simp: sets cs(1))
      then show ?thesis using ran m by (simp add: execute_def applyTx_def outcomes_agree_def)
    next
      case out
      then have "rv_processed r (nonce c) = None" "nonce c \<in> rv_cancelled r" by (auto simp: sets cs(1))
      then show ?thesis using out m by (simp add: execute_def applyTx_def outcomes_agree_def)
    next
      case late
      then have "rv_processed r (nonce c) = None" "nonce c \<notin> rv_cancelled r" by (auto simp: sets cs(1))
      moreover have "tx_kind t \<noteq> ''cancel'' \<and> tx_expiry t > 0 \<and> h > tx_expiry t"
        using late(3) unfolding expired .
      ultimately show ?thesis using late m by (simp add: execute_def applyTx_def outcomes_agree_def)
    qed
  next
    case False
    then have n1: "tx_nonce t \<notin> va_processed g" and n2: "tx_nonce t \<notin> va_cancelled g"
      and n3: "\<not> (tx_kind t \<noteq> ''cancel'' \<and> tx_expiry t > 0 \<and> h > tx_expiry t)"
      and r1: "rv_processed r (nonce c) = None" and r2: "nonce c \<notin> rv_cancelled r"
      and r3: "\<not> (expiry c > 0 \<and> rv_height r > expiry c \<and> \<not> is_cancel_call c)"
      unfolding expired by (auto simp: sets cs(1))
    have error: "\<exists>out. execute c r = Some out \<and> outcomes_agree ((reason_of e, False), g) out"
      if "effect c r = Some (Inl e)" for e
      using that r1 r2 r3 m by (auto simp: execute_def outcomes_agree_def)
    have success: "\<exists>out. execute c r = Some out \<and> outcomes_agree (applyTx t h g) out"
      if "effect c r = Some (Inr (p, s))" "applyTx t h g = (('''', True), g')"
        "\<And>x. mirrors g' (if is_cancel_call c then s else s\<lparr>rv_processed := (rv_processed s)(nonce c \<mapsto> x)\<rparr>)"
      for p s g'
    proof -
      have "accepts t h g = Some g'" using that(2) by (simp add: accepts_def)
      then have "vault_ok g'" using accepts_safe(1) [OF _ ok _ rm] pl by (auto simp: plain_tx_def)
      then show ?thesis unfolding that(2) by (rule execute_finishes [OF r1 r2 r3 that(1,3)])
    qed
    note go = applyTx_def [of t h g, unfolded if_not_P [OF n1] if_not_P [OF n2] if_not_P [OF n3] consume_def]
    obtain tot f where tf: "escrow_total r = Some tot" "rfree r = Some f" "int f = free g"
      "rv_balance r < U128" "f \<le> rv_balance r"
      using mirror_free [OF m ok] by metis
    have amt: "int (nat (tx_amount t)) = tx_amount t" if "0 < tx_amount t" using that by simp
    consider "tx_kind t = ''deposit''" | "tx_kind t = ''withdraw''" | "tx_kind t = ''escrow_set''"
      | "tx_kind t = ''settle_market''" | "tx_kind t = ''cancel''"
      using c by (auto simp: call_of_def split: if_splits)
    then show ?thesis
    proof cases
      case 1
      then have ce: "c = CDeposit (tx_nonce t) (tx_user t) (nat (tx_amount t))" using c by (simp add: call_of_def)
      show ?thesis
      proof (cases "tx_amount t \<le> 0")
        case True
        then show ?thesis using error [of ZeroAmount] 1 by (simp add: ce go)
      next
        case False
        then have pos: "0 < tx_amount t" by simp
        have "int64 (va_balance g + tx_amount t)" using rm 1 by (simp add: room_def)
        then have bal: "i64 (va_balance g + tx_amount t) = int (rv_balance r + nat (tx_amount t))"
          and small: "rv_balance r + nat (tx_amount t) < U128"
          using pos by (auto simp: sets int64_def U128_def)
        let ?s = "r\<lparr>rv_balance := rv_balance r + nat (tx_amount t),
            rv_deposited := (rv_deposited r)(tx_user t \<mapsto> deposited_by r (tx_user t) + nat (tx_amount t))\<rparr>"
        show ?thesis
        proof (rule success)
          show "effect c r = Some (Inr (0, ?s))"
            using pos small dep [OF 1] by (simp add: ce checked_add_def)
          show "applyTx t h g = (('''', True), g\<lparr>va_balance := i64 (va_balance g + tx_amount t),
              va_processed := insert (tx_nonce t) (va_processed g)\<rparr>)"
            using pos 1 by (simp add: go)
        qed (use m bal in \<open>simp add: mirrors_def ce\<close>)
      qed
    next
      case 2
      then have ce: "c = CWithdraw (tx_nonce t) (tx_user t) (nat (tx_amount t)) (nat (tx_expiry t))"
        using c by (simp add: call_of_def)
      show ?thesis
      proof (cases "tx_amount t \<le> 0")
        case True
        then show ?thesis using error [of ZeroAmount] 2 by (simp add: ce go)
      next
        case False
        then have pos: "0 < tx_amount t" by simp
        have cmp: "f < nat (tx_amount t) \<longleftrightarrow> free g < tx_amount t" using tf(3) pos by auto
        show ?thesis
        proof (cases "free g < tx_amount t")
          case True
          then show ?thesis using error [of InsufficientFree] 2 pos cmp tf(2) by (simp add: ce go)
        next
          case le: False
          have nb: "nat (tx_amount t) \<le> rv_balance r" using le cmp tf(5) by simp
          have "int64 (va_balance g)" using ok by (simp add: vault_ok_def)
          then have bal: "i64 (va_balance g - tx_amount t) = int (rv_balance r - nat (tx_amount t))"
            using nb pos by (simp add: sets int64_def of_nat_diff i64_id)
          show ?thesis
          proof (rule success)
            show "effect c r = Some (Inr (nat (tx_amount t), r\<lparr>rv_balance := rv_balance r - nat (tx_amount t)\<rparr>))"
              using pos le cmp nb tf(2) by (simp add: ce checked_sub_def)
            show "applyTx t h g = (('''', True), g\<lparr>va_balance := i64 (va_balance g - tx_amount t),
                va_processed := insert (tx_nonce t) (va_processed g)\<rparr>)"
              using pos le 2 by (simp add: go)
          qed (use m bal in \<open>simp add: mirrors_def ce\<close>)
        qed
      qed
    next
      case 3
      then have ce: "c = CEscrowSet (tx_nonce t) (tx_market t) (nat (tx_target t)) (nat (tx_expiry t))"
        using c by (simp add: call_of_def)
      have tgt: "0 \<le> tx_target t" "int64 (tx_target t)" using pl by (simp_all add: plain_tx_def tx_ok_def)
      note cur = mirror_escrow(1) [OF m, of "tx_market t"]
      have gt: "nat (tx_target t) > escrow_of r (tx_market t) \<longleftrightarrow> tx_target t > escrow_at g (tx_market t)"
        using tgt cur by auto
      have "int64 (tx_target t - escrow_at g (tx_market t))" if "tx_target t > escrow_at g (tx_market t)"
        using that tgt cur by (auto simp: int64_def)
      then have lack: "f < nat (tx_target t) - escrow_of r (tx_market t) \<longleftrightarrow>
          free g < i64 (tx_target t - escrow_at g (tx_market t))" if "tx_target t > escrow_at g (tx_market t)"
        using that tf(3) cur tgt by auto
      show ?thesis
      proof (cases "tx_market t \<in> va_settled g")
        case True
        then show ?thesis using error [of MarketIsSettled] 3 by (auto simp: ce go sets)
      next
        case False
        then have open_r: "rv_settled r (tx_market t) = None" by (auto simp: sets)
        show ?thesis
        proof (cases "tx_target t > escrow_at g (tx_market t) \<and>
            free g < i64 (tx_target t - escrow_at g (tx_market t))")
          case True
          then have "effect c r = Some (Inl EscrowExceedsCustody)"
            using open_r gt lack tf(2) by (simp add: ce Let_def)
          moreover have "applyTx t h g = (([], False), g)" using True False 3 by (simp add: go)
          ultimately show ?thesis using error [of EscrowExceedsCustody] by simp
        next
          case enough: False
          let ?s = "if nat (tx_target t) = 0 then r\<lparr>rv_escrow := AList.delete (tx_market t) (rv_escrow r)\<rparr>
              else r\<lparr>rv_escrow := AList.update (tx_market t) (nat (tx_target t)) (rv_escrow r)\<rparr>"
          let ?g = "if tx_target t = 0 then g\<lparr>va_escrow := AList.delete (tx_market t) (va_escrow g),
                va_processed := insert (tx_nonce t) (va_processed g)\<rparr>
              else g\<lparr>va_escrow := AList.update (tx_market t) (tx_target t) (va_escrow g),
                va_processed := insert (tx_nonce t) (va_processed g)\<rparr>"
          show ?thesis
          proof (rule success)
            show "effect c r = Some (Inr (0, ?s))"
            proof (cases "tx_target t > escrow_at g (tx_market t)")
              case True
              with enough have "\<not> f < nat (tx_target t) - escrow_of r (tx_market t)" using lack by simp
              then show ?thesis using open_r tf(2) by (simp add: ce Let_def)
            next
              case small: False
              then show ?thesis using open_r gt by (simp add: ce Let_def)
            qed
            show "applyTx t h g = (([], True), ?g)" using enough False 3 by (simp add: go)
          qed (use m mirror_escrow(2,3) [OF m, of "tx_market t"] tgt in
            \<open>auto simp: mirrors_def ce simp flip: mirror_escrow(3)\<close>)
        qed
      qed
    next
      case 4
      then have ce: "c = CSettleMarket (tx_nonce t) (tx_market t) (tx_outcome t > 0) (nat (tx_expiry t))"
        using c by (simp add: call_of_def)
      show ?thesis
      proof (cases "tx_market t \<in> va_settled g")
        case True
        then show ?thesis using error [of MarketIsSettled] 4 by (auto simp: ce go sets)
      next
        case False
        show ?thesis
        proof (rule success)
          show "effect c r = Some (Inr (0, r\<lparr>rv_escrow := AList.delete (tx_market t) (rv_escrow r),
              rv_settled := (rv_settled r)(tx_market t \<mapsto> tx_outcome t > 0)\<rparr>))"
            using False by (auto simp: ce sets)
          show "applyTx t h g = (('''', True), g\<lparr>va_escrow := AList.delete (tx_market t) (va_escrow g),
              va_settled := insert (tx_market t) (va_settled g),
              va_processed := insert (tx_nonce t) (va_processed g)\<rparr>)"
            using False 4 by (simp add: go)
        qed (use m mirror_escrow(2) [OF m] in \<open>simp add: mirrors_def ce\<close>)
      qed
    next
      case 5
      then have ce: "c = CCancel (tx_nonce t) (nat (tx_expiry t))" using c by (simp add: call_of_def)
      have cmp: "nat (tx_expiry t) = 0 \<or> rv_height r \<le> nat (tx_expiry t) \<longleftrightarrow> tx_expiry t = 0 \<or> h \<le> tx_expiry t"
        using pl h by (auto simp: plain_tx_def)
      show ?thesis
      proof (cases "tx_expiry t = 0 \<or> h \<le> tx_expiry t")
        case True
        then show ?thesis using error [of NotYetExpired] 5 cmp by (auto simp: ce go)
      next
        case False
        show ?thesis
        proof (rule success)
          show "effect c r = Some (Inr (0, r\<lparr>rv_cancelled := insert (tx_nonce t) (rv_cancelled r)\<rparr>))"
            using False cmp by (simp add: ce)
          show "applyTx t h g = (('''', True), g\<lparr>va_cancelled := insert (tx_nonce t) (va_cancelled g)\<rparr>)"
            using False 5 by (simp add: go)
        qed (use m in \<open>simp add: mirrors_def ce\<close>)
      qed
    qed
  qed
qed

end
