(* ===== verification/Example.thy ===== *)
theory Example
  imports Store Contract
begin

text \<open>
  A concrete run: a market is seeded, a deposit arrives and is credited, its owner opens a
  position and asks for a withdrawal. The databases of this run show that the hypotheses of the
  development's theorems can hold.
\<close>

definition ex_event :: stored_event where
  "ex_event = \<lparr>se_id = ''dep-1@0xa'', se_fact = ''dep-1'', se_seq = 1, se_kind = ''deposit'',
     se_user = ''ann'', se_amount = 100, se_market = '''', se_height = 1, se_hash = ''0xa'',
     se_status = EvReceived\<rparr>"

definition ex_market :: db where
  "ex_market =
   \<lparr>accounts =
    [\<lparr>ac_code = ''external'', ac_kind = KExternal, ac_owner = None\<rparr>,
    \<lparr>ac_code = ''insurance'', ac_kind = KInsurance, ac_owner = None\<rparr>,
    \<lparr>ac_code = ''fees'', ac_kind = KFees, ac_owner = None\<rparr>],
    transfers = [], entries = [],
    account_balances =
    [\<lparr>ba_code = ''external'', ba_balance = 0, ba_version = 0\<rparr>,
    \<lparr>ba_code = ''insurance'', ba_balance = 0, ba_version = 0\<rparr>,
    \<lparr>ba_code = ''fees'', ba_balance = 0, ba_version = 0\<rparr>],
    intents = [], outbox = [], outbox_seq = 0, chain_events = [],
    chain_facts = [], chain_cursor = 0,
    markets =
    [\<lparr>mk_id = ''m'', mk_question = ''q'', mk_mark = 500000,
    mk_state = MarketOpen, mk_outcome = None, mk_version = 0\<rparr>],
    positions = [], reconciliations = [], escrow_drift = [], freezes = []\<rparr>"

definition ex_recorded :: db where
  "ex_recorded =
   \<lparr>accounts =
    [\<lparr>ac_code = ''external'', ac_kind = KExternal, ac_owner = None\<rparr>,
    \<lparr>ac_code = ''insurance'', ac_kind = KInsurance, ac_owner = None\<rparr>,
    \<lparr>ac_code = ''fees'', ac_kind = KFees, ac_owner = None\<rparr>],
    transfers = [], entries = [],
    account_balances =
    [\<lparr>ba_code = ''external'', ba_balance = 0, ba_version = 0\<rparr>,
    \<lparr>ba_code = ''insurance'', ba_balance = 0, ba_version = 0\<rparr>,
    \<lparr>ba_code = ''fees'', ba_balance = 0, ba_version = 0\<rparr>],
    intents = [], outbox = [], outbox_seq = 0,
    chain_events =
    [\<lparr>ce_id = ''dep-1@0xa'', ce_seq = 1, ce_kind = ''deposit'',
    ce_payload =
    [(''fact_id'', JStr ''dep-1''), (''user'', JStr ''ann''),
    (''amount'', JNum 100), (''market_id'', JStr [])],
    ce_height = 1, ce_hash = ''0xa'', ce_status = EvReceived\<rparr>],
    chain_facts = [], chain_cursor = 0,
    markets =
    [\<lparr>mk_id = ''m'', mk_question = ''q'', mk_mark = 500000,
    mk_state = MarketOpen, mk_outcome = None, mk_version = 0\<rparr>],
    positions = [], reconciliations = [], escrow_drift = [], freezes = []\<rparr>"

definition ex_funded :: db where
  "ex_funded =
   \<lparr>accounts =
    [\<lparr>ac_code = ''external'', ac_kind = KExternal, ac_owner = None\<rparr>,
    \<lparr>ac_code = ''insurance'', ac_kind = KInsurance, ac_owner = None\<rparr>,
    \<lparr>ac_code = ''fees'', ac_kind = KFees, ac_owner = None\<rparr>,
    \<lparr>ac_code = ''user:ann:available'', ac_kind = KAvailable,
    ac_owner = Some ''ann''\<rparr>],
    transfers =
    [\<lparr>tr_id = ''t1'', tr_kind = ''deposit.provisional'',
    tr_key = Some ''deposit:dep-1@0xa''\<rparr>],
    entries =
    [\<lparr>en_transfer = ''t1'', en_account = ''external'', en_amount = - 100\<rparr>,
    \<lparr>en_transfer = ''t1'', en_account = ''user:ann:available'',
    en_amount = 100\<rparr>],
    account_balances =
    [\<lparr>ba_code = ''external'', ba_balance = - 100, ba_version = 1\<rparr>,
    \<lparr>ba_code = ''insurance'', ba_balance = 0, ba_version = 0\<rparr>,
    \<lparr>ba_code = ''fees'', ba_balance = 0, ba_version = 0\<rparr>,
    \<lparr>ba_code = ''user:ann:available'', ba_balance = 100,
    ba_version = 1\<rparr>],
    intents = [], outbox = [], outbox_seq = 0,
    chain_events =
    [\<lparr>ce_id = ''dep-1@0xa'', ce_seq = 1, ce_kind = ''deposit'',
    ce_payload =
    [(''fact_id'', JStr ''dep-1''), (''user'', JStr ''ann''),
    (''amount'', JNum 100), (''market_id'', JStr [])],
    ce_height = 1, ce_hash = ''0xa'', ce_status = EvApplied\<rparr>],
    chain_facts =
    [\<lparr>cf_event = ''dep-1@0xa'', cf_fact = ''dep-1'',
    cf_kind = ''deposit'', cf_amount = 100, cf_transfer = ''t1'',
    cf_height = 1, cf_hash = ''0xa'', cf_finalized = False,
    cf_reverted = False\<rparr>],
    chain_cursor = 0,
    markets =
    [\<lparr>mk_id = ''m'', mk_question = ''q'', mk_mark = 500000,
    mk_state = MarketOpen, mk_outcome = None, mk_version = 0\<rparr>],
    positions = [], reconciliations = [], escrow_drift = [], freezes = []\<rparr>"

definition ex_trading :: db where
  "ex_trading =
   \<lparr>accounts =
    [\<lparr>ac_code = ''external'', ac_kind = KExternal, ac_owner = None\<rparr>,
    \<lparr>ac_code = ''insurance'', ac_kind = KInsurance, ac_owner = None\<rparr>,
    \<lparr>ac_code = ''fees'', ac_kind = KFees, ac_owner = None\<rparr>,
    \<lparr>ac_code = ''user:ann:available'', ac_kind = KAvailable,
    ac_owner = Some ''ann''\<rparr>,
    \<lparr>ac_code = ''user:ann:margin'', ac_kind = KMargin,
    ac_owner = Some ''ann''\<rparr>],
    transfers =
    [\<lparr>tr_id = ''t1'', tr_kind = ''deposit.provisional'',
    tr_key = Some ''deposit:dep-1@0xa''\<rparr>,
    \<lparr>tr_id = ''t2'', tr_kind = ''position.open'',
    tr_key = Some ''pos:p1:open''\<rparr>],
    entries =
    [\<lparr>en_transfer = ''t1'', en_account = ''external'', en_amount = - 100\<rparr>,
    \<lparr>en_transfer = ''t1'', en_account = ''user:ann:available'',
    en_amount = 100\<rparr>,
    \<lparr>en_transfer = ''t2'', en_account = ''user:ann:available'',
    en_amount = - 10\<rparr>,
    \<lparr>en_transfer = ''t2'', en_account = ''user:ann:margin'',
    en_amount = 10\<rparr>],
    account_balances =
    [\<lparr>ba_code = ''external'', ba_balance = - 100, ba_version = 1\<rparr>,
    \<lparr>ba_code = ''insurance'', ba_balance = 0, ba_version = 0\<rparr>,
    \<lparr>ba_code = ''fees'', ba_balance = 0, ba_version = 0\<rparr>,
    \<lparr>ba_code = ''user:ann:available'', ba_balance = 90, ba_version = 2\<rparr>,
    \<lparr>ba_code = ''user:ann:margin'', ba_balance = 10, ba_version = 1\<rparr>],
    intents = [], outbox = [], outbox_seq = 0,
    chain_events =
    [\<lparr>ce_id = ''dep-1@0xa'', ce_seq = 1, ce_kind = ''deposit'',
    ce_payload =
    [(''fact_id'', JStr ''dep-1''), (''user'', JStr ''ann''),
    (''amount'', JNum 100), (''market_id'', JStr [])],
    ce_height = 1, ce_hash = ''0xa'', ce_status = EvApplied\<rparr>],
    chain_facts =
    [\<lparr>cf_event = ''dep-1@0xa'', cf_fact = ''dep-1'',
    cf_kind = ''deposit'', cf_amount = 100, cf_transfer = ''t1'',
    cf_height = 1, cf_hash = ''0xa'', cf_finalized = False,
    cf_reverted = False\<rparr>],
    chain_cursor = 0,
    markets =
    [\<lparr>mk_id = ''m'', mk_question = ''q'', mk_mark = 500000,
    mk_state = MarketOpen, mk_outcome = None, mk_version = 0\<rparr>],
    positions =
    [\<lparr>po_id = ''p1'', po_user = ''ann'', po_market = ''m'',
    po_side = ''long'', po_size = 80, po_entry = 500000,
    po_collateral = 10, po_key = None, po_state = PositionOpen,
    po_version = 0\<rparr>],
    reconciliations = [], escrow_drift = [], freezes = []\<rparr>"

definition ex_pending :: db where
  "ex_pending =
   \<lparr>accounts =
    [\<lparr>ac_code = ''external'', ac_kind = KExternal, ac_owner = None\<rparr>,
    \<lparr>ac_code = ''insurance'', ac_kind = KInsurance, ac_owner = None\<rparr>,
    \<lparr>ac_code = ''fees'', ac_kind = KFees, ac_owner = None\<rparr>,
    \<lparr>ac_code = ''user:ann:available'', ac_kind = KAvailable,
    ac_owner = Some ''ann''\<rparr>,
    \<lparr>ac_code = ''user:ann:margin'', ac_kind = KMargin,
    ac_owner = Some ''ann''\<rparr>,
    \<lparr>ac_code = ''user:ann:pending_withdraw'', ac_kind = KPendingWithdraw,
    ac_owner = Some ''ann''\<rparr>],
    transfers =
    [\<lparr>tr_id = ''t1'', tr_kind = ''deposit.provisional'',
    tr_key = Some ''deposit:dep-1@0xa''\<rparr>,
    \<lparr>tr_id = ''t2'', tr_kind = ''position.open'',
    tr_key = Some ''pos:p1:open''\<rparr>,
    \<lparr>tr_id = ''t3'', tr_kind = ''withdraw.reserve'',
    tr_key = Some ''intent:i1:reserve''\<rparr>],
    entries =
    [\<lparr>en_transfer = ''t1'', en_account = ''external'', en_amount = - 100\<rparr>,
    \<lparr>en_transfer = ''t1'', en_account = ''user:ann:available'',
    en_amount = 100\<rparr>,
    \<lparr>en_transfer = ''t2'', en_account = ''user:ann:available'',
    en_amount = - 10\<rparr>,
    \<lparr>en_transfer = ''t2'', en_account = ''user:ann:margin'',
    en_amount = 10\<rparr>,
    \<lparr>en_transfer = ''t3'', en_account = ''user:ann:available'',
    en_amount = - 30\<rparr>,
    \<lparr>en_transfer = ''t3'', en_account = ''user:ann:pending_withdraw'',
    en_amount = 30\<rparr>],
    account_balances =
    [\<lparr>ba_code = ''external'', ba_balance = - 100, ba_version = 1\<rparr>,
    \<lparr>ba_code = ''insurance'', ba_balance = 0, ba_version = 0\<rparr>,
    \<lparr>ba_code = ''fees'', ba_balance = 0, ba_version = 0\<rparr>,
    \<lparr>ba_code = ''user:ann:available'', ba_balance = 60, ba_version = 3\<rparr>,
    \<lparr>ba_code = ''user:ann:margin'', ba_balance = 10, ba_version = 1\<rparr>,
    \<lparr>ba_code = ''user:ann:pending_withdraw'', ba_balance = 30,
    ba_version = 1\<rparr>],
    intents =
    [\<lparr>in_id = ''i1'', in_key = Some ''k1'', in_kind = Withdraw,
    in_user = Some ''ann'', in_market = None, in_amount = 30,
    in_state = StateReserved, in_reserve_transfer = Some ''t3'',
    in_final_transfer = None, in_chain_tx = None, in_height = None,
    in_hash = None, in_attempts = 0, in_deadline = 30000,
    in_expiry = 5, in_last_error = None\<rparr>],
    outbox =
    [\<lparr>ob_id = 1, ob_intent = ''i1'', ob_op = ''withdraw'',
    ob_payload =
    [(''nonce'', JStr ''i1''), (''kind'', JStr ''withdraw''),
    (''user'', JStr ''ann''), (''amount'', JNum 30),
    (''expiry_height'', JNum 5)],
    ob_state = OutPending, ob_attempts = 0, ob_next_attempt = 0,
    ob_lease_until = None, ob_last_error = None\<rparr>],
    outbox_seq = 1,
    chain_events =
    [\<lparr>ce_id = ''dep-1@0xa'', ce_seq = 1, ce_kind = ''deposit'',
    ce_payload =
    [(''fact_id'', JStr ''dep-1''), (''user'', JStr ''ann''),
    (''amount'', JNum 100), (''market_id'', JStr [])],
    ce_height = 1, ce_hash = ''0xa'', ce_status = EvApplied\<rparr>],
    chain_facts =
    [\<lparr>cf_event = ''dep-1@0xa'', cf_fact = ''dep-1'',
    cf_kind = ''deposit'', cf_amount = 100, cf_transfer = ''t1'',
    cf_height = 1, cf_hash = ''0xa'', cf_finalized = False,
    cf_reverted = False\<rparr>],
    chain_cursor = 0,
    markets =
    [\<lparr>mk_id = ''m'', mk_question = ''q'', mk_mark = 500000,
    mk_state = MarketOpen, mk_outcome = None, mk_version = 0\<rparr>],
    positions =
    [\<lparr>po_id = ''p1'', po_user = ''ann'', po_market = ''m'',
    po_side = ''long'', po_size = 80, po_entry = 500000,
    po_collateral = 10, po_key = None, po_state = PositionOpen,
    po_version = 0\<rparr>],
    reconciliations = [], escrow_drift = [], freezes = []\<rparr>"

definition ex_paid :: db where
  "ex_paid =
   \<lparr>accounts =
    [\<lparr>ac_code = ''external'', ac_kind = KExternal, ac_owner = None\<rparr>,
    \<lparr>ac_code = ''insurance'', ac_kind = KInsurance, ac_owner = None\<rparr>,
    \<lparr>ac_code = ''fees'', ac_kind = KFees, ac_owner = None\<rparr>,
    \<lparr>ac_code = ''user:ann:available'', ac_kind = KAvailable,
    ac_owner = Some ''ann''\<rparr>,
    \<lparr>ac_code = ''user:ann:margin'', ac_kind = KMargin,
    ac_owner = Some ''ann''\<rparr>,
    \<lparr>ac_code = ''user:ann:pending_withdraw'', ac_kind = KPendingWithdraw,
    ac_owner = Some ''ann''\<rparr>],
    transfers =
    [\<lparr>tr_id = ''t1'', tr_kind = ''deposit.provisional'',
    tr_key = Some ''deposit:dep-1@0xa''\<rparr>,
    \<lparr>tr_id = ''t2'', tr_kind = ''position.open'',
    tr_key = Some ''pos:p1:open''\<rparr>,
    \<lparr>tr_id = ''t3'', tr_kind = ''withdraw.reserve'',
    tr_key = Some ''intent:i1:reserve''\<rparr>,
    \<lparr>tr_id = ''t4'', tr_kind = ''withdraw.settle'',
    tr_key = Some ''intent:i1:final''\<rparr>],
    entries =
    [\<lparr>en_transfer = ''t1'', en_account = ''external'', en_amount = - 100\<rparr>,
    \<lparr>en_transfer = ''t1'', en_account = ''user:ann:available'',
    en_amount = 100\<rparr>,
    \<lparr>en_transfer = ''t2'', en_account = ''user:ann:available'',
    en_amount = - 10\<rparr>,
    \<lparr>en_transfer = ''t2'', en_account = ''user:ann:margin'',
    en_amount = 10\<rparr>,
    \<lparr>en_transfer = ''t3'', en_account = ''user:ann:available'',
    en_amount = - 30\<rparr>,
    \<lparr>en_transfer = ''t3'', en_account = ''user:ann:pending_withdraw'',
    en_amount = 30\<rparr>,
    \<lparr>en_transfer = ''t4'', en_account = ''user:ann:pending_withdraw'',
    en_amount = - 30\<rparr>,
    \<lparr>en_transfer = ''t4'', en_account = ''external'', en_amount = 30\<rparr>],
    account_balances =
    [\<lparr>ba_code = ''external'', ba_balance = - 70, ba_version = 2\<rparr>,
    \<lparr>ba_code = ''insurance'', ba_balance = 0, ba_version = 0\<rparr>,
    \<lparr>ba_code = ''fees'', ba_balance = 0, ba_version = 0\<rparr>,
    \<lparr>ba_code = ''user:ann:available'', ba_balance = 60, ba_version = 3\<rparr>,
    \<lparr>ba_code = ''user:ann:margin'', ba_balance = 10, ba_version = 1\<rparr>,
    \<lparr>ba_code = ''user:ann:pending_withdraw'', ba_balance = 0,
    ba_version = 2\<rparr>],
    intents =
    [\<lparr>in_id = ''i1'', in_key = Some ''k1'', in_kind = Withdraw,
    in_user = Some ''ann'', in_market = None, in_amount = 30,
    in_state = StateConfirmed, in_reserve_transfer = Some ''t3'',
    in_final_transfer = Some ''t4'', in_chain_tx = None,
    in_height = Some 4, in_hash = Some ''0xb'', in_attempts = 0,
    in_deadline = 30000, in_expiry = 5, in_last_error = None\<rparr>],
    outbox =
    [\<lparr>ob_id = 1, ob_intent = ''i1'', ob_op = ''withdraw'',
    ob_payload =
    [(''nonce'', JStr ''i1''), (''kind'', JStr ''withdraw''),
    (''user'', JStr ''ann''), (''amount'', JNum 30),
    (''expiry_height'', JNum 5)],
    ob_state = OutPending, ob_attempts = 0, ob_next_attempt = 0,
    ob_lease_until = None, ob_last_error = None\<rparr>],
    outbox_seq = 1,
    chain_events =
    [\<lparr>ce_id = ''dep-1@0xa'', ce_seq = 1, ce_kind = ''deposit'',
    ce_payload =
    [(''fact_id'', JStr ''dep-1''), (''user'', JStr ''ann''),
    (''amount'', JNum 100), (''market_id'', JStr [])],
    ce_height = 1, ce_hash = ''0xa'', ce_status = EvApplied\<rparr>],
    chain_facts =
    [\<lparr>cf_event = ''dep-1@0xa'', cf_fact = ''dep-1'',
    cf_kind = ''deposit'', cf_amount = 100, cf_transfer = ''t1'',
    cf_height = 1, cf_hash = ''0xa'', cf_finalized = False,
    cf_reverted = False\<rparr>],
    chain_cursor = 0,
    markets =
    [\<lparr>mk_id = ''m'', mk_question = ''q'', mk_mark = 500000,
    mk_state = MarketOpen, mk_outcome = None, mk_version = 0\<rparr>],
    positions =
    [\<lparr>po_id = ''p1'', po_user = ''ann'', po_market = ''m'',
    po_side = ''long'', po_size = 80, po_entry = 500000,
    po_collateral = 10, po_key = None, po_state = PositionOpen,
    po_version = 0\<rparr>],
    reconciliations = [], escrow_drift = [], freezes = []\<rparr>"

lemma ex_step_record: "RecordEvent ex_event ex_market = (True, ex_recorded)"
  by code_simp

lemma ex_step_market: "SeedMarket ''m'' ''q'' 500000 schema_db = Inr ex_market"
  by code_simp

lemma ex_step_deposit: "ApplyDeposit ''t1'' ex_event ex_recorded = Inr ex_funded"
  by code_simp

lemma ex_step_open: "OpenPosition ''p1'' ''t2'' ''ann'' ''m'' ''long'' 80 '''' ex_funded = Inr (''p1'', ex_trading)"
  by code_simp

lemma ex_step_withdraw: "RequestWithdraw ''i1'' ''t3'' ''ann'' 30 ''k1'' 5 0 ex_trading = Inr ((''i1'', False), ex_pending)"
  by code_simp

lemma ex_step_confirm: "Confirm (\<lambda>_. ''t9'') ''t4'' ''i1'' 4 ''0xb'' ex_pending = Inr ex_paid"
  by code_simp

lemmas ex_steps = ex_step_record ex_step_market ex_step_deposit ex_step_open ex_step_withdraw ex_step_confirm

lemma ex_reachable:
  "store_reachable ex_market" "store_reachable ex_recorded" "store_reachable ex_funded"
  "store_reachable ex_trading" "store_reachable ex_pending" "store_reachable ex_paid"
proof -
  show m: "store_reachable ex_market"
    by (rule store_reachable.step [OF store_reachable.init store_step.seed [OF ex_steps(2)]])
  have ev: "id_ok (se_id ex_event)" "se_kind ex_event = ''deposit''" "0 < se_amount ex_event"
    "int64 (se_amount ex_event)" "id_ok ''i1''" "int64 30" by code_simp+
  show r: "store_reachable ex_recorded"
    using store_reachable.step [OF m store_step.record_event [OF ev(1)]] ex_steps(1) by simp
  show f: "store_reachable ex_funded"
    by (rule store_reachable.step [OF r store_step.deposit [OF ev(1-4) ex_steps(3)]])
  show t: "store_reachable ex_trading"
    by (rule store_reachable.step [OF f store_step.open_position [OF ex_steps(4)]])
  show p: "store_reachable ex_pending"
    by (rule store_reachable.step [OF t store_step.withdraw [OF ev(5,6) ex_steps(5)]])
  show "store_reachable ex_paid"
    by (rule store_reachable.step [OF p store_step.confirm [OF ex_steps(6)]])
qed

lemmas ex_inv = ex_reachable [THEN store_reachable_inv]

end
