(* ===== verification/PaymentClaims.thy ===== *)
theory PaymentClaims
  imports Example
begin

text \<open>
  The properties of withdrawals, deposits, orphaned blocks and margin arithmetic, each with a
  witness on the databases of \<open>Example\<close>. The theorems that show a flaw say so in their text.
\<close>

section \<open>Withdrawals\<close>

text \<open>
  C16: a withdrawal request that is accepted either repeats an earlier request with the same key,
  user and amount, and then changes nothing, or moves exactly its amount from the user's available
  money, which covers it, to the pending account, for a user who is not frozen.
\<close>

theorem withdrawal_reserves_once:
  assumes inv: "ledger_inv d" "intent_inv d" and nid: "id_ok nid" and amt: "int64 amount"
    and res: "RequestWithdraw nid ntid user amount idemKey expiryHeight now d = Inr ((i, rep), d')"
  shows "(rep \<and> d' = d \<and> (\<exists>old \<in> set (intents d). in_key old = Some idemKey \<and> in_id old = i \<and>
        text_or_empty (in_user old) = user \<and> in_amount old = amount)) \<or>
    (\<not> rep \<and> i = nid \<and> Frozen user d = None \<and> 0 < amount \<and> amount \<le> Balance d (AvailableAcct user) \<and>
       (\<forall>a. Balance d' a = Balance d a - (if a = AvailableAcct user then amount else 0) +
          (if a = PendingAcct user then amount else 0)))"
  using res
proof (cases rule: RequestWithdraw_cases)
  case (replay old)
  then show ?thesis by blast
next
  case fresh
  show ?thesis using inv nid fresh(1) amt fresh(3)
  proof (rule reserve_withdraw_spec)
  qed (use fresh(1) in simp)
qed

theorem withdrawal_reserves_once_witness:
  "Balance ex_pending (PendingAcct ''ann'') = Balance ex_trading (PendingAcct ''ann'') + 30"
proof -
  have h: "id_ok ''i1''" "int64 30" by (simp_all add: id_ok_def int64_def)
  show ?thesis using withdrawal_reserves_once [OF store_invD(4,6) [OF ex_inv(4)] h ex_step_withdraw]
    by (auto simp: AvailableAcct_def PendingAcct_def)
qed

text \<open>
  C17: confirming an in-flight withdrawal takes its amount out of the user's pending account for
  good, to the external account; confirming it again, from whatever block, changes nothing.
\<close>

theorem confirmed_withdrawal_is_paid_once:
  assumes "core_inv d" and "select_one (\<lambda>r. in_id r = iid) (intents d) = Some r"
    and "in_kind r = Withdraw" "inflight r" and "Confirm gen ntid iid height hash d = Inr d'"
  shows "(\<forall>a. Balance d' a = Balance d a - (if a = PendingAcct (text_or_empty (in_user r)) then in_amount r else 0) +
      (if a = AcctExternal then in_amount r else 0)) \<and> Confirm gen2 ntid2 iid height2 hash2 d' = Inr d'"
  using Confirm_withdraw(1,2) [OF assms] by (simp add: Confirm_def try_bind_def of_option_def)

theorem confirmed_withdrawal_is_paid_once_witness:
  "\<exists>r. select_one (\<lambda>r. in_id r = ''i1'') (intents ex_pending) = Some r \<and>
     Balance ex_paid AcctExternal = Balance ex_pending AcctExternal + in_amount r \<and>
     Confirm (\<lambda>_. ''t11'') ''t12'' ''i1'' 9 ''0xc'' ex_paid = Inr ex_paid"
proof -
  have "case select_one (\<lambda>r. in_id r = ''i1'') (intents ex_pending) of None \<Rightarrow> False
    | Some r \<Rightarrow> in_kind r = Withdraw \<and> inflight r \<and> AcctExternal \<noteq> PendingAcct (text_or_empty (in_user r))" by code_simp
  then obtain r where r: "select_one (\<lambda>r. in_id r = ''i1'') (intents ex_pending) = Some r"
    "in_kind r = Withdraw" "inflight r" "AcctExternal \<noteq> PendingAcct (text_or_empty (in_user r))"
    by (auto split: option.splits)
  from confirmed_withdrawal_is_paid_once [OF store_invD(1) [OF ex_inv(5)] r(1-3) ex_step_confirm,
      of "\<lambda>_. ''t11''" "''t12''" 9 "''0xc''"] r show ?thesis by auto
qed

text \<open>
  A payment the chain has made can always be booked: \<open>Confirm\<close> of an in-flight withdrawal never
  lacks the money, and fails only if the transfer id is taken or the external total leaves the
  range of \<open>bigint\<close>.
\<close>

theorem confirmation_never_blocks:
  assumes "core_inv d" and "select_one (\<lambda>r. in_id r = iid) (intents d) = Some r"
    and "in_kind r = Withdraw" "inflight r" and "ntid \<notin> tr_id ` set (transfers d)"
    and "int64 (Balance d AcctExternal + in_amount r)"
  shows "in_amount r \<le> Balance d (PendingAcct (text_or_empty (in_user r))) \<and>
    (\<exists>d'. Confirm gen ntid iid height hash d = Inr d')"
  using Confirm_withdraw_possible [OF assms] pending_covers [OF core_invD(4) [OF assms(1)] assms(2-4)] by blast

theorem confirmation_never_blocks_witness:
  "\<exists>d'. Confirm (\<lambda>_. ''t9'') ''t77'' ''i1'' 4 ''0xb'' ex_pending = Inr d'"
proof -
  have "case select_one (\<lambda>r. in_id r = ''i1'') (intents ex_pending) of None \<Rightarrow> False
    | Some r \<Rightarrow> in_kind r = Withdraw \<and> inflight r \<and> int64 (Balance ex_pending AcctExternal + in_amount r)" by code_simp
  then obtain r where r: "select_one (\<lambda>r. in_id r = ''i1'') (intents ex_pending) = Some r"
    "in_kind r = Withdraw" "inflight r" "int64 (Balance ex_pending AcctExternal + in_amount r)"
    by (auto split: option.splits)
  have "''t77'' \<notin> tr_id ` set (transfers ex_pending)" by code_simp
  from confirmation_never_blocks [OF store_invD(1) [OF ex_inv(5)] r(1-3) this r(4)] show ?thesis by blast
qed



text \<open>
  A withdrawal that is confirmed, reverted because its block was orphaned, and confirmed again
  ends confirmed, but its money stays in the pending account: the second confirmation replays the
  first transfer, whose key is used, and moves nothing. The books no longer show the payment.
\<close>

theorem reconfirmed_withdrawal_strands_money:
  assumes inv: "core_inv d" and r: "select_one (\<lambda>r. in_id r = iid) (intents d) = Some r"
    and kind: "in_kind r = Withdraw" and fl: "inflight r"
    and c1: "Confirm gen t1 iid h1 x1 d = Inr d1"
    and fresh: "posted d1 (revert_key iid x1) = None" and rv: "Revert t2 iid x1 now d1 = Inr d2"
  shows "\<exists>d3 r3. Confirm gen t3 iid h3 x3 d2 = Inr d3 \<and>
    select_one (\<lambda>r. in_id r = iid) (intents d3) = Some r3 \<and> in_state r3 = StateConfirmed \<and>
    Balance d3 AcctExternal = Balance d AcctExternal \<and>
    (\<forall>u. Balance d3 (PendingAcct u) = Balance d (PendingAcct u))"
proof -
  note cw = Confirm_withdraw [OF inv r kind fl c1]
  have inv1: "core_inv d1" using Confirm_inv [OF inv c1] .
  let ?r1 = "r\<lparr>in_state := StateConfirmed, in_height := Some h1, in_hash := Some x1, in_final_transfer := null_if_empty t1\<rparr>"
  note rw = Revert_withdraw [OF core_invD(1,4) [OF inv1] cw(2) _ _ fresh rv]
  have row2: "select_one (\<lambda>r. in_id r = iid) (intents d2) = Some (unconfirm now ?r1)" using rw(3) kind by simp
  have amt: "0 < in_amount r" "int64 (in_amount r)"
    using intent_row(3) [OF core_invD(4) [OF inv] r] kind by (simp_all add: row_ok_def)
  have key: "posted d2 (final_key iid) = Some t1" using rw(2) cw(3) kind by simp
  from Confirm_replays [OF row2 _ _ _ _ key, of gen t3 h3 x3] kind amt
  have c3: "Confirm gen t3 iid h3 x3 d2 = Inr (set_confirmed iid h3 x3 (null_if_empty t1) d2)" by simp
  have bal: "Balance d2 a = Balance d a" for a using cw(1) [of a] rw(1) [of a] kind by simp
  have row3: "select_one (\<lambda>r. in_id r = iid) (intents (set_confirmed iid h3 x3 (null_if_empty t1) d2)) =
      Some ((unconfirm now ?r1)\<lparr>in_state := StateConfirmed, in_height := Some h3, in_hash := Some x3,
        in_final_transfer := null_if_empty t1\<rparr>)"
    by (simp add: select_update_id row2)
  show ?thesis
    by (rule exI, rule exI, rule conjI [OF c3], rule conjI [OF row3]) (simp add: bal)
qed

theorem reconfirmed_withdrawal_strands_money_witness:
  "\<exists>d2 d3. Revert ''t5'' ''i1'' ''0xb'' 0 ex_paid = Inr d2 \<and> Confirm (\<lambda>_. ''t9'') ''t6'' ''i1'' 7 ''0xd'' d2 = Inr d3 \<and>
     Balance d3 AcctExternal = Balance ex_pending AcctExternal \<and> Balance ex_paid AcctExternal \<noteq> Balance ex_pending AcctExternal"
proof -
  have "case select_one (\<lambda>r. in_id r = ''i1'') (intents ex_pending) of None \<Rightarrow> False
    | Some r \<Rightarrow> in_kind r = Withdraw \<and> inflight r" by code_simp
  then obtain r where r: "select_one (\<lambda>r. in_id r = ''i1'') (intents ex_pending) = Some r"
    "in_kind r = Withdraw" "inflight r" by (auto split: option.splits)
  have f: "posted ex_paid (revert_key ''i1'' ''0xb'') = None" by code_simp
  have "case Revert ''t5'' ''i1'' ''0xb'' 0 ex_paid of Inl _ \<Rightarrow> False | Inr _ \<Rightarrow> True" by code_simp
  then obtain d2 where d2: "Revert ''t5'' ''i1'' ''0xb'' 0 ex_paid = Inr d2" by (auto split: sum.splits)
  have ne: "Balance ex_paid AcctExternal \<noteq> Balance ex_pending AcctExternal" by code_simp
  from reconfirmed_withdrawal_strands_money [OF store_invD(1) [OF ex_inv(5)] r ex_step_confirm f d2,
      of "''t6''" 7 "''0xd''"] d2 ne show ?thesis by blast
qed

section \<open>Other intents\<close>

text \<open>
  C19: a client chooses its idempotency key freely. A withdrawal under the key \<open>settle:\<close> followed by a
  market's id makes every later request to settle that market fail, whatever the outcome.
\<close>

theorem settlement_key_can_be_taken:
  assumes "\<forall>r \<in> set (intents d). in_key r = Some (''settle:'' @ m) \<longrightarrow> in_market r = None"
    and "\<exists>r \<in> set (intents d). in_key r = Some (''settle:'' @ m)" and "outcome = 0 \<or> outcome = One"
  shows "RequestSettlement nid m outcome now d = Inl ErrNoRows"
proof -
  obtain r where r: "select_one (\<lambda>r. in_key r = Some (''settle:'' @ m)) (intents d) = Some r"
    using assms(2) select_one_None_iff [of "\<lambda>r. in_key r = Some (''settle:'' @ m)" "intents d"] by fastforce
  have "in_market r = None" using select_one_SomeD [OF r] assms(1) by blast
  then have "select_one (\<lambda>m. Some (mk_id m) = in_market r) (markets d) = None" by (simp add: select_one_None_iff)
  then show ?thesis using assms(3) r
    by (auto simp: RequestSettlement_def Let_def of_option_def try_bind_def)
qed

theorem settlement_key_can_be_taken_witness:
  "\<exists>d. RequestWithdraw ''i9'' ''t9'' ''ann'' 1 ''settle:m'' 5 0 ex_trading = Inr ((''i9'', False), d) \<and>
     RequestSettlement ''i10'' ''m'' One 0 d = Inl ErrNoRows"
proof -
  let ?q = "RequestWithdraw ''i9'' ''t9'' ''ann'' 1 ''settle:m'' 5 0 ex_trading"
  have "case ?q of Inl _ \<Rightarrow> False | Inr ((i, rep), d) \<Rightarrow> i = ''i9'' \<and> \<not> rep \<and>
    list_all (\<lambda>r. in_key r = Some ''settle:m'' \<longrightarrow> in_market r = None) (intents d) \<and>
    list_ex (\<lambda>r. in_key r = Some ''settle:m'') (intents d)" by code_simp
  then obtain d where d: "?q = Inr ((''i9'', False), d)"
    "\<forall>r \<in> set (intents d). in_key r = Some ''settle:m'' \<longrightarrow> in_market r = None"
    "\<exists>r \<in> set (intents d). in_key r = Some ''settle:m''"
    by (auto simp: list_all_iff list_ex_iff split: sum.splits prod.splits)
  with settlement_key_can_be_taken [of d "''m''" One "''i10''" 0] show ?thesis by auto
qed

text \<open>
  A confirmed escrow call whose block is orphaned cannot be reverted while another escrow call of
  the same market is in flight: the index of in-flight escrow calls refuses the row, and the
  revert fails however often it is tried.
\<close>

theorem escrow_revert_can_block:
  assumes "select_one (\<lambda>r. in_id r = iid) (intents d) = Some r" and "in_kind r = EscrowSet"
    and "in_state r = StateConfirmed" "in_market r \<noteq> None"
    and "q \<in> set (intents d)" "in_kind q = EscrowSet" "inflight q" "in_market q = in_market r"
  shows "Revert ntid iid orphanHash now d = Inl ErrUnique"
proof -
  have "escrow_clash r d" using assms(2,4-8) by (auto simp: escrow_clash_def list_ex_iff)
  then show ?thesis using assms(1-3) by (simp add: Revert_def of_option_def try_bind_def)
qed

theorem escrow_revert_can_block_witness:
  "\<exists>d1 d2 d3. RequestEscrowSet ''e1'' ''m'' 10 50 0 ex_trading = Inr ((''e1'', False), d1) \<and>
     Confirm (\<lambda>_. ''t'') ''t'' ''e1'' 3 ''0xb'' d1 = Inr d2 \<and>
     RequestEscrowSet ''e2'' ''m'' 20 60 0 d2 = Inr ((''e2'', False), d3) \<and>
     Revert ''t'' ''e1'' ''0xb'' 0 d3 = Inl ErrUnique"
proof -
  let ?p1 = "RequestEscrowSet ''e1'' ''m'' 10 50 0 ex_trading"
  let ?d1 = "snd (projr ?p1)"
  let ?p2 = "Confirm (\<lambda>_. ''t'') ''t'' ''e1'' 3 ''0xb'' ?d1"
  let ?d2 = "projr ?p2"
  let ?p3 = "RequestEscrowSet ''e2'' ''m'' 20 60 0 ?d2"
  let ?d3 = "snd (projr ?p3)"
  have run: "?p1 = Inr ((''e1'', False), ?d1)" "?p2 = Inr ?d2" "?p3 = Inr ((''e2'', False), ?d3)" by code_simp+
  have "case select_one (\<lambda>r. in_id r = ''e1'') (intents ?d3) of None \<Rightarrow> False | Some r \<Rightarrow> in_kind r = EscrowSet \<and>
      in_state r = StateConfirmed \<and> in_market r \<noteq> None \<and>
      list_ex (\<lambda>q. in_kind q = EscrowSet \<and> inflight q \<and> in_market q = in_market r) (intents ?d3)" by code_simp
  then obtain r q where r: "select_one (\<lambda>r. in_id r = ''e1'') (intents ?d3) = Some r" "in_kind r = EscrowSet"
    "in_state r = StateConfirmed" "in_market r \<noteq> None"
    "q \<in> set (intents ?d3)" "in_kind q = EscrowSet" "inflight q" "in_market q = in_market r"
    by (elim found_okE) (auto simp: list_ex_iff)
  have "Revert ''t'' ''e1'' ''0xb'' 0 ?d3 = Inl ErrUnique" by (rule escrow_revert_can_block [OF r])
  with run show ?thesis by blast
qed

section \<open>Deposits and orphaned blocks\<close>

text \<open>
  C20: a deposit event credits its user by exactly its amount the first time it is applied and by
  nothing afterwards, however often it is delivered.
\<close>

theorem deposit_is_credited_once:
  assumes "ledger_inv d" "fact_inv d" and "id_ok (se_id e)" "se_kind e = ''deposit''"
    and "0 < se_amount e" "int64 (se_amount e)" and "ApplyDeposit ntid e d = Inr d'"
  shows "(let n = (if se_id e \<in> cf_event ` set (chain_facts d) then 0 else se_amount e) in
     (\<forall>a. Balance d' a = Balance d a - (if a = AcctExternal then n else 0) +
        (if a = AvailableAcct (se_user e) then n else 0)) \<and> live_deposits d' = live_deposits d + n)"
  using ApplyDeposit_spec(3,4) [OF assms] by (simp add: Let_def)

theorem deposit_is_credited_once_witness:
  "Balance ex_funded (AvailableAcct ''ann'') = 100 \<and>
   (\<exists>d'. ApplyDeposit ''t8'' ex_event ex_funded = Inr d' \<and> Balance d' (AvailableAcct ''ann'') = 100)"
proof -
  have h: "id_ok (se_id ex_event)" "se_kind ex_event = ''deposit''" "0 < se_amount ex_event" "int64 (se_amount ex_event)"
    by (simp_all add: ex_event_def id_ok_def int64_def)
  have "case ApplyDeposit ''t8'' ex_event ex_funded of Inl _ \<Rightarrow> False | Inr _ \<Rightarrow> True" by code_simp
  then obtain d' where d': "ApplyDeposit ''t8'' ex_event ex_funded = Inr d'" by (auto split: sum.splits)
  have u: "se_user ex_event = ''ann''" "se_amount ex_event = 100" by (simp_all add: ex_event_def)
  have b: "Balance ex_recorded (AvailableAcct ''ann'') = 0" "se_id ex_event \<notin> cf_event ` set (chain_facts ex_recorded)"
    "se_id ex_event \<in> cf_event ` set (chain_facts ex_funded)" by code_simp+
  have ne: "AvailableAcct ''ann'' \<noteq> AcctExternal" by code_simp
  have "Balance ex_funded (AvailableAcct ''ann'') = 100"
    using deposit_is_credited_once [OF store_invD(4,2) [OF ex_inv(2)] h ex_step_deposit] b(1,2) u ne by (simp add: Let_def)
  with deposit_is_credited_once [OF store_invD(4,2) [OF ex_inv(3)] h d'] b(3) d' u ne show ?thesis by (simp add: Let_def)
qed

definition ex_item :: revert_item where
  "ex_item = \<lparr>ri_event = ''dep-1@0xa'', ri_fact = ''dep-1'', ri_kind = ''deposit'', ri_user = ''ann'', ri_amount = 100\<rparr>"

lemma ex_revert:
  "revert_items ''0xa'' ex_trading = [ex_item]"
  "\<exists>d'. revert_item_tx ''t20'' ''0xa'' ex_item ex_trading = Inr d'"
  "\<exists>d'. RevertBlock (\<lambda>_. ''t20'') ''0xa'' ex_trading = ((1, None), d')"
proof -
  show items: "revert_items ''0xa'' ex_trading = [ex_item]" by code_simp
  have claw: "clawback 100 (Balance ex_trading (AvailableAcct ''ann'')) = 90" by code_simp
  have w: "i64 10 = 10" by (simp add: i64_def)
  have "case PostTx ''t20'' (Transfer ''deposit.reverted'' (unwind_key ''dep-1@0xa'') [Leg (AvailableAcct ''ann'') (- 90),
      Leg AcctInsurance (- 10), Leg AcctExternal 100]) ex_trading of Inl _ \<Rightarrow> False | Inr _ \<Rightarrow> True" by code_simp
  then obtain x where x: "PostTx ''t20'' (Transfer ''deposit.reverted'' (unwind_key ''dep-1@0xa'')
      [Leg (AvailableAcct ''ann'') (- 90), Leg AcctInsurance (- 10), Leg AcctExternal 100]) ex_trading = Inr x"
    by (elim run_okE)
  then show one: "\<exists>d'. revert_item_tx ''t20'' ''0xa'' ex_item ex_trading = Inr d'"
    by (cases x rule: prod.exhaust) (auto simp: revert_item_tx_def claw w Let_def ex_item_def)
  then obtain d' where d': "revert_item_tx ''t20'' ''0xa'' ex_item ex_trading = Inr d'" by blast
  have "ri_kind ex_item = ''deposit''" by (simp add: ex_item_def)
  with d' items show "\<exists>d'. RevertBlock (\<lambda>_. ''t20'') ''0xa'' ex_trading = ((1, None), d')"
    by (simp add: RevertBlock_def)
qed

text \<open>
  C21: when a block is orphaned, unwinding one of its provisional credits takes back what the user
  still has, charges the rest to the insurance fund, freezes the user when the rest is positive,
  and takes the full amount off the external account.
\<close>

theorem orphaned_credit_is_clawed_back:
  assumes "ledger_inv d" "fact_inv d" and "f \<in> set (chain_facts d)" "\<not> cf_reverted f"
    and "item_of f it" and "revert_item_tx ntid blockHash it d = Inr d'"
  shows "(let c = min (cf_amount f) (Balance d (AvailableAcct (ri_user it))) in
     0 \<le> c \<and> (\<forall>a. Balance d' a = Balance d a - (if a = AvailableAcct (ri_user it) then c else 0)
       - (if a = AcctInsurance then cf_amount f - c else 0) + (if a = AcctExternal then cf_amount f else 0)) \<and>
     (c < cf_amount f \<longrightarrow> Frozen (ri_user it) d' \<noteq> None))"
  using revert_item_spec(3,10,11) [OF assms] by (simp add: Let_def)

theorem orphaned_credit_is_clawed_back_witness:
  "\<exists>it d'. revert_items ''0xa'' ex_trading = [it] \<and> revert_item_tx ''t20'' ''0xa'' it ex_trading = Inr d' \<and>
     Balance d' AcctInsurance = Balance ex_trading AcctInsurance - 10 \<and> Frozen ''ann'' d' \<noteq> None"
proof -
  obtain d' where rev: "revert_item_tx ''t20'' ''0xa'' ex_item ex_trading = Inr d'" using ex_revert(2) by blast
  have bal: "Balance ex_trading (AvailableAcct ''ann'') = 90" and ne: "AcctInsurance \<noteq> AvailableAcct ''ann''"
    "AcctInsurance \<noteq> AcctExternal" by code_simp+
  have "ex_item \<in> set (revert_items ''0xa'' ex_trading)" by (simp add: ex_revert(1))
  from revert_items_spec(2) [OF store_invD(2) [OF ex_inv(4)] this] obtain f where
    f: "f \<in> set (chain_facts ex_trading)" "\<not> cf_reverted f" "item_of f ex_item" by blast
  have amt: "cf_amount f = 100" "ri_user ex_item = ''ann''" using f(3) by (simp_all add: item_of_def ex_item_def)
  from orphaned_credit_is_clawed_back [OF store_invD(4,2) [OF ex_inv(4)] f rev]
  have "Balance d' AcctInsurance = Balance ex_trading AcctInsurance - 10" "Frozen ''ann'' d' \<noteq> None"
    using bal ne amt by (simp_all add: Let_def)
  with ex_revert(1) rev show ?thesis by blast
qed

text \<open>
  Reverting a block unwinds every provisional credit of it exactly once: when it reports no
  error the count is the number of its live credits, they are all marked, no intent, position,
  margin or pending money is touched, and a second run finds nothing and changes nothing.
\<close>

theorem block_is_reverted_once:
  assumes "ledger_inv d" "fact_inv d" and "RevertBlock gen h d = ((n, None), d')"
  shows "n = length (filter (\<lambda>f. cf_hash f = h \<and> \<not> cf_reverted f) (chain_facts d)) \<and>
    chain_facts d' = update_where (\<lambda>f. cf_hash f = h) revert_fact (chain_facts d) \<and> revert_frame d d' \<and>
    RevertBlock gen2 h d' = ((0, None), d')"
  using RevertBlock_spec(3-5) [OF assms] RevertBlock_again [OF assms] by simp

theorem block_is_reverted_once_witness:
  "\<exists>d'. RevertBlock (\<lambda>_. ''t20'') ''0xa'' ex_trading = ((1, None), d') \<and> RevertBlock (\<lambda>_. ''t21'') ''0xa'' d' = ((0, None), d')"
proof -
  obtain d' where run: "RevertBlock (\<lambda>_. ''t20'') ''0xa'' ex_trading = ((1, None), d')" using ex_revert(3) by blast
  from block_is_reverted_once [OF store_invD(4,2) [OF ex_inv(4)] run] run show ?thesis by blast
qed

text \<open>While a user, or everybody, is frozen, a new withdrawal of the user reserves nothing.\<close>

theorem frozen_users_cannot_withdraw:
  assumes "Frozen user d = Some reason" and "idemKey = [] \<or> Some idemKey \<notin> in_key ` set (intents d)"
    and "nid \<notin> in_id ` set (intents d)" and "0 < amount"
  shows "RequestWithdraw nid ntid user amount idemKey expiryHeight now d = Inl (ErrHalted reason)"
proof -
  have "(if idemKey = [] then None else select_one (\<lambda>r. in_key r = Some idemKey) (intents d)) = None"
    using assms(2) by (auto simp: select_one_None_iff image_iff)
  moreover have "\<not> list_ex (\<lambda>q. in_id q = nid) (intents d)" using assms(3) by (auto simp: list_ex_iff)
  ultimately show ?thesis using assms(1,4)
    by (simp add: RequestWithdraw_def reserve_withdraw_def insert_intent_def new_intent_def escrow_clash_def
        try_bind_def)
qed

theorem frozen_users_cannot_withdraw_witness:
  "RequestWithdraw ''i9'' ''t9'' ''ann'' 1 ''k9'' 5 0 (Freeze ''*'' ''halt'' ex_trading) = Inl (ErrHalted ''halt'')"
proof -
  have "Frozen ''ann'' (Freeze ''*'' ''halt'' ex_trading) = Some ''halt''"
    "Some ''k9'' \<notin> in_key ` set (intents (Freeze ''*'' ''halt'' ex_trading))"
    "''i9'' \<notin> in_id ` set (intents (Freeze ''*'' ''halt'' ex_trading))" by code_simp+
  with frozen_users_cannot_withdraw [of "''ann''" _ "''halt''" "''k9''" "''i9''" 1] show ?thesis by simp
qed

section \<open>Margin arithmetic\<close>

text \<open>
  For sizes up to 9 223 372 036 854 and prices within a unit, margin arithmetic is exact: the
  worst case is the notional rounded down, initial margin a quarter of it, the maintenance margin
  never exceeds the initial one, profit is antisymmetric and bounded by the size.
\<close>

theorem margin_arithmetic_is_exact:
  assumes sz: "0 < sz" "sz * 1000000 \<le> 9223372036854775807"
    and pr: "0 \<le> entry" "entry \<le> One" "0 \<le> mark" "mark \<le> One"
  shows "worstCase side sz mark = (if side = ''long'' then sz * mark else sz * (One - mark)) div 1000000 \<and>
    mul (worstCase side sz mark) InitialMarginRate = worstCase side sz mark div 4 \<and>
    RequiredMargin side sz mark \<le> mul (worstCase side sz mark) InitialMarginRate \<and>
    pnl ''short'' sz entry mark = - pnl ''long'' sz entry mark \<and> \<bar>pnl side sz entry mark\<bar> \<le> sz"
  using worstCase_exact(1) [OF sz pr(3,4)] collateral_exact(1,3) [OF sz pr(3,4)]
    pnl_antisymmetric [OF sz pr] pnl_bounded [OF sz pr] by blast

theorem margin_arithmetic_is_exact_witness:
  "RequiredMargin ''long'' 80 500000 \<le> 10 \<and> \<bar>pnl ''long'' 80 500000 600000\<bar> \<le> 80"
proof -
  have h: "(0 :: int) < 80" "(80 :: int) * 1000000 \<le> 9223372036854775807" "(0 :: int) \<le> 600000" "600000 \<le> One"
    "(0 :: int) \<le> 500000" "500000 \<le> One" by (simp_all add: One_def)
  have "mul (worstCase ''long'' 80 500000) InitialMarginRate = 10" by code_simp
  with margin_arithmetic_is_exact [OF h(1,2,3,4,5,6), of "''long''"] margin_arithmetic_is_exact [OF h(1,2,5,6,3,4), of "''long''"]
  show ?thesis by simp
qed


end
