(* ===== verification/Sim.thy ===== *)
theory Sim
  imports Complex_Main Vault
begin

text \<open>
  The chain simulator of \<open>internal/chain/sim.go\<close> around the executor of \<open>Vault\<close>: mempool,
  blocks, finality, reorganisations, receipts, the event log with its unreliable delivery, the
  trace of finalised calls and the state file. The random source is an argument: every draw the
  code takes is a parameter of the operation that takes it. Probabilities are rationals; block
  heights and sequence numbers count up by one from zero and are unbounded here.
\<close>

section \<open>State\<close>

record event =
  ev_seq :: int
  ev_id :: string
  ev_kind :: string
  ev_fact :: string
  ev_user :: string
  ev_amount :: int
  ev_market :: string
  ev_target :: int
  ev_outcome :: int
  ev_height :: int
  ev_hash :: string

record tx_status =
  ts_processed :: bool
  ts_finalized :: bool
  ts_height :: int
  ts_hash :: string
  ts_rejected :: string

text \<open>What a Go map of receipts answers for a missing nonce.\<close>

definition no_status :: tx_status where
  "no_status = \<lparr>ts_processed = False, ts_finalized = False, ts_height = 0, ts_hash = '''', ts_rejected = ''''\<rparr>"

record faults =
  fa_submit_error :: rat
  fa_lost_receipt :: rat
  fa_duplicate :: rat
  fa_reorder :: rat
  fa_gap :: rat
  fa_reorg :: rat
  fa_confirms :: int

definition DefaultFaults :: faults where
  "DefaultFaults = \<lparr>fa_submit_error = 1 / 10, fa_lost_receipt = 1 / 10, fa_duplicate = 1 / 5,
     fa_reorder = 1 / 5, fa_gap = 1 / 10, fa_reorg = 1 / 20, fa_confirms = 3\<rparr>"

definition NoFaults :: faults where
  "NoFaults = \<lparr>fa_submit_error = 0, fa_lost_receipt = 0, fa_duplicate = 0, fa_reorder = 0,
     fa_gap = 0, fa_reorg = 0, fa_confirms = 2\<rparr>"

record block =
  bl_height :: int
  bl_hash :: string
  bl_txs :: "tx list"
  bl_log :: "nat list"

record persisted =
  ps_head :: int
  ps_final_height :: int
  ps_final :: vault
  ps_pending :: "block list"
  ps_hash_at :: "int \<rightharpoonup> string"
  ps_receipts :: "string \<rightharpoonup> tx_status"
  ps_log :: "event list"
  ps_seq :: int
  ps_mempool :: "tx list"
  ps_faults :: faults
  ps_next_deposit :: int

text \<open>The trace file is the list of its lines, the state file its last complete content.\<close>

record sim =
  sm_path :: string
  sm_head :: int
  sm_final_height :: int
  sm_final :: vault
  sm_pending :: "block list"
  sm_hash_at :: "int \<rightharpoonup> string"
  sm_receipts :: "string \<rightharpoonup> tx_status"
  sm_log :: "event list"
  sm_seq :: int
  sm_mempool :: "tx list"
  sm_faults :: faults
  sm_next_deposit :: int
  sm_trace :: "string list option"
  sm_disk :: "persisted option"

datatype chain_error = ErrExpired string | ErrSubmitFailed string

section \<open>The random source\<close>

definition hit :: "rat \<Rightarrow> rat \<Rightarrow> bool" where
  "hit p u \<longleftrightarrow> p > 0 \<and> u < p"

text \<open>\<open>Intn(n)\<close>: a number below \<open>n\<close>, from whatever the source yields.\<close>

definition Intn :: "nat \<Rightarrow> nat \<Rightarrow> nat" where
  "Intn raw n = raw mod n"

text \<open>\<open>Shuffle\<close> of \<open>math/rand\<close>: for \<open>i\<close> from the end down to 1, swap \<open>i\<close> with a draw up to \<open>i\<close>.\<close>

definition swap_at :: "nat \<Rightarrow> nat \<Rightarrow> 'a list \<Rightarrow> 'a list" where
  "swap_at i j xs = xs[i := xs ! j, j := xs ! i]"

fun shuffle_from :: "(nat \<Rightarrow> nat) \<Rightarrow> nat \<Rightarrow> 'a list \<Rightarrow> 'a list" where
  "shuffle_from dr 0 xs = xs"
| "shuffle_from dr (Suc i) xs = shuffle_from dr i (swap_at (Suc i) (Intn (dr (Suc i)) (Suc (Suc i))) xs)"

definition Shuffle :: "(nat \<Rightarrow> nat) \<Rightarrow> 'a list \<Rightarrow> 'a list" where
  "Shuffle dr xs = shuffle_from dr (length xs - 1) xs"

text \<open>\<open>0x%08x\<close> of a \<open>uint32\<close>.\<close>

definition block_hash :: "32 word \<Rightarrow> string" where
  "block_hash w = ''0x'' @ map (\<lambda>i. hex_digit (unat w div 16 ^ i mod 16)) [7, 6, 5, 4, 3, 2, 1, 0]"

section \<open>Trace and state file\<close>

fun words :: "string list \<Rightarrow> string" where
  "words [] = []"
| "words [w] = w"
| "words (w # ws) = w @ '' '' @ words ws"

definition trace_line :: "tx \<Rightarrow> int \<Rightarrow> string option" where
  "trace_line t h =
    (if tx_kind t = ''deposit'' then
       Some (words [''deposit'', tx_nonce t, tx_user t, fmt_d (tx_amount t), fmt_d h])
     else if tx_kind t = ''withdraw'' then
       Some (words [''withdraw'', tx_nonce t, tx_user t, fmt_d (tx_amount t), fmt_d (tx_expiry t), fmt_d h])
     else if tx_kind t = ''escrow_set'' then
       Some (words [''escrow_set'', tx_nonce t, tx_market t, fmt_d (tx_target t), fmt_d (tx_expiry t), fmt_d h])
     else if tx_kind t = ''settle_market'' then
       Some (words [''settle'', tx_nonce t, tx_market t, fmt_d (if tx_outcome t > 0 then 1 else 0),
         fmt_d (tx_expiry t), fmt_d h])
     else if tx_kind t = ''cancel'' then
       Some (words [''cancel'', tx_nonce t, fmt_d (tx_expiry t), fmt_d h])
     else None)"

definition writeTrace :: "tx \<Rightarrow> int \<Rightarrow> sim \<Rightarrow> sim" where
  "writeTrace t h s =
    (case sm_trace s of
       None \<Rightarrow> s
     | Some ls \<Rightarrow> s\<lparr>sm_trace := Some (case trace_line t h of None \<Rightarrow> ls | Some l \<Rightarrow> ls @ [l])\<rparr>)"

text \<open>The file system may refuse the trace file or a write of the state file.\<close>

definition TraceTo :: "bool \<Rightarrow> sim \<Rightarrow> bool \<times> sim" where
  "TraceTo created s =
    (if created then (True, s\<lparr>sm_trace := Some [''# finalised vault history exported by the Go simulator'']\<rparr>)
     else (False, s))"

definition CloseTrace :: "sim \<Rightarrow> string list \<times> sim" where
  "CloseTrace s =
    (case sm_trace s of
       None \<Rightarrow> ([], s)
     | Some ls \<Rightarrow>
         (ls @ words [''expect'', ''balance'', fmt_d (va_balance (sm_final s))] #
            words [''expect'', ''escrow_total'', fmt_d (escrowTotal (sm_final s))] #
            map (\<lambda>m. words [''expect'', ''escrow'', m, fmt_d (escrow_at (sm_final s) m)])
              (sort (map fst (va_escrow (sm_final s)))),
          s\<lparr>sm_trace := None\<rparr>))"

definition snapshot_of :: "sim \<Rightarrow> persisted" where
  "snapshot_of s =
    \<lparr>ps_head = sm_head s, ps_final_height = sm_final_height s, ps_final = sm_final s,
     ps_pending = sm_pending s, ps_hash_at = sm_hash_at s, ps_receipts = sm_receipts s,
     ps_log = sm_log s, ps_seq = sm_seq s, ps_mempool = sm_mempool s, ps_faults = sm_faults s,
     ps_next_deposit = sm_next_deposit s\<rparr>"

definition persistLocked :: "bool \<Rightarrow> sim \<Rightarrow> sim" where
  "persistLocked written s =
    (if sm_path s = [] \<or> \<not> written then s else s\<lparr>sm_disk := Some (snapshot_of s)\<rparr>)"

text \<open>Loading keeps the faults it was started with and never restores the trace.\<close>

definition load :: "persisted \<Rightarrow> sim \<Rightarrow> sim" where
  "load p s =
    s\<lparr>sm_head := ps_head p, sm_final_height := ps_final_height p, sm_final := ps_final p,
      sm_pending := ps_pending p, sm_receipts := ps_receipts p, sm_log := ps_log p,
      sm_seq := ps_seq p, sm_mempool := ps_mempool p, sm_next_deposit := ps_next_deposit p,
      sm_hash_at := sm_hash_at s ++ ps_hash_at p\<rparr>"

definition New :: "faults \<Rightarrow> string \<Rightarrow> persisted option \<Rightarrow> sim" where
  "New f statePath disk =
    (let f' = (if fa_confirms f \<le> 0 then f\<lparr>fa_confirms := 2\<rparr> else f);
         s = \<lparr>sm_path = statePath, sm_head = 0, sm_final_height = 0, sm_final = newVault,
              sm_pending = [], sm_hash_at = Map.empty, sm_receipts = Map.empty, sm_log = [],
              sm_seq = 0, sm_mempool = [], sm_faults = f', sm_next_deposit = 0,
              sm_trace = None, sm_disk = disk\<rparr>
     in if statePath \<noteq> [] then (case disk of None \<Rightarrow> s | Some p \<Rightarrow> load p s) else s)"

definition SetFaults :: "faults \<Rightarrow> sim \<Rightarrow> sim" where
  "SetFaults f s =
    s\<lparr>sm_faults := (if fa_confirms f \<le> 0 then f\<lparr>fa_confirms := fa_confirms (sm_faults s)\<rparr> else f)\<rparr>"

section \<open>Writes\<close>

text \<open>Executing calls from a state, refusals ignored: \<open>headLocked\<close> replays the pending blocks.\<close>

fun apply_block :: "int \<Rightarrow> tx list \<Rightarrow> vault \<Rightarrow> vault" where
  "apply_block h [] v = v"
| "apply_block h (t # ts) v = apply_block h ts (snd (applyTx t h v))"

fun replay_blocks :: "block list \<Rightarrow> vault \<Rightarrow> vault" where
  "replay_blocks [] v = v"
| "replay_blocks (b # bs) v = replay_blocks bs (apply_block (bl_height b) (bl_txs b) v)"

definition headLocked :: "sim \<Rightarrow> vault" where
  "headLocked s = replay_blocks (sm_pending s) (sm_final s)"

definition processed_at :: "sim \<Rightarrow> string \<Rightarrow> bool" where
  "processed_at s n \<longleftrightarrow> (case sm_receipts s n of None \<Rightarrow> False | Some st \<Rightarrow> ts_processed st)"

definition Deposit :: "string \<Rightarrow> int \<Rightarrow> sim \<Rightarrow> string \<times> sim" where
  "Deposit user amount s =
    (let n = sm_next_deposit s + 1; i = ''dep-'' @ fmt_d n
     in (i, s\<lparr>sm_next_deposit := n, sm_mempool := sm_mempool s @
          [\<lparr>tx_nonce = i, tx_kind = ''deposit'', tx_user = user, tx_amount = amount, tx_market = '''',
            tx_target = 0, tx_outcome = 0, tx_expiry = 0\<rparr>]\<rparr>))"

text \<open>The draws are for the lost request, the lost answer and the state file.\<close>

definition Submit :: "rat \<Rightarrow> rat \<Rightarrow> bool \<Rightarrow> tx \<Rightarrow> sim \<Rightarrow> (chain_error + string) \<times> sim" where
  "Submit u1 u2 written t s =
    (if processed_at s (tx_nonce t) then (Inr (ts_hash (the (sm_receipts s (tx_nonce t)))), s)
     else if tx_nonce t \<in> va_cancelled (headLocked s) then
       (Inl (ErrExpired (''nonce '' @ tx_nonce t @ '' was cancelled'')), s)
     else if tx_kind t \<noteq> ''cancel'' \<and> tx_expiry t > 0 \<and> sm_head s > tx_expiry t then
       (Inl (ErrExpired (''nonce '' @ tx_nonce t @ '' is past its expiry height'')), s)
     else if hit (fa_submit_error (sm_faults s)) u1 then (Inl (ErrSubmitFailed ''rpc timeout''), s)
     else
       let s1 = persistLocked written (s\<lparr>sm_mempool := sm_mempool s @ [t]\<rparr>)
       in if hit (fa_lost_receipt (sm_faults s)) u2
          then (Inl (ErrSubmitFailed ''receipt lost (tx was accepted)''), s1)
          else (Inr (''tx-'' @ tx_nonce t), s1))"

definition cancel_tx :: "string \<Rightarrow> int \<Rightarrow> tx" where
  "cancel_tx n expiryHeight =
    \<lparr>tx_nonce = n, tx_kind = ''cancel'', tx_user = '''', tx_amount = 0, tx_market = '''',
     tx_target = 0, tx_outcome = 0, tx_expiry = expiryHeight\<rparr>"

definition Cancel :: "string \<Rightarrow> int \<Rightarrow> sim \<Rightarrow> bool \<times> sim" where
  "Cancel n expiryHeight s =
    (if processed_at s n then (False, s)
     else if n \<in> va_cancelled (headLocked s) then (True, s)
     else if expiryHeight = 0 \<or> sm_head s \<le> expiryHeight then (False, s)
     else if list_ex (\<lambda>t. tx_nonce t = n \<and> tx_kind t = ''cancel'') (sm_mempool s) then (False, s)
     else (False, s\<lparr>sm_mempool := sm_mempool s @ [cancel_tx n expiryHeight]\<rparr>))"

section \<open>Mining\<close>

text \<open>
  \<open>reorgLocked\<close> drops the newest blocks: their heights leave \<open>hashAt\<close>, their receipts and log
  entries are withdrawn, and their calls go back to the front of the mempool in another order.
\<close>

definition withdraw_receipts :: "tx list \<Rightarrow> (string \<rightharpoonup> tx_status) \<Rightarrow> (string \<rightharpoonup> tx_status)" where
  "withdraw_receipts ts rc = foldl (\<lambda>r t. r(tx_nonce t := None)) rc ts"

definition mark_orphaned :: "nat list \<Rightarrow> event list \<Rightarrow> event list" where
  "mark_orphaned is lg = foldl (\<lambda>l i. l[i := (l ! i)\<lparr>ev_kind := ''orphaned''\<rparr>]) lg is"

definition orphan_block :: "sim \<Rightarrow> block \<Rightarrow> sim" where
  "orphan_block s b =
    s\<lparr>sm_hash_at := (sm_hash_at s)(bl_height b := None),
      sm_receipts := withdraw_receipts (bl_txs b) (sm_receipts s),
      sm_log := mark_orphaned (bl_log b) (sm_log s)\<rparr>"

definition reorgLocked :: "nat \<Rightarrow> (nat \<Rightarrow> nat) \<Rightarrow> sim \<Rightarrow> sim" where
  "reorgLocked raw dr s =
    (let n = length (sm_pending s);
         depth = 1 + Intn raw n;
         orphaned = drop (n - depth) (sm_pending s);
         s1 = foldl orphan_block (s\<lparr>sm_pending := take (n - depth) (sm_pending s)\<rparr>) orphaned
     in s1\<lparr>sm_head := sm_head s1 - int depth,
           sm_mempool := Shuffle dr (concat (map bl_txs orphaned)) @ sm_mempool s1\<rparr>)"

text \<open>The calls of the mempool that go into the block, and the receipts of permanent refusals.\<close>

fun fill_block :: "int \<Rightarrow> tx list \<Rightarrow> vault \<Rightarrow> (string \<rightharpoonup> tx_status) \<Rightarrow> tx list \<times> (string \<rightharpoonup> tx_status)" where
  "fill_block h [] v rc = ([], rc)"
| "fill_block h (t # ts) v rc =
    (case applyTx t h v of ((reason, ok), v') \<Rightarrow>
       if ok then (case fill_block h ts v' rc of (bs, rc') \<Rightarrow> (t # bs, rc'))
       else fill_block h ts v'
         (if reason \<noteq> [] \<and> reason \<noteq> ''already_processed''
          then rc(tx_nonce t \<mapsto> no_status\<lparr>ts_rejected := reason\<rparr>) else rc))"

definition evKind :: "string \<Rightarrow> string" where
  "evKind k =
    (if k = ''deposit'' then ''deposit'' else if k = ''withdraw'' then ''withdraw_processed''
     else if k = ''escrow_set'' then ''escrow_set'' else if k = ''settle_market'' then ''market_settled''
     else if k = ''cancel'' then ''cancelled'' else k)"

definition event_of :: "int \<Rightarrow> string \<Rightarrow> int \<Rightarrow> tx \<Rightarrow> event" where
  "event_of h hash n t =
    \<lparr>ev_seq = n, ev_id = tx_nonce t @ ''@'' @ hash, ev_kind = evKind (tx_kind t), ev_fact = tx_nonce t,
     ev_user = tx_user t, ev_amount = tx_amount t, ev_market = tx_market t, ev_target = tx_target t,
     ev_outcome = tx_outcome t, ev_height = h, ev_hash = hash\<rparr>"

definition included :: "int \<Rightarrow> string \<Rightarrow> tx_status" where
  "included h hash = no_status\<lparr>ts_processed := True, ts_height := h, ts_hash := hash\<rparr>"

definition emit :: "int \<Rightarrow> string \<Rightarrow> tx \<Rightarrow> sim \<Rightarrow> sim" where
  "emit h hash t s =
    s\<lparr>sm_receipts := (if tx_kind t \<noteq> ''cancel'' then (sm_receipts s)(tx_nonce t \<mapsto> included h hash)
                      else sm_receipts s),
      sm_seq := sm_seq s + 1,
      sm_log := sm_log s @ [event_of h hash (sm_seq s + 1) t]\<rparr>"

fun emit_block :: "int \<Rightarrow> string \<Rightarrow> tx list \<Rightarrow> sim \<Rightarrow> nat list \<times> sim" where
  "emit_block h hash [] s = ([], s)"
| "emit_block h hash (t # ts) s =
    (case emit_block h hash ts (emit h hash t s) of (is, s') \<Rightarrow> (length (sm_log s) # is, s'))"

definition finalize_tx :: "int \<Rightarrow> sim \<Rightarrow> tx \<Rightarrow> sim" where
  "finalize_tx h s t =
    (let s1 = writeTrace t h (s\<lparr>sm_final := snd (applyTx t h (sm_final s))\<rparr>)
     in case sm_receipts s1 (tx_nonce t) of
          None \<Rightarrow> s1
        | Some st \<Rightarrow> if ts_processed st
            then s1\<lparr>sm_receipts := (sm_receipts s1)(tx_nonce t \<mapsto> st\<lparr>ts_finalized := True\<rparr>)\<rparr> else s1)"

definition finalize_block :: "sim \<Rightarrow> block \<Rightarrow> sim" where
  "finalize_block s f = (foldl (finalize_tx (bl_height f)) s (bl_txs f))\<lparr>sm_final_height := bl_height f\<rparr>"

text \<open>While more blocks are pending than the confirmations asked for, the oldest is finalised.\<close>

fun finalize_loop :: "block list \<Rightarrow> sim \<Rightarrow> sim" where
  "finalize_loop [] s = s\<lparr>sm_pending := []\<rparr>"
| "finalize_loop (f # rest) s =
    (if int (length (f # rest)) > fa_confirms (sm_faults s)
     then finalize_loop rest (finalize_block (s\<lparr>sm_pending := rest\<rparr>) f)
     else s\<lparr>sm_pending := f # rest\<rparr>)"

record mine_draws =
  md_reorg :: rat
  md_depth :: nat
  md_swap :: "nat \<Rightarrow> nat"
  md_hash :: "32 word"
  md_written :: bool

definition mine_block :: "string \<Rightarrow> sim \<Rightarrow> sim" where
  "mine_block hash s =
    (let h = sm_head s + 1;
         (txs, rc) = fill_block h (sm_mempool s) (headLocked s) (sm_receipts s);
         (is, s1) = emit_block h hash txs (s\<lparr>sm_head := h, sm_mempool := [], sm_receipts := rc\<rparr>)
     in s1\<lparr>sm_hash_at := (sm_hash_at s1)(h \<mapsto> hash),
           sm_pending := sm_pending s1 @ [\<lparr>bl_height = h, bl_hash = hash, bl_txs = txs, bl_log = is\<rparr>]\<rparr>)"

definition Mine :: "mine_draws \<Rightarrow> sim \<Rightarrow> sim" where
  "Mine md s =
    (let s1 = (if sm_pending s \<noteq> [] \<and> hit (fa_reorg (sm_faults s)) (md_reorg md)
               then reorgLocked (md_depth md) (md_swap md) s else s);
         s2 = mine_block (block_hash (md_hash md)) s1
     in persistLocked (md_written md) (finalize_loop (sm_pending s2) s2))"

section \<open>Reads\<close>

text \<open>
  The scan of the log: entry \<open>i\<close> is withheld on the draw \<open>g i\<close> and doubled on the draw \<open>u i\<close>.
\<close>

fun poll_from :: "faults \<Rightarrow> int \<Rightarrow> int \<Rightarrow> (nat \<Rightarrow> rat) \<Rightarrow> (nat \<Rightarrow> rat) \<Rightarrow> nat \<Rightarrow> event list \<Rightarrow> event list \<Rightarrow>
    event list" where
  "poll_from f since limit g u i [] out = out"
| "poll_from f since limit g u i (ev # evs) out =
    (if ev_seq ev \<le> since \<or> ev_kind ev = ''orphaned'' then poll_from f since limit g u (Suc i) evs out
     else if int (length out) \<ge> limit then out
     else if hit (fa_gap f) (g i) then poll_from f since limit g u (Suc i) evs out
     else poll_from f since limit g u (Suc i) evs
       (if hit (fa_duplicate f) (u i) then out @ [ev, ev] else out @ [ev]))"

definition PollEvents :: "int \<Rightarrow> int \<Rightarrow> (nat \<Rightarrow> rat) \<Rightarrow> (nat \<Rightarrow> rat) \<Rightarrow> rat \<Rightarrow> (nat \<Rightarrow> nat) \<Rightarrow> sim \<Rightarrow> event list" where
  "PollEvents since limit g u r dr s =
    (let out = poll_from (sm_faults s) since limit g u 0 (sm_log s) []
     in if hit (fa_reorder (sm_faults s)) r \<and> length out > 1 then Shuffle dr out else out)"

definition TxStatus :: "string \<Rightarrow> sim \<Rightarrow> tx_status" where
  "TxStatus n s = (case sm_receipts s n of None \<Rightarrow> no_status | Some st \<Rightarrow> st)"

definition Expired :: "string \<Rightarrow> sim \<Rightarrow> bool" where
  "Expired n s =
    (case sm_receipts s n of
       None \<Rightarrow> n \<in> va_cancelled (headLocked s)
     | Some st \<Rightarrow>
         if ts_processed st then False
         else if ts_rejected st = ''expired'' then True
         else n \<in> va_cancelled (headLocked s))"

definition Rejected :: "string \<Rightarrow> sim \<Rightarrow> string" where
  "Rejected n s = ts_rejected (TxStatus n s)"

definition FinalizedFacts :: "string \<Rightarrow> sim \<Rightarrow> event list" where
  "FinalizedFacts kind s =
    filter (\<lambda>ev. ev_kind ev = kind \<and> (case sm_receipts s (ev_fact ev) of None \<Rightarrow> False
      | Some st \<Rightarrow> ts_finalized st \<and> ts_hash st = ev_hash ev)) (sm_log s)"

record vault_state =
  vs_final_balance :: int
  vs_final_free :: int
  vs_final_escrow :: "(string \<times> int) list"
  vs_head_balance :: int
  vs_head :: int
  vs_final_height :: int

definition VaultState :: "sim \<Rightarrow> vault_state" where
  "VaultState s =
    \<lparr>vs_final_balance = va_balance (sm_final s), vs_final_free = free (sm_final s),
     vs_final_escrow = va_escrow (sm_final s), vs_head_balance = va_balance (headLocked s),
     vs_head = sm_head s, vs_final_height = sm_final_height s\<rparr>"

definition EscrowOf :: "vault_state \<Rightarrow> string \<Rightarrow> int" where
  "EscrowOf v m = (case map_of (vs_final_escrow v) m of None \<Rightarrow> 0 | Some e \<Rightarrow> e)"

definition EscrowTotal :: "vault_state \<Rightarrow> int" where
  "EscrowTotal v = foldl (\<lambda>t e. i64 (t + e)) 0 (map snd (vs_final_escrow v))"

definition SettledOnChain :: "string \<Rightarrow> sim \<Rightarrow> bool" where
  "SettledOnChain m s \<longleftrightarrow> m \<in> va_settled (sm_final s)"

definition CanonicalHash :: "int \<Rightarrow> sim \<Rightarrow> string option" where
  "CanonicalHash h s = sm_hash_at s h"

end
