(* ===== verification/Finality.thy ===== *)
theory Finality
  imports Sim
begin

text \<open>
  What the simulator promises to the engine: the invariant \<open>chain_ok\<close> of its state over a
  ghost variable, the list of finalised blocks. It says that receipts, block hashes and the event
  log tell the truth about one canonical chain, and that the chain's calls all execute, in order,
  from the empty vault to the state the simulator reports. Every operation keeps it, and only
  ever extends the finalised blocks.
\<close>

named_theorems sim_simps \<open>what an operation of the simulator leaves unchanged\<close>

section \<open>The canonical chain\<close>

definition calls :: "block list \<Rightarrow> (tx \<times> int) list" where
  "calls bs = concat (map (\<lambda>b. map (\<lambda>t. (t, bl_height b)) (bl_txs b)) bs)"

lemma calls_simps [simp]:
  "calls [] = []" "calls (b # bs) = map (\<lambda>t. (t, bl_height b)) (bl_txs b) @ calls bs"
  "calls (bs @ cs) = calls bs @ calls cs"
  by (simp_all add: calls_def)

lemma set_calls: "(t, h) \<in> set (calls bs) \<longleftrightarrow> (\<exists>b \<in> set bs. t \<in> set (bl_txs b) \<and> bl_height b = h)"
  by (auto simp: calls_def)

definition log_of :: "block list \<Rightarrow> nat list" where
  "log_of bs = concat (map bl_log bs)"

lemma log_of_simps [simp]:
  "log_of [] = []" "log_of (b # bs) = bl_log b @ log_of bs" "log_of (bs @ cs) = log_of bs @ log_of cs"
  by (simp_all add: log_of_def)

lemma set_log_of: "i \<in> set (log_of bs) \<longleftrightarrow> (\<exists>b \<in> set bs. i \<in> set (bl_log b))"
  by (auto simp: log_of_def)

definition executes_all :: "block list \<Rightarrow> bool" where
  "executes_all bs \<longleftrightarrow> accepted execAt (calls bs) newVault = calls bs"

definition state_after :: "block list \<Rightarrow> vault" where
  "state_after bs = run_calls execAt (calls bs) newVault"

definition receipt_for :: "int \<Rightarrow> block \<Rightarrow> tx_status" where
  "receipt_for fin b = (included (bl_height b) (bl_hash b))\<lparr>ts_finalized := (bl_height b \<le> fin)\<rparr>"

definition logged :: "event list \<Rightarrow> block \<Rightarrow> bool" where
  "logged lg b \<longleftrightarrow> length (bl_log b) = length (bl_txs b) \<and>
     (\<forall>j < length (bl_txs b). bl_log b ! j < length lg \<and>
        lg ! (bl_log b ! j) = event_of (bl_height b) (bl_hash b) (int (bl_log b ! j) + 1) (bl_txs b ! j))"

definition hashes_ok :: "block list \<Rightarrow> (int \<rightharpoonup> string) \<Rightarrow> bool" where
  "hashes_ok bs m \<longleftrightarrow> (\<forall>h x. m h = Some x \<longleftrightarrow> (\<exists>b \<in> set bs. bl_height b = h \<and> bl_hash b = x))"

definition receipts_ok :: "block list \<Rightarrow> int \<Rightarrow> (string \<rightharpoonup> tx_status) \<Rightarrow> bool" where
  "receipts_ok bs fin rc \<longleftrightarrow> (\<forall>n st. (rc n = Some st \<and> ts_processed st) \<longleftrightarrow>
     (\<exists>b \<in> set bs. \<exists>t \<in> set (bl_txs b). tx_kind t \<noteq> ''cancel'' \<and> tx_nonce t = n \<and> st = receipt_for fin b))"

definition log_ok :: "block list \<Rightarrow> event list \<Rightarrow> bool" where
  "log_ok bs lg \<longleftrightarrow> (\<forall>b \<in> set bs. logged lg b) \<and> distinct (log_of bs) \<and>
     (\<forall>i < length lg. ev_seq (lg ! i) = int i + 1 \<and>
        (i \<notin> set (log_of bs) \<longrightarrow> ev_kind (lg ! i) = ''orphaned''))"

definition heights_ok :: "block list \<Rightarrow> bool" where
  "heights_ok bs \<longleftrightarrow> map bl_height bs = map int [1..<Suc (length bs)]"

definition chain_ok :: "block list \<Rightarrow> block list \<Rightarrow> sim \<Rightarrow> bool" where
  "chain_ok hist pend s \<longleftrightarrow>
     executes_all (hist @ pend) \<and> heights_ok (hist @ pend) \<and>
     sm_final s = state_after hist \<and>
     sm_head s = int (length hist + length pend) \<and> sm_final_height s = int (length hist) \<and>
     hashes_ok (hist @ pend) (sm_hash_at s) \<and>
     receipts_ok (hist @ pend) (int (length hist)) (sm_receipts s) \<and>
     log_ok (hist @ pend) (sm_log s) \<and> sm_seq s = int (length (sm_log s)) \<and>
     0 < fa_confirms (sm_faults s)"

section \<open>Facts about the chain\<close>

lemma executes_all_append:
  "executes_all (bs @ cs) \<longleftrightarrow> executes_all bs \<and> accepted execAt (calls cs) (state_after bs) = calls cs"
proof -
  have "length (accepted execAt xs v) \<le> length xs" for xs v
  proof (induction xs arbitrary: v)
    case (Cons x xs)
    show ?case
    proof (cases "execAt x v")
      case None
      with Cons [of v] show ?thesis by simp
    next
      case (Some v')
      with Cons [of v'] show ?thesis by simp
    qed
  qed simp
  note le = this [of "calls bs" newVault] this [of "calls cs" "state_after bs"]
  show ?thesis
  proof
    assume a: "executes_all (bs @ cs)"
    then have e: "accepted execAt (calls bs) newVault @ accepted execAt (calls cs) (state_after bs) = calls bs @ calls cs"
      by (simp add: executes_all_def accepted_append state_after_def)
    then have "length (accepted execAt (calls bs) newVault) + length (accepted execAt (calls cs) (state_after bs)) =
      length (calls bs) + length (calls cs)" by (metis length_append)
    with le have "length (accepted execAt (calls bs) newVault) = length (calls bs)" by simp
    with e show "executes_all bs \<and> accepted execAt (calls cs) (state_after bs) = calls cs"
      by (simp add: executes_all_def)
  qed (simp add: executes_all_def accepted_append state_after_def)
qed

lemma state_after_append: "state_after (bs @ cs) = run_calls execAt (calls cs) (state_after bs)"
  by (simp add: state_after_def run_calls_append)

lemma applyTx_run: "snd (applyTx t h v) = run_calls execAt [(t, h)] v"
  by (simp add: applyTx_state execAt_def split: option.splits)

lemma apply_block_run: "apply_block h ts v = run_calls execAt (map (\<lambda>t. (t, h)) ts) v"
proof (induction ts arbitrary: v)
  case (Cons t ts)
  have "run_calls execAt (map (\<lambda>t. (t, h)) (t # ts)) v = run_calls execAt (map (\<lambda>t. (t, h)) ts) (run_calls execAt [(t, h)] v)"
    using run_calls_append [of execAt "[(t, h)]" "map (\<lambda>t. (t, h)) ts" v] by simp
  with Cons show ?case by (simp add: applyTx_run)
qed simp

lemma replay_blocks_run: "replay_blocks bs v = run_calls execAt (calls bs) v"
  by (induction bs arbitrary: v) (simp_all add: apply_block_run run_calls_append)

lemma headLocked_state:
  "chain_ok hist (sm_pending s) s \<Longrightarrow> headLocked s = state_after (hist @ sm_pending s)"
  by (simp add: headLocked_def replay_blocks_run state_after_append chain_ok_def)

lemma calls_distinct:
  assumes "executes_all bs"
  shows "distinct (map call_nonce (calls bs))"
  using sim.accepted_distinct [of "calls bs" newVault] assms by (simp add: executes_all_def)

lemma newVault_empty [simp]: "va_processed newVault = {}" "va_cancelled newVault = {}"
  by (simp_all add: newVault_def)

lemma processed_after:
  assumes "executes_all bs"
  shows "n \<in> va_processed (state_after bs) \<longleftrightarrow>
    (\<exists>b \<in> set bs. \<exists>t \<in> set (bl_txs b). tx_kind t \<noteq> ''cancel'' \<and> tx_nonce t = n)"
proof -
  have "va_processed (state_after bs) = call_nonce ` {c \<in> set (calls bs). \<not> is_cancel c}"
    using sim.executed_run [of "calls bs" newVault] assms by (simp add: state_after_def executes_all_def)
  then show ?thesis by (auto simp: set_calls is_cancel_def call_nonce_def image_iff)
qed

text \<open>The non-cancel calls of the chain have pairwise different nonces, across blocks.\<close>

lemma nonces_disjoint:
  assumes "executes_all (bs @ cs)" and "b \<in> set bs" "t \<in> set (bl_txs b)" and "c \<in> set cs" "u \<in> set (bl_txs c)"
  shows "tx_nonce t \<noteq> tx_nonce u"
proof
  assume eq: "tx_nonce t = tx_nonce u"
  have d: "distinct (map call_nonce (calls bs) @ map call_nonce (calls cs))"
    using calls_distinct [OF assms(1)] by simp
  have "(t, bl_height b) \<in> set (calls bs)" "(u, bl_height c) \<in> set (calls cs)"
    using assms(2-5) by (auto simp: set_calls)
  then have "tx_nonce t \<in> set (map call_nonce (calls bs))" "tx_nonce u \<in> set (map call_nonce (calls cs))"
    by (force simp: call_nonce_def)+
  with eq d show False by (auto simp del: set_map)
qed

section \<open>Reorganisation\<close>

lemma mset_swap_at: "i < length xs \<Longrightarrow> j < length xs \<Longrightarrow> mset (swap_at i j xs) = mset xs"
  by (simp add: swap_at_def mset_swap)

lemma length_swap_at [simp]: "length (swap_at i j xs) = length xs"
  by (simp add: swap_at_def)

lemma mset_shuffle_from: "n < length xs \<Longrightarrow> mset (shuffle_from dr n xs) = mset xs"
proof (induction n arbitrary: xs)
  case (Suc n)
  have "Intn (dr (Suc n)) (Suc (Suc n)) < length xs"
    using Suc.prems mod_less_divisor [of "Suc (Suc n)" "dr (Suc n)"] by (simp add: Intn_def del: mod_less_divisor)
  with Suc show ?case by (simp add: mset_swap_at)
qed simp

lemma mset_Shuffle [simp]: "mset (Shuffle dr xs) = mset xs"
  by (cases xs) (simp_all add: Shuffle_def mset_shuffle_from)

lemma length_mark_orphaned [simp]: "length (mark_orphaned is lg) = length lg"
  by (induction "is" arbitrary: lg) (simp_all add: mark_orphaned_def)

lemma mark_orphaned_append: "mark_orphaned (is @ js) lg = mark_orphaned js (mark_orphaned is lg)"
  by (simp add: mark_orphaned_def)

lemma nth_mark_orphaned:
  "i < length lg \<Longrightarrow>
   mark_orphaned is lg ! i = (if i \<in> set is then (lg ! i)\<lparr>ev_kind := ''orphaned''\<rparr> else lg ! i)"
proof (induction "is" arbitrary: lg)
  case (Cons k ks)
  have "mark_orphaned (k # ks) lg = mark_orphaned ks (lg[k := (lg ! k)\<lparr>ev_kind := ''orphaned''\<rparr>])"
    by (simp add: mark_orphaned_def)
  with Cons show ?case by (cases "i = k") (auto simp: nth_list_update)
qed (simp add: mark_orphaned_def)

lemma withdraw_receipts_eq: "withdraw_receipts ts rc n = (if n \<in> tx_nonce ` set ts then None else rc n)"
  by (induction ts arbitrary: rc) (auto simp: withdraw_receipts_def)

lemma withdraw_receipts_append: "withdraw_receipts (ts @ us) rc = withdraw_receipts us (withdraw_receipts ts rc)"
  by (simp add: withdraw_receipts_def)

text \<open>Dropping a list of blocks, in closed form.\<close>

definition without :: "block list \<Rightarrow> sim \<Rightarrow> sim" where
  "without bs s =
    s\<lparr>sm_hash_at := (\<lambda>h. if h \<in> bl_height ` set bs then None else sm_hash_at s h),
      sm_receipts := withdraw_receipts (concat (map bl_txs bs)) (sm_receipts s),
      sm_log := mark_orphaned (log_of bs) (sm_log s)\<rparr>"

lemma orphan_blocks: "foldl orphan_block s bs = without bs s"
proof (induction bs arbitrary: s)
  case Nil
  show ?case by (simp add: without_def withdraw_receipts_def mark_orphaned_def)
next
  case (Cons b bs)
  show ?case
    by (simp add: Cons) (simp add: without_def orphan_block_def withdraw_receipts_append mark_orphaned_append fun_eq_iff)
qed

lemma logged_evKind: "evKind k \<noteq> ''orphaned'' \<longleftrightarrow> k \<noteq> ''orphaned''"
  by (simp add: evKind_def)

lemma hashes_ok_drop:
  assumes "hashes_ok (bs @ cs) m" and "distinct (map bl_height (bs @ cs))"
  shows "hashes_ok bs (\<lambda>h. if h \<in> bl_height ` set cs then None else m h)"
  using assms unfolding hashes_ok_def by (auto simp: image_iff)

lemma receipts_ok_drop:
  assumes rc: "receipts_ok (bs @ cs) fin rc" and ex: "executes_all (bs @ cs)"
  shows "receipts_ok bs fin (withdraw_receipts (concat (map bl_txs cs)) rc)"
  unfolding receipts_ok_def
proof (intro allI)
  fix n st
  show "(withdraw_receipts (concat (map bl_txs cs)) rc n = Some st \<and> ts_processed st) \<longleftrightarrow>
     (\<exists>b \<in> set bs. \<exists>t \<in> set (bl_txs b). tx_kind t \<noteq> ''cancel'' \<and> tx_nonce t = n \<and> st = receipt_for fin b)"
  proof (cases "\<exists>c \<in> set cs. \<exists>u \<in> set (bl_txs c). tx_nonce u = n")
    case True
    with nonces_disjoint [OF ex] show ?thesis by (auto simp: withdraw_receipts_eq image_iff)
  next
    case False
    then have "n \<notin> tx_nonce ` set (concat (map bl_txs cs))" by auto
    with False rc show ?thesis by (auto simp: withdraw_receipts_eq receipts_ok_def)
  qed
qed

lemma log_ok_drop:
  assumes "log_ok (bs @ cs) lg"
  shows "log_ok bs (mark_orphaned (log_of cs) lg)"
proof -
  have d: "set (log_of bs) \<inter> set (log_of cs) = {}" "distinct (log_of bs)"
    using assms by (simp_all add: log_ok_def)
  have "logged (mark_orphaned (log_of cs) lg) b" if b: "b \<in> set bs" for b
  proof -
    have l: "logged lg b" using assms b by (simp add: log_ok_def)
    have "bl_log b ! j \<notin> set (log_of cs)" if "j < length (bl_txs b)" for j
    proof -
      have "bl_log b ! j \<in> set (bl_log b)" using that l by (simp add: logged_def)
      then have "bl_log b ! j \<in> set (log_of bs)" using b by (auto simp: set_log_of)
      with d(1) show ?thesis by blast
    qed
    with l show ?thesis by (simp add: logged_def nth_mark_orphaned)
  qed
  then show ?thesis using assms d(2) by (auto simp: log_ok_def nth_mark_orphaned)
qed

lemma heights_ok_append: "heights_ok (bs @ cs) \<Longrightarrow> heights_ok bs"
proof -
  assume "heights_ok (bs @ cs)"
  moreover have "[1..<Suc (length bs + length cs)] = [1..<Suc (length bs)] @ [Suc (length bs)..<Suc (length bs) + length cs]"
    using upt_add_eq_append [of 1 "Suc (length bs)" "length cs"] by (simp del: upt_Suc)
  ultimately have "map bl_height bs @ map bl_height cs = map int [1..<Suc (length bs)] @ map int [Suc (length bs)..<Suc (length bs) + length cs]"
    unfolding heights_ok_def length_append map_append [symmetric] by (simp only:)
  then show ?thesis by (simp add: heights_ok_def del: upt_Suc)
qed

lemma heights_ok_distinct: "heights_ok bs \<Longrightarrow> distinct (map bl_height bs)"
  by (simp add: heights_ok_def distinct_map inj_on_def del: upt_Suc)

lemma without_chain_ok:
  assumes "chain_ok hist (kept @ gone) s"
  shows "chain_ok hist kept ((without gone s)\<lparr>sm_head := sm_head s - int (length gone), sm_pending := p, sm_mempool := q\<rparr>)"
proof -
  let ?bs = "hist @ kept"
  have c: "executes_all (?bs @ gone)" "heights_ok (?bs @ gone)" "hashes_ok (?bs @ gone) (sm_hash_at s)"
    "receipts_ok (?bs @ gone) (int (length hist)) (sm_receipts s)" "log_ok (?bs @ gone) (sm_log s)"
    and rest: "sm_final s = state_after hist" "sm_head s = int (length hist + length (kept @ gone))"
      "sm_final_height s = int (length hist)" "sm_seq s = int (length (sm_log s))" "0 < fa_confirms (sm_faults s)"
    using assms by (simp_all add: chain_ok_def)
  show ?thesis
    unfolding chain_ok_def
    using c(1) executes_all_append [of ?bs gone] heights_ok_append [OF c(2)] rest
      hashes_ok_drop [OF c(3) heights_ok_distinct [OF c(2)]] receipts_ok_drop [OF c(4,1)] log_ok_drop [OF c(5)]
    by (simp add: without_def)
qed

lemma reorgLocked_eq:
  "reorgLocked raw dr s =
    (let k = length (sm_pending s) - (1 + Intn raw (length (sm_pending s)));
         gone = drop k (sm_pending s)
     in (without gone s)\<lparr>sm_head := sm_head s - int (1 + Intn raw (length (sm_pending s))),
          sm_pending := take k (sm_pending s),
          sm_mempool := Shuffle dr (concat (map bl_txs gone)) @ sm_mempool s\<rparr>)"
  by (simp add: reorgLocked_def Let_def orphan_blocks) (simp add: without_def cong: if_cong)

lemma reorgLocked_chain_ok:
  assumes "chain_ok hist (sm_pending s) s" and "sm_pending s \<noteq> []"
  shows "chain_ok hist (sm_pending (reorgLocked raw dr s)) (reorgLocked raw dr s)"
proof -
  let ?k = "length (sm_pending s) - (1 + Intn raw (length (sm_pending s)))"
  have "1 + Intn raw (length (sm_pending s)) \<le> length (sm_pending s)"
    using assms(2) mod_less_divisor [of "length (sm_pending s)" raw] by (simp add: Intn_def Suc_leI del: mod_less_divisor)
  then have len: "length (drop ?k (sm_pending s)) = 1 + Intn raw (length (sm_pending s))" by simp
  have "chain_ok hist (take ?k (sm_pending s) @ drop ?k (sm_pending s)) s" using assms(1) by simp
  from without_chain_ok [OF this] show ?thesis unfolding reorgLocked_eq Let_def len by simp
qed

section \<open>Mining\<close>

lemma applyTx_execAt:
  "snd (fst (applyTx t h v)) \<Longrightarrow> execAt (t, h) v = Some (snd (applyTx t h v))"
  "\<not> snd (fst (applyTx t h v)) \<Longrightarrow> execAt (t, h) v = None \<and> snd (applyTx t h v) = v"
  using applyTx_refused [of t h v "fst (fst (applyTx t h v))" "snd (applyTx t h v)"]
  by (cases "applyTx t h v"; cases "fst (applyTx t h v)"; simp add: execAt_def accepts_def)+

lemma fill_block_calls:
  "map (\<lambda>t. (t, h)) (fst (fill_block h ts v rc)) = accepted execAt (map (\<lambda>t. (t, h)) ts) v"
proof (induction ts arbitrary: v rc)
  case (Cons t ts)
  obtain reason ok v' where a: "applyTx t h v = ((reason, ok), v')" by (metis surj_pair)
  show ?case
  proof (cases ok)
    case True
    with a applyTx_execAt(1) [of t h v] Cons [of v' rc] show ?thesis by (cases "fill_block h ts v' rc") simp
  next
    case False
    with a applyTx_execAt(2) [of t h v] Cons [of v] show ?thesis by (simp split: prod.splits)
  qed
qed simp

text \<open>A refusal never replaces the receipt of a call that was processed before.\<close>

lemma fill_block_receipts:
  assumes "fill_block h ts v rc = (bs, rc')"
  shows "n \<in> va_processed v \<Longrightarrow> rc' n = rc n"
    and "rc' n = Some st \<Longrightarrow> ts_processed st \<Longrightarrow> rc n = Some st"
proof -
  have "(n \<in> va_processed v \<longrightarrow> rc' n = rc n) \<and> (rc' n = Some st \<and> ts_processed st \<longrightarrow> rc n = Some st)"
    using assms
  proof (induction ts arbitrary: v rc bs rc')
    case (Cons t ts)
    obtain reason ok v' where a: "applyTx t h v = ((reason, ok), v')" by (metis surj_pair)
    show ?case
    proof (cases ok)
      case True
      obtain cs rc2 where f: "fill_block h ts v' rc = (cs, rc2)" by (metis surj_pair)
      have "va_processed v \<subseteq> va_processed v'"
        using sim.executed_mono [of v "[(t, h)]"] a by (simp add: applyTx_run [symmetric] del: run_calls.simps)
      with f Cons.IH [OF f] Cons.prems True a show ?thesis by auto
    next
      case False
      let ?rc = "if reason \<noteq> [] \<and> reason \<noteq> ''already_processed''
          then rc(tx_nonce t \<mapsto> no_status\<lparr>ts_rejected := reason\<rparr>) else rc"
      have v: "v' = v" using a False applyTx_refused by auto
      have f: "fill_block h ts v ?rc = (bs, rc')" using Cons.prems False a v by simp
      have "reason = ''already_processed''" if "tx_nonce t \<in> va_processed v"
        using a that by (simp add: applyTx_def)
      with Cons.IH [OF f] show ?thesis by (auto simp: no_status_def split: if_splits)
    qed
  qed simp
  then show "n \<in> va_processed v \<Longrightarrow> rc' n = rc n" "rc' n = Some st \<Longrightarrow> ts_processed st \<Longrightarrow> rc n = Some st" by auto
qed

definition include_receipts :: "int \<Rightarrow> string \<Rightarrow> tx list \<Rightarrow> (string \<rightharpoonup> tx_status) \<Rightarrow> (string \<rightharpoonup> tx_status)" where
  "include_receipts h hash ts rc n =
    (if \<exists>t \<in> set ts. tx_kind t \<noteq> ''cancel'' \<and> tx_nonce t = n then Some (included h hash) else rc n)"

lemma include_receipts_snoc:
  "include_receipts h hash (t # ts) rc = include_receipts h hash ts
     (if tx_kind t \<noteq> ''cancel'' then rc(tx_nonce t \<mapsto> included h hash) else rc)"
  by (auto simp: include_receipts_def fun_eq_iff)

lemma emit_block_eq:
  "emit_block h hash ts s =
    ([length (sm_log s)..<length (sm_log s) + length ts],
     s\<lparr>sm_receipts := include_receipts h hash ts (sm_receipts s), sm_seq := sm_seq s + int (length ts),
       sm_log := sm_log s @ map (\<lambda>j. event_of h hash (sm_seq s + 1 + int j) (ts ! j)) [0..<length ts]\<rparr>)"
proof (induction ts arbitrary: s)
  case (Cons t ts)
  have up: "[0..<length (t # ts)] = 0 # map Suc [0..<length ts]"
    by (simp add: map_Suc_upt upt_conv_Cons del: upt_Suc)
  have idx: "[length (sm_log s)..<length (sm_log s) + length (t # ts)] =
      length (sm_log s) # [Suc (length (sm_log s))..<Suc (length (sm_log s) + length ts)]"
    by (simp add: upt_conv_Cons del: upt_Suc)
  show ?case
    unfolding emit_block.simps Cons up idx
    by (simp add: emit_def comp_def algebra_simps include_receipts_snoc del: upt_Suc)
next
  case Nil
  have "include_receipts h hash [] (sm_receipts s) = sm_receipts s" by (simp add: include_receipts_def fun_eq_iff)
  then show ?case by simp
qed

lemma logged_append: "logged lg b \<Longrightarrow> logged (lg @ xs) b"
  by (auto simp: logged_def nth_append intro: trans_less_add1)

lemma executes_all_snoc:
  assumes "executes_all bs" and "accepted execAt (map (\<lambda>t. (t, bl_height b)) ts) (state_after bs) = map (\<lambda>t. (t, bl_height b)) (bl_txs b)"
  shows "executes_all (bs @ [b])"
  using assms sim.replay [of "map (\<lambda>t. (t, bl_height b)) ts" "state_after bs"] by (simp add: executes_all_append)

lemma receipts_ok_snoc:
  assumes rc: "receipts_ok bs fin rc" and ex: "executes_all (bs @ [b])" and h: "fin < bl_height b"
    and keep: "\<And>n. n \<in> va_processed (state_after bs) \<Longrightarrow> rc' n = rc n"
    and sub: "\<And>n st. rc' n = Some st \<Longrightarrow> ts_processed st \<Longrightarrow> rc n = Some st"
  shows "receipts_ok (bs @ [b]) fin (include_receipts (bl_height b) (bl_hash b) (bl_txs b) rc')"
  unfolding receipts_ok_def
proof (intro allI)
  fix n st
  have ex': "executes_all bs" using ex by (simp add: executes_all_append)
  have new: "receipt_for fin b = included (bl_height b) (bl_hash b)"
    using h by (simp add: receipt_for_def included_def no_status_def)
  show "(include_receipts (bl_height b) (bl_hash b) (bl_txs b) rc' n = Some st \<and> ts_processed st) \<longleftrightarrow>
     (\<exists>c \<in> set (bs @ [b]). \<exists>t \<in> set (bl_txs c). tx_kind t \<noteq> ''cancel'' \<and> tx_nonce t = n \<and> st = receipt_for fin c)"
  proof (cases "\<exists>t \<in> set (bl_txs b). tx_kind t \<noteq> ''cancel'' \<and> tx_nonce t = n")
    case True
    then obtain t where t: "t \<in> set (bl_txs b)" "tx_nonce t = n" by blast
    have "\<not> (\<exists>c \<in> set bs. \<exists>u \<in> set (bl_txs c). tx_nonce u = n)"
      using nonces_disjoint [OF ex _ _ _ t(1)] t(2) by auto
    with True new show ?thesis
      by (auto simp: include_receipts_def included_def no_status_def)
  next
    case False
    have "(rc' n = Some st \<and> ts_processed st) \<longleftrightarrow> (rc n = Some st \<and> ts_processed st)"
    proof (cases "n \<in> va_processed (state_after bs)")
      case True
      with keep show ?thesis by simp
    next
      case out: False
      then have "\<not> (rc n = Some st \<and> ts_processed st)"
        using rc [unfolded receipts_ok_def, rule_format, of n st] processed_after [OF ex', of n] by blast
      with sub show ?thesis by blast
    qed
    with False rc show ?thesis by (auto simp: include_receipts_def receipts_ok_def)
  qed
qed

lemma log_index: "log_ok bs lg \<Longrightarrow> i \<in> set (log_of bs) \<Longrightarrow> i < length lg"
proof -
  assume lg: "log_ok bs lg" and i: "i \<in> set (log_of bs)"
  then obtain c where c: "c \<in> set bs" "i \<in> set (bl_log c)" by (auto simp: set_log_of)
  then obtain j where "j < length (bl_log c)" "bl_log c ! j = i" by (auto simp: in_set_conv_nth)
  with c lg show ?thesis by (auto simp: log_ok_def logged_def)
qed

lemma log_ok_snoc:
  assumes lg: "log_ok bs lg" and idx: "bl_log b = [length lg..<length lg + length (bl_txs b)]"
  shows "log_ok (bs @ [b]) (lg @ map (\<lambda>j. event_of (bl_height b) (bl_hash b) (int (length lg) + 1 + int j) (bl_txs b ! j))
    [0..<length (bl_txs b)])" (is "log_ok _ ?lg")
proof -
  note old = log_index [OF lg]
  have "logged ?lg c" if "c \<in> set bs" for c
    using that lg by (simp add: log_ok_def logged_append)
  moreover have "logged ?lg b" by (simp add: logged_def idx nth_append add_ac)
  moreover have "distinct (log_of (bs @ [b]))" using lg by (auto simp: log_ok_def idx dest!: old)
  moreover have "ev_seq (?lg ! i) = int i + 1 \<and> (i \<notin> set (log_of (bs @ [b])) \<longrightarrow> ev_kind (?lg ! i) = ''orphaned'')"
    if "i < length ?lg" for i
    using that lg by (cases "i < length lg") (auto simp: log_ok_def nth_append idx event_of_def)
  ultimately show ?thesis by (simp add: log_ok_def)
qed

lemma hashes_ok_snoc:
  assumes "hashes_ok bs m" and "heights_ok (bs @ [b])"
  shows "hashes_ok (bs @ [b]) (m(bl_height b \<mapsto> bl_hash b))"
proof -
  have "\<forall>c \<in> set bs. bl_height c \<noteq> bl_height b"
    using heights_ok_distinct [OF assms(2)] by (auto simp: image_iff)
  with assms(1) show ?thesis by (auto simp: hashes_ok_def)
qed

lemma heights_ok_snoc: "heights_ok bs \<Longrightarrow> bl_height b = int (length bs) + 1 \<Longrightarrow> heights_ok (bs @ [b])"
  by (simp add: heights_ok_def)

lemma mine_block_chain_ok:
  assumes ok: "chain_ok hist (sm_pending s) s"
  shows "chain_ok hist (sm_pending (mine_block hash s)) (mine_block hash s)"
proof -
  let ?bs = "hist @ sm_pending s" and ?h = "sm_head s + 1"
  note c = ok [unfolded chain_ok_def]
  obtain txs rc where fill: "fill_block ?h (sm_mempool s) (headLocked s) (sm_receipts s) = (txs, rc)" by (metis surj_pair)
  define b where "b = \<lparr>bl_height = ?h, bl_hash = hash, bl_txs = txs,
    bl_log = [length (sm_log s)..<length (sm_log s) + length txs]\<rparr>"
  have eq: "mine_block hash s = s\<lparr>sm_head := ?h, sm_mempool := [],
      sm_receipts := include_receipts ?h hash txs rc, sm_seq := sm_seq s + int (length txs),
      sm_log := sm_log s @ map (\<lambda>j. event_of ?h hash (sm_seq s + 1 + int j) (txs ! j)) [0..<length txs],
      sm_hash_at := (sm_hash_at s)(?h \<mapsto> hash), sm_pending := sm_pending s @ [b]\<rparr>"
    by (simp add: mine_block_def fill emit_block_eq b_def Let_def)
  have ex: "executes_all (?bs @ [b])"
  proof (rule executes_all_snoc)
    show "accepted execAt (map (\<lambda>t. (t, bl_height b)) (sm_mempool s)) (state_after ?bs) = map (\<lambda>t. (t, bl_height b)) (bl_txs b)"
      using fill_block_calls [of ?h "sm_mempool s" "headLocked s" "sm_receipts s"] headLocked_state [OF ok] fill
      by (simp add: b_def)
  qed (use c in simp)
  have ht: "heights_ok (?bs @ [b])" using c by (intro heights_ok_snoc) (simp_all add: b_def)
  have "receipts_ok (?bs @ [b]) (int (length hist))
      (include_receipts (bl_height b) (bl_hash b) (bl_txs b) rc)"
  proof (rule receipts_ok_snoc [OF _ ex])
    show "rc n = sm_receipts s n" if "n \<in> va_processed (state_after ?bs)" for n
      using fill_block_receipts(1) [OF fill] headLocked_state [OF ok] that by simp
    show "sm_receipts s n = Some st" if "rc n = Some st" "ts_processed st" for n st
      using fill_block_receipts(2) [OF fill] that by blast
  qed (use c in \<open>simp_all add: b_def\<close>)
  moreover have "log_ok (?bs @ [b]) (sm_log s @ map (\<lambda>j. event_of ?h hash (sm_seq s + 1 + int j) (txs ! j)) [0..<length txs])"
    using log_ok_snoc [of ?bs "sm_log s" b] c by (simp add: b_def)
  moreover have "hashes_ok (?bs @ [b]) ((sm_hash_at s)(?h \<mapsto> hash))"
    using hashes_ok_snoc [OF _ ht, of "sm_hash_at s"] c by (simp add: b_def)
  ultimately show ?thesis using c ex ht unfolding chain_ok_def eq by (simp add: b_def)
qed

section \<open>Finality\<close>

definition finalized_receipts :: "tx list \<Rightarrow> (string \<rightharpoonup> tx_status) \<Rightarrow> (string \<rightharpoonup> tx_status)" where
  "finalized_receipts ts rc n =
    (case rc n of None \<Rightarrow> None
     | Some st \<Rightarrow> Some (if ts_processed st \<and> n \<in> tx_nonce ` set ts then st\<lparr>ts_finalized := True\<rparr> else st))"

definition trace_lines :: "(tx \<times> int) list \<Rightarrow> string list" where
  "trace_lines cs = concat (map (\<lambda>(t, h). case trace_line t h of None \<Rightarrow> [] | Some l \<Rightarrow> [l]) cs)"

lemma trace_lines_simps [simp]:
  "trace_lines [] = []" "trace_lines (cs @ ds) = trace_lines cs @ trace_lines ds"
  by (simp_all add: trace_lines_def)

lemma writeTrace_eq: "writeTrace t h s = s\<lparr>sm_trace := map_option (\<lambda>ls. ls @ trace_lines [(t, h)]) (sm_trace s)\<rparr>"
  by (cases "sm_trace s") (simp_all add: writeTrace_def trace_lines_def split: option.splits)

lemma finalized_receipts_Cons:
  "finalized_receipts (t # ts) rc = finalized_receipts ts (finalized_receipts [t] rc)"
  by (auto simp: finalized_receipts_def fun_eq_iff split: option.splits)

lemma finalize_tx_eq:
  "finalize_tx h s t = s\<lparr>sm_final := run_calls execAt [(t, h)] (sm_final s),
     sm_receipts := finalized_receipts [t] (sm_receipts s),
     sm_trace := map_option (\<lambda>ls. ls @ trace_lines [(t, h)]) (sm_trace s)\<rparr>"
proof -
  have "finalized_receipts [t] rc = (case rc (tx_nonce t) of None \<Rightarrow> rc
    | Some st \<Rightarrow> if ts_processed st then rc(tx_nonce t \<mapsto> st\<lparr>ts_finalized := True\<rparr>) else rc)" for rc
    by (auto simp: finalized_receipts_def fun_eq_iff split: option.splits)
  then show ?thesis
    by (simp add: finalize_tx_def Let_def writeTrace_eq applyTx_run split: option.splits)
qed

lemma finalize_txs_eq:
  "foldl (finalize_tx h) s ts = s\<lparr>sm_final := run_calls execAt (map (\<lambda>t. (t, h)) ts) (sm_final s),
     sm_receipts := finalized_receipts ts (sm_receipts s),
     sm_trace := map_option (\<lambda>ls. ls @ trace_lines (map (\<lambda>t. (t, h)) ts)) (sm_trace s)\<rparr>"
proof (induction ts arbitrary: s)
  case Nil
  have "finalized_receipts [] rc = rc" for rc by (auto simp: finalized_receipts_def fun_eq_iff split: option.splits)
  moreover have "map_option (\<lambda>ls. ls) x = x" for x :: "string list option" by (cases x) simp_all
  ultimately show ?case by simp
next
  case (Cons t ts)
  have run: "run_calls execAt (map (\<lambda>t. (t, h)) (t # ts)) v = run_calls execAt (map (\<lambda>t. (t, h)) ts) (run_calls execAt [(t, h)] v)" for v
    using run_calls_append [of execAt "[(t, h)]" "map (\<lambda>t. (t, h)) ts" v] by simp
  have tr: "trace_lines (map (\<lambda>t. (t, h)) (t # ts)) = trace_lines [(t, h)] @ trace_lines (map (\<lambda>t. (t, h)) ts)"
    by (simp add: trace_lines_def)
  have "foldl (finalize_tx h) s (t # ts) = foldl (finalize_tx h) (finalize_tx h s t) ts" by simp
  then show ?case unfolding Cons run tr finalized_receipts_Cons [of t ts] finalize_tx_eq [of h s t]
    by (simp add: option.map_comp comp_def del: run_calls.simps)
qed

lemma receipts_ok_iff:
  "receipts_ok bs fin rc \<Longrightarrow> (rc n = Some st \<and> ts_processed st) \<longleftrightarrow>
     (\<exists>b \<in> set bs. \<exists>t \<in> set (bl_txs b). tx_kind t \<noteq> ''cancel'' \<and> tx_nonce t = n \<and> st = receipt_for fin b)"
  by (simp add: receipts_ok_def)

lemma heights_ok_nth: "heights_ok bs \<Longrightarrow> i < length bs \<Longrightarrow> bl_height (bs ! i) = int i + 1"
proof -
  assume ok: "heights_ok bs" and i: "i < length bs"
  then have "map bl_height bs ! i = map int [1..<Suc (length bs)] ! i" by (simp only: heights_ok_def)
  with i show ?thesis by (simp del: upt_Suc)
qed

lemma receipts_ok_finalize:
  assumes rc: "receipts_ok (hist @ f # rest) (int (length hist)) rc"
    and ex: "executes_all (hist @ f # rest)" and ht: "heights_ok (hist @ f # rest)"
  shows "receipts_ok (hist @ f # rest) (int (length hist) + 1) (finalized_receipts (bl_txs f) rc)"
  unfolding receipts_ok_def
proof (intro allI)
  fix n st
  let ?bs = "hist @ f # rest"
  note hs = heights_ok_nth [OF ht]
  have fin: "bl_height c \<le> int (length hist) + 1 \<longleftrightarrow> bl_height c \<le> int (length hist) \<or> c = f" if "c \<in> set ?bs" for c
  proof -
    from that obtain i where i: "i < length ?bs" "c = ?bs ! i" by (metis in_set_conv_nth)
    have "f = ?bs ! length hist" by (simp add: nth_append)
    then have "bl_height f = int (length hist) + 1" using hs [of "length hist"] by simp
    moreover have "bl_height c = int i + 1" using hs [OF i(1)] i(2) by simp
    moreover have "c = f" if "i = length hist" using i(2) that by (simp add: nth_append)
    ultimately show ?thesis by (cases "i = length hist") auto
  qed
  have own: "c = f" if "c \<in> set ?bs" "t \<in> set (bl_txs c)" "u \<in> set (bl_txs f)" "tx_nonce t = tx_nonce u" for c t u
  proof -
    have "c \<notin> set hist" using nonces_disjoint [OF ex, of c t f u] that by auto
    moreover have "c \<notin> set rest" using nonces_disjoint [of "hist @ [f]" rest f u c t] ex that by auto
    ultimately show ?thesis using that(1) by simp
  qed
  show "(finalized_receipts (bl_txs f) rc n = Some st \<and> ts_processed st) \<longleftrightarrow>
     (\<exists>c \<in> set ?bs. \<exists>t \<in> set (bl_txs c). tx_kind t \<noteq> ''cancel'' \<and> tx_nonce t = n \<and>
       st = receipt_for (int (length hist) + 1) c)" (is "?l \<longleftrightarrow> ?r")
  proof
    assume ?l
    then have fr: "finalized_receipts (bl_txs f) rc n = Some st" "ts_processed st" by simp_all
    then obtain st0 where rn: "rc n = Some st0" by (cases "rc n") (simp_all add: finalized_receipts_def)
    with fr(1) have st1: "st = (if ts_processed st0 \<and> n \<in> tx_nonce ` set (bl_txs f) then st0\<lparr>ts_finalized := True\<rparr> else st0)"
      by (simp add: finalized_receipts_def)
    with fr(2) rn have st0: "rc n = Some st0" "ts_processed st0" by (simp_all split: if_splits)
    with st1 have st: "st = (if n \<in> tx_nonce ` set (bl_txs f) then st0\<lparr>ts_finalized := True\<rparr> else st0)" by simp
    have "\<exists>c \<in> set ?bs. \<exists>t \<in> set (bl_txs c). tx_kind t \<noteq> ''cancel'' \<and> tx_nonce t = n \<and>
        st0 = receipt_for (int (length hist)) c"
      by (rule iffD1 [OF receipts_ok_iff [OF rc, of n st0]]) (simp add: st0)
    then obtain c t where c: "c \<in> set ?bs" "t \<in> set (bl_txs c)" "tx_kind t \<noteq> ''cancel''" "tx_nonce t = n"
      and s0: "st0 = receipt_for (int (length hist)) c" by blast
    have "c = f \<longleftrightarrow> n \<in> tx_nonce ` set (bl_txs f)" using own [OF c(1,2)] c(2,4) by auto
    then have "st = receipt_for (int (length hist) + 1) c"
      using st s0 fin [OF c(1)] by (auto simp: receipt_for_def)
    with c show ?r by blast
  next
    assume ?r
    then obtain c t where c: "c \<in> set ?bs" "t \<in> set (bl_txs c)" "tx_kind t \<noteq> ''cancel''" "tx_nonce t = n"
      and st: "st = receipt_for (int (length hist) + 1) c" by blast
    then have r: "rc n = Some (receipt_for (int (length hist)) c)"
      by (intro iffD2 [OF receipts_ok_iff [OF rc], THEN conjunct1]) blast
    have "c = f \<longleftrightarrow> n \<in> tx_nonce ` set (bl_txs f)" using own [OF c(1,2)] c(2,4) by auto
    then show ?l using r st fin [OF c(1)]
      by (auto simp: finalized_receipts_def receipt_for_def included_def no_status_def)
  qed
qed

lemma finalize_block_eq:
  "finalize_block s f = s\<lparr>sm_final := run_calls execAt (calls [f]) (sm_final s),
     sm_receipts := finalized_receipts (bl_txs f) (sm_receipts s),
     sm_trace := map_option (\<lambda>ls. ls @ trace_lines (calls [f])) (sm_trace s),
     sm_final_height := bl_height f\<rparr>"
  by (simp add: finalize_block_def finalize_txs_eq)

lemma finalize_block_chain_ok:
  assumes "chain_ok hist (f # rest) s"
  shows "chain_ok (hist @ [f]) rest (finalize_block s f)"
proof -
  note c = assms [unfolded chain_ok_def]
  have "bl_height f = int (length hist) + 1"
    using heights_ok_nth [of "hist @ f # rest" "length hist"] c by (simp add: nth_append)
  moreover have "receipts_ok (hist @ f # rest) (int (length hist) + 1) (finalized_receipts (bl_txs f) (sm_receipts s))"
    using c by (intro receipts_ok_finalize) simp_all
  moreover have "state_after (hist @ [f]) = run_calls execAt (calls [f]) (state_after hist)"
    by (simp add: state_after_append)
  ultimately show ?thesis using c unfolding chain_ok_def finalize_block_eq by (simp add: add_ac)
qed

lemma finalize_loop_spec:
  assumes "chain_ok hist bs s"
  shows "\<exists>fin. bs = fin @ sm_pending (finalize_loop bs s) \<and>
    chain_ok (hist @ fin) (sm_pending (finalize_loop bs s)) (finalize_loop bs s) \<and>
    sm_trace (finalize_loop bs s) = map_option (\<lambda>ls. ls @ trace_lines (calls fin)) (sm_trace s) \<and>
    int (length (sm_pending (finalize_loop bs s))) \<le> fa_confirms (sm_faults s) \<and>
    (fin \<noteq> [] \<longrightarrow> int (length (sm_pending (finalize_loop bs s))) = fa_confirms (sm_faults s)) \<and>
    sm_disk (finalize_loop bs s) = sm_disk s \<and> sm_path (finalize_loop bs s) = sm_path s"
  using assms
proof (induction bs arbitrary: hist s)
  case Nil
  then show ?case by (cases "sm_trace s") (simp_all add: chain_ok_def)
next
  case (Cons f rest)
  show ?case
  proof (cases "int (length (f # rest)) > fa_confirms (sm_faults s)")
    case False
    with Cons.prems show ?thesis by (intro exI [of _ "[]"]) (cases "sm_trace s"; simp add: chain_ok_def)
  next
    case True
    let ?s = "finalize_block (s\<lparr>sm_pending := rest\<rparr>) f"
    have loop: "finalize_loop (f # rest) s = finalize_loop rest ?s" using True by simp
    have "chain_ok hist (f # rest) (s\<lparr>sm_pending := rest\<rparr>)" using Cons.prems by (simp add: chain_ok_def)
    from Cons.IH [OF finalize_block_chain_ok [OF this]] obtain fin where fin: "rest = fin @ sm_pending (finalize_loop rest ?s)"
      "chain_ok (hist @ f # fin) (sm_pending (finalize_loop rest ?s)) (finalize_loop rest ?s)"
      "sm_trace (finalize_loop rest ?s) = map_option (\<lambda>ls. ls @ trace_lines (calls fin)) (sm_trace ?s)"
      "int (length (sm_pending (finalize_loop rest ?s))) \<le> fa_confirms (sm_faults ?s)"
      "fin \<noteq> [] \<longrightarrow> int (length (sm_pending (finalize_loop rest ?s))) = fa_confirms (sm_faults ?s)"
      "sm_disk (finalize_loop rest ?s) = sm_disk ?s" "sm_path (finalize_loop rest ?s) = sm_path ?s"
      by auto
    have all: "int (length (sm_pending (finalize_loop rest ?s))) = fa_confirms (sm_faults s)"
    proof (cases "fin = []")
      case True2: True
      then have "length (sm_pending (finalize_loop rest ?s)) = length rest" using fin(1) by simp
      with True fin(4) show ?thesis by (simp add: finalize_block_eq)
    qed (use fin(5) in \<open>simp add: finalize_block_eq\<close>)
    have tr: "trace_lines (calls (f # fin)) = trace_lines (calls [f]) @ trace_lines (calls fin)" by simp
    show ?thesis
    proof (intro exI [of _ "f # fin"] conjI)
      show "sm_trace (finalize_loop (f # rest) s) = map_option (\<lambda>ls. ls @ trace_lines (calls (f # fin))) (sm_trace s)"
        unfolding loop fin(3) tr by (simp add: finalize_block_eq option.map_comp comp_def)
    qed (use fin all loop in \<open>simp_all add: finalize_block_eq\<close>)
  qed
qed

section \<open>Every operation keeps the chain\<close>

abbreviation sim_inv :: "block list \<Rightarrow> sim \<Rightarrow> bool" where
  "sim_inv hist s \<equiv> chain_ok hist (sm_pending s) s"

text \<open>A trace opened at some point of the history holds every call finalised since, in order.\<close>

definition trace_ok :: "block list \<Rightarrow> sim \<Rightarrow> bool" where
  "trace_ok hist s \<longleftrightarrow> (\<forall>ls. sm_trace s = Some ls \<longrightarrow> (\<exists>k \<le> length hist.
     ls = ''# finalised vault history exported by the Go simulator'' # trace_lines (calls (drop k hist))))"

text \<open>A process that restarts from the state file finds a chain whose history is a prefix.\<close>

definition disk_ok :: "block list \<Rightarrow> sim \<Rightarrow> bool" where
  "disk_ok hist s \<longleftrightarrow> (sm_path s = [] \<longrightarrow> sm_disk s = None) \<and> (\<forall>p. sm_disk s = Some p \<longrightarrow> (\<exists>hist0. prefix hist0 hist \<and>
     (\<forall>f path. path \<noteq> [] \<longrightarrow> sim_inv hist0 (New f path (Some p)))))"

definition sim_ok :: "block list \<Rightarrow> sim \<Rightarrow> bool" where
  "sim_ok hist s \<longleftrightarrow> sim_inv hist s \<and> trace_ok hist s \<and> disk_ok hist s"

inductive sim_step :: "sim \<Rightarrow> sim \<Rightarrow> bool" where
  deposit: "sim_step s (snd (Deposit user amount s))"
| submit: "sim_step s (snd (Submit u1 u2 written t s))"
| cancel: "sim_step s (snd (Cancel n expiryHeight s))"
| mine: "sim_step s (Mine md s)"
| set_faults: "sim_step s (SetFaults f s)"
| trace_to: "sim_step s (snd (TraceTo created s))"
| close_trace: "sim_step s (snd (CloseTrace s))"

inductive sim_reachable :: "sim \<Rightarrow> bool" where
  boot: "sim_reachable (New f statePath None)"
| step: "sim_reachable s \<Longrightarrow> sim_step s s' \<Longrightarrow> sim_reachable s'"
| restart: "sim_reachable s \<Longrightarrow> sim_reachable (New f (sm_path s) (sm_disk s))"

lemma New_snapshot:
  "path \<noteq> [] \<Longrightarrow> New f path (Some (snapshot_of s)) =
    s\<lparr>sm_path := path, sm_faults := (if fa_confirms f \<le> 0 then f\<lparr>fa_confirms := 2\<rparr> else f),
      sm_trace := None, sm_disk := Some (snapshot_of s)\<rparr>"
  by (simp add: New_def load_def snapshot_of_def Let_def)

lemma New_empty: "sim_inv [] (New f path None)"
  by (simp add: New_def Let_def chain_ok_def executes_all_def heights_ok_def state_after_def hashes_ok_def
      receipts_ok_def log_ok_def)

lemma snapshot_inv: "sim_inv hist s \<Longrightarrow> path \<noteq> [] \<Longrightarrow> sim_inv hist (New f path (Some (snapshot_of s)))"
  by (simp add: New_snapshot chain_ok_def)

lemma persistLocked_ok:
  assumes "sim_ok hist s"
  shows "sim_ok hist (persistLocked w s)"
  using assms snapshot_inv [of hist s]
  by (auto simp: persistLocked_def sim_ok_def trace_ok_def disk_ok_def chain_ok_def)

lemma sim_ok_frame:
  assumes "sim_ok hist s" and "\<And>p. chain_ok hist p s \<Longrightarrow> chain_ok hist p s'" "sm_pending s' = sm_pending s"
    "sm_trace s' = sm_trace s" "sm_disk s' = sm_disk s" "sm_path s' = sm_path s"
  shows "sim_ok hist s'"
  using assms by (simp add: sim_ok_def trace_ok_def disk_ok_def)

lemma Submit_ok:
  assumes "sim_ok hist s"
  shows "sim_ok hist (snd (Submit u1 u2 w t s))"
proof -
  have q: "sim_ok hist (s\<lparr>sm_mempool := x\<rparr>)" for x
    using assms by (rule sim_ok_frame) (simp_all add: chain_ok_def)
  show ?thesis using assms persistLocked_ok [OF q] by (simp add: Submit_def Let_def)
qed

lemma Mine_ok:
  assumes ok: "sim_ok hist s"
  shows "\<exists>new. sim_ok (hist @ new) (Mine md s)"
proof -
  define s1 where "s1 = (if sm_pending s \<noteq> [] \<and> hit (fa_reorg (sm_faults s)) (md_reorg md)
    then reorgLocked (md_depth md) (md_swap md) s else s)"
  define s2 where "s2 = mine_block (block_hash (md_hash md)) s1"
  have "sim_inv hist s1" using ok reorgLocked_chain_ok by (simp add: s1_def sim_ok_def)
  then have "sim_inv hist s2" unfolding s2_def by (rule mine_block_chain_ok)
  then obtain fin where fin: "sim_inv (hist @ fin) (finalize_loop (sm_pending s2) s2)"
    "sm_trace (finalize_loop (sm_pending s2) s2) = map_option (\<lambda>ls. ls @ trace_lines (calls fin)) (sm_trace s2)"
    "sm_disk (finalize_loop (sm_pending s2) s2) = sm_disk s2"
    "sm_path (finalize_loop (sm_pending s2) s2) = sm_path s2"
    using finalize_loop_spec by blast
  have tr: "sm_trace s2 = sm_trace s" and dk: "sm_disk s2 = sm_disk s" "sm_path s2 = sm_path s"
    by (simp_all add: s2_def s1_def mine_block_def Let_def emit_block_eq reorgLocked_eq without_def split: prod.splits)
  have "trace_ok (hist @ fin) (finalize_loop (sm_pending s2) s2)"
    unfolding trace_ok_def
  proof (intro allI impI)
    fix ls assume "sm_trace (finalize_loop (sm_pending s2) s2) = Some ls"
    then obtain ls0 where ls0: "sm_trace s = Some ls0" "ls = ls0 @ trace_lines (calls fin)"
      unfolding fin(2) tr by auto
    with ok obtain k where "k \<le> length hist"
      "ls0 = ''# finalised vault history exported by the Go simulator'' # trace_lines (calls (drop k hist))"
      unfolding sim_ok_def trace_ok_def by blast
    with ls0(2) show "\<exists>k \<le> length (hist @ fin). ls = ''# finalised vault history exported by the Go simulator'' #
        trace_lines (calls (drop k (hist @ fin)))"
      by (intro exI [of _ k]) simp
  qed
  moreover have "disk_ok (hist @ fin) (finalize_loop (sm_pending s2) s2)"
    using ok fin(3,4) unfolding dk sim_ok_def disk_ok_def by (metis prefix_prefix)
  ultimately have "sim_ok (hist @ fin) (persistLocked (md_written md) (finalize_loop (sm_pending s2) s2))"
    using fin(1) by (intro persistLocked_ok) (simp add: sim_ok_def)
  then show ?thesis by (auto simp: Mine_def Let_def s1_def s2_def)
qed

lemma sim_step_ok:
  assumes "sim_step s s'" and ok: "sim_ok hist s"
  shows "\<exists>new. sim_ok (hist @ new) s'"
  using assms(1)
proof cases
  case (deposit user amount)
  with ok have "sim_ok hist s'" by (auto simp: Deposit_def Let_def chain_ok_def elim!: sim_ok_frame)
  then show ?thesis by (intro exI [of _ "[]"]) simp
next
  case (submit u1 u2 written t)
  with Submit_ok [OF ok] show ?thesis by (intro exI [of _ "[]"]) simp
next
  case (cancel n expiryHeight)
  with ok have "sim_ok hist s'" by (auto simp: Cancel_def chain_ok_def elim!: sim_ok_frame)
  then show ?thesis by (intro exI [of _ "[]"]) simp
next
  case (mine md)
  with Mine_ok [OF ok] show ?thesis by simp
next
  case (set_faults f)
  with ok have "sim_ok hist s'" by (auto simp: SetFaults_def chain_ok_def elim!: sim_ok_frame)
  then show ?thesis by (intro exI [of _ "[]"]) simp
next
  case (trace_to created)
  have "trace_lines (calls (drop (length hist) hist)) = []" by simp
  with trace_to ok have "sim_ok hist s'"
    by (auto simp: TraceTo_def sim_ok_def trace_ok_def disk_ok_def chain_ok_def intro!: exI [of _ "length hist"])
  then show ?thesis by (intro exI [of _ "[]"]) simp
next
  case close_trace
  with ok have "sim_ok hist s'"
    by (auto simp: CloseTrace_def sim_ok_def trace_ok_def disk_ok_def chain_ok_def split: option.splits)
  then show ?thesis by (intro exI [of _ "[]"]) simp
qed

lemma restart_ok:
  assumes "sim_ok hist s"
  shows "\<exists>hist0. sim_ok hist0 (New f (sm_path s) (sm_disk s))"
proof -
  let ?s = "New f (sm_path s) (sm_disk s)"
  have parts: "sm_trace ?s = None" "sm_disk ?s = sm_disk s"
    by (simp_all add: New_def load_def Let_def split: option.splits)
  show ?thesis
  proof (cases "sm_disk s")
    case None
    with New_empty parts show ?thesis by (auto simp: sim_ok_def trace_ok_def disk_ok_def)
  next
    case (Some p)
    with assms have path: "sm_path s \<noteq> []" by (auto simp: sim_ok_def disk_ok_def)
    from assms Some obtain hist0 where inv: "\<And>f path. path \<noteq> [] \<Longrightarrow> sim_inv hist0 (New f path (Some p))"
      unfolding sim_ok_def disk_ok_def by blast
    have "sm_path ?s = sm_path s" by (simp add: New_def load_def Let_def split: option.splits)
    with parts path Some have "trace_ok hist0 ?s" "disk_ok hist0 ?s"
      using inv by (auto simp: trace_ok_def disk_ok_def)
    with inv [OF path, of f] Some show ?thesis by (auto simp: sim_ok_def)
  qed
qed

lemma sim_reachable_ok: "sim_reachable s \<Longrightarrow> \<exists>hist. sim_ok hist s"
proof (induction rule: sim_reachable.induct)
  case (boot f statePath)
  have "sm_disk (New f statePath None) = None" "sm_trace (New f statePath None) = None"
    by (simp_all add: New_def Let_def)
  with New_empty [of f statePath] show ?case by (auto simp: sim_ok_def trace_ok_def disk_ok_def)
next
  case (step s s')
  then show ?case using sim_step_ok by blast
next
  case (restart s f)
  then show ?case using restart_ok by blast
qed

section \<open>Custody along the chain\<close>

definition deposit_sum :: "(tx \<times> int) list \<Rightarrow> int" where
  "deposit_sum cs = sum_list (map (\<lambda>(t, h). if tx_kind t = ''deposit'' then tx_amount t else 0) cs)"

lemma deposit_sum_simps [simp]:
  "deposit_sum [] = 0"
  "deposit_sum (c # cs) = (if tx_kind (fst c) = ''deposit'' then tx_amount (fst c) else 0) + deposit_sum cs"
  "deposit_sum (cs @ ds) = deposit_sum cs + deposit_sum ds"
  by (simp_all add: deposit_sum_def split_beta)

lemma accepted_Cons_all:
  assumes "accepted ex (c # cs) v = c # cs"
  obtains v' where "ex c v = Some v'" "accepted ex cs v' = cs"
proof (cases "ex c v")
  case None
  have "length (accepted ex xs v) \<le> length xs" for xs
  proof (induction xs arbitrary: v)
    case (Cons x xs)
    show ?case by (cases "ex x v") (simp_all add: Cons le_SucI)
  qed simp
  from this [of cs] None assms show ?thesis by simp
next
  case (Some v')
  with assms show ?thesis by (intro that) simp_all
qed

lemma deposit_positive: "execAt c v = Some v' \<Longrightarrow> tx_kind (fst c) = ''deposit'' \<Longrightarrow> 0 < tx_amount (fst c)"
  unfolding execAt_def by (erule accepts_cases) auto

lemma withdraw_positive: "execAt c v = Some v' \<Longrightarrow> tx_kind (fst c) = ''withdraw'' \<Longrightarrow> 0 < tx_amount (fst c)"
  unfolding execAt_def by (erule accepts_cases) auto

lemma deposit_sum_nonneg: "accepted execAt cs v = cs \<Longrightarrow> 0 \<le> deposit_sum cs"
proof (induction cs arbitrary: v)
  case (Cons c cs)
  from Cons.prems show ?case
    by (rule accepted_Cons_all) (use Cons.IH deposit_positive [of c v] in fastforce)
qed simp

lemma run_safe:
  assumes "accepted execAt cs v = cs" and "vault_ok v" and "\<forall>c \<in> set cs. tx_ok (fst c)"
    and "va_balance v + deposit_sum cs \<le> 9223372036854775807"
  shows "vault_ok (run_calls execAt cs v) \<and>
    va_balance (run_calls execAt cs v) = va_balance v + sum_list (map (\<lambda>c. tx_delta (fst c)) cs)"
  using assms
proof (induction cs arbitrary: v)
  case (Cons c cs)
  from Cons.prems(1) show ?case
  proof (rule accepted_Cons_all)
    fix v' assume ex: "execAt c v = Some v'" and rest: "accepted execAt cs v' = cs"
    have pos: "0 \<le> deposit_sum cs" using rest by (rule deposit_sum_nonneg)
    have bal: "0 \<le> va_balance v" using Cons.prems(2) by (rule vault_ok_exact(5))
    have rm: "room (fst c) v"
      using deposit_positive [OF ex] Cons.prems(4) pos bal by (auto simp: room_def int64_def)
    have acc: "accepts (fst c) (snd c) v = Some v'" using ex by (simp add: execAt_def)
    note safe = accepts_safe [OF acc Cons.prems(2) _ rm]
    have d: "tx_delta (fst c) \<le> (if tx_kind (fst c) = ''deposit'' then tx_amount (fst c) else 0)"
      using withdraw_positive [OF ex] by (auto simp: tx_delta_def)
    then have "va_balance v' + deposit_sum cs \<le> 9223372036854775807"
      using safe(2) Cons.prems(3,4) by simp
    with Cons.IH [OF rest safe(1)] Cons.prems(3) safe(2) ex show ?thesis by simp
  qed
qed simp

lemma custody_after:
  assumes "executes_all bs" and "\<forall>b \<in> set bs. \<forall>t \<in> set (bl_txs b). tx_ok t"
    and "deposit_sum (calls bs) \<le> 9223372036854775807"
  shows "vault_ok (state_after bs)"
    and "va_balance (state_after bs) = sum_list (map (\<lambda>c. tx_delta (fst c)) (calls bs))"
proof -
  have "\<forall>c \<in> set (calls bs). tx_ok (fst c)" using assms(2) by (auto simp: set_calls)
  then have "vault_ok (state_after bs) \<and> va_balance (state_after bs) = 0 + sum_list (map (\<lambda>c. tx_delta (fst c)) (calls bs))"
    using run_safe [OF assms(1) [unfolded executes_all_def] vault_ok_new] assms(3)
    by (simp add: state_after_def newVault_def)
  then show "vault_ok (state_after bs)"
    "va_balance (state_after bs) = sum_list (map (\<lambda>c. tx_delta (fst c)) (calls bs))" by simp_all
qed

section \<open>What the reads answer\<close>

lemma receipt_processed [simp]: "ts_processed (receipt_for fin b)"
  by (simp add: receipt_for_def included_def)

lemma TxStatus_processed:
  assumes "chain_ok hist pend s"
  shows "ts_processed (TxStatus n s) \<longleftrightarrow> n \<in> va_processed (state_after (hist @ pend))"
proof -
  have rc: "receipts_ok (hist @ pend) (int (length hist)) (sm_receipts s)" and ex: "executes_all (hist @ pend)"
    using assms by (simp_all add: chain_ok_def)
  have "ts_processed (TxStatus n s) \<longleftrightarrow> (\<exists>st. sm_receipts s n = Some st \<and> ts_processed st)"
    by (auto simp: TxStatus_def no_status_def split: option.splits)
  also have "\<dots> \<longleftrightarrow> (\<exists>b \<in> set (hist @ pend). \<exists>t \<in> set (bl_txs b). tx_kind t \<noteq> ''cancel'' \<and> tx_nonce t = n)"
    unfolding receipts_ok_iff [OF rc] by blast
  finally show ?thesis unfolding processed_after [OF ex] .
qed

lemma TxStatus_block:
  assumes "chain_ok hist pend s" and "ts_processed (TxStatus n s)"
  obtains b t where "b \<in> set (hist @ pend)" "t \<in> set (bl_txs b)" "tx_kind t \<noteq> ''cancel''" "tx_nonce t = n"
    "TxStatus n s = receipt_for (int (length hist)) b"
proof -
  have rc: "receipts_ok (hist @ pend) (int (length hist)) (sm_receipts s)"
    using assms(1) by (simp add: chain_ok_def)
  obtain st where st: "sm_receipts s n = Some st" "ts_processed st" "TxStatus n s = st"
    using assms(2) by (auto simp: TxStatus_def no_status_def split: option.splits)
  then show ?thesis using that receipts_ok_iff [OF rc, of n st] by blast
qed

lemma block_final_iff:
  assumes "chain_ok hist pend s" and "b \<in> set (hist @ pend)"
  shows "bl_height b \<le> int (length hist) \<longleftrightarrow> b \<in> set hist"
proof -
  have ht: "heights_ok (hist @ pend)" using assms(1) by (simp add: chain_ok_def)
  obtain i where i: "i < length (hist @ pend)" "b = (hist @ pend) ! i" using assms(2) by (metis in_set_conv_nth)
  have h: "bl_height b = int i + 1" using heights_ok_nth [OF ht i(1)] i(2) by simp
  show ?thesis
  proof
    assume "bl_height b \<le> int (length hist)"
    then show "b \<in> set hist" using h i(2) by (simp add: nth_append)
  next
    assume "b \<in> set hist"
    then obtain j where j: "j < length hist" "b = hist ! j" by (metis in_set_conv_nth)
    then have "bl_height b = int j + 1" using heights_ok_nth [OF ht, of j] by (simp add: nth_append)
    with j show "bl_height b \<le> int (length hist)" by simp
  qed
qed

lemma TxStatus_finalized:
  assumes ok: "chain_ok hist pend s"
  shows "ts_processed (TxStatus n s) \<and> ts_finalized (TxStatus n s) \<longleftrightarrow> n \<in> va_processed (sm_final s)"
proof -
  have ex: "executes_all hist" and fs: "sm_final s = state_after hist"
    using ok executes_all_append [of hist pend] by (simp_all add: chain_ok_def)
  have all: "executes_all (hist @ pend)" using ok by (simp add: chain_ok_def)
  show ?thesis unfolding fs processed_after [OF ex]
  proof
    assume f: "ts_processed (TxStatus n s) \<and> ts_finalized (TxStatus n s)"
    from f [THEN conjunct1] obtain b t where b: "b \<in> set (hist @ pend)" "t \<in> set (bl_txs b)"
      "tx_kind t \<noteq> ''cancel''" "tx_nonce t = n" "TxStatus n s = receipt_for (int (length hist)) b"
      by (rule TxStatus_block [OF ok])
    with f have "bl_height b \<le> int (length hist)" by (simp add: receipt_for_def)
    with b block_final_iff [OF ok b(1)]
    show "\<exists>b \<in> set hist. \<exists>t \<in> set (bl_txs b). tx_kind t \<noteq> ''cancel'' \<and> tx_nonce t = n" by blast
  next
    assume "\<exists>b \<in> set hist. \<exists>t \<in> set (bl_txs b). tx_kind t \<noteq> ''cancel'' \<and> tx_nonce t = n"
    then obtain b t where b: "b \<in> set hist" "t \<in> set (bl_txs b)" "tx_kind t \<noteq> ''cancel''" "tx_nonce t = n" by blast
    have rc: "receipts_ok (hist @ pend) (int (length hist)) (sm_receipts s)" using ok by (simp add: chain_ok_def)
    have "sm_receipts s n = Some (receipt_for (int (length hist)) b)"
      by (rule iffD2 [OF receipts_ok_iff [OF rc], THEN conjunct1]) (use b in auto)
    moreover have "bl_height b \<le> int (length hist)" using block_final_iff [OF ok, of b] b(1) by simp
    ultimately show "ts_processed (TxStatus n s) \<and> ts_finalized (TxStatus n s)"
      by (simp add: TxStatus_def receipt_for_def included_def)
  qed
qed

end
