(* ===== verification/Reads.thy ===== *)
theory Reads
  imports Finality
begin

text \<open>
  What the engine may conclude from the simulator's reads, from the invariant of \<open>Finality\<close>:
  finalised receipts and hashes never change again, the finalised facts are the finalised calls,
  polling delivers only canonical events, and a call that the contract accepts is included by the
  next block and final after the confirmations asked for.
\<close>

section \<open>Finality is final\<close>

lemma receipt_of_final:
  assumes ok: "chain_ok hist pend s" and b: "b \<in> set hist" "t \<in> set (bl_txs b)" "tx_kind t \<noteq> ''cancel''"
  shows "TxStatus (tx_nonce t) s = (included (bl_height b) (bl_hash b))\<lparr>ts_finalized := True\<rparr>"
proof -
  have rc: "receipts_ok (hist @ pend) (int (length hist)) (sm_receipts s)" using ok by (simp add: chain_ok_def)
  have "sm_receipts s (tx_nonce t) = Some (receipt_for (int (length hist)) b)"
    by (rule iffD2 [OF receipts_ok_iff [OF rc], THEN conjunct1]) (use b in auto)
  moreover have "bl_height b \<le> int (length hist)" using block_final_iff [OF ok, of b] b(1) by simp
  ultimately show ?thesis by (simp add: TxStatus_def receipt_for_def)
qed

lemma finalized_stays:
  assumes ok: "chain_ok hist pend s" and ok': "chain_ok (hist @ new) pend' s'"
    and f: "ts_processed (TxStatus n s)" "ts_finalized (TxStatus n s)"
  shows "TxStatus n s' = TxStatus n s"
proof -
  have "n \<in> va_processed (state_after hist)" "executes_all hist"
    using TxStatus_finalized [OF ok, of n] f ok executes_all_append [of hist pend] by (simp_all add: chain_ok_def)
  then obtain b t where "b \<in> set hist" "t \<in> set (bl_txs b)" "tx_kind t \<noteq> ''cancel''" "tx_nonce t = n"
    by (auto simp: processed_after)
  then show ?thesis using receipt_of_final [OF ok, of b t] receipt_of_final [OF ok', of b t] by simp
qed

lemma CanonicalHash_nth:
  assumes "chain_ok hist pend s" and "i < length (hist @ pend)"
  shows "CanonicalHash (int i + 1) s = Some (bl_hash ((hist @ pend) ! i))"
proof -
  have "bl_height ((hist @ pend) ! i) = int i + 1" "(hist @ pend) ! i \<in> set (hist @ pend)"
    using heights_ok_nth [OF _ assms(2)] assms by (auto simp: chain_ok_def simp del: set_append)
  moreover have "hashes_ok (hist @ pend) (sm_hash_at s)" using assms(1) by (simp add: chain_ok_def)
  ultimately show ?thesis unfolding CanonicalHash_def hashes_ok_def by blast
qed

lemma CanonicalHash_range:
  assumes "chain_ok hist pend s" and "CanonicalHash h s = Some x"
  shows "1 \<le> h \<and> h \<le> sm_head s"
proof -
  have "hashes_ok (hist @ pend) (sm_hash_at s)" and ht: "heights_ok (hist @ pend)"
    using assms(1) by (simp_all add: chain_ok_def)
  then obtain b where "b \<in> set (hist @ pend)" "bl_height b = h"
    using assms(2) unfolding CanonicalHash_def hashes_ok_def by blast
  then obtain i where "i < length (hist @ pend)" "h = int i + 1" by (metis in_set_conv_nth heights_ok_nth [OF ht])
  then show ?thesis using assms(1) by (simp add: chain_ok_def)
qed

lemma final_hash_stays:
  assumes ok: "chain_ok hist pend s" and ok': "chain_ok (hist @ new) pend' s'"
    and h: "1 \<le> h" "h \<le> sm_final_height s"
  shows "CanonicalHash h s' = CanonicalHash h s"
proof -
  define i where "i = nat (h - 1)"
  have i: "h = int i + 1" "i < length hist" using h ok by (auto simp: i_def chain_ok_def)
  show ?thesis
    using CanonicalHash_nth [OF ok, of i] CanonicalHash_nth [OF ok', of i] i by (simp add: nth_append)
qed

section \<open>Finalised facts\<close>

lemma log_entry:
  assumes ok: "log_ok bs lg" and i: "i < length lg" and k: "ev_kind (lg ! i) \<noteq> ''orphaned''"
  obtains b j where "b \<in> set bs" "j < length (bl_txs b)" "i = bl_log b ! j"
    "lg ! i = event_of (bl_height b) (bl_hash b) (int i + 1) (bl_txs b ! j)"
proof -
  have "i \<in> set (log_of bs)" using assms by (auto simp: log_ok_def)
  then obtain b where b: "b \<in> set bs" "i \<in> set (bl_log b)" by (auto simp: set_log_of)
  then obtain j where "j < length (bl_log b)" "bl_log b ! j = i" by (auto simp: in_set_conv_nth)
  with b(1) ok show ?thesis by (intro that [of b j]) (auto simp: log_ok_def logged_def)
qed

definition is_final_fact :: "string \<Rightarrow> sim \<Rightarrow> event \<Rightarrow> bool" where
  "is_final_fact kind s ev \<longleftrightarrow> ev_kind ev = kind \<and> (case sm_receipts s (ev_fact ev) of None \<Rightarrow> False
      | Some st \<Rightarrow> ts_finalized st \<and> ts_hash st = ev_hash ev)"

lemma FinalizedFacts_filter: "FinalizedFacts kind s = filter (is_final_fact kind s) (sm_log s)"
  by (simp add: FinalizedFacts_def is_final_fact_def [abs_def])

text \<open>A block of the canonical chain logs finalised facts exactly when it is final itself.\<close>

lemma final_fact_iff:
  assumes ok: "chain_ok hist pend s" and b: "b \<in> set (hist @ pend)" "t \<in> set (bl_txs b)" "tx_kind t \<noteq> ''cancel''"
  shows "is_final_fact kind s (event_of (bl_height b) (bl_hash b) n t) \<longleftrightarrow>
    evKind (tx_kind t) = kind \<and> b \<in> set hist"
proof -
  have rc: "receipts_ok (hist @ pend) (int (length hist)) (sm_receipts s)" using ok by (simp add: chain_ok_def)
  have "sm_receipts s (tx_nonce t) = Some (receipt_for (int (length hist)) b)"
    by (rule iffD2 [OF receipts_ok_iff [OF rc], THEN conjunct1]) (use b in auto)
  then show ?thesis using block_final_iff [OF ok b(1)]
    by (auto simp: is_final_fact_def event_of_def receipt_for_def included_def no_status_def)
qed

lemma final_fact_orphan:
  "ev_kind ev = ''orphaned'' \<Longrightarrow> kind \<noteq> ''orphaned'' \<Longrightarrow> \<not> is_final_fact kind s ev"
  by (simp add: is_final_fact_def)

lemma evKind_deposit: "evKind k = ''deposit'' \<longleftrightarrow> k = ''deposit''"
  by (simp add: evKind_def)

lemma sum_filter_if: "sum_list (map f (filter P xs)) = sum_list (map (\<lambda>x. if P x then f x else (0 :: int)) xs)"
  by (induction xs) simp_all

text \<open>Any sum over the finalised deposit facts is the sum over the deposits of the final blocks.\<close>

lemma final_deposits_by:
  fixes g :: "string \<Rightarrow> int \<Rightarrow> int"
  assumes ok: "chain_ok hist pend s"
  shows "sum_list (map (\<lambda>ev. g (ev_fact ev) (ev_amount ev)) (FinalizedFacts ''deposit'' s)) =
    sum_list (map (\<lambda>c. if tx_kind (fst c) = ''deposit'' then g (tx_nonce (fst c)) (tx_amount (fst c)) else 0) (calls hist))"
proof -
  let ?lg = "sm_log s" and ?P = "is_final_fact ''deposit'' s"
  let ?f = "\<lambda>ev. if ?P ev then g (ev_fact ev) (ev_amount ev) else 0"
  let ?d = "\<lambda>c. if tx_kind (fst c) = ''deposit'' then g (tx_nonce (fst c)) (tx_amount (fst c)) else (0 :: int)"
  have lg: "log_ok (hist @ pend) ?lg" using ok by (simp add: chain_ok_def)
  have idx: "set (log_of hist) \<subseteq> {..<length ?lg}"
    using log_index [OF lg] by auto
  have zero: "?f (?lg ! i) = 0" if i: "i \<in> {..<length ?lg} - set (log_of hist)" for i
  proof (cases "ev_kind (?lg ! i) = ''orphaned''")
    case True
    then show ?thesis using final_fact_orphan [of "?lg ! i" "''deposit''" s] by simp
  next
    case False
    obtain b j where b: "b \<in> set (hist @ pend)" "j < length (bl_txs b)" "i = bl_log b ! j"
      "?lg ! i = event_of (bl_height b) (bl_hash b) (int i + 1) (bl_txs b ! j)"
      using log_entry [OF lg _ False] i by blast
    have "i \<in> set (bl_log b)" using b lg by (auto simp: log_ok_def logged_def)
    then have "b \<notin> set hist" using i by (auto simp: set_log_of)
    moreover have "tx_kind (bl_txs b ! j) = ''deposit''" if "?P (?lg ! i)"
      using that b(4) by (simp add: is_final_fact_def event_of_def evKind_deposit)
    ultimately show ?thesis
      using final_fact_iff [OF ok b(1) nth_mem [OF b(2)], of "''deposit''" "int i + 1"] b(4) by auto
  qed
  have blk: "map (\<lambda>i. ?f (?lg ! i)) (bl_log b) = map (\<lambda>t. if tx_kind t = ''deposit'' then g (tx_nonce t) (tx_amount t) else 0) (bl_txs b)"
    if b: "b \<in> set hist" for b
  proof (rule nth_equalityI)
    have l: "logged ?lg b" using lg b by (simp add: log_ok_def)
    then show "length (map (\<lambda>i. ?f (?lg ! i)) (bl_log b)) = length (map (\<lambda>t. if tx_kind t = ''deposit'' then g (tx_nonce t) (tx_amount t) else 0) (bl_txs b))"
      by (simp add: logged_def)
    fix j assume "j < length (map (\<lambda>i. ?f (?lg ! i)) (bl_log b))"
    with l have j: "j < length (bl_txs b)" "j < length (bl_log b)" by (simp_all add: logged_def)
    let ?t = "bl_txs b ! j"
    have ev: "?lg ! (bl_log b ! j) = event_of (bl_height b) (bl_hash b) (int (bl_log b ! j) + 1) ?t"
      using l j by (simp add: logged_def)
    have "?P (?lg ! (bl_log b ! j)) \<longleftrightarrow> tx_kind ?t = ''deposit''"
    proof (cases "tx_kind ?t = ''cancel''")
      case True
      then show ?thesis by (simp add: ev is_final_fact_def event_of_def evKind_def)
    next
      case False
      have "b \<in> set (hist @ pend)" using b by simp
      from final_fact_iff [OF ok this nth_mem [OF j(1)] False] b show ?thesis by (simp add: ev evKind_deposit)
    qed
    then show "map (\<lambda>i. ?f (?lg ! i)) (bl_log b) ! j = map (\<lambda>t. if tx_kind t = ''deposit'' then g (tx_nonce t) (tx_amount t) else 0) (bl_txs b) ! j"
      using j by (simp add: ev event_of_def)
  qed
  have "sum_list (map (\<lambda>ev. g (ev_fact ev) (ev_amount ev)) (FinalizedFacts ''deposit'' s)) = (\<Sum>i<length ?lg. ?f (?lg ! i))"
    unfolding FinalizedFacts_filter sum_filter_if by (simp add: sum_list_sum_nth atLeast0LessThan)
  also have "\<dots> = (\<Sum>i\<in>set (log_of hist). ?f (?lg ! i))"
    by (rule sum.mono_neutral_right) (use idx zero in auto)
  also have "\<dots> = sum_list (map (\<lambda>i. ?f (?lg ! i)) (log_of hist))"
    using lg by (simp add: log_ok_def sum_list_distinct_conv_sum_set)
  also have "\<dots> = sum_list (map ?d (calls hist))"
  proof -
    have "sum_list (map (\<lambda>i. ?f (?lg ! i)) (log_of bs)) = sum_list (map ?d (calls bs))" if "set bs \<subseteq> set hist" for bs
      using that
    proof (induction bs)
      case (Cons b bs)
      have "sum_list (map ?d (map (\<lambda>t. (t, bl_height b)) (bl_txs b))) =
          sum_list (map (\<lambda>t. if tx_kind t = ''deposit'' then g (tx_nonce t) (tx_amount t) else 0) (bl_txs b))"
        by (simp add: comp_def cong: if_cong)
      with Cons blk [of b] show ?case by (simp del: if_image_distrib)
    qed simp
    then show ?thesis by simp
  qed
  finally show ?thesis .
qed

lemma final_deposits_sum:
  assumes "chain_ok hist pend s"
  shows "sum_list (map ev_amount (FinalizedFacts ''deposit'' s)) = deposit_sum (calls hist)"
  using final_deposits_by [OF assms, of "\<lambda>n a. a"] by (simp add: deposit_sum_def case_prod_beta')

section \<open>Polling\<close>

definition pollable :: "int \<Rightarrow> event \<Rightarrow> bool" where
  "pollable since ev \<longleftrightarrow> since < ev_seq ev \<and> ev_kind ev \<noteq> ''orphaned''"

lemma poll_from_sound:
  "set (poll_from f since limit g u i evs out) \<subseteq> set out \<union> {ev \<in> set evs. pollable since ev}"
proof (induction f since limit g u i evs out rule: poll_from.induct)
  case (2 f since limit g u i ev evs out)
  consider (skip) "\<not> pollable since ev" | (full) "pollable since ev" "int (length out) \<ge> limit"
    | (gap) "pollable since ev" "\<not> int (length out) \<ge> limit" "hit (fa_gap f) (g i)"
    | (take) "pollable since ev" "\<not> int (length out) \<ge> limit" "\<not> hit (fa_gap f) (g i)" by blast
  then show ?case
    by cases (use 2 in \<open>auto simp: pollable_def split: if_splits\<close>)
qed simp

lemma PollEvents_sound: "set (PollEvents since limit g u r dr s) \<subseteq> {ev \<in> set (sm_log s). pollable since ev}"
proof -
  have "set (Shuffle dr xs) = set xs" for xs :: "event list"
    using mset_Shuffle [of dr xs] by (metis set_mset_mset)
  then show ?thesis using poll_from_sound [of "sm_faults s" since limit g u 0 "sm_log s" "[]"]
    by (auto simp: PollEvents_def Let_def)
qed

text \<open>Without faults polling is exactly the next entries of the canonical log.\<close>

lemma poll_from_clean:
  assumes "fa_gap f \<le> 0" and "fa_duplicate f \<le> 0" and "int (length out) \<le> limit"
  shows "poll_from f since limit g u i evs out = out @ take (nat limit - length out) (filter (pollable since) evs)"
  using assms(3)
proof (induction evs arbitrary: i out)
  case (Cons ev evs)
  have nh: "\<not> hit (fa_gap f) x" "\<not> hit (fa_duplicate f) x" for x using assms(1,2) by (simp_all add: hit_def)
  show ?case
  proof (cases "pollable since ev")
    case False
    then show ?thesis using Cons by (auto simp: pollable_def)
  next
    case True
    show ?thesis
    proof (cases "int (length out) \<ge> limit")
      case True2: True
      with Cons.prems have "nat limit - length out = 0" by simp
      with True True2 show ?thesis by (simp add: pollable_def)
    next
      case False
      then have n: "nat limit - length out = Suc (nat limit - length (out @ [ev]))" by simp
      have "poll_from f since limit g u i (ev # evs) out = poll_from f since limit g u (Suc i) evs (out @ [ev])"
        using True False nh by (simp add: pollable_def)
      also have "\<dots> = (out @ [ev]) @ take (nat limit - length (out @ [ev])) (filter (pollable since) evs)"
        by (rule Cons.IH) (use False in simp)
      finally show ?thesis using True unfolding n by simp
    qed
  qed
qed simp

lemma PollEvents_clean:
  assumes "fa_gap (sm_faults s) \<le> 0" "fa_duplicate (sm_faults s) \<le> 0" "fa_reorder (sm_faults s) \<le> 0" and "0 \<le> limit"
  shows "PollEvents since limit g u r dr s = take (nat limit) (filter (pollable since) (sm_log s))"
  using poll_from_clean [of "sm_faults s" "[]" limit since g u 0 "sm_log s"] assms
  by (simp add: PollEvents_def hit_def)

text \<open>Whatever is not withheld is delivered, as long as the limit is not reached.\<close>

lemma poll_from_keeps: "set out \<subseteq> set (poll_from f since limit g u i evs out)"
  by (induction f since limit g u i evs out rule: poll_from.induct) (auto split: if_splits)

lemma poll_from_length:
  "length (poll_from f since limit g u i evs out) \<le> length out + 2 * length evs"
proof (induction f since limit g u i evs out rule: poll_from.induct)
  case (2 f since limit g u i ev evs out)
  show ?case
    by (cases "ev_seq ev \<le> since \<or> ev_kind ev = ''orphaned''"; cases "int (length out) \<ge> limit";
        cases "hit (fa_gap f) (g i)"; cases "hit (fa_duplicate f) (u i)") (use 2 in simp_all)
qed simp

lemma poll_from_complete:
  assumes "ev = evs ! k" "k < length evs" "pollable since ev" "\<not> hit (fa_gap f) (g (i + k))"
    and "int (length out + 2 * length evs) \<le> limit"
  shows "ev \<in> set (poll_from f since limit g u i evs out)"
  using assms
proof (induction evs arbitrary: i out k)
  case (Cons e evs)
  show ?case
  proof (cases k)
    case 0
    then have e: "e = ev" "pollable since e" "\<not> hit (fa_gap f) (g i)" "\<not> int (length out) \<ge> limit"
      using Cons.prems by auto
    then have "poll_from f since limit g u i (e # evs) out =
        poll_from f since limit g u (Suc i) evs (if hit (fa_duplicate f) (u i) then out @ [e, e] else out @ [e])"
      by (simp add: pollable_def)
    moreover have "ev \<in> set (if hit (fa_duplicate f) (u i) then out @ [e, e] else out @ [e])" using e(1) by simp
    ultimately show ?thesis by (simp only: subsetD [OF poll_from_keeps])
  next
    case (Suc m)
    then have step: "ev \<in> set (poll_from f since limit g u (Suc i) evs o')"
      if "length o' \<le> length out + 2" for o'
      by (intro Cons.IH [of m]) (use Cons.prems that in auto)
    have "\<not> int (length out) \<ge> limit" using Cons.prems(5) by simp
    then show ?thesis using step [of out] step [of "out @ [e]"] step [of "out @ [e, e]"] by simp
  qed
qed simp

section \<open>Progress\<close>

lemma mine_block_calls:
  obtains b where "sm_pending (mine_block hash s) = sm_pending s @ [b]" "bl_height b = sm_head s + 1" "bl_hash b = hash"
    "map (\<lambda>t. (t, sm_head s + 1)) (bl_txs b) = accepted execAt (map (\<lambda>t. (t, sm_head s + 1)) (sm_mempool s)) (headLocked s)"
proof -
  obtain txs rc where fill: "fill_block (sm_head s + 1) (sm_mempool s) (headLocked s) (sm_receipts s) = (txs, rc)"
    by (metis surj_pair)
  show ?thesis
    by (rule that [of "\<lparr>bl_height = sm_head s + 1, bl_hash = hash, bl_txs = txs,
          bl_log = [length (sm_log s)..<length (sm_log s) + length txs]\<rparr>"])
       (use fill_block_calls [of "sm_head s + 1" "sm_mempool s" "headLocked s" "sm_receipts s"] fill in
        \<open>simp_all add: mine_block_def emit_block_eq Let_def\<close>)
qed

lemma persistLocked_simps [simp]:
  "sm_pending (persistLocked w s) = sm_pending s" "sm_receipts (persistLocked w s) = sm_receipts s"
  "sm_head (persistLocked w s) = sm_head s" "sm_final_height (persistLocked w s) = sm_final_height s"
  "sm_faults (persistLocked w s) = sm_faults s" "TxStatus n (persistLocked w s) = TxStatus n s"
  "chain_ok hist p (persistLocked w s) = chain_ok hist p s"
  by (simp_all add: persistLocked_def TxStatus_def chain_ok_def)

lemma finalize_loop_faults: "sm_faults (finalize_loop bs s) = sm_faults s"
  by (induction bs arbitrary: s) (simp_all add: finalize_block_eq)

lemma Mine_window:
  assumes "sim_inv hist s"
  shows "sm_head (Mine md s) - sm_final_height (Mine md s) \<le> fa_confirms (sm_faults s)"
    and "sm_faults (Mine md s) = sm_faults s"
proof -
  define s1 where "s1 = (if sm_pending s \<noteq> [] \<and> hit (fa_reorg (sm_faults s)) (md_reorg md)
    then reorgLocked (md_depth md) (md_swap md) s else s)"
  define s2 where "s2 = mine_block (block_hash (md_hash md)) s1"
  have "sim_inv hist s1" using assms reorgLocked_chain_ok by (simp add: s1_def)
  then have inv: "sim_inv hist s2" unfolding s2_def by (rule mine_block_chain_ok)
  have f: "sm_faults s2 = sm_faults s"
    by (simp add: s2_def s1_def mine_block_def Let_def emit_block_eq reorgLocked_eq without_def split: prod.splits)
  from finalize_loop_spec [OF inv] obtain fin where fin:
    "sim_inv (hist @ fin) (finalize_loop (sm_pending s2) s2)"
    "int (length (sm_pending (finalize_loop (sm_pending s2) s2))) \<le> fa_confirms (sm_faults s2)" by blast
  have m: "Mine md s = persistLocked (md_written md) (finalize_loop (sm_pending s2) s2)"
    by (simp add: Mine_def Let_def s1_def s2_def)
  show "sm_head (Mine md s) - sm_final_height (Mine md s) \<le> fa_confirms (sm_faults s)"
    using fin f by (simp add: m chain_ok_def)
  show "sm_faults (Mine md s) = sm_faults s" by (simp add: m finalize_loop_faults f)
qed

definition quiet :: "mine_draws \<Rightarrow> sim \<Rightarrow> bool" where
  "quiet md s \<longleftrightarrow> \<not> (sm_pending s \<noteq> [] \<and> hit (fa_reorg (sm_faults s)) (md_reorg md))"

text \<open>Without a reorganisation the chain grows by one block, filled from the mempool.\<close>

lemma Mine_quiet:
  assumes inv: "sim_inv hist s" and q: "quiet md s"
  obtains b new where "sim_inv (hist @ new) (Mine md s)" "sm_pending s @ [b] = new @ sm_pending (Mine md s)"
    "bl_height b = sm_head s + 1"
    "map (\<lambda>t. (t, sm_head s + 1)) (bl_txs b) = accepted execAt (map (\<lambda>t. (t, sm_head s + 1)) (sm_mempool s)) (headLocked s)"
proof -
  let ?s2 = "mine_block (block_hash (md_hash md)) s"
  obtain b where b: "sm_pending ?s2 = sm_pending s @ [b]" "bl_height b = sm_head s + 1"
    "map (\<lambda>t. (t, sm_head s + 1)) (bl_txs b) = accepted execAt (map (\<lambda>t. (t, sm_head s + 1)) (sm_mempool s)) (headLocked s)"
    using mine_block_calls [of "block_hash (md_hash md)" s] by metis
  from finalize_loop_spec [OF mine_block_chain_ok [OF inv]] obtain fin where fin:
    "sm_pending ?s2 = fin @ sm_pending (finalize_loop (sm_pending ?s2) ?s2)"
    "sim_inv (hist @ fin) (finalize_loop (sm_pending ?s2) ?s2)" by blast
  have m: "Mine md s = persistLocked (md_written md) (finalize_loop (sm_pending ?s2) ?s2)"
    using q by (auto simp: Mine_def Let_def quiet_def)
  show ?thesis by (rule that [of fin b]) (use fin b m in simp_all)
qed

lemma Mine_includes:
  assumes inv: "sim_inv hist s" and q: "quiet md s"
    and acc: "(t, sm_head s + 1) \<in> set (accepted execAt (map (\<lambda>t. (t, sm_head s + 1)) (sm_mempool s)) (headLocked s))"
    and k: "tx_kind t \<noteq> ''cancel''"
  shows "ts_processed (TxStatus (tx_nonce t) (Mine md s)) \<and> ts_height (TxStatus (tx_nonce t) (Mine md s)) = sm_head s + 1"
  using inv q
proof (rule Mine_quiet)
  fix b new
  assume i: "sim_inv (hist @ new) (Mine md s)" and p: "sm_pending s @ [b] = new @ sm_pending (Mine md s)"
    and h: "bl_height b = sm_head s + 1"
    and c: "map (\<lambda>t. (t, sm_head s + 1)) (bl_txs b) = accepted execAt (map (\<lambda>t. (t, sm_head s + 1)) (sm_mempool s)) (headLocked s)"
  have t: "t \<in> set (bl_txs b)" using acc unfolding c [symmetric] by auto
  have b: "b \<in> set ((hist @ new) @ sm_pending (Mine md s))" using p by (metis Un_iff append.assoc in_set_conv_decomp set_append)
  have rc: "receipts_ok ((hist @ new) @ sm_pending (Mine md s)) (int (length (hist @ new))) (sm_receipts (Mine md s))"
    using i by (simp add: chain_ok_def)
  have "sm_receipts (Mine md s) (tx_nonce t) = Some (receipt_for (int (length (hist @ new))) b)"
    by (rule iffD2 [OF receipts_ok_iff [OF rc], THEN conjunct1]) (use b t k in auto)
  with h show ?thesis by (simp add: TxStatus_def receipt_for_def included_def)
qed

fun mine_all :: "mine_draws list \<Rightarrow> sim \<Rightarrow> sim" where
  "mine_all [] s = s"
| "mine_all (md # mds) s = mine_all mds (Mine md s)"

fun quiet_run :: "mine_draws list \<Rightarrow> sim \<Rightarrow> bool" where
  "quiet_run [] s = True"
| "quiet_run (md # mds) s = (quiet md s \<and> quiet_run mds (Mine md s))"

lemma Mine_quiet_keeps:
  assumes inv: "sim_inv hist s" and q: "quiet md s" and p: "ts_processed (TxStatus n s)"
  shows "ts_processed (TxStatus n (Mine md s)) \<and> ts_height (TxStatus n (Mine md s)) = ts_height (TxStatus n s) \<and>
    sm_head (Mine md s) = sm_head s + 1 \<and> (\<exists>hist'. sim_inv hist' (Mine md s))"
  using inv q
proof (rule Mine_quiet)
  fix b new
  assume i: "sim_inv (hist @ new) (Mine md s)" and pe: "sm_pending s @ [b] = new @ sm_pending (Mine md s)"
  from inv p obtain c t where c: "c \<in> set (hist @ sm_pending s)" "t \<in> set (bl_txs c)" "tx_kind t \<noteq> ''cancel''"
    "tx_nonce t = n" "TxStatus n s = receipt_for (int (length hist)) c" by (rule TxStatus_block)
  have chain: "(hist @ new) @ sm_pending (Mine md s) = (hist @ sm_pending s) @ [b]" using pe by simp
  have rc: "receipts_ok ((hist @ sm_pending s) @ [b]) (int (length (hist @ new))) (sm_receipts (Mine md s))"
    using i unfolding chain_ok_def chain [symmetric] by simp
  have "sm_receipts (Mine md s) n = Some (receipt_for (int (length (hist @ new))) c)"
    by (rule iffD2 [OF receipts_ok_iff [OF rc], THEN conjunct1]) (use c in auto)
  moreover have "length (hist @ new) + length (sm_pending (Mine md s)) = length hist + length (sm_pending s) + 1"
    using arg_cong [OF chain, of length] by simp
  then have "sm_head (Mine md s) = sm_head s + 1" using i inv by (simp add: chain_ok_def)
  ultimately show ?thesis using c(5) i by (auto simp: TxStatus_def receipt_for_def included_def)
qed

lemma TxStatus_height:
  assumes ok: "chain_ok hist pend s" and p: "ts_processed (TxStatus n s)"
  shows "ts_height (TxStatus n s) \<le> sm_head s"
    and "ts_finalized (TxStatus n s) \<longleftrightarrow> ts_height (TxStatus n s) \<le> sm_final_height s"
proof -
  from ok p obtain b t where b: "b \<in> set (hist @ pend)" "TxStatus n s = receipt_for (int (length hist)) b"
    by (rule TxStatus_block)
  obtain i where "i < length (hist @ pend)" "b = (hist @ pend) ! i" using b(1) by (metis in_set_conv_nth)
  then have "bl_height b \<le> int (length hist + length pend)"
    using heights_ok_nth [of "hist @ pend" i] ok by (simp add: chain_ok_def)
  then show "ts_height (TxStatus n s) \<le> sm_head s"
    "ts_finalized (TxStatus n s) \<longleftrightarrow> ts_height (TxStatus n s) \<le> sm_final_height s"
    using b(2) ok by (simp_all add: receipt_for_def included_def chain_ok_def)
qed

lemma confirmed_after:
  assumes "sim_inv hist s" and "ts_processed (TxStatus n s)" and "quiet_run mds s"
    and "sm_final_height s \<ge> sm_head s - fa_confirms (sm_faults s) \<or> mds \<noteq> []"
  shows "\<exists>hist'. sim_inv hist' (mine_all mds s) \<and> ts_processed (TxStatus n (mine_all mds s)) \<and>
    ts_height (TxStatus n (mine_all mds s)) = ts_height (TxStatus n s) \<and>
    sm_head (mine_all mds s) = sm_head s + int (length mds) \<and>
    sm_final_height (mine_all mds s) \<ge> sm_head (mine_all mds s) - fa_confirms (sm_faults s)"
  using assms
proof (induction mds arbitrary: hist s)
  case (Cons md mds)
  have q: "quiet md s" "quiet_run mds (Mine md s)" using Cons.prems(3) by simp_all
  note k = Mine_quiet_keeps [OF Cons.prems(1) q(1) Cons.prems(2)]
  note w = Mine_window [OF Cons.prems(1), of md]
  from k obtain hist1 where "sim_inv hist1 (Mine md s)" by blast
  from Cons.IH [OF this conjunct1 [OF k] q(2)] w k show ?case by auto
qed auto

lemma finalized_after:
  assumes inv: "sim_inv hist s" and p: "ts_processed (TxStatus n s)" and q: "quiet_run mds s"
    and len: "fa_confirms (sm_faults s) \<le> int (length mds)"
  shows "ts_finalized (TxStatus n (mine_all mds s))"
proof -
  have "mds \<noteq> []" using len inv by (auto simp: chain_ok_def)
  with confirmed_after [OF inv p q] obtain hist' where r: "sim_inv hist' (mine_all mds s)"
    "ts_processed (TxStatus n (mine_all mds s))" "ts_height (TxStatus n (mine_all mds s)) = ts_height (TxStatus n s)"
    "sm_head (mine_all mds s) = sm_head s + int (length mds)"
    "sm_final_height (mine_all mds s) \<ge> sm_head (mine_all mds s) - fa_confirms (sm_faults s)" by blast
  then show ?thesis using TxStatus_height [OF r(1,2)] TxStatus_height(1) [OF inv p] len by simp
qed

end
