(* ===== verification/Replay.thy ===== *)
theory Replay
  imports Contract Finality
begin

text \<open>
  The differential test: \<open>contracts/vault/src/bin/replay.rs\<close> executes the simulator's finalised
  calls against the Rust contract, each at the height it executed at, and compares the end state.
  \<open>replay_calls\<close> is that loop over the calls of the trace, already parsed; a panic, a broken \<open>check\<close>,
  or a refused call (the loop counts them and fails at its end) makes it fail. It never does on a chain whose amounts both integer types carry.
\<close>

function advance_to :: "nat \<Rightarrow> rvault \<Rightarrow> rvault" where
  "advance_to h v = (if rv_height v < h then advance_to h (advance_block v) else v)"
  by pat_completeness auto
termination by (relation "measure (\<lambda>(h, v). h - rv_height v)") (auto simp: advance_block_def)

declare advance_to.simps [simp del]

lemma advance_to_eq: "advance_to h v = v\<lparr>rv_height := max h (rv_height v)\<rparr>"
proof (induction h v rule: advance_to.induct)
  case (1 h v)
  show ?case
  proof (cases "rv_height v < h")
    case True
    with 1 show ?thesis by (subst advance_to.simps) (simp add: advance_block_def max_def)
  next
    case False
    then show ?thesis by (subst advance_to.simps) (simp add: max_def)
  qed
qed

fun replay_calls :: "(tx \<times> int) list \<Rightarrow> rvault \<Rightarrow> rvault option" where
  "replay_calls [] v = Some v"
| "replay_calls ((t, h) # cs) v =
    (case call_of t of
       None \<Rightarrow> None
     | Some c \<Rightarrow> (case execute c (advance_to (nat h) v) of
         Some (Inr r, v') \<Rightarrow> if check_ok v' then replay_calls cs v' else None
       | _ \<Rightarrow> None))"

lemma mirrors_height [simp]: "mirrors g (r\<lparr>rv_height := h\<rparr>) = mirrors g r"
  by (simp add: mirrors_def)

lemma mirrors_check_ok:
  assumes m: "mirrors g r" and ok: "vault_ok g"
  shows "check_ok r"
proof -
  obtain t f where t: "escrow_total r = Some t" "int t = escrow_sum g" "rv_balance r < U128"
    using mirror_free [OF m ok] by metis
  have e: "va_escrow g = map (\<lambda>(m, e). (m, int e)) (rv_escrow r)" and s: "va_settled g = dom (rv_settled r)"
    and b: "va_balance g = int (rv_balance r)" using m by (simp_all add: mirrors_def)
  have "int t \<le> int (rv_balance r)" using t(2) b ok by (simp add: vault_ok_def)
  moreover have "e \<noteq> 0" if "e \<in> set (map snd (rv_escrow r))" for e
    using ok that by (force simp: vault_ok_def e image_iff)
  moreover have "rv_settled r m = None" if "m \<in> set (map fst (rv_escrow r))" for m
  proof -
    have "m \<in> set (map fst (va_escrow g))" using that by (force simp: e)
    then have "m \<notin> va_settled g" using ok unfolding vault_ok_def by blast
    then show ?thesis by (auto simp: s)
  qed
  ultimately show ?thesis by (simp add: check_ok_def t(1))
qed

lemma execute_height:
  assumes "execute c v = Some (Inr r, v')"
  shows "rv_height v' = rv_height v"
proof -
  have "rexec c v = Some v'" using assms by (simp add: rexec_def)
  then show ?thesis by (rule rexec_cases) (use effect_nonces in auto)
qed

lemma effect_deposited:
  "effect c v = Some (Inr (p, v')) \<Longrightarrow>
   deposited_by v' u = deposited_by v u + (case c of CDeposit fid user amount \<Rightarrow> if user = u then amount else 0 | _ \<Rightarrow> 0)"
  by (cases c) (auto simp: Let_def bind_eq_Some_conv checked_add_def deposited_by_def split: if_splits option.splits)

lemma execute_deposited:
  assumes "execute c v = Some (Inr r, v')"
  shows "deposited_by v' u = deposited_by v u + (case c of CDeposit fid user amount \<Rightarrow> if user = u then amount else 0 | _ \<Rightarrow> 0)"
proof -
  have "rexec c v = Some v'" using assms by (simp add: rexec_def)
  then show ?thesis
  proof (cases rule: rexec_cases)
    case (1 p v1 r)
    have "deposited_by v' u = deposited_by v1 u" using 1(5) by (simp add: deposited_by_def)
    with effect_deposited [OF 1(4), of u] show ?thesis by simp
  qed
qed

lemma deposited_by_height [simp]: "deposited_by (r\<lparr>rv_height := h\<rparr>) u = deposited_by r u"
  by (simp add: deposited_by_def)

text \<open>Calls in order of height, from a contract that mirrors the simulator's vault.\<close>

lemma replay_mirrors:
  assumes "accepted execAt cs g = cs" and "mirrors g r" and "vault_ok g"
    and "\<forall>c \<in> set cs. plain_tx (fst c)" and "sorted (map snd cs)" and "\<forall>c \<in> set cs. int (rv_height r) \<le> snd c"
    and "va_balance g + deposit_sum cs \<le> 9223372036854775807"
    and "\<forall>u. int (deposited_by r u) + deposit_sum cs \<le> 9223372036854775807"
  shows "\<exists>r'. replay_calls cs r = Some r' \<and> mirrors (run_calls execAt cs g) r'"
  using assms
proof (induction cs arbitrary: g r)
  case (Cons p cs)
  obtain t h where p: "p = (t, h)" by (cases p)
  from Cons.prems(1) show ?case
  proof (rule accepted_Cons_all)
    fix g' assume "execAt p g = Some g'" and rest: "accepted execAt cs g' = cs"
    then have ex: "execAt (t, h) g = Some g'" by (simp add: p)
    have acc: "accepts t h g = Some g'" using ex by (simp add: execAt_def)
    have pl: "plain_tx t" "tx_ok t" using Cons.prems(4) by (simp_all add: p plain_tx_def)
    have sums: "deposit_sum (p # cs) = (if tx_kind t = ''deposit'' then tx_amount t else 0) + deposit_sum cs"
      "0 \<le> deposit_sum cs" using deposit_sum_nonneg [OF rest] by (simp_all add: p)
    have bal: "0 \<le> va_balance g" using Cons.prems(3) by (rule vault_ok_exact(5))
    have rm: "room t g"
      using deposit_positive [OF ex] Cons.prems(7) sums bal by (auto simp: room_def int64_def)
    note safe = accepts_safe [OF acc Cons.prems(3) pl(2) rm]
    obtain c where c: "call_of t = Some c"
      using acc by (cases rule: accepts_cases) (auto simp: call_of_def)
    let ?r = "advance_to (nat h) r"
    have hh: "int (rv_height r) \<le> h" "h = int (rv_height ?r)" "0 \<le> h"
      using Cons.prems(6) by (auto simp: p advance_to_eq)
    have mr: "mirrors g ?r" using Cons.prems(2) by (simp add: advance_to_eq)
    have dep: "deposited_by ?r (tx_user t) + nat (tx_amount t) < U128" if "tx_kind t = ''deposit''"
    proof -
      have "int (deposited_by r (tx_user t)) + tx_amount t \<le> 9223372036854775807"
        using Cons.prems(8) [THEN spec, of "tx_user t"] sums that by simp
      moreover have "0 < tx_amount t" using deposit_positive [OF ex] that by simp
      ultimately have "deposited_by r (tx_user t) + nat (tx_amount t) \<le> 9223372036854775807" by linarith
      then show ?thesis by (simp add: advance_to_eq U128_def)
    qed
    obtain out where out: "execute c ?r = Some out" "outcomes_agree (applyTx t h g) out"
      using applyTx_mirrors_execute [OF mr Cons.prems(3) pl(1) rm c hh(2) dep] by blast
    have app: "snd (fst (applyTx t h g))" "snd (applyTx t h g) = g'"
      using acc by (simp_all add: accepts_def split: if_splits)
    with out(2) obtain rc r' where o: "out = (Inr rc, r')" and m': "mirrors g' r'"
      by (cases out; cases "fst out") (auto simp: outcomes_agree_def)
    have ht: "int (rv_height r') = h" using execute_height [of c ?r rc r'] out(1) o hh(2) by simp
    have dby: "int (deposited_by r' u) + deposit_sum cs \<le> 9223372036854775807" for u
    proof -
      have eq: "deposited_by r' u = deposited_by r u + (case c of CDeposit fid user amount \<Rightarrow> if user = u then amount else 0 | _ \<Rightarrow> 0)"
        using execute_deposited [of c ?r rc r' u] out(1) o by (simp add: advance_to_eq)
      have "int (case c of CDeposit fid user amount \<Rightarrow> if user = u then amount else 0 | _ \<Rightarrow> 0) \<le>
          (if tx_kind t = ''deposit'' then tx_amount t else 0)"
        using c deposit_positive [OF ex] by (auto simp: call_of_def split: if_splits)
      then show ?thesis using Cons.prems(8) [THEN spec, of u] sums(1) by (simp add: eq)
    qed
    have "\<exists>r''. replay_calls cs r' = Some r'' \<and> mirrors (run_calls execAt cs g') r''"
    proof (rule Cons.IH [OF rest m' safe(1)])
      show "va_balance g' + deposit_sum cs \<le> 9223372036854775807"
        using safe(2) Cons.prems(7) sums withdraw_positive [OF ex] by (auto simp: tx_delta_def split: if_splits)
    qed (use Cons.prems(4,5) ht dby in \<open>auto simp: p\<close>)
    then show ?thesis using out(1) o c ex mirrors_check_ok [OF m' safe(1)] by (simp add: p)
  qed
qed simp

lemma calls_sorted:
  assumes "heights_ok bs"
  shows "sorted (map snd (calls bs))" and "c \<in> set (calls bs) \<Longrightarrow> 1 \<le> snd c"
proof -
  have s: "sorted (map bl_height bs)" using assms by (simp add: heights_ok_def sorted_iff_nth_mono del: upt_Suc)
  have "sorted (map snd (calls bs))" if "sorted (map bl_height bs)" for bs
    using that by (induction bs) (auto simp: sorted_append set_calls comp_def map_replicate_const)
  with s show "sorted (map snd (calls bs))" by blast
  show "1 \<le> snd c" if c: "c \<in> set (calls bs)"
  proof -
    obtain b where b: "b \<in> set bs" "bl_height b = snd c" using c set_calls [of "fst c" "snd c" bs] by auto
    then obtain i where "i < length bs" "b = bs ! i" by (metis in_set_conv_nth)
    with heights_ok_nth [OF assms, of i] b(2) show ?thesis by simp
  qed
qed

lemma mirrors_new: "mirrors newVault new_rvault"
  by (simp add: mirrors_def newVault_def new_rvault_def)

lemma replay_agrees:
  assumes "executes_all bs" and "heights_ok bs" and "\<forall>b \<in> set bs. \<forall>t \<in> set (bl_txs b). plain_tx t"
    and "deposit_sum (calls bs) \<le> 9223372036854775807"
  shows "\<exists>r. replay_calls (calls bs) new_rvault = Some r \<and> mirrors (state_after bs) r"
  unfolding state_after_def
proof (rule replay_mirrors [OF assms(1) [unfolded executes_all_def] mirrors_new vault_ok_new])
  show "\<forall>c \<in> set (calls bs). plain_tx (fst c)" using assms(3) by (auto simp: set_calls)
  show "\<forall>c \<in> set (calls bs). int (rv_height new_rvault) \<le> snd c"
    using calls_sorted(2) [OF assms(2)] by (force simp: new_rvault_def)
qed (use assms(4) calls_sorted(1) [OF assms(2)] in \<open>simp_all add: newVault_def new_rvault_def deposited_by_def\<close>)

end
