(* ===== verification/ChainExample.thy ===== *)
theory ChainExample
  imports Reads Replay
begin

text \<open>
  Concrete runs of the simulator: a deposit and a withdrawal that become final, and a withdrawal
  that is reported expired, survives a reorganisation and then executes. They show that the
  hypotheses of the theorems about the chain can hold. \<open>sim_evals\<close> evaluates a run by rewriting.
\<close>

definition draw :: "32 word \<Rightarrow> mine_draws" where
  "draw w = \<lparr>md_reorg = 1, md_depth = 0, md_swap = (\<lambda>_. 0), md_hash = w, md_written = True\<rparr>"

definition redraw :: "nat \<Rightarrow> 32 word \<Rightarrow> mine_draws" where
  "redraw k w = (draw w)\<lparr>md_reorg := 0, md_depth := k\<rparr>"

definition ex_withdraw :: "int \<Rightarrow> tx" where
  "ex_withdraw e = \<lparr>tx_nonce = ''i1'', tx_kind = ''withdraw'', tx_user = ''ann'', tx_amount = 30,
     tx_market = '''', tx_target = 0, tx_outcome = 0, tx_expiry = e\<rparr>"

definition ex_faults :: "int \<Rightarrow> faults" where
  "ex_faults n = NoFaults\<lparr>fa_reorg := 1 / 2, fa_confirms := n\<rparr>"

lemmas sim_evals = Mine_def mine_block_def headLocked_def hit_def draw_def redraw_def persistLocked_def
  snapshot_of_def emit_def event_of_def included_def no_status_def evKind_def applyTx_def consume_def free_def
  escrowTotal_def escrow_at_def finalize_block_def finalize_tx_def writeTrace_def Let_def Submit_def
  processed_at_def ex_withdraw_def Deposit_def New_def ex_faults_def NoFaults_def newVault_def fmt_d_def
  reorgLocked_def orphan_block_def withdraw_receipts_def mark_orphaned_def Shuffle_def Intn_def swap_at_def
  i64_def quiet_def

definition ex_chain0 :: sim where "ex_chain0 = snd (Deposit ''ann'' 100 (New (ex_faults 1) '''' None))"

definition ex_chain1 :: sim where "ex_chain1 = Mine (draw 1) ex_chain0"

definition ex_chain2 :: sim where "ex_chain2 = snd (Submit 1 1 True (ex_withdraw 5) ex_chain1)"

definition ex_chain3 :: sim where "ex_chain3 = Mine (draw 2) ex_chain2"

definition ex_chain4 :: sim where "ex_chain4 = Mine (draw 3) ex_chain3"

lemmas ex_chain_defs = ex_chain0_def ex_chain1_def ex_chain2_def ex_chain3_def ex_chain4_def

lemma ex_chain_reachable:
  "sim_reachable ex_chain0" "sim_reachable ex_chain1" "sim_reachable ex_chain2" "sim_reachable ex_chain3"
  "sim_reachable ex_chain4"
proof -
  show r0: "sim_reachable ex_chain0" unfolding ex_chain0_def by (rule sim_reachable.step [OF sim_reachable.boot sim_step.deposit])
  show r1: "sim_reachable ex_chain1" unfolding ex_chain1_def by (rule sim_reachable.step [OF r0 sim_step.mine])
  show r2: "sim_reachable ex_chain2" unfolding ex_chain2_def by (rule sim_reachable.step [OF r1 sim_step.submit])
  show r3: "sim_reachable ex_chain3" unfolding ex_chain3_def by (rule sim_reachable.step [OF r2 sim_step.mine])
  show "sim_reachable ex_chain4" unfolding ex_chain4_def by (rule sim_reachable.step [OF r3 sim_step.mine])
qed

lemma ex_chain_facts:
  "sm_final_height ex_chain3 = 1" "sm_final_height ex_chain4 = 2"
  "ts_processed (TxStatus ''i1'' ex_chain3)" "\<not> ts_finalized (TxStatus ''i1'' ex_chain3)"
  "ts_processed (TxStatus ''i1'' ex_chain4)" "ts_finalized (TxStatus ''i1'' ex_chain4)"
  by (simp_all add: ex_chain_defs sim_evals TxStatus_def)

section \<open>Expired, then executed\<close>

text \<open>
  The withdrawal is refused at height 3, past its deadline 2. A reorganisation of three blocks
  brings the head back to height 1 without removing that receipt; submitted again, it executes
  at height 2 and becomes final.
\<close>

definition ex_expired :: sim where
  "ex_expired = Mine (draw 3) (snd (Submit 1 1 True (ex_withdraw 2)
     (Mine (draw 2) (Mine (draw 1) (snd (Deposit ''ann'' 100 (New (ex_faults 3) '''' None)))))))"

definition ex_back :: sim where "ex_back = Mine (redraw 2 4) ex_expired"

definition ex_landed :: sim where
  "ex_landed = Mine (draw 8) (Mine (draw 7) (Mine (draw 6) (Mine (draw 5)
     (snd (Submit 1 1 True (ex_withdraw 2) ex_back)))))"

lemma ex_expired_facts:
  "Expired ''i1'' ex_expired" "Expired ''i1'' ex_back" "sm_head ex_back = 1"
  "ts_processed (TxStatus ''i1'' ex_landed)" "ts_finalized (TxStatus ''i1'' ex_landed)"
  "va_balance (sm_final ex_landed) = 70"
  by (simp_all add: ex_expired_def ex_back_def ex_landed_def sim_evals TxStatus_def Expired_def)

section \<open>The blocks of the first run\<close>

definition ex_block1 :: block where
  "ex_block1 = \<lparr>bl_height = 1, bl_hash = block_hash 1,
     bl_txs = [\<lparr>tx_nonce = ''dep-1'', tx_kind = ''deposit'', tx_user = ''ann'', tx_amount = 100, tx_market = '''',
       tx_target = 0, tx_outcome = 0, tx_expiry = 0\<rparr>], bl_log = [0]\<rparr>"

definition ex_block2 :: block where
  "ex_block2 = \<lparr>bl_height = 2, bl_hash = block_hash 2, bl_txs = [ex_withdraw 5], bl_log = [1]\<rparr>"

lemma ex_digits: "digits (Suc 0) = ''1''"
  by code_simp

lemma ex_pending_blocks:
  "sm_pending ex_chain1 = [ex_block1]" "sm_pending ex_chain2 = [ex_block1]" "sm_pending ex_chain3 = [ex_block2]"
  "length (sm_pending ex_chain4) = 1" "quiet (draw 2) ex_chain2" "quiet (draw 3) ex_chain3"
  by (simp_all add: ex_chain_defs sim_evals ex_block1_def ex_block2_def ex_digits)

lemma nothing_final:
  assumes "sim_reachable s" and "sm_final_height s = 0"
  shows "sim_inv [] s"
proof -
  obtain hist where ok: "sim_inv hist s" using sim_reachable_ok [OF assms(1)] by (auto simp: sim_ok_def)
  then have "hist = []" using assms(2) by (simp add: chain_ok_def)
  with ok show ?thesis by simp
qed

lemma ex_history:
  "sim_inv [] ex_chain1" "sim_inv [] ex_chain2" "sim_inv [ex_block1] ex_chain3" "sim_inv [ex_block1, ex_block2] ex_chain4"
proof -
  show h1: "sim_inv [] ex_chain1"
    by (rule nothing_final [OF ex_chain_reachable(2)]) (simp add: ex_chain_defs sim_evals)
  show h2: "sim_inv [] ex_chain2"
    by (rule nothing_final [OF ex_chain_reachable(3)]) (simp add: ex_chain_defs sim_evals)
  from h2 ex_pending_blocks(5) show h3: "sim_inv [ex_block1] ex_chain3"
  proof (rule Mine_quiet)
    fix b new
    assume i: "sim_inv ([] @ new) (Mine (draw 2) ex_chain2)" and p: "sm_pending ex_chain2 @ [b] = new @ sm_pending (Mine (draw 2) ex_chain2)"
    have "[ex_block1, b] = new @ [ex_block2]" using p unfolding ex_chain3_def [symmetric] ex_pending_blocks by simp
    then have "new = [ex_block1]" by (cases new) (auto simp: Cons_eq_append_conv)
    with i show ?thesis by (simp add: ex_chain3_def)
  qed
  from h3 ex_pending_blocks(6) show "sim_inv [ex_block1, ex_block2] ex_chain4"
  proof (rule Mine_quiet)
    fix b new
    assume i: "sim_inv ([ex_block1] @ new) (Mine (draw 3) ex_chain3)" and p: "sm_pending ex_chain3 @ [b] = new @ sm_pending (Mine (draw 3) ex_chain3)"
    have e: "[ex_block2, b] = new @ sm_pending ex_chain4" using p unfolding ex_chain4_def [symmetric] ex_pending_blocks by simp
    obtain c where "sm_pending ex_chain4 = [c]" using ex_pending_blocks(4) by (auto simp: length_Suc_conv)
    with e have "new = [ex_block2]" by (cases new) (auto simp: Cons_eq_append_conv)
    with i show ?thesis by (simp add: ex_chain4_def)
  qed
qed

lemma ex_block_calls:
  "\<forall>b \<in> {ex_block1, ex_block2}. \<forall>t \<in> set (bl_txs b). tx_ok t \<and> plain_tx t"
  "deposit_sum (calls [ex_block1, ex_block2]) = 100"
  by (simp_all add: ex_block1_def ex_block2_def ex_withdraw_def tx_ok_def plain_tx_def int64_def)

section \<open>A deposit alone, and a deposit orphaned\<close>

definition ex_live :: sim where "ex_live = Mine (draw 2) ex_chain1"

lemma ex_live_entry:
  "length (sm_log ex_live) = 1" "ev_kind (sm_log ex_live ! 0) = ''deposit''" "ev_amount (sm_log ex_live ! 0) = 100"
  "ev_hash (sm_log ex_live ! 0) = block_hash 1"
  "sm_receipts ex_live (ev_fact (sm_log ex_live ! 0)) = Some \<lparr>ts_processed = True, ts_finalized = True, ts_height = 1,
     ts_hash = block_hash 1, ts_rejected = ''''\<rparr>"
  by (simp_all add: ex_live_def ex_chain_defs sim_evals)

lemma ex_live_log: "sum_list (map ev_amount (FinalizedFacts ''deposit'' ex_live)) = 100"
proof -
  obtain ev where "sm_log ex_live = [ev]" using ex_live_entry(1) by (auto simp: length_Suc_conv)
  with ex_live_entry show ?thesis by (simp add: FinalizedFacts_def)
qed

lemma last_digit: "last (block_hash w) = hex_digit (unat w mod 16)"
  by (simp add: block_hash_def)

lemma hashes_differ: "block_hash 2 \<noteq> block_hash 1" "block_hash 4 \<noteq> block_hash 1"
proof -
  have "hex_digit 2 \<noteq> hex_digit 1" "hex_digit 4 \<noteq> hex_digit 1" by code_simp+
  then show "block_hash 2 \<noteq> block_hash 1" "block_hash 4 \<noteq> block_hash 1"
    using last_digit [of 1] last_digit [of 2] last_digit [of 4] by (auto dest: arg_cong [of _ _ last])
qed

definition ex_hole :: sim where
  "ex_hole = Mine (redraw 0 4) (Mine (draw 1) (snd (Deposit ''ann'' 100 (New (ex_faults 3) '''' None))))"

lemma ex_hole_log:
  "length (sm_log ex_hole) = 2" "ev_kind (sm_log ex_hole ! 0) = ''orphaned''"
  "ev_kind (sm_log ex_hole ! 1) = ''deposit''" "ev_seq (sm_log ex_hole ! 1) = 2"
  by (simp_all add: ex_hole_def sim_evals)

end
