(* ===== verification/ChainClaims.thy ===== *)
theory ChainClaims
  imports ChainExample
begin

text \<open>
  The properties of the chain simulator and of its agreement with the Rust contract, each with a
  witness on the runs of \<open>ChainExample\<close>.
\<close>

section \<open>History\<close>

text \<open>
  C23: in every state the simulator can reach, through any faults, reorganisations and restarts,
  the calls of the finalised blocks and of the pending ones all execute in order from the empty
  vault; the finalised vault and the head are the states after them, and receipts, block hashes
  and event log describe exactly these blocks (\<open>sim_ok\<close>).
\<close>

theorem chain_is_consistent:
  "sim_reachable s \<Longrightarrow> \<exists>hist. sim_ok hist s \<and> sm_final s = state_after hist \<and>
     headLocked s = state_after (hist @ sm_pending s)"
  using sim_reachable_ok headLocked_state by (force simp: sim_ok_def chain_ok_def)

theorem chain_is_consistent_witness:
  "\<exists>hist. sim_ok hist ex_chain3 \<and> sm_final ex_chain3 = state_after hist \<and>
     headLocked ex_chain3 = state_after (hist @ sm_pending ex_chain3)"
  by (rule chain_is_consistent [OF ex_chain_reachable(4)])

text \<open>
  No operation of a running simulator takes back a finalised block: the finalised history
  after it extends the one before.
\<close>

theorem finality_is_final:
  "sim_ok hist s \<Longrightarrow> sim_step s s' \<Longrightarrow> \<exists>new. sim_ok (hist @ new) s'"
  by (rule sim_step_ok)

theorem finality_is_final_witness: "\<exists>hist new. sim_ok hist ex_chain3 \<and> sim_ok (hist @ new) ex_chain4"
proof -
  obtain hist where h: "sim_ok hist ex_chain3" using sim_reachable_ok [OF ex_chain_reachable(4)] by blast
  have "sim_step ex_chain3 ex_chain4" unfolding ex_chain4_def by (rule sim_step.mine)
  from finality_is_final [OF h this] h show ?thesis by blast
qed

text \<open>
  C24: \<open>TxStatus\<close> is truthful: it says processed for exactly the nonces the head has executed, and
  processed and finalised for exactly those the finalised vault has executed.
\<close>

theorem receipts_are_truthful:
  assumes "sim_reachable s"
  shows "(ts_processed (TxStatus n s) \<longleftrightarrow> n \<in> va_processed (headLocked s)) \<and>
    (ts_processed (TxStatus n s) \<and> ts_finalized (TxStatus n s) \<longleftrightarrow> n \<in> va_processed (sm_final s))"
proof -
  obtain hist where ok: "sim_inv hist s" using sim_reachable_ok [OF assms] by (auto simp: sim_ok_def)
  show ?thesis using TxStatus_processed [OF ok] TxStatus_finalized [OF ok] headLocked_state [OF ok] by simp
qed

theorem receipts_are_truthful_witness:
  "''i1'' \<in> va_processed (headLocked ex_chain3) \<and> ''i1'' \<notin> va_processed (sm_final ex_chain3)"
  using receipts_are_truthful [OF ex_chain_reachable(4), of "''i1''"] ex_chain_facts by simp

text \<open>
  What \<open>TxStatus\<close> calls finalised, and the hash of a finalised height, never change again,
  whatever the simulator does next.
\<close>

theorem finalized_answers_are_stable:
  assumes "sim_ok hist s" and "sim_step s s'"
  shows "(ts_processed (TxStatus n s) \<and> ts_finalized (TxStatus n s) \<longrightarrow> TxStatus n s' = TxStatus n s) \<and>
    (1 \<le> h \<and> h \<le> sm_final_height s \<longrightarrow> CanonicalHash h s' = CanonicalHash h s)"
proof -
  obtain new where "sim_ok (hist @ new) s'" using sim_step_ok [OF assms(2,1)] by blast
  then show ?thesis using assms(1) finalized_stays final_hash_stays by (auto simp: sim_ok_def)
qed

theorem finalized_answers_are_stable_witness: "TxStatus ''dep-1'' (Mine (redraw 0 9) ex_chain4) = TxStatus ''dep-1'' ex_chain4"
proof -
  obtain hist where h: "sim_ok hist ex_chain4" using sim_reachable_ok [OF ex_chain_reachable(5)] by blast
  have "ts_processed (TxStatus ''dep-1'' ex_chain4) \<and> ts_finalized (TxStatus ''dep-1'' ex_chain4)"
    by (simp add: ex_chain_defs sim_evals TxStatus_def ex_digits)
  with finalized_answers_are_stable [OF h sim_step.mine] show ?thesis by blast
qed

text \<open>
  C25: however often a call is submitted, lost, reordered or mined again, its nonce occurs at most
  once among the calls of the chain.
\<close>

theorem nonce_lands_at_most_once:
  assumes "sim_reachable s"
  shows "\<exists>hist. sm_final s = state_after hist \<and> headLocked s = state_after (hist @ sm_pending s) \<and>
    distinct (map call_nonce (calls (hist @ sm_pending s)))"
proof -
  obtain hist where ok: "sim_inv hist s" using sim_reachable_ok [OF assms] by (auto simp: sim_ok_def)
  then have "executes_all (hist @ sm_pending s)" "sm_final s = state_after hist" by (simp_all add: chain_ok_def)
  with calls_distinct headLocked_state [OF ok] show ?thesis by blast
qed

theorem nonce_lands_at_most_once_witness:
  "\<exists>hist. sm_final ex_landed = state_after hist \<and> headLocked ex_landed = state_after (hist @ sm_pending ex_landed) \<and>
    distinct (map call_nonce (calls (hist @ sm_pending ex_landed)))"
  by (rule nonce_lands_at_most_once)
     (auto simp: ex_landed_def ex_back_def ex_expired_def intro!: sim_reachable.step [OF _ sim_step.mine]
        sim_reachable.step [OF _ sim_step.submit] sim_reachable.step [OF sim_reachable.boot sim_step.deposit])

text \<open>
  A reorganisation loses no call: the mempool it leaves holds, in some order, the calls of the
  dropped blocks before what was already there, and finalised blocks are not among the dropped.
\<close>

theorem reorg_keeps_every_call:
  assumes "sm_pending s \<noteq> []"
  shows "\<exists>kept gone re. sm_pending s = kept @ gone \<and> gone \<noteq> [] \<and> sm_pending (reorgLocked raw dr s) = kept \<and>
    mset re = mset (concat (map bl_txs gone)) \<and> sm_mempool (reorgLocked raw dr s) = re @ sm_mempool s \<and>
    sm_final (reorgLocked raw dr s) = sm_final s"
proof -
  let ?k = "length (sm_pending s) - (1 + Intn raw (length (sm_pending s)))"
  have "drop ?k (sm_pending s) \<noteq> []" using assms by (simp add: not_le)
  moreover have "sm_pending s = take ?k (sm_pending s) @ drop ?k (sm_pending s)" by simp
  ultimately show ?thesis unfolding reorgLocked_eq Let_def
    by (intro exI [of _ "take ?k (sm_pending s)"] exI [of _ "drop ?k (sm_pending s)"]
          exI [of _ "Shuffle dr (concat (map bl_txs (drop ?k (sm_pending s))))"] conjI) (simp_all add: without_def)
qed

theorem reorg_keeps_every_call_witness: "ex_withdraw 5 \<in> set (sm_mempool (reorgLocked 0 (\<lambda>_. 0) ex_chain3))"
proof -
  have p: "sm_pending ex_chain3 = [\<lparr>bl_height = 2, bl_hash = block_hash 2, bl_txs = [ex_withdraw 5], bl_log = [1]\<rparr>]"
    by (simp add: ex_chain_defs sim_evals)
  then have "sm_pending ex_chain3 \<noteq> []" by simp
  from reorg_keeps_every_call [OF this, of 0 "\<lambda>_. 0"] obtain kept gone re where r: "sm_pending ex_chain3 = kept @ gone"
    "gone \<noteq> []" "mset re = mset (concat (map bl_txs gone))"
    "sm_mempool (reorgLocked 0 (\<lambda>_. 0) ex_chain3) = re @ sm_mempool ex_chain3" by blast
  have "kept = []" using r(1,2) unfolding p by (cases kept) auto
  with r(1) have "gone = sm_pending ex_chain3" by simp
  then have "concat (map bl_txs gone) = [ex_withdraw 5]" by (simp add: p)
  with r(3) have "ex_withdraw 5 \<in># mset re" by simp
  with r(4) show ?thesis by simp
qed

section \<open>Custody\<close>

text \<open>
  C26: as long as the calls are well-formed and all deposits together fit an \<open>int64\<close>, no order of
  calls, faults and reorganisations makes the vault owe more than it holds: escrow stays within
  the balance, and the balance is exactly what was deposited less what was withdrawn.
\<close>

theorem custody_is_safe:
  assumes "sim_inv hist s" and "\<forall>b \<in> set (hist @ sm_pending s). \<forall>t \<in> set (bl_txs b). tx_ok t"
    and "deposit_sum (calls (hist @ sm_pending s)) \<le> 9223372036854775807"
  shows "vault_ok (headLocked s) \<and> vault_ok (sm_final s) \<and>
    va_balance (sm_final s) = sum_list (map (\<lambda>c. tx_delta (fst c)) (calls hist))"
proof -
  have ex: "executes_all (hist @ sm_pending s)" "sm_final s = state_after hist"
    using assms(1) by (simp_all add: chain_ok_def)
  then have h: "executes_all hist" "accepted execAt (calls (sm_pending s)) (state_after hist) = calls (sm_pending s)"
    by (simp_all add: executes_all_append)
  have "deposit_sum (calls hist) \<le> 9223372036854775807"
    using deposit_sum_nonneg [OF h(2)] assms(3) by simp
  moreover have "\<forall>b \<in> set hist. \<forall>t \<in> set (bl_txs b). tx_ok t" using assms(2) by auto
  ultimately show ?thesis
    using custody_after [OF ex(1) assms(2,3)] custody_after [OF h(1)] ex(2) headLocked_state [OF assms(1)] by simp
qed

theorem custody_is_safe_witness: "vault_ok (sm_final ex_chain3) \<and> va_balance (sm_final ex_chain3) = 100"
proof -
  have "\<forall>b \<in> set ([ex_block1] @ sm_pending ex_chain3). \<forall>t \<in> set (bl_txs b). tx_ok t"
    "deposit_sum (calls ([ex_block1] @ sm_pending ex_chain3)) \<le> 9223372036854775807"
    using ex_block_calls by (simp_all add: ex_pending_blocks)
  from custody_is_safe [OF ex_history(3) this] show ?thesis by (simp add: ex_block1_def tx_delta_def)
qed

text \<open>
  The finalised deposit facts, which the reconciler trusts instead of the event stream, add up
  to exactly the deposits the finalised vault has executed.
\<close>

theorem finalized_facts_are_the_deposits:
  "sim_inv hist s \<Longrightarrow> sum_list (map ev_amount (FinalizedFacts ''deposit'' s)) = deposit_sum (calls hist)"
  by (rule final_deposits_sum)

theorem finalized_facts_are_the_deposits_witness:
  "\<exists>hist. sm_final ex_chain4 = state_after hist \<and> deposit_sum (calls hist) = 100"
proof -
  obtain hist where ok: "sim_inv hist ex_chain4" using sim_reachable_ok [OF ex_chain_reachable(5)] by (auto simp: sim_ok_def)
  have "sum_list (map ev_amount (FinalizedFacts ''deposit'' ex_chain4)) = 100"
    by (simp add: ex_chain_defs sim_evals FinalizedFacts_def)
  with finalized_facts_are_the_deposits [OF ok] ok show ?thesis by (auto simp: chain_ok_def)
qed

section \<open>The event stream\<close>

text \<open>
  A poll delivers only entries of the log after the cursor whose block was not orphaned, and
  every one of them that the gap fault does not withhold, if the limit leaves room for all.
\<close>

theorem polling_is_sound_and_complete:
  "set (PollEvents since limit g u r dr s) \<subseteq> {ev \<in> set (sm_log s). pollable since ev} \<and>
   (2 * int (length (sm_log s)) \<le> limit \<longrightarrow> (\<forall>k < length (sm_log s).
      pollable since (sm_log s ! k) \<and> \<not> hit (fa_gap (sm_faults s)) (g k) \<longrightarrow>
      sm_log s ! k \<in> set (PollEvents since limit g u r dr s)))"
proof -
  have sh: "set (Shuffle dr xs) = set xs" for xs :: "event list"
    using mset_Shuffle [of dr xs] by (metis set_mset_mset)
  have "sm_log s ! k \<in> set (poll_from (sm_faults s) since limit g u 0 (sm_log s) [])"
    if "k < length (sm_log s)" "pollable since (sm_log s ! k)" "\<not> hit (fa_gap (sm_faults s)) (g k)"
      "2 * int (length (sm_log s)) \<le> limit" for k
    by (rule poll_from_complete [OF refl]) (use that in simp_all)
  then show ?thesis using PollEvents_sound [of since limit g u r dr s] sh
    by (simp add: PollEvents_def Let_def)
qed

theorem polling_is_sound_and_complete_witness:
  "\<exists>ev \<in> set (PollEvents 0 10 (\<lambda>_. 0) (\<lambda>_. 0) 0 (\<lambda>_. 0) ex_chain4). ev_fact ev = ''i1''"
proof -
  have "length (sm_log ex_chain4) = 2" "pollable 0 (sm_log ex_chain4 ! 1)" "ev_fact (sm_log ex_chain4 ! 1) = ''i1''"
    "\<not> hit (fa_gap (sm_faults ex_chain4)) 0"
    by (simp_all add: ex_chain_defs sim_evals pollable_def)
  with polling_is_sound_and_complete [of 0 10 "\<lambda>_. 0" "\<lambda>_. 0" 0 "\<lambda>_. 0" ex_chain4] show ?thesis by fastforce
qed

text \<open>
  With the delivery faults off, a poll is exactly the first \<open>limit\<close> canonical entries after the
  cursor, in order.
\<close>

theorem polling_without_faults:
  assumes "fa_gap (sm_faults s) \<le> 0" "fa_duplicate (sm_faults s) \<le> 0" "fa_reorder (sm_faults s) \<le> 0" and "0 \<le> limit"
  shows "PollEvents since limit g u r dr s =
    take (nat limit) (filter (\<lambda>ev. since < ev_seq ev \<and> ev_kind ev \<noteq> ''orphaned'') (sm_log s))"
  using PollEvents_clean [OF assms] by (simp add: pollable_def [abs_def])

theorem polling_without_faults_witness:
  "map ev_fact (PollEvents 1 10 (\<lambda>_. 0) (\<lambda>_. 0) 0 (\<lambda>_. 0) ex_chain4) = [''i1'']"
  by (subst polling_without_faults) (simp_all add: ex_chain_defs sim_evals)

section \<open>Progress\<close>

text \<open>
  A call of the mempool that the contract accepts in its turn is in the next block, when no
  reorganisation strikes.
\<close>

theorem accepted_call_is_mined:
  assumes "sim_inv hist s" and "quiet md s"
    and "(t, sm_head s + 1) \<in> set (accepted execAt (map (\<lambda>t. (t, sm_head s + 1)) (sm_mempool s)) (headLocked s))"
    and "tx_kind t \<noteq> ''cancel''"
  shows "ts_processed (TxStatus (tx_nonce t) (Mine md s)) \<and> ts_height (TxStatus (tx_nonce t) (Mine md s)) = sm_head s + 1"
  using assms by (rule Mine_includes)

theorem accepted_call_is_mined_witness: "ts_processed (TxStatus ''i1'' (Mine (draw 2) ex_chain2))"
proof -
  obtain hist where ok: "sim_inv hist ex_chain2" using sim_reachable_ok [OF ex_chain_reachable(3)] by (auto simp: sim_ok_def)
  have h: "quiet (draw 2) ex_chain2" "tx_kind (ex_withdraw 5) \<noteq> ''cancel''"
    "(ex_withdraw 5, sm_head ex_chain2 + 1) \<in> set (accepted execAt
       (map (\<lambda>t. (t, sm_head ex_chain2 + 1)) (sm_mempool ex_chain2)) (headLocked ex_chain2))"
    by (simp_all add: ex_chain_defs sim_evals execAt_def accepts_def)
  show ?thesis using accepted_call_is_mined [OF ok h(1,3,2)] by (simp add: ex_withdraw_def)
qed

text \<open>
  C27: a processed call is final after as many further blocks without a reorganisation as the
  faults ask for confirmations.
\<close>

theorem processed_call_becomes_final:
  assumes "sim_inv hist s" and "ts_processed (TxStatus n s)" and "quiet_run mds s"
    and "fa_confirms (sm_faults s) \<le> int (length mds)"
  shows "ts_finalized (TxStatus n (mine_all mds s))"
  using assms by (rule finalized_after)

theorem processed_call_becomes_final_witness: "ts_finalized (TxStatus ''i1'' (mine_all [draw 3] ex_chain3))"
proof -
  obtain hist where ok: "sim_inv hist ex_chain3" using sim_reachable_ok [OF ex_chain_reachable(4)] by (auto simp: sim_ok_def)
  have "quiet_run [draw 3] ex_chain3" "fa_confirms (sm_faults ex_chain3) \<le> int (length [draw 3])"
    by (simp_all add: ex_chain_defs sim_evals)
  with processed_call_becomes_final [OF ok ex_chain_facts(3)] show ?thesis by blast
qed

text \<open>
  C28: \<open>Expired\<close> is not final. A withdrawal can be reported expired and still execute and become
  final, because a receipt of refusal outlives the reorganisation that takes the head back below
  the deadline.
\<close>

theorem expired_is_not_final:
  "sim_reachable ex_back \<and> Expired ''i1'' ex_back \<and> (\<exists>s. sim_reachable s \<and> sim_step\<^sup>*\<^sup>* ex_back s \<and>
     ts_finalized (TxStatus ''i1'' s) \<and> va_balance (sm_final s) = 70)"
proof -
  have r: "sim_reachable ex_back"
    by (auto simp: ex_back_def ex_expired_def intro!: sim_reachable.step [OF _ sim_step.mine]
        sim_reachable.step [OF _ sim_step.submit] sim_reachable.step [OF sim_reachable.boot sim_step.deposit])
  have "sim_step\<^sup>*\<^sup>* ex_back ex_landed" unfolding ex_landed_def
    by (intro rtranclp.rtrancl_into_rtrancl [where r = sim_step, OF _ sim_step.mine] rtranclp.rtrancl_into_rtrancl [where r = sim_step, OF _ sim_step.submit]
        rtranclp.rtrancl_refl)
  moreover from this r have "sim_reachable ex_landed"
    by (induction rule: rtranclp_induct) (auto intro: sim_reachable.step)
  ultimately show ?thesis using r ex_expired_facts by blast
qed

section \<open>Restart and replay\<close>



text \<open>
  Replaying the finalised calls through the Rust contract, each at its height, succeeds call by
  call and ends in a state with the same balance, escrow, settled markets and nonces as the
  simulator's finalised vault, as long as the calls are plain and the deposits fit an \<open>int64\<close>.
\<close>

theorem rust_contract_agrees:
  assumes "sim_inv hist s" and "\<forall>b \<in> set hist. \<forall>t \<in> set (bl_txs b). plain_tx t"
    and "deposit_sum (calls hist) \<le> 9223372036854775807"
  shows "\<exists>r. replay_calls (calls hist) new_rvault = Some r \<and> mirrors (sm_final s) r"
proof -
  have "executes_all (hist @ sm_pending s)" "heights_ok (hist @ sm_pending s)" "sm_final s = state_after hist"
    using assms(1) by (simp_all add: chain_ok_def)
  then show ?thesis using replay_agrees [OF _ _ assms(2,3)] heights_ok_append
    by (auto simp: executes_all_append)
qed

theorem rust_contract_agrees_witness:
  "\<exists>r. replay_calls (calls [ex_block1, ex_block2]) new_rvault = Some r \<and> mirrors (sm_final ex_chain4) r"
  using rust_contract_agrees [OF ex_history(4)] ex_block_calls by simp

end
