(* ===== verification/App.thy ===== *)
theory App
  imports Store Reads
begin

text \<open>
  The workers of \<open>internal/app/app.go\<close>, each a single pass over the store and the chain. A tick is
  a function of both; its result is what the Go method returns beside the state it leaves, which
  a failing tick has already changed. One reading of the clock serves a whole tick, ids come from
  \<open>gen\<close>, and Go's iteration over a map follows the order a parameter gives.
\<close>

section \<open>Requests\<close>

definition WithdrawExpiryBlocks :: int where "WithdrawExpiryBlocks = 10"

definition app_RequestWithdraw :: "string \<Rightarrow> string \<Rightarrow> string \<Rightarrow> int \<Rightarrow> string \<Rightarrow> int \<Rightarrow> sim \<Rightarrow> db \<Rightarrow>
    error + ((string \<times> bool) \<times> db)" where
  "app_RequestWithdraw nid ntid user amount key now s d =
    (let head = vs_head (VaultState s)
     in RequestWithdraw nid ntid user amount key (head + WithdrawExpiryBlocks) now d)"

section \<open>The outbox\<close>

text \<open>The rows that are due, claimed under a lease of 30 seconds.\<close>

definition due :: "int \<Rightarrow> outbox_row \<Rightarrow> bool" where
  "due now q \<longleftrightarrow> ob_state q = OutPending \<and> ob_next_attempt q \<le> now \<or>
     ob_state q = OutSending \<and> (case ob_lease_until q of None \<Rightarrow> True | Some t \<Rightarrow> t \<le> now)"

definition outbox_jobs :: "int \<Rightarrow> db \<Rightarrow> outbox_row list" where
  "outbox_jobs now d = take 32 (sort_key ob_id (filter (due now) (outbox d)))"

definition claim_job :: "int \<Rightarrow> db \<Rightarrow> outbox_row \<Rightarrow> db" where
  "claim_job now d j =
    d\<lparr>outbox := update_where (\<lambda>q. ob_id q = ob_id j)
       (\<lambda>q. q\<lparr>ob_state := OutSending, ob_lease_until := Some (now + 30000)\<rparr>) (outbox d)\<rparr>"

definition tx_of_payload :: "json_obj \<Rightarrow> tx" where
  "tx_of_payload p =
    \<lparr>tx_nonce = json_str p ''nonce'', tx_kind = json_str p ''kind'', tx_user = json_str p ''user'',
     tx_amount = json_int p ''amount'', tx_market = json_str p ''market_id'', tx_target = json_int p ''target'',
     tx_outcome = json_int p ''outcome'', tx_expiry = json_int p ''expiry_height''\<rparr>"

fun chain_error_text :: "chain_error \<Rightarrow> string" where
  "chain_error_text (ErrExpired m) = ''chain: nonce expired: '' @ m"
| "chain_error_text (ErrSubmitFailed m) = ''chain: submit failed: '' @ m"

definition mark_sent :: "nat \<Rightarrow> db \<Rightarrow> db" where
  "mark_sent i d =
    d\<lparr>outbox := update_where (\<lambda>q. ob_id q = i \<and> ob_state q = OutSending)
       (\<lambda>q. q\<lparr>ob_state := OutSent, ob_lease_until := None, ob_attempts := ob_attempts q + 1,
             ob_last_error := None\<rparr>) (outbox d)\<rparr>"

definition mark_retry :: "int \<Rightarrow> nat \<Rightarrow> string \<Rightarrow> db \<Rightarrow> db" where
  "mark_retry now i msg d =
    d\<lparr>outbox := update_where (\<lambda>q. ob_id q = i \<and> ob_state q = OutSending)
       (\<lambda>q. q\<lparr>ob_state := OutPending, ob_lease_until := None, ob_attempts := ob_attempts q + 1,
             ob_last_error := Some msg, ob_next_attempt := now + min (ob_attempts q) 10 * 200\<rparr>) (outbox d)\<rparr>"

text \<open>The draws of \<open>Submit\<close> for the job of an outbox id: lost request, lost answer, state file.\<close>

definition send_job :: "int \<Rightarrow> (nat \<Rightarrow> rat \<times> rat \<times> bool) \<Rightarrow> outbox_row \<Rightarrow> sim \<times> db \<Rightarrow> sim \<times> db" where
  "send_job now draws j w =
    (case w of (s, d) \<Rightarrow> case draws (ob_id j) of (u1, u2, written) \<Rightarrow>
      case Submit u1 u2 written (tx_of_payload (ob_payload j)) s of
        (Inr hash, s') \<Rightarrow> (s', mark_sent (ob_id j) (MarkSubmitted (ob_intent j) hash '''' d))
      | (Inl e, s') \<Rightarrow>
          (s', mark_retry now (ob_id j) (chain_error_text e)
             (MarkSubmitted (ob_intent j) '''' (chain_error_text e) d)))"

definition OutboxTick :: "int \<Rightarrow> (nat \<Rightarrow> rat \<times> rat \<times> bool) \<Rightarrow> sim \<times> db \<Rightarrow> nat \<times> sim \<times> db" where
  "OutboxTick now draws w =
    (case w of (s, d) \<Rightarrow>
      let jobs = outbox_jobs now d; d1 = foldl (claim_job now) d jobs
      in (length jobs, fold (send_job now draws) jobs (s, d1)))"

section \<open>The inbox\<close>

definition fact_live :: "sim \<Rightarrow> chain_fact_row \<Rightarrow> bool" where
  "fact_live s f \<longleftrightarrow>
    (let st = TxStatus (cf_fact f) s; canon = CanonicalHash (cf_height f) s
     in ts_processed st \<and> ts_hash st = cf_hash f \<and> canon = Some (cf_hash f))"

text \<open>The scan of the provisional facts: the orphaned block hashes, and the finalised facts marked.\<close>

fun scan_facts :: "sim \<Rightarrow> chain_fact_row list \<Rightarrow> db \<Rightarrow> string list \<times> db" where
  "scan_facts s [] d = ([], d)"
| "scan_facts s (f # fs) d =
    (if \<not> fact_live s f then (case scan_facts s fs d of (os, d') \<Rightarrow> (List.insert (cf_hash f) os, d'))
     else if ts_finalized (TxStatus (cf_fact f) s) then scan_facts s fs (MarkFactFinalized (cf_event f) d)
     else scan_facts s fs d)"

fun revert_blocks :: "(string \<Rightarrow> string) \<Rightarrow> string list \<Rightarrow> db \<Rightarrow> error option \<times> db" where
  "revert_blocks gen [] d = (None, d)"
| "revert_blocks gen (h # hs) d =
    (case RevertBlock gen h d of
       ((n, Some e), d') \<Rightarrow> (Some e, d')
     | ((n, None), d') \<Rightarrow> revert_blocks gen hs d')"

definition settleFacts :: "(string \<Rightarrow> string) \<Rightarrow> (string list \<Rightarrow> string list) \<Rightarrow> sim \<Rightarrow> db \<Rightarrow> error option \<times> db" where
  "settleFacts gen ord s d =
    (case scan_facts s (ProvisionalFacts d) d of (os, d1) \<Rightarrow> revert_blocks gen (ord os) d1)"

fun revert_intents :: "(string \<Rightarrow> string) \<Rightarrow> string \<Rightarrow> int \<Rightarrow> string list \<Rightarrow> db \<Rightarrow> error option \<times> db" where
  "revert_intents gen hash now [] d = (None, d)"
| "revert_intents gen hash now (i # is) d =
    (case Revert (gen i) i hash now d of
       Inl e \<Rightarrow> (Some e, d)
     | Inr d' \<Rightarrow> revert_intents gen hash now is d')"

fun check_blocks :: "(string \<Rightarrow> string) \<Rightarrow> int \<Rightarrow> sim \<Rightarrow> (int \<times> string) list \<Rightarrow> db \<Rightarrow> error option \<times> db" where
  "check_blocks gen now s [] d = (None, d)"
| "check_blocks gen now s ((h, hash) # bs) d =
    (if CanonicalHash h s = Some hash then check_blocks gen now s bs d
     else case revert_intents gen hash now (ConfirmedIntentsInBlock hash d) d of
       (Some e, d') \<Rightarrow> (Some e, d')
     | (None, d') \<Rightarrow> check_blocks gen now s bs d')"

text \<open>The blocks of the map \<open>ConfirmedBlocks\<close>, in the order \<open>ord\<close> gives their heights.\<close>

definition reorgCheck :: "(string \<Rightarrow> string) \<Rightarrow> int \<Rightarrow> (int list \<Rightarrow> int list) \<Rightarrow> sim \<Rightarrow> db \<Rightarrow> error option \<times> db" where
  "reorgCheck gen now ord s d =
    (case ConfirmedBlocks d of
       Inl e \<Rightarrow> (Some e, d)
     | Inr live \<Rightarrow>
         let heights = remdups (map (\<lambda>r. the (in_height r))
               (filter (\<lambda>r. in_state r = StateConfirmed \<and> in_height r \<noteq> None) (intents d)))
         in check_blocks gen now s (map (\<lambda>h. (h, the (live h))) (ord heights)) d)"

text \<open>The end of the contiguous prefix of sequence numbers after the cursor.\<close>

fun advance_over :: "int set \<Rightarrow> nat \<Rightarrow> int \<Rightarrow> int" where
  "advance_over seen 0 c = c"
| "advance_over seen (Suc n) c = (if c + 1 \<in> seen then advance_over seen n (c + 1) else c)"

definition stored_of :: "event \<Rightarrow> stored_event" where
  "stored_of ev =
    \<lparr>se_id = ev_id ev, se_fact = ev_fact ev, se_seq = ev_seq ev, se_kind = ev_kind ev, se_user = ev_user ev,
     se_amount = ev_amount ev, se_market = ev_market ev, se_height = ev_height ev, se_hash = ev_hash ev,
     se_status = EvReceived\<rparr>"

fun ingest :: "int \<Rightarrow> event list \<Rightarrow> nat \<Rightarrow> db \<Rightarrow> nat \<times> db" where
  "ingest bound [] n d = (n, d)"
| "ingest bound (ev # evs) n d =
    (if ev_seq ev > bound then ingest bound evs n d
     else case RecordEvent (stored_of ev) d of
       (isNew, d') \<Rightarrow> ingest bound evs (if isNew then Suc n else n) d')"

fun apply_pending :: "(string \<Rightarrow> string) \<Rightarrow> stored_event list \<Rightarrow> db \<Rightarrow> db" where
  "apply_pending gen [] d = d"
| "apply_pending gen (e # es) d =
    (if se_kind e = ''deposit'' then
       (case ApplyDeposit (gen (se_id e)) e d of
          Inl err \<Rightarrow> apply_pending gen es d
        | Inr d' \<Rightarrow> apply_pending gen es d')
     else apply_pending gen es (SetEventStatus (se_id e) EvIgnored d))"

text \<open>The draws of one poll and the orders of the two maps.\<close>

record inbox_draws =
  id_gap :: "nat \<Rightarrow> rat"
  id_dup :: "nat \<Rightarrow> rat"
  id_reorder :: rat
  id_swap :: "nat \<Rightarrow> nat"
  id_hashes :: "string list \<Rightarrow> string list"
  id_heights :: "int list \<Rightarrow> int list"

definition poll_batch :: "inbox_draws \<Rightarrow> sim \<Rightarrow> db \<Rightarrow> nat \<times> db" where
  "poll_batch dr s d =
    (let cursor = Cursor d;
         batch = PollEvents cursor 64 (id_gap dr) (id_dup dr) (id_reorder dr) (id_swap dr) s;
         advanceTo = advance_over (ev_seq ` set batch) (length batch) cursor;
         (applied, d1) = ingest advanceTo batch 0 d
     in (applied, if advanceTo > cursor then AdvanceCursor advanceTo d1 else d1))"

definition InboxTick :: "(string \<Rightarrow> string) \<Rightarrow> int \<Rightarrow> inbox_draws \<Rightarrow> sim \<Rightarrow> db \<Rightarrow> (nat \<times> error option) \<times> db" where
  "InboxTick gen now dr s d =
    (case settleFacts gen (id_hashes dr) s d of
       (Some e, d1) \<Rightarrow> ((0, Some e), d1)
     | (None, d1) \<Rightarrow>
         (case reorgCheck gen now (id_heights dr) s d1 of
            (Some e, d2) \<Rightarrow> ((0, Some e), d2)
          | (None, d2) \<Rightarrow>
              let (applied, d3) = poll_batch dr s d2
              in ((applied, None), apply_pending gen (PendingEvents 128 d3) d3)))"

section \<open>The resolver\<close>

text \<open>One in-flight intent: an error stops the pass, a conflict is someone else's success.\<close>

definition resolve_one :: "(string \<Rightarrow> string) \<Rightarrow> (string \<Rightarrow> string) \<Rightarrow> int \<Rightarrow> int \<Rightarrow> intent_row \<Rightarrow> sim \<times> db \<Rightarrow>
    (bool \<times> error option) \<times> sim \<times> db" where
  "resolve_one gen gens now head it w =
    (case w of (s, d) \<Rightarrow>
     let st = TxStatus (in_id it) s in
     if ts_processed st \<and> ts_finalized st then
       (case Confirm gens (gen (in_id it)) (in_id it) (ts_height st) (ts_hash st) d of
          Inl e \<Rightarrow> if e = ErrConflict then ((False, None), s, d) else ((False, Some e), s, d)
        | Inr d' \<Rightarrow> ((True, None), s, d'))
     else if ts_processed st then ((False, None), s, d)
     else
       let pastExpiry = in_expiry it > 0 \<and> head > in_expiry it;
           noFundsAtRisk = in_kind it \<noteq> Withdraw;
           (stop, s1) = (if pastExpiry \<and> \<not> noFundsAtRisk \<and> \<not> Expired (in_id it) s
              then (case Cancel (in_id it) (in_expiry it) s of (b, s') \<Rightarrow> (\<not> b, s')) else (False, s))
       in if stop then ((False, None), s1, d)
          else
            let cancelled = Expired (in_id it) s1;
                expiredByContract = pastExpiry \<and> (cancelled \<or> noFundsAtRisk);
                expiredWithoutContract = in_expiry it = 0 \<and> now > in_deadline it
            in if expiredByContract \<or> expiredWithoutContract then
                 (case Expire (gen (in_id it)) (in_id it) head now d of
                    Inl e \<Rightarrow> if e = ErrConflict then ((False, None), s1, d) else ((False, Some e), s1, d)
                  | Inr d' \<Rightarrow> ((True, None), s1, d'))
               else ((False, None), s1, d))"

fun resolve_all :: "(string \<Rightarrow> string) \<Rightarrow> (string \<Rightarrow> string) \<Rightarrow> int \<Rightarrow> int \<Rightarrow> intent_row list \<Rightarrow> nat \<Rightarrow> sim \<times> db \<Rightarrow>
    (nat \<times> error option) \<times> sim \<times> db" where
  "resolve_all gen gens now head [] n w = ((n, None), w)"
| "resolve_all gen gens now head (it # its) n w =
    (case resolve_one gen gens now head it w of
       ((done, Some e), w') \<Rightarrow> ((n, Some e), w')
     | ((done, None), w') \<Rightarrow> resolve_all gen gens now head its (if done then Suc n else n) w')"

definition ResolverTick :: "(string \<Rightarrow> string) \<Rightarrow> (string \<Rightarrow> string) \<Rightarrow> int \<Rightarrow> sim \<times> db \<Rightarrow>
    (nat \<times> error option) \<times> sim \<times> db" where
  "ResolverTick gen gens now w =
    (case w of (s, d) \<Rightarrow> resolve_all gen gens now (vs_head (VaultState s)) (InFlight d) 0 (s, d))"

section \<open>Liquidations and prices\<close>

text \<open>The price cache is a parameter: the marks it answers, or nothing, and the leases it grants.\<close>

definition tick_marks :: "(string \<rightharpoonup> int) option \<Rightarrow> db \<Rightarrow> (string \<rightharpoonup> int)" where
  "tick_marks feed d =
    (case feed of
       Some m \<Rightarrow> if m = Map.empty then map_of (map (\<lambda>m. (mk_id m, mk_mark m))
          (filter (\<lambda>m. mk_state m = MarketOpen) (rev (Markets d)))) else m
     | None \<Rightarrow> map_of (map (\<lambda>m. (mk_id m, mk_mark m)) (filter (\<lambda>m. mk_state m = MarketOpen) (rev (Markets d)))))"

fun liquidate :: "(string \<Rightarrow> string) \<Rightarrow> (string \<Rightarrow> bool) \<Rightarrow> (string \<rightharpoonup> int) \<Rightarrow> position_row list \<Rightarrow> nat \<Rightarrow> db \<Rightarrow>
    (nat \<times> error option) \<times> db" where
  "liquidate gen lease marks [] n d = ((n, None), d)"
| "liquidate gen lease marks (p # ps) n d =
    (if \<not> lease (''liq:'' @ po_id p) then liquidate gen lease marks ps n d
     else case ClosePosition (gen (po_id p)) (po_id p)
         (case marks (po_market p) of None \<Rightarrow> 0 | Some m \<Rightarrow> m) ''liquidation'' d of
       Inl e \<Rightarrow> if e = ErrConflict then liquidate gen lease marks ps n d else ((n, Some e), d)
     | Inr d' \<Rightarrow> liquidate gen lease marks ps (Suc n) d')"

definition LiquidatorTick :: "(string \<Rightarrow> string) \<Rightarrow> (string \<rightharpoonup> int) option \<Rightarrow> (string \<Rightarrow> bool) \<Rightarrow> db \<Rightarrow>
    (nat \<times> error option) \<times> db" where
  "LiquidatorTick gen feed lease d =
    (let marks = tick_marks feed d in liquidate gen lease marks (AtRisk marks d) 0 d)"

definition clamp :: "int \<Rightarrow> int" where
  "clamp v = (if v < 1000 then 1000 else if v > One - 1000 then One - 1000 else v)"

text \<open>
  One draw per open market; the second component is what is published to the cache. \<open>Intn\<close>
  panics when its bound is not positive, the result None.
\<close>

definition price_step :: "int \<Rightarrow> (string \<Rightarrow> nat) \<Rightarrow> market_row \<Rightarrow> (string \<times> int) list \<times> db \<Rightarrow> (string \<times> int) list \<times> db" where
  "price_step drift draw m w =
    (if mk_state m \<noteq> MarketOpen then w
     else
       let step = i64 (int (Intn (draw (mk_id m)) (nat (i64 (2 * drift + 1)))) - drift);
           nxt = i64 (mk_mark m + step)
       in (fst w @ [(mk_id m, clamp nxt)], SetMark (mk_id m) nxt (snd w)))"

definition PriceTick :: "int \<Rightarrow> (string \<Rightarrow> nat) \<Rightarrow> db \<Rightarrow> ((string \<times> int) list \<times> db) option" where
  "PriceTick drift draw d =
    (if i64 (2 * drift + 1) \<le> 0 \<and> list_ex (\<lambda>m. mk_state m = MarketOpen) (Markets d) then None
     else Some (fold (price_step drift draw) (Markets d) ([], d)))"

end
