(* ===== verification/Escrow.thy ===== *)
theory Escrow
  imports App
begin

text \<open>
  The second reconciliation, \<open>internal/app/escrow.go\<close>: the ledger's collateral per market against
  the vault's escrow, the instructions that close a gap, and the counter of passes in which a gap
  stood still.
\<close>

section \<open>The pass\<close>

definition EscrowExpiryBlocks :: int where "EscrowExpiryBlocks = 6"

definition EscrowStuckThreshold :: int where "EscrowStuckThreshold = 8"

record escrow_gap =
  eg_market :: string
  eg_collateral :: int
  eg_on_chain :: int
  eg_in_flight :: int
  eg_misses :: int
  eg_has_in_flight :: bool
  eg_unexplained :: int

record escrow_report =
  er_markets :: nat
  er_synced :: nat
  er_explained :: nat
  er_unexplained :: nat
  er_total_ledger :: int
  er_total_chain :: int
  er_drifts :: "escrow_gap list"
  er_issued :: nat

definition drift_where :: "string \<Rightarrow> escrow_drift_row \<Rightarrow> bool" where
  "drift_where m r \<longleftrightarrow> ed_market r = m"

definition delete_drift :: "string \<Rightarrow> db \<Rightarrow> db" where
  "delete_drift m d = d\<lparr>escrow_drift := filter (\<lambda>r. \<not> drift_where m r) (escrow_drift d)\<rparr>"

definition reset_drift :: "string \<Rightarrow> int \<Rightarrow> int \<Rightarrow> db \<Rightarrow> db" where
  "reset_drift m want got d =
    d\<lparr>escrow_drift := update_where (drift_where m) (\<lambda>r. r\<lparr>ed_misses := 0, ed_want := want, ed_got := got\<rparr>)
       (escrow_drift d)\<rparr>"

text \<open>The counter goes up only while both sides of the gap stand still; the column is an \<open>int\<close>.\<close>

definition count_drift :: "string \<Rightarrow> int \<Rightarrow> int \<Rightarrow> db \<Rightarrow> error + db" where
  "count_drift m want got d =
    (case select_one (drift_where m) (escrow_drift d) of
       None \<Rightarrow> Inr (d\<lparr>escrow_drift := escrow_drift d @
         [\<lparr>ed_market = m, ed_want = want, ed_got = got, ed_misses = 0\<rparr>]\<rparr>)
     | Some r \<Rightarrow>
         let misses = (if ed_want r = want \<and> ed_got r = got then ed_misses r + 1 else 0)
         in if \<not> int4 misses then Inl ErrRange
            else Inr (d\<lparr>escrow_drift := update_where (drift_where m)
              (\<lambda>r. r\<lparr>ed_misses := misses, ed_want := want, ed_got := got\<rparr>) (escrow_drift d)\<rparr>))"

definition escrowMisses :: "string \<Rightarrow> db \<Rightarrow> int" where
  "escrowMisses m d = (case select_one (drift_where m) (escrow_drift d) of None \<Rightarrow> 0 | Some r \<Rightarrow> ed_misses r)"

text \<open>
  A gap no instruction explains: issue one unless one is in flight or the market is settled on
  chain, then count the pass. Each statement commits on its own.
\<close>

definition chase_gap :: "string \<Rightarrow> bool \<Rightarrow> int \<Rightarrow> sim \<Rightarrow> bool \<Rightarrow> string \<Rightarrow> int \<Rightarrow> int \<Rightarrow> db \<Rightarrow>
    (error + nat) \<times> db" where
  "chase_gap nid issue now s busy m want got d =
    (let request = issue \<and> \<not> busy \<and> \<not> SettledOnChain m s in
     case (if request then RequestEscrowSet nid m want (vs_head (VaultState s) + EscrowExpiryBlocks) now d
           else Inr (('''', False), d)) of
       Inl e \<Rightarrow> (Inl e, d)
     | Inr (_, d1) \<Rightarrow>
         if issue then (case count_drift m want got d1 of
             Inl e \<Rightarrow> (Inl e, d1)
           | Inr d2 \<Rightarrow> (Inr (if request then 1 else 0), d2))
         else (Inr 0, d1))"

definition escrow_market :: "(string \<Rightarrow> string) \<Rightarrow> bool \<Rightarrow> int \<Rightarrow> sim \<Rightarrow> (string \<rightharpoonup> int) \<Rightarrow> string \<times> int \<Rightarrow>
    escrow_report \<Rightarrow> db \<Rightarrow> (error + escrow_report) \<times> db" where
  "escrow_market gen issue now s targets mw rep d =
    (case mw of (m, want) \<Rightarrow>
     let got = EscrowOf (VaultState s) m;
         rep1 = rep\<lparr>er_total_ledger := i64 (er_total_ledger rep + want),
                    er_total_chain := i64 (er_total_chain rep + got)\<rparr>
     in if want = got then
          (Inr (rep1\<lparr>er_synced := er_synced rep1 + 1\<rparr>), if issue then delete_drift m d else d)
        else
          let gap = \<lparr>eg_market = m, eg_collateral = want, eg_on_chain = got,
                eg_in_flight = (case targets m of None \<Rightarrow> 0 | Some t \<Rightarrow> t), eg_misses = 0,
                eg_has_in_flight = targets m \<noteq> None, eg_unexplained = 0\<rparr>
          in if targets m = Some want then
               let d1 = (if issue then reset_drift m want got d else d)
               in (Inr (rep1\<lparr>er_explained := er_explained rep1 + 1,
                      er_drifts := er_drifts rep1 @ [gap\<lparr>eg_misses := escrowMisses m d1\<rparr>]\<rparr>), d1)
             else (case chase_gap (gen m) issue now s (targets m \<noteq> None) m want got d of
               (Inl e, d1) \<Rightarrow> (Inl e, d1)
             | (Inr n, d1) \<Rightarrow>
                 (Inr (rep1\<lparr>er_unexplained := er_unexplained rep1 + 1, er_issued := er_issued rep1 + n,
                    er_drifts := er_drifts rep1 @ [gap\<lparr>eg_unexplained := i64 (want - got),
                      eg_misses := escrowMisses m d1\<rparr>]\<rparr>), d1)))"

fun escrow_markets :: "(string \<Rightarrow> string) \<Rightarrow> bool \<Rightarrow> int \<Rightarrow> sim \<Rightarrow> (string \<rightharpoonup> int) \<Rightarrow> (string \<times> int) list \<Rightarrow>
    escrow_report \<Rightarrow> db \<Rightarrow> (error + escrow_report) \<times> db" where
  "escrow_markets gen issue now s targets [] rep d = (Inr rep, d)"
| "escrow_markets gen issue now s targets (mw # mws) rep d =
    (case escrow_market gen issue now s targets mw rep d of
       (Inl e, d1) \<Rightarrow> (Inl e, d1)
     | (Inr rep1, d1) \<Rightarrow> escrow_markets gen issue now s targets mws rep1 d1)"

text \<open>The report beside an error is dropped, as every caller does; what was written stays.\<close>

definition ReconcileEscrow :: "(string \<Rightarrow> string) \<Rightarrow> bool \<Rightarrow> int \<Rightarrow> sim \<Rightarrow> db \<Rightarrow> (error + escrow_report) \<times> db" where
  "ReconcileEscrow gen issue now s d =
    (case MarketCollateral d of
       Inl e \<Rightarrow> (Inl e, d)
     | Inr collateral \<Rightarrow>
     (case InFlightEscrowTargets d of
       Inl e \<Rightarrow> (Inl e, d)
     | Inr targets \<Rightarrow>
     (case escrow_markets gen issue now s targets (sort_key fst collateral)
         \<lparr>er_markets = length collateral, er_synced = 0, er_explained = 0, er_unexplained = 0,
          er_total_ledger = 0, er_total_chain = 0, er_drifts = [], er_issued = 0\<rparr> d of
       (Inl e, d1) \<Rightarrow> (Inl e, d1)
     | (Inr rep, d1) \<Rightarrow>
         (if er_total_chain rep > vs_final_balance (VaultState s) then Inl ErrEscrowExceedsCustody else Inr rep, d1))))"

definition EscrowTick :: "(string \<Rightarrow> string) \<Rightarrow> int \<Rightarrow> sim \<Rightarrow> db \<Rightarrow> (error + nat) \<times> db" where
  "EscrowTick gen now s d =
    (case ReconcileEscrow gen True now s d of
       (Inl e, d1) \<Rightarrow> (Inl e, d1)
     | (Inr rep, d1) \<Rightarrow> (Inr (er_issued rep), d1))"

definition StuckEscrow :: "db \<Rightarrow> escrow_gap list" where
  "StuckEscrow d =
    map (\<lambda>r. \<lparr>eg_market = ed_market r, eg_collateral = ed_want r, eg_on_chain = ed_got r, eg_in_flight = 0,
        eg_misses = ed_misses r, eg_has_in_flight = False, eg_unexplained = i64 (ed_want r - ed_got r)\<rparr>)
      (sort_key ed_market (filter (\<lambda>r. ed_misses r \<ge> EscrowStuckThreshold) (escrow_drift d)))"

end
