(* ===== verification/Reconcile.thy ===== *)
theory Reconcile
  imports Escrow
begin

text \<open>
  The reconciler of \<open>internal/app/reconcile.go\<close>: the ledger's internal total against the vault's
  finalised balance, the three terms that may explain a difference, the healing of lost deposits,
  the halt on a shortfall; and \<open>Quiesce\<close>, which runs every worker until nothing is in flight.
  The time stamp of a report is an argument, a text.
\<close>

section \<open>The report\<close>

record terms =
  tm_withdrawn :: int
  tm_missing :: int
  tm_provisional :: int

definition Sum :: "terms \<Rightarrow> int" where
  "Sum t = i64 (i64 (tm_withdrawn t - tm_missing t) + tm_provisional t)"

record report =
  rp_status :: status
  rp_ledger :: int
  rp_chain :: int
  rp_raw :: int
  rp_explained :: int
  rp_unexplained :: int
  rp_terms :: terms
  rp_in_flight :: nat
  rp_healed :: nat
  rp_note :: string

definition sum_i64 :: "int list \<Rightarrow> int" where
  "sum_i64 xs = foldl (\<lambda>t x. i64 (t + x)) 0 xs"

text \<open>Withdrawals in flight that the chain has finalised; finalised deposits that were never applied.\<close>

definition withdrawn_rows :: "sim \<Rightarrow> intent_row list \<Rightarrow> intent_row list" where
  "withdrawn_rows s rows =
    filter (\<lambda>it. in_kind it = Withdraw \<and> ts_processed (TxStatus (in_id it) s) \<and> ts_finalized (TxStatus (in_id it) s)) rows"

definition missing_facts :: "sim \<Rightarrow> db \<Rightarrow> event list" where
  "missing_facts s d = filter (\<lambda>ev. ev_fact ev \<notin> AppliedFactIDs d) (FinalizedFacts ''deposit'' s)"

definition healed_event :: "event \<Rightarrow> stored_event" where
  "healed_event ev = (stored_of ev)\<lparr>se_market := ''''\<rparr>"

definition status_of :: "int \<Rightarrow> int \<Rightarrow> status" where
  "status_of unexplained explained =
    (if unexplained > 0 then StatusShortfall else if unexplained < 0 then StatusSurplus
     else if explained \<noteq> 0 then StatusExplained else StatusOK)"

definition make_report :: "sim \<Rightarrow> db \<Rightarrow> int \<Rightarrow> int \<Rightarrow> report" where
  "make_report s d ledger provisional =
    (let t = \<lparr>tm_withdrawn = sum_i64 (map in_amount (withdrawn_rows s (InFlight d))),
              tm_missing = sum_i64 (map ev_amount (missing_facts s d)),
              tm_provisional = provisional\<rparr>;
         chain = vs_final_balance (VaultState s);
         raw = i64 (ledger - chain); explained = Sum t; unexplained = i64 (raw - explained)
     in \<lparr>rp_status = status_of unexplained explained, rp_ledger = ledger, rp_chain = chain, rp_raw = raw,
         rp_explained = explained, rp_unexplained = unexplained, rp_terms = t,
         rp_in_flight = length (InFlight d), rp_healed = 0, rp_note = ''''\<rparr>)"

section \<open>Healing and halting\<close>

text \<open>A lost deposit is recorded, applied and marked final; a failing credit is left for later.\<close>

definition heal_one :: "(string \<Rightarrow> string) \<Rightarrow> stored_event \<Rightarrow> nat \<times> db \<Rightarrow> nat \<times> db" where
  "heal_one gen e w =
    (case w of (n, d) \<Rightarrow>
     let d1 = snd (RecordEvent e d)
     in case ApplyDeposit (gen (se_id e)) e d1 of
          Inl err \<Rightarrow> (n, d1)
        | Inr d2 \<Rightarrow> (Suc n, MarkFactFinalized (se_id e) d2))"

definition halt_reason :: "int \<Rightarrow> string \<Rightarrow> string" where
  "halt_reason unexplained stamp = ''unexplained shortfall of '' @ USD unexplained @ '' at '' @ stamp"

definition insert_reconciliation :: "report \<Rightarrow> db \<Rightarrow> db" where
  "insert_reconciliation r d =
    d\<lparr>reconciliations := reconciliations d @
       [\<lparr>re_status = rp_status r, re_ledger_internal = rp_ledger r, re_chain_finalized = rp_chain r,
         re_explained = rp_explained r, re_unexplained = rp_unexplained r\<rparr>]\<rparr>"

text \<open>What follows the arithmetic: heal, halt, record.\<close>

definition finish_report :: "(string \<Rightarrow> string) \<Rightarrow> string \<Rightarrow> event list \<Rightarrow> report \<Rightarrow> db \<Rightarrow> report \<times> db" where
  "finish_report gen stamp missing r d =
    (case fold (heal_one gen) (map healed_event missing) (0, d) of (healed, d1) \<Rightarrow>
     let r1 = r\<lparr>rp_healed := healed,
           rp_note := (if healed > 0 then ''ingested '' @ fmt_d (int healed) @
             '' finalised deposit(s) from chain state after event loss'' else '''')\<rparr>;
         d2 = (if rp_status r = StatusShortfall then Freeze ''*'' (halt_reason (rp_unexplained r) stamp) d1 else d1)
     in (r1, insert_reconciliation r1 d2))"

definition Reconcile :: "(string \<Rightarrow> string) \<Rightarrow> (string list \<Rightarrow> string list) \<Rightarrow> string \<Rightarrow> sim \<Rightarrow> db \<Rightarrow>
    (error + report) \<times> db" where
  "Reconcile gen ord stamp s d =
    (case settleFacts gen ord s d of
       (Some e, d1) \<Rightarrow> (Inl e, d1)
     | (None, d1) \<Rightarrow>
     (case InternalTotal d1 of
       Inl e \<Rightarrow> (Inl e, d1)
     | Inr ledger \<Rightarrow>
     (case UnfinalizedApplied (vs_final_height (VaultState s)) d1 of
       Inl e \<Rightarrow> (Inl e, d1)
     | Inr provisional \<Rightarrow>
         (case finish_report gen stamp (missing_facts s d1) (make_report s d1 ledger provisional) d1 of
            (r, d2) \<Rightarrow> (Inr r, d2)))))"

section \<open>Quiescing\<close>

text \<open>One round's clock, fresh ids and draws, for the miner and for each worker.\<close>

record round_draws =
  rd_now :: int
  rd_gen :: "string \<Rightarrow> string"
  rd_gens :: "string \<Rightarrow> string"
  rd_mine :: mine_draws
  rd_outbox :: "nat \<Rightarrow> rat \<times> rat \<times> bool"
  rd_inbox :: inbox_draws
  rd_stamp :: string

datatype quiesce_result = Quiet | QuiesceFailed error | NotQuiesced

definition no_faults_of :: "faults \<Rightarrow> faults" where
  "no_faults_of f = f\<lparr>fa_submit_error := 0, fa_lost_receipt := 0, fa_duplicate := 0, fa_reorder := 0,
     fa_gap := 0, fa_reorg := 0\<rparr>"

definition work_round :: "round_draws \<Rightarrow> sim \<times> db \<Rightarrow> error option \<times> sim \<times> db" where
  "work_round rd w =
    (case w of (s0, d0) \<Rightarrow>
     (case OutboxTick (rd_now rd) (rd_outbox rd) (Mine (rd_mine rd) s0, d0) of (n, s1, d1) \<Rightarrow>
     (case InboxTick (rd_gen rd) (rd_now rd) (rd_inbox rd) s1 d1 of
       ((n, Some e), d2) \<Rightarrow> (Some e, s1, d2)
     | ((n, None), d2) \<Rightarrow>
     (case ResolverTick (rd_gen rd) (rd_gens rd) (rd_now rd) (s1, d2) of
       ((n, Some e), w3) \<Rightarrow> (Some e, w3)
     | ((n, None), s3, d3) \<Rightarrow>
     (case EscrowTick (rd_gen rd) (rd_now rd) s3 d3 of
       (Inl e, d4) \<Rightarrow> (Some e, s3, d4)
     | (Inr n, d4) \<Rightarrow> (None, s3, d4))))))"

definition at_rest :: "escrow_report \<Rightarrow> int \<Rightarrow> db \<Rightarrow> bool" where
  "at_rest esc provisional d \<longleftrightarrow> InFlight d = [] \<and> PendingEvents 1 d = [] \<and> provisional = 0 \<and>
     er_unexplained esc = 0 \<and> er_explained esc = 0"

fun quiesce_rounds :: "round_draws list \<Rightarrow> sim \<times> db \<Rightarrow> quiesce_result \<times> sim \<times> db" where
  "quiesce_rounds [] w = (NotQuiesced, w)"
| "quiesce_rounds (rd # rds) w =
    (case work_round rd w of
       (Some e, w1) \<Rightarrow> (QuiesceFailed e, w1)
     | (None, s1, d1) \<Rightarrow>
     (case UnfinalizedApplied (vs_final_height (VaultState s1)) d1 of
       Inl e \<Rightarrow> (QuiesceFailed e, s1, d1)
     | Inr provisional \<Rightarrow>
     (case ReconcileEscrow (rd_gen rd) False (rd_now rd) s1 d1 of
       (Inl e, d2) \<Rightarrow> (QuiesceFailed e, s1, d2)
     | (Inr esc, d2) \<Rightarrow>
         if at_rest esc provisional d2 then
           (case Reconcile (rd_gen rd) (id_hashes (rd_inbox rd)) (rd_stamp rd) s1 d2 of
              (Inl e, d3) \<Rightarrow> (QuiesceFailed e, s1, d3)
            | (Inr r, d3) \<Rightarrow> (Quiet, s1, d3))
         else quiesce_rounds rds (s1, d2))))"

text \<open>The faults are switched off for the rounds, one per element of the list, and put back at the end.\<close>

definition Quiesce :: "round_draws list \<Rightarrow> sim \<times> db \<Rightarrow> quiesce_result \<times> sim \<times> db" where
  "Quiesce rds w =
    (case w of (s, d) \<Rightarrow>
     let saved = sm_faults s
     in case quiesce_rounds rds (SetFaults (no_faults_of saved) s, d) of
          (res, s', d') \<Rightarrow> (res, SetFaults saved s', d'))"

end
