(* ===== verification/Coupling.thy ===== *)
theory Coupling
  imports Reconcile
begin

text \<open>
  How the store and the chain belong together. Two ghosts describe a state of both: the finalised
  blocks, and the amount of every deposit by its nonce. \<open>coupled\<close> says that each call on the
  chain is a deposit or carries out an intent with the intent's amount, that recorded events and
  credited facts come from the log, and that what the store calls final is final.
\<close>

section \<open>Names of deposits and intents\<close>

definition dep_id :: "int \<Rightarrow> string" where "dep_id k = ''dep-'' @ fmt_d k"

text \<open>The nonces of the first \<open>n\<close> deposits, and the ids \<open>NewID\<close> makes.\<close>

definition used :: "int \<Rightarrow> string \<Rightarrow> bool" where
  "used n x \<longleftrightarrow> (\<exists>k. 0 < k \<and> k \<le> n \<and> x = dep_id k)"

definition fresh_id :: "string \<Rightarrow> bool" where
  "fresh_id i \<longleftrightarrow> (\<exists>r. i = NewID r)"

lemma dep_id_inj: "0 \<le> j \<Longrightarrow> 0 \<le> k \<Longrightarrow> dep_id j = dep_id k \<Longrightarrow> j = k"
proof -
  assume "0 \<le> j" "0 \<le> k" "dep_id j = dep_id k"
  then have "digits (nat j) = digits (nat k)" by (simp add: dep_id_def fmt_d_def)
  then have "nat j = nat k" by (metis read_digits_digits)
  with \<open>0 \<le> j\<close> \<open>0 \<le> k\<close> show "j = k" by simp
qed

lemma digit_plain: "m < 10 \<Longrightarrow> digit m \<noteq> CHR '':'' \<and> digit m \<noteq> CHR ''@''"
proof -
  have "\<forall>m \<in> set [0..<10]. digit m \<noteq> CHR '':'' \<and> digit m \<noteq> CHR ''@''" by code_simp
  then show "m < 10 \<Longrightarrow> digit m \<noteq> CHR '':'' \<and> digit m \<noteq> CHR ''@''" by simp
qed

lemma used_plain:
  assumes "used n x"
  shows "id_ok x" and "CHR ''@'' \<notin> set x" and "prefix ''dep-'' x"
proof -
  obtain k where k: "0 < k" "x = ''dep-'' @ digits (nat k)"
    using assms by (auto simp: used_def dep_id_def fmt_d_def)
  have "CHR '':'' \<notin> set (digits m)" "CHR ''@'' \<notin> set (digits m)" for m
    using digit_range [of _ m] digit_plain by metis+
  then show "id_ok x" "CHR ''@'' \<notin> set x" by (auto simp: k(2) id_ok_def)
  show "prefix ''dep-'' x" by (simp add: k(2))
qed

lemma used_mono: "used n x \<Longrightarrow> n \<le> m \<Longrightarrow> used m x"
  by (auto simp: used_def)

lemma used_next: "0 \<le> n \<Longrightarrow> \<not> used n (dep_id (n + 1))"
proof
  assume n: "0 \<le> n" and "used n (dep_id (n + 1))"
  then obtain k where "0 < k" "k \<le> n" "dep_id (n + 1) = dep_id k" by (auto simp: used_def)
  with dep_id_inj [of "n + 1" k] n show False by simp
qed

lemma hex_digit_plain: "n < 16 \<Longrightarrow> hex_digit n \<noteq> CHR ''p'' \<and> hex_digit n \<noteq> CHR '':''"
proof -
  have "\<forall>n \<in> set [0..<16]. hex_digit n \<noteq> CHR ''p'' \<and> hex_digit n \<noteq> CHR '':''" by code_simp
  then show "n < 16 \<Longrightarrow> hex_digit n \<noteq> CHR ''p'' \<and> hex_digit n \<noteq> CHR '':''" by simp
qed

lemma fmt_x_no_p: "CHR ''p'' \<notin> set (fmt_x bs)"
proof -
  have "unat b div 16 < 16" for b :: byte
  proof -
    have "unat b < 256" using unsigned_less [of b, where ?'a = nat] by simp
    then show ?thesis by (simp add: less_mult_imp_div_less)
  qed
  then have "hex_digit (unat b div 16) \<noteq> CHR ''p''" "hex_digit (unat b mod 16) \<noteq> CHR ''p''" for b :: byte
    by (simp_all add: hex_digit_plain)
  then show ?thesis by (simp add: fmt_x_def) metis
qed

lemma fresh_id_plain: "fresh_id i \<Longrightarrow> id_ok i \<and> \<not> prefix ''dep-'' i"
proof -
  assume "fresh_id i"
  then obtain r where r: "i = NewID r" by (auto simp: fresh_id_def)
  have "CHR ''p'' \<notin> set i" using fmt_x_no_p by (simp add: r NewID_def Let_def)
  moreover have "CHR ''p'' \<in> set i" if "prefix ''dep-'' i" using set_mono_prefix [OF that] by auto
  ultimately show "id_ok i \<and> \<not> prefix ''dep-'' i" using NewID_id_ok r by blast
qed

lemma block_hash_ok: "CHR '':'' \<notin> set (block_hash w)"
proof -
  have "hex_digit (k mod 16) \<noteq> CHR '':''" for k :: nat by (simp add: hex_digit_plain)
  then show ?thesis unfolding block_hash_def by (auto simp del: One_nat_def) (metis)+
qed

section \<open>Calls, events, rows\<close>

type_synonym intent_view = "(string \<times> intent_kind \<times> int \<times> int) set"

text \<open>What never changes about the intents.\<close>

definition view_row :: "intent_row \<Rightarrow> string \<times> intent_kind \<times> int \<times> int" where
  "view_row r = (in_id r, in_kind r, in_amount r, in_expiry r)"

definition view_of :: "db \<Rightarrow> intent_view" where
  "view_of d = view_row ` set (intents d)"

definition deposit_tx :: "(string \<Rightarrow> int) \<Rightarrow> int \<Rightarrow> tx \<Rightarrow> bool" where
  "deposit_tx amt n t \<longleftrightarrow> tx_kind t = ''deposit'' \<and> used n (tx_nonce t) \<and> tx_amount t = amt (tx_nonce t)"

definition carries_out :: "tx \<Rightarrow> string \<times> intent_kind \<times> int \<times> int \<Rightarrow> bool" where
  "carries_out t v = (case v of (i, k, a, x) \<Rightarrow>
     i = tx_nonce t \<and> (tx_kind t \<noteq> ''cancel'' \<longrightarrow> (tx_kind t = ''withdraw'' \<longleftrightarrow> k = Withdraw) \<and>
       (k = Withdraw \<longrightarrow> tx_amount t = a \<and> tx_expiry t = x)))"

definition intent_tx :: "intent_view \<Rightarrow> tx \<Rightarrow> bool" where
  "intent_tx V t \<longleftrightarrow> tx_kind t \<noteq> ''deposit'' \<and> \<not> prefix ''dep-'' (tx_nonce t) \<and> id_ok (tx_nonce t) \<and> (\<exists>v \<in> V. carries_out t v)"

definition known_tx :: "(string \<Rightarrow> int) \<Rightarrow> int \<Rightarrow> intent_view \<Rightarrow> tx \<Rightarrow> bool" where
  "known_tx amt n V t \<longleftrightarrow> tx_ok t \<and> (deposit_tx amt n t \<or> intent_tx V t)"

definition event_name :: "string \<Rightarrow> string \<Rightarrow> string" where
  "event_name n hash = n @ ''@'' @ hash"

definition known_event :: "(string \<Rightarrow> int) \<Rightarrow> int \<Rightarrow> event \<Rightarrow> bool" where
  "known_event amt n ev \<longleftrightarrow> ev_id ev = event_name (ev_fact ev) (ev_hash ev) \<and> id_ok (ev_id ev) \<and>
     (prefix ''dep-'' (ev_fact ev) \<longrightarrow> used n (ev_fact ev) \<and> ev_amount ev = amt (ev_fact ev) \<and> 0 < ev_amount ev \<and> int64 (ev_amount ev)) \<and>
     (ev_kind ev = ''deposit'' \<longrightarrow> prefix ''dep-'' (ev_fact ev))"

definition known_stored :: "(string \<Rightarrow> int) \<Rightarrow> int \<Rightarrow> stored_event \<Rightarrow> bool" where
  "known_stored amt n e \<longleftrightarrow> se_id e = event_name (se_fact e) (se_hash e) \<and> id_ok (se_id e) \<and> used n (se_fact e) \<and>
     se_amount e = amt (se_fact e) \<and> 0 < se_amount e \<and> int64 (se_amount e)"

definition known_row :: "(string \<Rightarrow> int) \<Rightarrow> int \<Rightarrow> chain_event_row \<Rightarrow> bool" where
  "known_row amt n q \<longleftrightarrow> ce_kind q = ''deposit'' \<longrightarrow> known_stored amt n (read_event q)"

definition final_status :: "int \<Rightarrow> string \<Rightarrow> tx_status" where
  "final_status h x = (included h x)\<lparr>ts_finalized := True\<rparr>"

definition known_fact :: "(string \<Rightarrow> int) \<Rightarrow> sim \<Rightarrow> chain_fact_row \<Rightarrow> bool" where
  "known_fact amt s f \<longleftrightarrow> used (sm_next_deposit s) (cf_fact f) \<and> cf_amount f = amt (cf_fact f) \<and>
     cf_event f = event_name (cf_fact f) (cf_hash f) \<and>
     (cf_finalized f \<and> \<not> cf_reverted f \<longrightarrow> TxStatus (cf_fact f) s = final_status (cf_height f) (cf_hash f))"

definition known_intent :: "sim \<Rightarrow> intent_row \<Rightarrow> bool" where
  "known_intent s r \<longleftrightarrow> \<not> prefix ''dep-'' (in_id r) \<and> id_ok (in_id r) \<and> (in_kind r = Withdraw \<longrightarrow> 0 < in_expiry r) \<and>
     (in_state r = StateConfirmed \<longrightarrow> (\<exists>h x. in_height r = Some h \<and> in_hash r = Some x \<and>
        TxStatus (in_id r) s = final_status h x))"

definition known_payload :: "intent_view \<Rightarrow> outbox_row \<Rightarrow> bool" where
  "known_payload V q \<longleftrightarrow> tx_ok (tx_of_payload (ob_payload q)) \<and> intent_tx V (tx_of_payload (ob_payload q)) \<and>
     tx_kind (tx_of_payload (ob_payload q)) \<noteq> ''cancel''"

section \<open>The invariant\<close>

definition txs_of :: "block list \<Rightarrow> sim \<Rightarrow> tx set" where
  "txs_of hist s = set (sm_mempool s) \<union> (\<Union>b \<in> set (hist @ sm_pending s). set (bl_txs b))"

definition chain_coupled :: "(string \<Rightarrow> int) \<Rightarrow> intent_view \<Rightarrow> block list \<Rightarrow> sim \<Rightarrow> bool" where
  "chain_coupled amt V hist s \<longleftrightarrow> sim_inv hist s \<and> distinct (map bl_hash (hist @ sm_pending s)) \<and>
     0 \<le> sm_next_deposit s \<and> (\<forall>t \<in> txs_of hist s. known_tx amt (sm_next_deposit s) V t) \<and>
     (\<forall>ev \<in> set (sm_log s). known_event amt (sm_next_deposit s) ev)"

definition db_coupled :: "(string \<Rightarrow> int) \<Rightarrow> sim \<Rightarrow> db \<Rightarrow> bool" where
  "db_coupled amt s d \<longleftrightarrow> (\<forall>q \<in> set (outbox d). known_payload (view_of d) q) \<and>
     (\<forall>q \<in> set (chain_events d). known_row amt (sm_next_deposit s) q) \<and>
     (\<forall>f \<in> set (chain_facts d). known_fact amt s f) \<and> (\<forall>r \<in> set (intents d). known_intent s r)"

definition coupled :: "(string \<Rightarrow> int) \<Rightarrow> block list \<Rightarrow> sim \<times> db \<Rightarrow> bool" where
  "coupled amt hist w = (case w of (s, d) \<Rightarrow>
     store_inv d \<and> chain_coupled amt (view_of d) hist s \<and> db_coupled amt s d)"

lemma known_tx_mono: "known_tx amt n V t \<Longrightarrow> V \<subseteq> V' \<Longrightarrow> known_tx amt n V' t"
  by (auto simp: known_tx_def intent_tx_def)

lemma chain_coupled_mono: "chain_coupled amt V hist s \<Longrightarrow> V \<subseteq> V' \<Longrightarrow> chain_coupled amt V' hist s"
  unfolding chain_coupled_def using known_tx_mono by blast

lemma known_payload_mono: "known_payload V q \<Longrightarrow> V \<subseteq> V' \<Longrightarrow> known_payload V' q"
  by (auto simp: known_payload_def intent_tx_def)

section \<open>What mining does to calls and log\<close>

lemma finalize_loop_frame:
  "sm_log (finalize_loop bs s) = sm_log s \<and> sm_mempool (finalize_loop bs s) = sm_mempool s \<and>
   sm_next_deposit (finalize_loop bs s) = sm_next_deposit s"
  by (induction bs arbitrary: s) (simp_all add: finalize_block_eq)

lemma set_Shuffle [simp]: "set (Shuffle dr xs) = set xs"
  by (metis mset_Shuffle set_mset_mset)

lemma reorg_shape:
  obtains keep gone where "sm_pending s = keep @ gone" "sm_pending (reorgLocked raw dr s) = keep"
    "set (sm_mempool (reorgLocked raw dr s)) = set (sm_mempool s) \<union> (\<Union>b \<in> set gone. set (bl_txs b))"
    "sm_log (reorgLocked raw dr s) = mark_orphaned (log_of gone) (sm_log s)"
    "sm_next_deposit (reorgLocked raw dr s) = sm_next_deposit s"
proof -
  define k where "k = length (sm_pending s) - (1 + Intn raw (length (sm_pending s)))"
  show ?thesis
    by (rule that [of "take k (sm_pending s)" "drop k (sm_pending s)"])
       (auto simp: reorgLocked_eq Let_def without_def k_def)
qed

lemma mine_block_shape:
  obtains b where "sm_pending (mine_block hash s) = sm_pending s @ [b]" "bl_hash b = hash"
    "set (bl_txs b) \<subseteq> set (sm_mempool s)" "sm_mempool (mine_block hash s) = []"
    "sm_log (mine_block hash s) = sm_log s @
       map (\<lambda>j. event_of (bl_height b) hash (sm_seq s + 1 + int j) (bl_txs b ! j)) [0..<length (bl_txs b)]"
    "sm_next_deposit (mine_block hash s) = sm_next_deposit s"
proof -
  let ?h = "sm_head s + 1"
  obtain txs rc where fill: "fill_block ?h (sm_mempool s) (headLocked s) (sm_receipts s) = (txs, rc)"
    by (metis surj_pair)
  have acc: "set (accepted execAt cs v) \<subseteq> set cs" for cs v
  proof (induction cs arbitrary: v)
    case (Cons c cs)
    show ?case by (cases "execAt c v") (use Cons in \<open>auto dest: subsetD\<close>)
  qed simp
  have "(\<lambda>t. (t, ?h)) ` set txs \<subseteq> (\<lambda>t. (t, ?h)) ` set (sm_mempool s)"
    using fill_block_calls [of ?h "sm_mempool s" "headLocked s" "sm_receipts s"]
      acc [of "map (\<lambda>t. (t, ?h)) (sm_mempool s)" "headLocked s"] fill by (metis fst_conv set_map)
  then have sub: "set txs \<subseteq> set (sm_mempool s)" by auto
  show ?thesis
    by (rule that [of "\<lparr>bl_height = ?h, bl_hash = hash, bl_txs = txs,
          bl_log = [length (sm_log s)..<length (sm_log s) + length txs]\<rparr>"])
       (use sub fill in \<open>simp_all add: mine_block_def emit_block_eq Let_def\<close>)
qed

text \<open>
  A mined block: the chain loses the blocks \<open>gone\<close> of a reorganisation and gains \<open>b\<close>; its calls
  come from the mempool and from \<open>gone\<close>; the log marks what is gone and grows by the block's events.
\<close>

lemma Mine_shape:
  assumes inv: "sim_inv hist s"
  obtains keep gone b new where "sm_pending s = keep @ gone" "sim_inv (hist @ new) (Mine md s)"
    "(hist @ new) @ sm_pending (Mine md s) = hist @ keep @ [b]" "bl_hash b = block_hash (md_hash md)"
    "set (bl_txs b) \<subseteq> set (sm_mempool s) \<union> (\<Union>c \<in> set gone. set (bl_txs c))" "sm_mempool (Mine md s) = []"
    "sm_next_deposit (Mine md s) = sm_next_deposit s" "quiet md s \<Longrightarrow> gone = []"
    "\<And>ev. ev \<in> set (sm_log (Mine md s)) \<Longrightarrow>
      (\<exists>t n. t \<in> set (bl_txs b) \<and> ev = event_of (bl_height b) (bl_hash b) n t) \<or>
      (\<exists>old \<in> set (sm_log s). ev = old \<or> ev = old\<lparr>ev_kind := ''orphaned''\<rparr>)"
    "sm_trace (Mine md s) = map_option (\<lambda>ls. ls @ trace_lines (calls new)) (sm_trace s)"
proof -
  define re where "re \<longleftrightarrow> sm_pending s \<noteq> [] \<and> hit (fa_reorg (sm_faults s)) (md_reorg md)"
  define s1 where "s1 = (if re then reorgLocked (md_depth md) (md_swap md) s else s)"
  define s2 where "s2 = mine_block (block_hash (md_hash md)) s1"
  obtain keep gone where k: "sm_pending s = keep @ gone" "sm_pending s1 = keep"
    "set (sm_mempool s1) = set (sm_mempool s) \<union> (\<Union>c \<in> set gone. set (bl_txs c))"
    "sm_log s1 = mark_orphaned (log_of gone) (sm_log s)" "sm_next_deposit s1 = sm_next_deposit s" "\<not> re \<Longrightarrow> gone = []"
  proof (cases re)
    case True
    then show ?thesis using that reorg_shape [of s "md_depth md" "md_swap md"] by (simp add: s1_def) metis
  next
    case False
    then show ?thesis by (intro that [of "sm_pending s" "[]"]) (simp_all add: s1_def mark_orphaned_def)
  qed
  have inv1: "sim_inv hist s1" using inv reorgLocked_chain_ok by (simp add: s1_def re_def)
  obtain b where b: "sm_pending s2 = keep @ [b]" "bl_hash b = block_hash (md_hash md)" "set (bl_txs b) \<subseteq> set (sm_mempool s1)"
    "sm_mempool s2 = []" "sm_log s2 = sm_log s1 @ map (\<lambda>j. event_of (bl_height b) (bl_hash b) (sm_seq s1 + 1 + int j) (bl_txs b ! j)) [0..<length (bl_txs b)]"
    "sm_next_deposit s2 = sm_next_deposit s1"
    unfolding s2_def k(2) [symmetric] by (rule mine_block_shape [of "block_hash (md_hash md)" s1]) simp
  from finalize_loop_spec [OF mine_block_chain_ok [OF inv1]] obtain fin where fin: "sm_pending s2 = fin @ sm_pending (finalize_loop (sm_pending s2) s2)"
    "sim_inv (hist @ fin) (finalize_loop (sm_pending s2) s2)"
    "sm_trace (finalize_loop (sm_pending s2) s2) = map_option (\<lambda>ls. ls @ trace_lines (calls fin)) (sm_trace s2)"
    unfolding s2_def by blast
  have tr: "sm_trace s2 = sm_trace s"
    by (simp add: s2_def s1_def mine_block_def Let_def emit_block_eq reorgLocked_eq without_def split: prod.splits)
  have m: "Mine md s = persistLocked (md_written md) (finalize_loop (sm_pending s2) s2)"
    by (simp add: Mine_def Let_def s1_def s2_def re_def)
  have mfr: "sm_log (Mine md s) = sm_log s2" "sm_mempool (Mine md s) = sm_mempool s2"
    "sm_next_deposit (Mine md s) = sm_next_deposit s2"
    using finalize_loop_frame [of "sm_pending s2" s2] by (simp_all add: m persistLocked_def)
  show ?thesis
  proof (rule that [of keep gone fin b])
    show "(hist @ fin) @ sm_pending (Mine md s) = hist @ keep @ [b]" using fin(1) b(1) by (simp add: m)
    show "sim_inv (hist @ fin) (Mine md s)" using fin(2) by (simp add: m)
    show "gone = []" if "quiet md s" using that k(6) by (simp add: quiet_def re_def)
    show "sm_trace (Mine md s) = map_option (\<lambda>ls. ls @ trace_lines (calls fin)) (sm_trace s)"
      using fin(3) by (simp add: m tr persistLocked_def)
    show "(\<exists>t n. t \<in> set (bl_txs b) \<and> ev = event_of (bl_height b) (bl_hash b) n t) \<or>
        (\<exists>old \<in> set (sm_log s). ev = old \<or> ev = old\<lparr>ev_kind := ''orphaned''\<rparr>)" if "ev \<in> set (sm_log (Mine md s))" for ev
    proof -
      have "ev \<in> set (mark_orphaned (log_of gone) (sm_log s)) \<or> (\<exists>j < length (bl_txs b).
          ev = event_of (bl_height b) (bl_hash b) (sm_seq s1 + 1 + int j) (bl_txs b ! j))"
        using that by (auto simp: mfr b(5) k(4))
      then consider (old) "ev \<in> set (mark_orphaned (log_of gone) (sm_log s))"
        | (new) j where "j < length (bl_txs b)" "ev = event_of (bl_height b) (bl_hash b) (sm_seq s1 + 1 + int j) (bl_txs b ! j)"
        by blast
      then show ?thesis
      proof cases
        case old
        then obtain i where "i < length (sm_log s)" "ev = mark_orphaned (log_of gone) (sm_log s) ! i"
          by (auto simp: in_set_conv_nth)
        then show ?thesis using nth_mark_orphaned [of i "sm_log s" "log_of gone"] by (metis nth_mem)
      next
        case new
        then show ?thesis using nth_mem by blast
      qed
    qed
  qed (use k b mfr in simp_all)
qed

lemma mined_positive:
  assumes "sim_inv hist s" and "b \<in> set (hist @ sm_pending s)" "t \<in> set (bl_txs b)" "tx_kind t = ''deposit''"
  shows "0 < tx_amount t"
proof -
  have pos: "0 < tx_amount (fst c)" if "accepted execAt cs v = cs" "c \<in> set cs" "tx_kind (fst c) = ''deposit''" for c cs v
    using that
  proof (induction cs arbitrary: v)
    case (Cons x cs)
    from Cons.prems(1) obtain v' where "execAt x v = Some v'" "accepted execAt cs v' = cs"
      by (rule accepted_Cons_all)
    with Cons deposit_positive [of x v v'] show ?case by auto
  qed simp
  have "(t, bl_height b) \<in> set (calls (hist @ sm_pending s))" using assms(2,3) unfolding set_calls by blast
  with pos [of "calls (hist @ sm_pending s)" newVault "(t, bl_height b)"] assms(1,4) show ?thesis
    by (simp add: chain_ok_def executes_all_def)
qed

section \<open>The chain's steps keep it\<close>

definition agree :: "int \<Rightarrow> (string \<Rightarrow> int) \<Rightarrow> (string \<Rightarrow> int) \<Rightarrow> bool" where
  "agree n amt amt' \<longleftrightarrow> (\<forall>x. used n x \<longrightarrow> amt' x = amt x)"

lemma agree_refl [simp]: "agree n amt amt" by (simp add: agree_def)

lemma known_later:
  assumes "agree n amt amt'" and "n \<le> m"
  shows "known_tx amt n V t \<Longrightarrow> known_tx amt' m V t" and "known_event amt n ev \<Longrightarrow> known_event amt' m ev"
    and "known_row amt n q \<Longrightarrow> known_row amt' m q" and "known_stored amt n e \<Longrightarrow> known_stored amt' m e"
  using assms used_mono [of n _ m]
  by (auto simp: known_tx_def deposit_tx_def known_event_def known_row_def known_stored_def agree_def)

lemma final_status_stays:
  assumes "sim_inv hist s" "sim_inv (hist @ new) s'" "TxStatus i s = final_status h x"
  shows "TxStatus i s' = final_status h x"
  using finalized_stays [OF assms(1,2), of i] assms(3) by (simp add: final_status_def included_def)

lemma db_coupled_later:
  assumes "chain_coupled amt V hist s" and "sim_inv (hist @ new) s'"
    and "agree (sm_next_deposit s) amt amt'" "sm_next_deposit s \<le> sm_next_deposit s'" and db: "db_coupled amt s d"
  shows "db_coupled amt' s' d"
proof -
  have inv: "sim_inv hist s" using assms(1) by (simp add: chain_coupled_def)
  have "known_fact amt' s' f" if "known_fact amt s f" for f
    using that final_status_stays [OF inv assms(2)] used_mono [OF _ assms(4)] assms(3)
    by (simp add: known_fact_def agree_def)
  moreover have "known_intent s' r" if "known_intent s r" for r
    using that final_status_stays [OF inv assms(2)] by (auto simp: known_intent_def)
  ultimately show ?thesis
    using db known_later(3) [OF assms(3,4)] by (simp add: db_coupled_def)
qed

lemma mempool_coupled:
  assumes "chain_coupled amt V hist s" and "known_tx amt (sm_next_deposit s) V t"
  shows "chain_coupled amt V hist (s\<lparr>sm_mempool := sm_mempool s @ [t]\<rparr>)"
  using assms by (auto simp: chain_coupled_def txs_of_def chain_ok_def)

lemma persist_coupled [simp]: "chain_coupled amt V hist (persistLocked w s) = chain_coupled amt V hist s"
  by (simp add: chain_coupled_def txs_of_def persistLocked_def chain_ok_def)

lemma Submit_coupled:
  assumes "chain_coupled amt V hist s" and "known_tx amt (sm_next_deposit s) V t"
  shows "chain_coupled amt V hist (snd (Submit u1 u2 w t s)) \<and>
    sm_next_deposit (snd (Submit u1 u2 w t s)) = sm_next_deposit s"
proof -
  have "chain_coupled amt V hist (persistLocked w (s\<lparr>sm_mempool := sm_mempool s @ [t]\<rparr>))"
    using mempool_coupled [OF assms] by simp
  then show ?thesis using assms(1) by (simp add: Submit_def Let_def) (simp add: persistLocked_def)
qed

lemma Cancel_coupled:
  assumes "chain_coupled amt V hist s" and "known_tx amt (sm_next_deposit s) V (cancel_tx i x)"
  shows "chain_coupled amt V hist (snd (Cancel i x s)) \<and> sm_next_deposit (snd (Cancel i x s)) = sm_next_deposit s"
  using assms mempool_coupled [OF assms] by (simp add: Cancel_def)

lemma SetFaults_coupled:
  "chain_coupled amt V hist s \<Longrightarrow> chain_coupled amt V hist (SetFaults f s) \<and> sm_next_deposit (SetFaults f s) = sm_next_deposit s"
  by (auto simp: chain_coupled_def txs_of_def SetFaults_def chain_ok_def)

lemma Deposit_coupled:
  assumes cc: "chain_coupled amt V hist s" and "int64 amount"
  defines "amt' \<equiv> amt(dep_id (sm_next_deposit s + 1) := amount)"
  shows "chain_coupled amt' V hist (snd (Deposit user amount s))"
    and "agree (sm_next_deposit s) amt amt'"
    and "sm_next_deposit (snd (Deposit user amount s)) = sm_next_deposit s + 1"
proof -
  let ?n = "sm_next_deposit s"
  have n: "0 \<le> ?n" using cc by (simp add: chain_coupled_def)
  show ag: "agree ?n amt amt'" using used_next [OF n] by (auto simp: agree_def amt'_def)
  show nd: "sm_next_deposit (snd (Deposit user amount s)) = ?n + 1" by (simp add: Deposit_def Let_def)
  note later = known_later [OF ag, of "?n + 1"]
  have "used (?n + 1) (dep_id (?n + 1))" using n unfolding used_def by (intro exI [of _ "?n + 1"]) simp
  then have "known_tx amt' (?n + 1) V \<lparr>tx_nonce = dep_id (?n + 1), tx_kind = ''deposit'', tx_user = user, tx_amount = amount,
      tx_market = '''', tx_target = 0, tx_outcome = 0, tx_expiry = 0\<rparr>"
    using assms(2) by (simp add: known_tx_def tx_ok_def deposit_tx_def amt'_def)
  then show "chain_coupled amt' V hist (snd (Deposit user amount s))"
    using cc later by (auto simp: chain_coupled_def txs_of_def chain_ok_def Deposit_def Let_def dep_id_def)
qed

lemma Mine_coupled:
  assumes cc: "chain_coupled amt V hist s" and fresh: "block_hash (md_hash md) \<notin> ran (sm_hash_at s)"
  shows "\<exists>new. chain_coupled amt V (hist @ new) (Mine md s)" and "sm_next_deposit (Mine md s) = sm_next_deposit s"
proof -
  have inv: "sim_inv hist s" and dist: "distinct (map bl_hash (hist @ sm_pending s))" and n: "0 \<le> sm_next_deposit s"
    and txs: "\<And>t. t \<in> txs_of hist s \<Longrightarrow> known_tx amt (sm_next_deposit s) V t"
    and lg: "\<And>ev. ev \<in> set (sm_log s) \<Longrightarrow> known_event amt (sm_next_deposit s) ev"
    using cc by (simp_all add: chain_coupled_def)
  show nd: "sm_next_deposit (Mine md s) = sm_next_deposit s" using Mine_shape [OF inv, of md] by metis
  from inv obtain keep gone b new where sh: "sm_pending s = keep @ gone" "sim_inv (hist @ new) (Mine md s)"
    "(hist @ new) @ sm_pending (Mine md s) = hist @ keep @ [b]" "bl_hash b = block_hash (md_hash md)"
    "set (bl_txs b) \<subseteq> set (sm_mempool s) \<union> (\<Union>c \<in> set gone. set (bl_txs c))" "sm_mempool (Mine md s) = []"
    "\<And>ev. ev \<in> set (sm_log (Mine md s)) \<Longrightarrow>
      (\<exists>t n. t \<in> set (bl_txs b) \<and> ev = event_of (bl_height b) (bl_hash b) n t) \<or>
      (\<exists>old \<in> set (sm_log s). ev = old \<or> ev = old\<lparr>ev_kind := ''orphaned''\<rparr>)"
    by (rule Mine_shape [of hist s md]) blast
  have sub: "txs_of (hist @ new) (Mine md s) \<subseteq> txs_of hist s"
    using sh(1,5,6) unfolding txs_of_def sh(3) by auto
  have "bl_hash c \<noteq> bl_hash b" if "c \<in> set (hist @ keep)" for c
  proof
    assume "bl_hash c = bl_hash b"
    moreover have "sm_hash_at s (bl_height c) = Some (bl_hash c)"
      using inv that sh(1) by (auto simp: chain_ok_def hashes_ok_def)
    ultimately show False using fresh sh(4) by (metis ranI)
  qed
  then have "distinct (map bl_hash (hist @ keep @ [b]))" using dist sh(1)
    by (auto simp: image_iff) metis+
  moreover have "known_event amt (sm_next_deposit s) ev" if ev: "ev \<in> set (sm_log (Mine md s))" for ev
    using sh(7) [OF ev]
  proof (elim disjE exE conjE bexE)
    fix t k assume t: "t \<in> set (bl_txs b)" and e: "ev = event_of (bl_height b) (bl_hash b) k t"
    have kt: "known_tx amt (sm_next_deposit s) V t" using t sh(1,5) by (intro txs) (auto simp: txs_of_def)
    have b: "b \<in> set ((hist @ new) @ sm_pending (Mine md s))" unfolding sh(3) by simp
    have "0 < tx_amount t" if "tx_kind t = ''deposit''" by (rule mined_positive [OF sh(2) b t that])
    moreover have "id_ok (tx_nonce t)" using kt used_plain(1) by (auto simp: known_tx_def deposit_tx_def intent_tx_def)
    ultimately show ?thesis
      using kt used_plain(3) block_hash_ok
      by (auto simp: known_tx_def deposit_tx_def intent_tx_def known_event_def e event_of_def event_name_def id_ok_def sh(4)
          tx_ok_def evKind_def split: if_splits)
  next
    fix old assume o: "old \<in> set (sm_log s)" "ev = old"
    then show ?thesis using lg by simp
  next
    fix old assume o: "old \<in> set (sm_log s)" "ev = old\<lparr>ev_kind := ''orphaned''\<rparr>"
    then show ?thesis using lg [OF o(1)] by (auto simp: known_event_def)
  qed
  ultimately show "\<exists>new. chain_coupled amt V (hist @ new) (Mine md s)"
    using sh(2,3) n txs sub unfolding chain_coupled_def nd by (metis subsetD)
qed

end
