(* ===== verification/Feed.thy ===== *)
theory Feed
  imports Core
begin

text \<open>
  The price cache of \<open>internal/pricefeed/feed.go\<close>: the in-memory feed, and the Redis feed with its
  RESP writer and reader. The Redis server is a parameter, a function from the bytes of a request to
  the bytes it answers with; a failing connection answers nothing. The contract of a cache that the
  workers rely on is the locale \<open>price_cache\<close>.
\<close>

section \<open>In memory\<close>

record mem_feed =
  mf_marks :: "string \<rightharpoonup> int"
  mf_leases :: "string \<rightharpoonup> int"

definition NewMemory :: mem_feed where
  "NewMemory = \<lparr>mf_marks = Map.empty, mf_leases = Map.empty\<rparr>"

definition mem_Publish :: "string \<Rightarrow> int \<Rightarrow> mem_feed \<Rightarrow> mem_feed" where
  "mem_Publish i mark m = m\<lparr>mf_marks := (mf_marks m)(i \<mapsto> mark)\<rparr>"

definition mem_Marks :: "mem_feed \<Rightarrow> (string \<rightharpoonup> int)" where
  "mem_Marks m = mf_marks m"

text \<open>The clock is read once to test a lease and again to grant one.\<close>

definition mem_Lease :: "string \<Rightarrow> int \<Rightarrow> int \<Rightarrow> int \<Rightarrow> mem_feed \<Rightarrow> bool \<times> mem_feed" where
  "mem_Lease key ttl now now' m =
    (if (case mf_leases m key of None \<Rightarrow> False | Some e \<Rightarrow> now < e) then (False, m)
     else (True, m\<lparr>mf_leases := (mf_leases m)(key \<mapsto> now' + ttl)\<rparr>))"

section \<open>Numbers\<close>

definition is_digit :: "char \<Rightarrow> bool" where
  "is_digit c \<longleftrightarrow> 48 \<le> (of_char c :: nat) \<and> (of_char c :: nat) \<le> 57"

definition parse_digits :: "string \<Rightarrow> nat option" where
  "parse_digits s = (if s \<noteq> [] \<and> list_all is_digit s then Some (read_digits s) else None)"

definition parse_signed :: "string \<Rightarrow> int option" where
  "parse_signed s =
    (case s of
       [] \<Rightarrow> None
     | c # cs \<Rightarrow>
         if c = CHR ''+'' then map_option int (parse_digits cs)
         else if c = CHR ''-'' then map_option (\<lambda>n. - int n) (parse_digits cs)
         else map_option int (parse_digits s))"

definition ParseInt :: "string \<Rightarrow> int option" where
  "ParseInt s = (case parse_signed s of None \<Rightarrow> None | Some v \<Rightarrow> if int64 v then Some v else None)"

text \<open>The value \<open>strconv.Atoi\<close> returns beside an error the reader ignores.\<close>

definition Atoi_value :: "string \<Rightarrow> int" where
  "Atoi_value s =
    (case parse_signed s of
       None \<Rightarrow> 0
     | Some v \<Rightarrow> if v > 9223372036854775807 then 9223372036854775807
         else if v < - 9223372036854775808 then - 9223372036854775808 else v)"

section \<open>The RESP protocol\<close>

definition CRLF :: string where "CRLF = [CHR 0x0D, CHR 0x0A]"

definition bulk :: "string \<Rightarrow> string" where
  "bulk a = ''$'' @ fmt_d (int (length a)) @ CRLF @ a @ CRLF"

definition request :: "string list \<Rightarrow> string" where
  "request args = ''*'' @ fmt_d (int (length args)) @ CRLF @ concat (map bulk args)"

datatype reply = RNil | RStr string | RInt int | RArr "reply list"

datatype feed_error = FEOF | FEmptyReply | FServer string | FBadNumber string | FBadPrefix char | FMakePanic | FNoConnection

text \<open>\<open>ReadString\<close> up to a newline, and \<open>TrimRight\<close> of carriage returns and newlines.\<close>

definition read_line :: "string \<Rightarrow> (string \<times> string) option" where
  "read_line inp =
    (case dropWhile (\<lambda>c. c \<noteq> CHR 0x0A) inp of
       [] \<Rightarrow> None
     | nl # rest \<Rightarrow> Some (takeWhile (\<lambda>c. c \<noteq> CHR 0x0A) inp @ [nl], rest))"

definition trim_right :: "string \<Rightarrow> string" where
  "trim_right s = rev (dropWhile (\<lambda>c. c = CHR 0x0D \<or> c = CHR 0x0A) (rev s))"

text \<open>\<open>make\<close> panics for a size that wraps, or beyond the 48 bits of address space.\<close>

definition can_make :: "int \<Rightarrow> int \<Rightarrow> bool" where
  "can_make n width \<longleftrightarrow> 0 \<le> n \<and> n * width \<le> 281474976710656"

definition read_bulk :: "int \<Rightarrow> string \<Rightarrow> feed_error + (reply \<times> string)" where
  "read_bulk n rest =
    (if n < 0 then Inr (RNil, rest)
     else if \<not> can_make (i64 (n + 2)) 1 then Inl FMakePanic
     else if int (length rest) < n + 2 then Inl FEOF
     else Inr (RStr (take (nat n) rest), drop (nat n + 2) rest))"

text \<open>
  \<open>readReply\<close> up to its recursion: a line is a whole reply, or announces the elements of an array.
\<close>

datatype head = Whole "feed_error + (reply \<times> string)" | Items int string

definition read_head :: "string \<Rightarrow> head" where
  "read_head inp =
    (case read_line inp of
       None \<Rightarrow> Whole (Inl FEOF)
     | Some (l, rest) \<Rightarrow>
       (case trim_right l of
          [] \<Rightarrow> Whole (Inl FEmptyReply)
        | c # cs \<Rightarrow>
            if c = CHR ''+'' then Whole (Inr (RStr cs, rest))
            else if c = CHR ''-'' then Whole (Inl (FServer cs))
            else if c = CHR '':'' then
              Whole (case ParseInt cs of None \<Rightarrow> Inl (FBadNumber cs) | Some v \<Rightarrow> Inr (RInt v, rest))
            else if c = CHR ''$'' then Whole (read_bulk (Atoi_value cs) rest)
            else if c = CHR ''*'' then
              (let n = Atoi_value cs in
               if n < 0 then Whole (Inr (RNil, rest))
               else if \<not> can_make n 16 then Whole (Inl FMakePanic)
               else Items n rest)
            else Whole (Inl (FBadPrefix c))))"

text \<open>
  A reply in front of the rest of the stream. The recursion consumes the stream, but through its own
  results, so it runs on fuel; \<open>readReply\<close> gives it enough.
\<close>

fun read_reply :: "nat \<Rightarrow> string \<Rightarrow> (feed_error + (reply \<times> string)) option"
and read_items :: "nat \<Rightarrow> int \<Rightarrow> string \<Rightarrow> (feed_error + (reply list \<times> string)) option" where
  "read_reply 0 inp = None"
| "read_reply (Suc k) inp =
    (case read_head inp of
       Whole r \<Rightarrow> Some r
     | Items n rest \<Rightarrow>
         (case read_items k n rest of
            None \<Rightarrow> None
          | Some (Inl e) \<Rightarrow> Some (Inl e)
          | Some (Inr (vs, rest')) \<Rightarrow> Some (Inr (RArr vs, rest'))))"
| "read_items 0 n inp = None"
| "read_items (Suc k) n inp =
    (if n \<le> 0 then Some (Inr ([], inp))
     else case read_reply k inp of
        None \<Rightarrow> None
      | Some (Inl e) \<Rightarrow> Some (Inl e)
      | Some (Inr (v, rest)) \<Rightarrow>
          (case read_items k (n - 1) rest of
             None \<Rightarrow> None
           | Some (Inl e) \<Rightarrow> Some (Inl e)
           | Some (Inr (vs, rest')) \<Rightarrow> Some (Inr (v # vs, rest'))))"

definition readReply :: "string \<Rightarrow> feed_error + (reply \<times> string)" where
  "readReply inp = (case read_reply (length inp + 1) inp of None \<Rightarrow> Inl FEOF | Some r \<Rightarrow> r)"

section \<open>Redis\<close>

text \<open>
  The server answers a request with bytes, or with nothing when it cannot be dialled or written to.
  The client keeps what it has not read of the connection, and drops the connection on an error.
\<close>

type_synonym 's server = "'s \<Rightarrow> string \<Rightarrow> string option \<times> 's"
type_synonym 's redis = "string option \<times> 's"

definition unread :: "string option \<Rightarrow> string" where
  "unread conn = (case conn of None \<Rightarrow> [] | Some buf \<Rightarrow> buf)"

definition redis_do :: "'s server \<Rightarrow> string list \<Rightarrow> 's redis \<Rightarrow> (feed_error + reply) \<times> 's redis" where
  "redis_do srv args r =
    (case srv (snd r) (request args) of
       (None, s) \<Rightarrow> (Inl FNoConnection, (None, s))
     | (Some bytes, s) \<Rightarrow>
         (case readReply (unread (fst r) @ bytes) of
            Inl e \<Rightarrow> (Inl e, (None, s))
          | Inr (v, rest) \<Rightarrow> (Inr v, (Some rest, s))))"

definition marks_key :: string where "marks_key = ''pmr:marks''"

definition redis_Publish :: "'s server \<Rightarrow> string \<Rightarrow> int \<Rightarrow> 's redis \<Rightarrow> feed_error option \<times> 's redis" where
  "redis_Publish srv i mark r =
    (case redis_do srv [''HSET'', marks_key, i, fmt_d mark] r of
       (Inl e, r') \<Rightarrow> (Some e, r')
     | (Inr _, r') \<Rightarrow> (None, r'))"

definition reply_text :: "reply \<Rightarrow> string" where
  "reply_text v = (case v of RStr s \<Rightarrow> s | _ \<Rightarrow> [])"

text \<open>Key and value alternate; a value that is no 64-bit number is skipped.\<close>

fun pair_marks :: "reply list \<Rightarrow> (string \<rightharpoonup> int) \<Rightarrow> (string \<rightharpoonup> int)" where
  "pair_marks (k # v # rs) out =
    pair_marks rs (case ParseInt (reply_text v) of None \<Rightarrow> out | Some n \<Rightarrow> out(reply_text k \<mapsto> n))"
| "pair_marks _ out = out"

definition redis_Marks :: "'s server \<Rightarrow> 's redis \<Rightarrow> (feed_error + (string \<rightharpoonup> int)) \<times> 's redis" where
  "redis_Marks srv r =
    (case redis_do srv [''HGETALL'', marks_key] r of
       (Inl e, r') \<Rightarrow> (Inl e, r')
     | (Inr v, r') \<Rightarrow> (Inr (pair_marks (case v of RArr vs \<Rightarrow> vs | _ \<Rightarrow> []) Map.empty), r'))"

text \<open>Without Redis every lease is granted.\<close>

definition redis_Lease :: "'s server \<Rightarrow> string \<Rightarrow> int \<Rightarrow> 's redis \<Rightarrow> bool \<times> 's redis" where
  "redis_Lease srv key ttl r =
    (case redis_do srv [''SET'', ''pmr:lease:'' @ key, ''1'', ''NX'', ''PX'', fmt_d ttl] r of
       (Inl e, r') \<Rightarrow> (True, r')
     | (Inr v, r') \<Rightarrow> (reply_text v = ''OK'', r'))"

section \<open>Printing and reading numbers\<close>

lemma digit_is_digit: "m < 10 \<Longrightarrow> is_digit (digit m)"
  by (simp add: is_digit_def of_char_digit)

lemma digits_are_digits: "list_all is_digit (digits n) \<and> digits n \<noteq> []"
proof -
  have "list_all is_digit (digits n)" using digit_range [of _ n] digit_is_digit by (auto simp: list_all_iff)
  moreover have "digits n \<noteq> []" by (subst digits.simps) simp
  ultimately show ?thesis by simp
qed

lemma parse_digits_digits: "parse_digits (digits n) = Some n"
  using digits_are_digits [of n] by (simp add: parse_digits_def read_digits_digits)

lemma parse_signed_fmt_d: "parse_signed (fmt_d i) = Some i"
proof (cases "i < 0")
  case True
  then show ?thesis by (simp add: parse_signed_def fmt_d_def parse_digits_digits)
next
  case False
  obtain c cs where d: "digits (nat i) = c # cs" using digits_are_digits [of "nat i"] by (cases "digits (nat i)") auto
  then have "is_digit c" using digits_are_digits [of "nat i"] by simp
  then have "c \<noteq> CHR ''+''" "c \<noteq> CHR ''-''" by (auto simp: is_digit_def)
  with False d show ?thesis using parse_digits_digits [of "nat i"] by (simp add: parse_signed_def fmt_d_def)
qed

lemma ParseInt_fmt_d: "int64 i \<Longrightarrow> ParseInt (fmt_d i) = Some i"
  by (simp add: ParseInt_def parse_signed_fmt_d)

lemma Atoi_fmt_d: "int64 i \<Longrightarrow> Atoi_value (fmt_d i) = i"
  by (simp add: Atoi_value_def parse_signed_fmt_d int64_def)

section \<open>The reader ends\<close>

lemma read_line_parts: "read_line inp = Some (l, rest) \<Longrightarrow> inp = l @ rest \<and> l \<noteq> []"
  using takeWhile_dropWhile_id [of "\<lambda>c. c \<noteq> CHR 0x0A" inp]
  by (auto simp: read_line_def simp del: takeWhile_dropWhile_id split: list.splits)

lemma trim_right_end: "trim_right (s @ [CHR 0x0A]) = trim_right s"
  by (simp add: trim_right_def)

lemma read_line_two:
  assumes "read_line inp = Some (l, rest)" and "trim_right l = c # cs"
  shows "length rest + 2 \<le> length inp"
proof -
  from assms(1) obtain s nl where l: "l = s @ [nl]" and nl: "nl = CHR 0x0A"
    by (auto simp: read_line_def dropWhile_eq_Cons_conv split: list.splits)
  with assms(2) have "s \<noteq> []" by (auto simp: trim_right_def)
  with l read_line_parts [OF assms(1)] show ?thesis by (cases s) auto
qed

lemma read_bulk_rest: "read_bulk n rest = Inr (v, rest') \<Longrightarrow> length rest' \<le> length rest"
  by (auto simp: read_bulk_def split: if_splits)

lemma read_head_rest:
  shows "read_head inp = Whole (Inr (v, rest)) \<Longrightarrow> length rest + 2 \<le> length inp"
    and "read_head inp = Items n rest \<Longrightarrow> length rest + 2 \<le> length inp \<and> 0 \<le> n"
  by (fastforce simp: read_head_def Let_def split: option.splits prod.splits list.splits if_splits
      dest: read_line_two read_bulk_rest)+

lemma reader_consumes:
  shows "read_reply k inp = Some (Inr (v, rest)) \<Longrightarrow> length rest + 2 \<le> length inp"
    and "read_items k n inp = Some (Inr (vs, rest)) \<Longrightarrow> length rest \<le> length inp"
proof (induction k inp and k n inp arbitrary: v rest and vs rest rule: read_reply_read_items.induct)
  case (2 k inp)
  then show ?case
    by (fastforce split: head.splits option.splits sum.splits dest: read_head_rest)
next
  case (4 k n inp)
  then show ?case by (fastforce split: option.splits prod.splits if_splits sum.splits)
qed auto

lemma reader_ends:
  "(\<forall>inp. length inp + 1 \<le> k \<longrightarrow> read_reply k inp \<noteq> None) \<and>
   (\<forall>n inp. length inp + 2 \<le> k \<longrightarrow> read_items k n inp \<noteq> None)"
proof (induction k)
  case (Suc k)
  have reply: "read_reply (Suc k) inp \<noteq> None" if "length inp \<le> k" for inp
  proof (cases "read_head inp")
    case (Items n rest)
    then have "read_items k n rest \<noteq> None" using Suc.IH read_head_rest(2) that by fastforce
    with Items show ?thesis by (auto split: option.splits sum.splits)
  qed simp
  have items: "read_items (Suc k) n inp \<noteq> None" if len: "length inp + 1 \<le> k" for n inp
  proof -
    have "read_reply k inp \<noteq> None" using Suc.IH len by auto
    moreover have "read_items k (n - 1) rest \<noteq> None" if "read_reply k inp = Some (Inr (v, rest))" for v rest
      using Suc.IH reader_consumes(1) [OF that] len by auto
    ultimately show ?thesis by (auto split: option.splits sum.splits)
  qed
  show ?case using reply items by auto
qed simp

lemma reader_fuel:
  "(\<forall>inp r. read_reply k inp = Some r \<longrightarrow> read_reply (Suc k) inp = Some r) \<and>
   (\<forall>n inp r. read_items k n inp = Some r \<longrightarrow> read_items (Suc k) n inp = Some r)"
proof (induction k)
  case (Suc k)
  then have reply: "read_reply k inp = Some r \<Longrightarrow> read_reply (Suc k) inp = Some r"
    and items: "read_items k n inp = Some r' \<Longrightarrow> read_items (Suc k) n inp = Some r'" for n inp r r'
    by blast+
  have items': "read_items (Suc k) n inp = read_items k n inp" if "read_items k n inp \<noteq> None" for n inp
    using that items by fastforce
  have "read_reply (Suc (Suc k)) inp = Some r" if "read_reply (Suc k) inp = Some r" for inp r
    using that by (auto simp: read_reply.simps(2) [of "Suc k"] simp del: read_items.simps
      split: head.splits option.splits sum.splits dest: items)
  moreover have "read_items (Suc (Suc k)) n inp = Some r" if *: "read_items (Suc k) n inp = Some r" for n inp r
  proof (cases "n \<le> 0")
    case False
    with * obtain x where x: "read_reply k inp = Some x" by (auto split: option.splits)
    show ?thesis
      unfolding read_items.simps(2) [of "Suc k"] reply [OF x]
      using * [unfolded read_items.simps(2) [of k]] False x
      by (auto simp: items' simp del: read_items.simps split: option.splits sum.splits)
  qed (use * in simp)
  ultimately show ?case by blast
qed simp

lemma reader_more_fuel:
  assumes "read_reply k inp = Some r" and "k \<le> k'"
  shows "read_reply k' inp = Some r"
  using assms(2,1) by (induction k' rule: dec_induct) (use reader_fuel in blast)+

lemma readReply_fuel: "length inp < k \<Longrightarrow> read_reply k inp = Some (readReply inp)"
  using reader_ends [of "length inp + 1"] reader_more_fuel [of "length inp + 1" inp _ k]
  by (auto simp: readReply_def)

section \<open>Writer and reader\<close>

lemma digit_no_newline: "c \<in> set (digits n) \<Longrightarrow> c \<noteq> CHR 0x0A \<and> c \<noteq> CHR 0x0D"
  using digits_are_digits [of n] by (auto simp: list_all_iff is_digit_def)

lemma fmt_d_no_newline: "c \<in> set (fmt_d i) \<Longrightarrow> c \<noteq> CHR 0x0A \<and> c \<noteq> CHR 0x0D"
  using digit_no_newline by (auto simp: fmt_d_def split: if_splits)

lemma read_line_CRLF:
  assumes "\<forall>c\<in>set s. c \<noteq> CHR 0x0A"
  shows "read_line (s @ CRLF @ rest) = Some (s @ CRLF, rest)"
  using assms by (simp add: read_line_def CRLF_def takeWhile_append dropWhile_append)

lemma trim_right_CRLF:
  assumes "\<forall>c\<in>set s. c \<noteq> CHR 0x0A \<and> c \<noteq> CHR 0x0D"
  shows "trim_right (s @ CRLF) = s"
  using assms by (cases s rule: rev_cases) (auto simp: trim_right_def CRLF_def)

lemma read_line_number:
  assumes "c \<noteq> CHR 0x0A" and "c \<noteq> CHR 0x0D"
  shows "\<exists>l. read_line (c # fmt_d i @ CRLF @ rest) = Some (l, rest) \<and> trim_right l = c # fmt_d i"
proof -
  have "\<forall>x\<in>set (c # fmt_d i). x \<noteq> CHR 0x0A \<and> x \<noteq> CHR 0x0D" using assms fmt_d_no_newline by auto
  then show ?thesis using read_line_CRLF [of "c # fmt_d i" rest] trim_right_CRLF [of "c # fmt_d i"] by auto
qed

text \<open>Strings and arrays of a length Go can allocate.\<close>

definition fits :: "string \<Rightarrow> bool" where
  "fits a \<longleftrightarrow> length a \<le> 281474976710654"

lemma read_head_bulk: "fits a \<Longrightarrow> read_head (bulk a @ rest) = Whole (Inr (RStr a, rest))"
  using read_line_number [of "CHR ''$''" "int (length a)" "a @ CRLF @ rest"]
  by (auto simp: bulk_def read_head_def fits_def read_bulk_def can_make_def Atoi_fmt_d int64_def CRLF_def)

lemma read_bulks:
  assumes "list_all fits args" and "length args < k"
  shows "read_items k (int (length args)) (concat (map bulk args) @ rest) = Some (Inr (map RStr args, rest))"
  using assms
proof (induction args arbitrary: k)
  case Nil
  then show ?case by (cases k) auto
next
  case (Cons a args)
  then obtain j where k: "k = Suc (Suc j)" by (cases k; cases "k - 1") auto
  have "read_reply (Suc j) (bulk a @ concat (map bulk args) @ rest) = Some (Inr (RStr a, concat (map bulk args) @ rest))"
    using Cons.prems by (simp add: read_head_bulk)
  moreover have "read_items (Suc j) (int (length args)) (concat (map bulk args) @ rest) = Some (Inr (map RStr args, rest))"
    using Cons.IH [of "Suc j"] Cons.prems k by (simp del: read_items.simps)
  ultimately show ?case by (simp add: k read_items.simps(2) [of "Suc j"] del: read_reply.simps read_items.simps)
qed

lemma read_head_request:
  "length args \<le> 17592186044416 \<Longrightarrow>
   read_head (request args @ rest) = Items (int (length args)) (concat (map bulk args) @ rest)"
  using read_line_number [of "CHR ''*''" "int (length args)" "concat (map bulk args) @ rest"]
  by (auto simp: request_def read_head_def can_make_def Atoi_fmt_d int64_def)

lemma request_length: "length args < length (request args)"
proof -
  have "length args \<le> length (concat (map bulk args))" by (induction args) (auto simp: bulk_def)
  then show ?thesis by (simp add: request_def)
qed

lemma readReply_request:
  assumes "list_all fits args" and "length args \<le> 17592186044416"
  shows "readReply (request args @ rest) = Inr (RArr (map RStr args), rest)"
proof -
  have "length args < length (request args @ rest)" using request_length [of args] by simp
  then show ?thesis using assms by (simp add: readReply_def read_head_request read_bulks)
qed

lemma readReply_whole: "read_head inp = Whole r \<Longrightarrow> readReply inp = r"
  by (simp add: readReply_def)

section \<open>Leases\<close>

text \<open>A call for a lease: its key, its duration and the two readings of the clock.\<close>

type_synonym lease_call = "string \<times> int \<times> int \<times> int"

definition lease_step :: "lease_call \<Rightarrow> mem_feed \<Rightarrow> mem_feed" where
  "lease_step c m = (case c of (key, ttl, now, now') \<Rightarrow> snd (mem_Lease key ttl now now' m))"

lemma lease_kept:
  assumes "mf_leases m key = Some e" and "\<forall>(k, ttl, now, now')\<in>set calls. now < e"
  shows "mf_leases (fold lease_step calls m) key = Some e"
  using assms
proof (induction calls arbitrary: m)
  case (Cons c calls)
  obtain k ttl now now' where c: "c = (k, ttl, now, now')" by (cases c) auto
  with Cons.prems have "mf_leases (lease_step c m) key = Some e" by (auto simp: lease_step_def mem_Lease_def)
  then show ?case using Cons by simp
qed simp

lemma lease_is_exclusive:
  assumes "mem_Lease key ttl now now' m = (True, m1)"
    and "\<forall>(k, d, t, t')\<in>set calls. t < now' + ttl" and "s < now' + ttl"
  shows "fst (mem_Lease key ttl2 s s' (fold lease_step calls m1)) = False"
proof -
  have "mf_leases m1 key = Some (now' + ttl)" using assms(1) by (auto simp: mem_Lease_def split: if_splits)
  from lease_kept [OF this assms(2)] show ?thesis using assms(3) by (simp add: mem_Lease_def)
qed

section \<open>What the workers rely on\<close>

locale price_cache =
  fixes publish :: "string \<Rightarrow> int \<Rightarrow> 'm \<Rightarrow> 'm"
    and marks :: "'m \<Rightarrow> (string \<rightharpoonup> int)"
    and ok :: "'m \<Rightarrow> bool"
    and good :: "string \<Rightarrow> bool"
  assumes ok_publish: "\<lbrakk>ok m; good i; int64 v\<rbrakk> \<Longrightarrow> ok (publish i v m)"
    and marks_publish: "\<lbrakk>ok m; good i; int64 v\<rbrakk> \<Longrightarrow> marks (publish i v m) = (marks m)(i \<mapsto> v)"
begin

lemma marks_fold:
  assumes "ok m" and "\<forall>(i, v)\<in>set ps. good i \<and> int64 v"
  shows "ok (fold (\<lambda>(i, v). publish i v) ps m) \<and>
    marks (fold (\<lambda>(i, v). publish i v) ps m) = marks m ++ map_of (rev ps)"
  using assms
proof (induction ps arbitrary: m)
  case (Cons p ps)
  obtain i v where p: "p = (i, v)" by (cases p)
  with Cons.prems ok_publish marks_publish
  have "ok (publish i v m)" "marks (publish i v m) = (marks m)(i \<mapsto> v)" by auto
  with Cons p show ?case by (simp add: map_add_def fun_eq_iff split: option.split)
qed simp

end

interpretation mem: price_cache mem_Publish mem_Marks "\<lambda>_. True" "\<lambda>_. True"
  by unfold_locales (simp_all add: mem_Publish_def mem_Marks_def)

section \<open>An honest Redis\<close>

text \<open>
  What Redis documents of \<open>HSET\<close> and \<open>HGETALL\<close> on one hash: \<open>table\<close> is the content of the hash, in
  the order in which the server lists it.
\<close>

definition flat_pairs :: "(string \<times> string) list \<Rightarrow> string list" where
  "flat_pairs kvs = concat (map (\<lambda>(k, v). [k, v]) kvs)"

definition honest :: "'s server \<Rightarrow> ('s \<Rightarrow> (string \<times> string) list) \<Rightarrow> string list \<Rightarrow> bool" where
  "honest srv table ids \<longleftrightarrow>
    (\<forall>s i v. i \<in> set ids \<longrightarrow> int64 v \<longrightarrow>
       (\<exists>n s'. srv s (request [''HSET'', marks_key, i, fmt_d v]) = (Some ('':'' @ fmt_d n @ CRLF), s') \<and> int64 n \<and>
          map_of (table s') = (map_of (table s))(i \<mapsto> fmt_d v) \<and> (distinct (map fst (table s)) \<longrightarrow> distinct (map fst (table s'))))) \<and>
    (\<forall>s. srv s (request [''HGETALL'', marks_key]) = (Some (request (flat_pairs (table s))), s))"

text \<open>The connection is idle, and the hash holds printed marks of the markets \<open>ids\<close>.\<close>

definition redis_ok :: "('s \<Rightarrow> (string \<times> string) list) \<Rightarrow> string list \<Rightarrow> 's redis \<Rightarrow> bool" where
  "redis_ok table ids r \<longleftrightarrow> unread (fst r) = [] \<and> distinct (map fst (table (snd r))) \<and>
    (\<forall>(k, v)\<in>set (table (snd r)). k \<in> set ids \<and> (\<exists>n. int64 n \<and> v = fmt_d n))"

lemma digits_length: "n < 10 ^ k \<Longrightarrow> 0 < k \<Longrightarrow> length (digits n) \<le> k"
proof (induction k arbitrary: n)
  case (Suc k)
  show ?case
  proof (cases "n < 10")
    case False
    then have "0 < k" using Suc.prems by (cases k) auto
    moreover have "n div 10 < 10 ^ k" using Suc.prems by (simp add: less_mult_imp_div_less)
    ultimately show ?thesis using Suc.IH False by (subst digits.simps) simp
  qed (subst digits.simps, simp)
qed simp

lemma fits_fmt_d:
  assumes "int64 v"
  shows "fits (fmt_d v)"
proof -
  have "nat \<bar>v\<bar> < 10 ^ 19" using assms by (auto simp: int64_def nat_less_iff)
  then have "length (digits (nat \<bar>v\<bar>)) \<le> 19" by (rule digits_length) simp
  then show ?thesis by (cases "v < 0") (auto simp: fmt_d_def fits_def)
qed

lemma readReply_number:
  "int64 n \<Longrightarrow> readReply ('':'' @ fmt_d n @ CRLF @ rest) = Inr (RInt n, rest)"
  using read_line_number [of "CHR '':''" n rest]
  by (intro readReply_whole) (auto simp: read_head_def ParseInt_fmt_d)

lemma pair_marks_flat:
  assumes "distinct (map fst kvs)" and "\<forall>(k, v)\<in>set kvs. \<exists>n. int64 n \<and> v = fmt_d n"
  shows "pair_marks (map RStr (flat_pairs kvs)) out = out ++ (\<lambda>k. Option.bind (map_of kvs k) ParseInt)"
  using assms
proof (induction kvs arbitrary: out)
  case (Cons p kvs)
  obtain k n where p: "p = (k, fmt_d n)" "int64 n" using Cons.prems by (cases p) auto
  have "map_of kvs k = None" using Cons.prems p by (simp add: map_of_eq_None_iff)
  with Cons p show ?case
    by (auto simp: flat_pairs_def reply_text_def ParseInt_fmt_d map_add_def fun_eq_iff split: option.split)
qed (simp add: flat_pairs_def)

lemma length_flat: "length (flat_pairs kvs) = 2 * length kvs"
  by (induction kvs) (auto simp: flat_pairs_def)

lemma set_flat: "set (flat_pairs kvs) = fst ` set kvs \<union> snd ` set kvs"
  by (induction kvs) (auto simp: flat_pairs_def)

definition hash_marks :: "(string \<times> string) list \<Rightarrow> (string \<rightharpoonup> int)" where
  "hash_marks kvs = (\<lambda>k. Option.bind (map_of kvs k) ParseInt)"

lemma redis_Marks_hash:
  assumes "honest srv table ids" and "redis_ok table ids r" and "list_all fits ids" and "length ids \<le> 8796093022208"
  shows "\<exists>r'. redis_Marks srv r = (Inr (hash_marks (table (snd r))), r') \<and> snd r' = snd r"
proof -
  let ?t = "table (snd r)"
  have ok: "distinct (map fst ?t)" "\<forall>(k, v)\<in>set ?t. k \<in> set ids \<and> (\<exists>n. int64 n \<and> v = fmt_d n)" "unread (fst r) = []"
    using assms(2) by (auto simp: redis_ok_def)
  have "length ?t = card (fst ` set ?t)" using ok(1) distinct_card by fastforce
  also have "\<dots> \<le> card (set ids)" using ok(2) by (intro card_mono) auto
  also have "\<dots> \<le> length ids" by (rule card_length)
  finally have len: "length (flat_pairs ?t) \<le> 17592186044416" using assms(4) by (simp add: length_flat)
  have "list_all fits (flat_pairs ?t)" using ok(2) assms(3) fits_fmt_d by (fastforce simp: list_all_iff set_flat)
  note read = readReply_request [OF this len, of "[]"]
  have "pair_marks (map RStr (flat_pairs ?t)) Map.empty = hash_marks ?t"
    using pair_marks_flat [OF ok(1), of Map.empty] ok(2) by (fastforce simp: hash_marks_def)
  with read show ?thesis
    using assms(1) ok(3)
    by (auto simp: redis_Marks_def redis_do_def honest_def)
qed

lemma redis_Publish_hash:
  assumes "honest srv table ids" and "redis_ok table ids r" and "i \<in> set ids" and "int64 v"
  shows "\<exists>r'. redis_Publish srv i v r = (None, r') \<and> redis_ok table ids r' \<and>
    hash_marks (table (snd r')) = (hash_marks (table (snd r)))(i \<mapsto> v)"
proof -
  obtain n s' where s': "srv (snd r) (request [''HSET'', marks_key, i, fmt_d v]) = (Some ('':'' @ fmt_d n @ CRLF), s')" "int64 n"
      "map_of (table s') = (map_of (table (snd r)))(i \<mapsto> fmt_d v)" "distinct (map fst (table s'))"
    using assms unfolding honest_def redis_ok_def by meson
  have kv: "k \<in> set ids \<and> (\<exists>n. int64 n \<and> v' = fmt_d n)" if "(k, v') \<in> set (table s')" for k v'
  proof -
    have "map_of (table s') k = Some v'" using that s'(4) by simp
    then have "k = i \<and> v' = fmt_d v \<or> (k, v') \<in> set (table (snd r))"
      using s'(3) by (auto dest: map_of_SomeD split: if_splits)
    then show ?thesis using assms by (auto simp: redis_ok_def)
  qed
  have "hash_marks (table s') = (hash_marks (table (snd r)))(i \<mapsto> v)"
    using s'(3) assms(4) by (auto simp: hash_marks_def ParseInt_fmt_d fun_eq_iff)
  then show ?thesis
    using s' assms(2) kv readReply_number [OF s'(2), of "[]"]
    by (auto simp: redis_Publish_def redis_do_def redis_ok_def unread_def)
qed

lemma redis_is_cache:
  assumes "honest srv table ids"
  shows "price_cache (\<lambda>i v r. snd (redis_Publish srv i v r)) (\<lambda>r. hash_marks (table (snd r)))
    (redis_ok table ids) (\<lambda>i. i \<in> set ids)"
  using redis_Publish_hash [OF assms] by unfold_locales fastforce+

end
