(* ===== verification/Trace.thy ===== *)
theory Trace
  imports Replay Coupling Feed
begin

text \<open>
  The trace file from end to end: \<open>contracts/vault/src/bin/replay.rs\<close> reads the text that
  \<open>internal/chain/sim.go\<close> writes, executes every call and compares the expectations. The file is read as
  ASCII, where the white space of Rust is six characters.
\<close>

section \<open>Reading a line\<close>

definition is_space :: "char \<Rightarrow> bool" where
  "is_space c \<longleftrightarrow> (of_char c :: nat) = 32 \<or> 9 \<le> (of_char c :: nat) \<and> (of_char c :: nat) \<le> 13"

fun split_words :: "string \<Rightarrow> string \<Rightarrow> string list" where
  "split_words w [] = (if w = [] then [] else [w])"
| "split_words w (c # cs) =
    (if is_space c then (if w = [] then split_words [] cs else w # split_words [] cs) else split_words (w @ [c]) cs)"

definition split_whitespace :: "string \<Rightarrow> string list" where
  "split_whitespace s = split_words [] s"

definition trim :: "string \<Rightarrow> string" where
  "trim s = rev (dropWhile is_space (rev (dropWhile is_space s)))"

text \<open>\<open>lines\<close>: a line ends at a newline, and a carriage return before it is dropped.\<close>

definition strip_cr :: "string \<Rightarrow> string" where
  "strip_cr l = (if l \<noteq> [] \<and> last l = CHR 0x0D then butlast l else l)"

fun text_lines :: "string \<Rightarrow> string \<Rightarrow> string list" where
  "text_lines l [] = (if l = [] then [] else [l])"
| "text_lines l (c # cs) = (if c = CHR 0x0A then strip_cr l # text_lines [] cs else text_lines (l @ [c]) cs)"

text \<open>\<open>parse::<i128>\<close>, and the casts of its result.\<close>

definition num :: "string \<Rightarrow> int option" where
  "num s = (case parse_signed s of
     None \<Rightarrow> None | Some v \<Rightarrow> if - (2 ^ 127) \<le> v \<and> v < 2 ^ 127 then Some v else None)"

definition as_u64 :: "int \<Rightarrow> nat" where "as_u64 v = nat (v mod 2 ^ 64)"

definition as_u128 :: "int \<Rightarrow> nat" where "as_u128 v = nat (v mod 2 ^ 128)"

definition as_i128 :: "nat \<Rightarrow> int" where
  "as_i128 n = (if n < 2 ^ 127 then int n else int n - 2 ^ 128)"

datatype parsed = Blank | Bad | Do nat call | Expect string string int

definition parsed_call :: "int option \<Rightarrow> int option \<Rightarrow> int option \<Rightarrow> (nat \<Rightarrow> nat \<Rightarrow> int \<Rightarrow> call) \<Rightarrow> parsed" where
  "parsed_call h a e f =
    (case (h, a, e) of (Some h, Some a, Some e) \<Rightarrow> Do (as_u64 h) (f (as_u128 a) (as_u64 e) a) | _ \<Rightarrow> Bad)"

definition parse_words :: "string list \<Rightarrow> parsed" where
  "parse_words ws =
    (case ws of
       [k, n, u, a, h] \<Rightarrow>
         if k = ''deposit'' then parsed_call (num h) (num a) (Some 0) (\<lambda>a e v. CDeposit n u a) else Bad
     | [k, n, x, a, e, h] \<Rightarrow>
         if k = ''withdraw'' then parsed_call (num h) (num a) (num e) (\<lambda>a e v. CWithdraw n x a e)
         else if k = ''escrow_set'' then parsed_call (num h) (num a) (num e) (\<lambda>a e v. CEscrowSet n x a e)
         else if k = ''settle'' then parsed_call (num h) (num a) (num e) (\<lambda>a e v. CSettleMarket n x (v \<noteq> 0) e)
         else Bad
     | [k, n, e, h] \<Rightarrow>
         if k = ''cancel'' then parsed_call (num h) (Some 0) (num e) (\<lambda>a e v. CCancel n e)
         else if k = ''expect'' \<and> n = ''escrow'' then (case num h of None \<Rightarrow> Bad | Some v \<Rightarrow> Expect ''escrow'' e v)
         else Bad
     | [k, w, v] \<Rightarrow>
         if k = ''expect'' then (case num v of None \<Rightarrow> Bad | Some v \<Rightarrow> Expect w [] v) else Bad
     | _ \<Rightarrow> Bad)"

definition parse_line :: "string \<Rightarrow> parsed" where
  "parse_line l =
    (let t = trim l in if t = [] \<or> hd t = CHR ''#'' then Blank else parse_words (split_whitespace t))"

section \<open>The program\<close>

record replay =
  rl_vault :: rvault
  rl_executed :: nat
  rl_applied :: nat
  rl_refused :: "vault_error list"
  rl_expects :: "(string \<times> string \<times> int) list"

text \<open>
  How the program ends: at a line it cannot read or whose call breaks \<open>check\<close>, at a panic, at an
  expectation it does not know, after counting refusals or mismatches, with nothing compared, or well.
\<close>

datatype replay_exit =
    ReplayBadLine nat | ReplayBroken nat | ReplayPanic | ReplayUnknown string
  | ReplayRefused nat | ReplayMismatch nat | ReplayNothing | ReplayOK rvault

fun replay_lines :: "nat \<Rightarrow> string list \<Rightarrow> replay \<Rightarrow> replay_exit + replay" where
  "replay_lines n [] st = Inr st"
| "replay_lines n (l # ls) st =
    (case parse_line l of
       Blank \<Rightarrow> replay_lines (Suc n) ls st
     | Bad \<Rightarrow> Inl (ReplayBadLine (n + 1))
     | Expect w m v \<Rightarrow> replay_lines (Suc n) ls (st\<lparr>rl_expects := rl_expects st @ [(w, m, v)]\<rparr>)
     | Do h c \<Rightarrow>
         (case execute c (advance_to h (rl_vault st)) of
            None \<Rightarrow> Inl ReplayPanic
          | Some (res, v) \<Rightarrow>
              if \<not> check_ok v then Inl (ReplayBroken (n + 1))
              else replay_lines (Suc n) ls
                (case res of
                   Inr r \<Rightarrow> st\<lparr>rl_vault := v, rl_executed := rl_executed st + 1, rl_applied := rl_applied st + 1\<rparr>
                 | Inl e \<Rightarrow> st\<lparr>rl_vault := v, rl_executed := rl_executed st + 1, rl_refused := rl_refused st @ [e]\<rparr>)))"

definition found_value :: "rvault \<Rightarrow> string \<Rightarrow> string \<Rightarrow> replay_exit + int" where
  "found_value v w m =
    (if w = ''balance'' then Inr (as_i128 (rv_balance v))
     else if w = ''escrow_total'' then (case escrow_total v of None \<Rightarrow> Inl ReplayPanic | Some t \<Rightarrow> Inr (as_i128 t))
     else if w = ''escrow'' then Inr (as_i128 (escrow_of v m))
     else Inl (ReplayUnknown w))"

fun mismatches :: "rvault \<Rightarrow> (string \<times> string \<times> int) list \<Rightarrow> nat \<Rightarrow> replay_exit + nat" where
  "mismatches v [] n = Inr n"
| "mismatches v ((w, m, want) # es) n =
    (case found_value v w m of
       Inl e \<Rightarrow> Inl e
     | Inr got \<Rightarrow> mismatches v es (if got \<noteq> want then Suc n else n))"

definition replay_main :: "string \<Rightarrow> replay_exit" where
  "replay_main text =
    (case replay_lines 0 (text_lines [] text)
        \<lparr>rl_vault = new_rvault, rl_executed = 0, rl_applied = 0, rl_refused = [], rl_expects = []\<rparr> of
       Inl e \<Rightarrow> e
     | Inr st \<Rightarrow>
       (case mismatches (rl_vault st) (rl_expects st) 0 of
          Inl e \<Rightarrow> e
        | Inr n \<Rightarrow>
            if escrow_total (rl_vault st) = None then ReplayPanic
            else if rl_refused st \<noteq> [] then ReplayRefused (length (rl_refused st))
            else if n > 0 then ReplayMismatch n
            else if rl_expects st = [] then ReplayNothing
            else ReplayOK (rl_vault st)))"

text \<open>The bytes of the file the Go side closes.\<close>

definition trace_file :: "sim \<Rightarrow> string" where
  "trace_file s = concat (map (\<lambda>l. l @ [CHR 0x0A]) (fst (CloseTrace s)))"

section \<open>Words survive\<close>

definition plain_char :: "char \<Rightarrow> bool" where
  "plain_char c \<longleftrightarrow> 33 \<le> (of_char c :: nat) \<and> (of_char c :: nat) \<le> 126"

definition plain_word :: "string \<Rightarrow> bool" where
  "plain_word w \<longleftrightarrow> w \<noteq> [] \<and> list_all plain_char w"

lemma plain_char_not_space: "plain_char c \<Longrightarrow> \<not> is_space c"
  by (auto simp: plain_char_def is_space_def)

lemma plain_not_space: "plain_word w \<Longrightarrow> \<forall>c \<in> set w. \<not> is_space c"
  using plain_char_not_space by (auto simp: plain_word_def list_all_iff)

lemma split_words_plain: "\<forall>c \<in> set w. \<not> is_space c \<Longrightarrow> split_words v (w @ cs) = split_words (v @ w) cs"
  by (induction w arbitrary: v) simp_all

lemma split_words_of_words: "list_all plain_word ws \<Longrightarrow> split_whitespace (words ws) = ws"
proof (induction ws rule: words.induct)
  case (2 w)
  then show ?case using split_words_plain [of w "[]" "[]"] plain_not_space [of w]
    by (simp add: split_whitespace_def plain_word_def)
next
  case (3 w v ws)
  have "is_space CHR '' ''" by (simp add: is_space_def)
  with 3 split_words_plain [of w "[]" "'' '' @ words (v # ws)"] plain_not_space [of w] show ?case
    by (simp add: split_whitespace_def plain_word_def)
qed (simp add: split_whitespace_def)

lemma words_ends:
  assumes "list_all plain_word ws" and "ws \<noteq> []"
  shows "words ws \<noteq> []" and "hd (words ws) = hd (hd ws)" and "plain_char (last (words ws))"
    and "c \<in> set (words ws) \<Longrightarrow> plain_char c \<or> c = CHR '' ''"
  using assms
  by (induction ws rule: words.induct) (auto simp: plain_word_def list_all_iff)

lemma trim_plain: "l \<noteq> [] \<Longrightarrow> \<not> is_space (hd l) \<Longrightarrow> \<not> is_space (last l) \<Longrightarrow> trim l = l"
proof -
  assume "l \<noteq> []" "\<not> is_space (hd l)" "\<not> is_space (last l)"
  moreover from this have "dropWhile is_space l = l" by (cases l) simp_all
  ultimately show ?thesis by (cases l rule: rev_cases) (simp_all add: trim_def)
qed

lemma parse_line_words:
  assumes "list_all plain_word ws" and "ws \<noteq> []" and "hd (hd ws) \<noteq> CHR ''#''"
  shows "parse_line (words ws) = parse_words ws"
proof -
  have "plain_char (hd (hd ws))" using assms(1,2) by (cases ws; cases "hd ws") (auto simp: plain_word_def)
  then have "trim (words ws) = words ws"
    using words_ends [OF assms(1,2)] by (intro trim_plain) (simp_all add: plain_char_not_space)
  then show ?thesis using words_ends(1,2) [OF assms(1,2)] assms(3) split_words_of_words [OF assms(1)]
    by (simp add: parse_line_def Let_def)
qed

lemma text_lines_of: "CHR 0x0A \<notin> set l \<Longrightarrow> text_lines v (l @ CHR 0x0A # cs) = strip_cr (v @ l) # text_lines [] cs"
  by (induction l arbitrary: v) auto

definition whole_line :: "string \<Rightarrow> bool" where
  "whole_line l \<longleftrightarrow> CHR 0x0A \<notin> set l \<and> CHR 0x0D \<notin> set l"

lemma text_lines_file: "list_all whole_line ls \<Longrightarrow> text_lines [] (concat (map (\<lambda>l. l @ [CHR 0x0A]) ls)) = ls"
proof (induction ls)
  case (Cons l ls)
  then have "CHR 0x0D \<notin> set l" by (simp add: whole_line_def)
  then have "l \<noteq> [] \<Longrightarrow> last l \<noteq> CHR 0x0D" by (metis last_in_set)
  then have "strip_cr l = l" by (auto simp: strip_cr_def)
  with Cons text_lines_of [of l "[]" "concat (map (\<lambda>l. l @ [CHR 0x0A]) ls)"] show ?case by (simp add: whole_line_def)
qed simp

lemma words_whole: "list_all plain_word ws \<Longrightarrow> ws \<noteq> [] \<Longrightarrow> whole_line (words ws)"
  using words_ends(4) [of ws] by (fastforce simp: whole_line_def plain_char_def)

section \<open>Calls and expectations survive\<close>

lemma plain_digits: "list_all plain_char (digits n)"
proof -
  have "plain_char (digit m)" if "m < 10" for m using that by (simp add: plain_char_def of_char_digit)
  then show ?thesis using digit_range [of _ n] by (fastforce simp: list_all_iff)
qed

lemma plain_fmt_d: "plain_word (fmt_d i)"
  using plain_digits digits_are_digits by (simp add: plain_word_def fmt_d_def plain_char_def)

lemma num_fmt_d: "int64 i \<Longrightarrow> num (fmt_d i) = Some i"
  by (simp add: num_def parse_signed_fmt_d int64_def)

lemma as_nat: "0 \<le> i \<Longrightarrow> int64 i \<Longrightarrow> as_u64 i = nat i" "0 \<le> i \<Longrightarrow> int64 i \<Longrightarrow> as_u128 i = nat i"
  by (simp_all add: as_u64_def as_u128_def int64_def)

text \<open>What a call needs to be written and read back.\<close>

definition traceable :: "tx \<Rightarrow> bool" where
  "traceable t \<longleftrightarrow> plain_tx t \<and> int64 (tx_expiry t) \<and> plain_word (tx_nonce t) \<and>
     (tx_kind t = ''deposit'' \<or> tx_kind t = ''withdraw'' \<longrightarrow> plain_word (tx_user t)) \<and>
     (tx_kind t = ''escrow_set'' \<or> tx_kind t = ''settle_market'' \<longrightarrow> plain_word (tx_market t))"

lemma keyword_plain: "plain_word ''deposit''" "plain_word ''withdraw''" "plain_word ''escrow_set''" "plain_word ''settle''"
  "plain_word ''cancel''" "plain_word ''expect''" "plain_word ''balance''" "plain_word ''escrow_total''" "plain_word ''escrow''"
  by (simp_all add: plain_word_def plain_char_def)

lemma trace_line_read:
  assumes t: "traceable t" and h: "0 \<le> h" "int64 h" and acc: "accepts t h v = Some v'"
  obtains l c where "trace_line t h = Some l" "call_of t = Some c" "parse_line l = Do (nat h) c" "whole_line l"
proof -
  have e: "0 \<le> tx_expiry t" "int64 (tx_expiry t)"
    using t by (simp_all add: traceable_def plain_tx_def)
  have a: "int64 (tx_amount t)" "0 \<le> tx_target t" "int64 (tx_target t)"
    using t by (simp_all add: traceable_def plain_tx_def tx_ok_def)
  have pos: "0 \<le> tx_amount t" if "tx_kind t = ''deposit'' \<or> tx_kind t = ''withdraw''"
    using acc that by (cases rule: accepts_cases) simp_all
  have bit: "num (fmt_d 1) = Some 1" "num (fmt_d 0) = Some 0" by (simp_all add: num_fmt_d int64_def)
  have "tx_kind t \<in> {''deposit'', ''withdraw'', ''escrow_set'', ''settle_market'', ''cancel''}"
    using acc by (cases rule: accepts_cases) simp_all
  then show ?thesis using t pos
    by (elim insertE emptyE; intro that)
       (auto simp: trace_line_def call_of_def traceable_def keyword_plain plain_fmt_d num_fmt_d as_nat e a h bit
          parse_line_words words_whole parse_words_def parsed_call_def simp del: words.simps)
qed

lemma expect_read:
  assumes "int64 v"
  shows "parse_line (words [''expect'', ''balance'', fmt_d v]) = Expect ''balance'' [] v"
    and "parse_line (words [''expect'', ''escrow_total'', fmt_d v]) = Expect ''escrow_total'' [] v"
    and "plain_word m \<Longrightarrow> parse_line (words [''expect'', ''escrow'', m, fmt_d v]) = Expect ''escrow'' m v"
  using assms
  by (simp_all add: parse_line_words parse_words_def keyword_plain plain_fmt_d num_fmt_d del: words.simps)

section \<open>The calls of the file\<close>

text \<open>The lines of a chain's calls are read as those calls, and executing them is \<open>replay_calls\<close>.\<close>

lemma replay_lines_calls:
  assumes "replay_calls cs (rl_vault st) = Some r" and "accepted execAt cs g = cs"
    and "\<forall>c \<in> set cs. traceable (fst c) \<and> 0 \<le> snd c \<and> int64 (snd c)"
  shows "\<exists>st'. (\<forall>n. \<exists>n'. \<forall>ls. replay_lines n (trace_lines cs @ ls) st = replay_lines n' ls st') \<and>
    rl_vault st' = r \<and> rl_refused st' = rl_refused st \<and> rl_expects st' = rl_expects st \<and>
    list_all whole_line (trace_lines cs)"
  using assms
proof (induction cs arbitrary: st g)
  case Nil
  then show ?case by (intro exI [of _ st]) auto
next
  case (Cons p cs)
  obtain t h where p: "p = (t, h)" by (cases p)
  from Cons.prems(2) show ?case
  proof (rule accepted_Cons_all)
    fix g' assume ex: "execAt p g = Some g'" and rest: "accepted execAt cs g' = cs"
    then have acc: "accepts t h g = Some g'" by (simp add: p execAt_def)
    have t: "traceable t" "0 \<le> h" "int64 h" using Cons.prems(3) by (simp_all add: p)
    obtain l c where l: "trace_line t h = Some l" "call_of t = Some c" "parse_line l = Do (nat h) c" "whole_line l"
      by (rule trace_line_read [OF t acc])
    from Cons.prems(1) l(2) obtain res v where x: "execute c (advance_to (nat h) (rl_vault st)) = Some (Inr res, v)"
      "check_ok v" "replay_calls cs v = Some r"
      by (auto simp: p split: option.splits prod.splits sum.splits if_splits)
    let ?st = "st\<lparr>rl_vault := v, rl_executed := rl_executed st + 1, rl_applied := rl_applied st + 1\<rparr>"
    have "replay_calls cs (rl_vault ?st) = Some r" using x(3) by simp
    from Cons.IH [OF this rest] Cons.prems(3) obtain st' where
      i: "\<forall>n. \<exists>n'. \<forall>ls. replay_lines n (trace_lines cs @ ls) ?st = replay_lines n' ls st'"
      "rl_vault st' = r" "rl_refused st' = rl_refused ?st" "rl_expects st' = rl_expects ?st" "list_all whole_line (trace_lines cs)"
      by auto
    have tl: "trace_lines (p # cs) = l # trace_lines cs" by (simp add: trace_lines_def p l(1))
    have "replay_lines n (trace_lines (p # cs) @ ls) st = replay_lines (Suc n) (trace_lines cs @ ls) ?st" for n ls
      by (simp add: tl l(3) x)
    with i l(4) show ?thesis by (intro exI [of _ st']) (simp add: tl)
  qed
qed

definition expect_lines :: "vault \<Rightarrow> string list \<Rightarrow> string list" where
  "expect_lines g ms = words [''expect'', ''balance'', fmt_d (va_balance g)] #
     words [''expect'', ''escrow_total'', fmt_d (escrowTotal g)] #
     map (\<lambda>m. words [''expect'', ''escrow'', m, fmt_d (escrow_at g m)]) ms"

definition expectations :: "vault \<Rightarrow> string list \<Rightarrow> (string \<times> string \<times> int) list" where
  "expectations g ms = (''balance'', [], va_balance g) # (''escrow_total'', [], escrowTotal g) #
     map (\<lambda>m. (''escrow'', m, escrow_at g m)) ms"

lemma replay_lines_escrow:
  "\<forall>m \<in> set ms. plain_word m \<and> int64 (f m) \<Longrightarrow>
    replay_lines n (map (\<lambda>m. words [''expect'', ''escrow'', m, fmt_d (f m)]) ms) st =
      Inr (st\<lparr>rl_expects := rl_expects st @ map (\<lambda>m. (''escrow'', m, f m)) ms\<rparr>)"
  by (induction ms arbitrary: n st) (simp_all add: expect_read del: words.simps)

lemma replay_lines_expect:
  assumes "int64 (va_balance g)" "int64 (escrowTotal g)" "\<forall>m \<in> set ms. plain_word m \<and> int64 (escrow_at g m)"
  shows "replay_lines n (expect_lines g ms) st = Inr (st\<lparr>rl_expects := rl_expects st @ expectations g ms\<rparr>)"
    and "list_all whole_line (expect_lines g ms)"
proof -
  show "replay_lines n (expect_lines g ms) st = Inr (st\<lparr>rl_expects := rl_expects st @ expectations g ms\<rparr>)"
    using replay_lines_escrow [of ms "escrow_at g"] assms
    by (simp add: expect_lines_def expectations_def expect_read del: words.simps)
  show "list_all whole_line (expect_lines g ms)"
    using assms(3) by (auto simp: expect_lines_def list_all_iff words_whole keyword_plain plain_fmt_d simp del: words.simps)
qed

section \<open>The end state agrees\<close>

lemma found_values:
  assumes m: "mirrors g r" and ok: "vault_ok g"
  shows "found_value r ''balance'' [] = Inr (va_balance g)"
    and "found_value r ''escrow_total'' [] = Inr (escrowTotal g)"
    and "found_value r ''escrow'' k = Inr (escrow_at g k)"
    and "int64 (va_balance g)" "int64 (escrowTotal g)" "int64 (escrow_at g k)"
proof -
  note ex = vault_ok_exact [OF ok]
  show b: "int64 (va_balance g)" using ok by (simp add: vault_ok_def)
  have le: "escrow_sum g \<le> va_balance g" using ok by (simp add: vault_ok_def)
  then show e: "int64 (escrowTotal g)" using b ex(1,3) by (simp add: int64_def)
  have at: "0 \<le> escrow_at g k" "escrow_at g k \<le> escrow_sum g" using escrow_at_le [OF ok, of k] by simp_all
  then show k: "int64 (escrow_at g k)" using b le by (simp add: int64_def)
  have small: "as_i128 n = i" if "int n = i" "int64 i" for n i
  proof -
    have "int n < 2 ^ 127" using that by (simp add: int64_def)
    then have "n < 2 ^ 127" by simp
    with that(1) show ?thesis by (simp add: as_i128_def)
  qed
  obtain t f where t: "escrow_total r = Some t" "int t = escrow_sum g" using mirror_free [OF m ok] by metis
  show "found_value r ''balance'' [] = Inr (va_balance g)"
    using m b small by (simp add: found_value_def mirrors_def)
  show "found_value r ''escrow_total'' [] = Inr (escrowTotal g)"
    using t e ex(1) small by (simp add: found_value_def)
  have "va_escrow g = map (\<lambda>(m, e). (m, int e)) (rv_escrow r)" using m by (simp add: mirrors_def)
  then have "map_of (va_escrow g) k = map_option int (map_of (rv_escrow r) k)" by (simp add: map_of_map)
  then have "int (escrow_of r k) = escrow_at g k" by (simp add: escrow_of_def escrow_at_def split: option.splits)
  from small [OF this k] show "found_value r ''escrow'' k = Inr (escrow_at g k)" by (simp add: found_value_def)
qed

lemma no_mismatch:
  assumes "mirrors g r" and "vault_ok g"
  shows "mismatches r (expectations g ms) 0 = Inr 0"
proof -
  have "mismatches r (map (\<lambda>m. (''escrow'', m, escrow_at g m)) ms) 0 = Inr 0"
    by (induction ms) (simp_all add: found_values(3) [OF assms])
  then show ?thesis by (simp add: expectations_def found_values(1,2) [OF assms])
qed

lemma escrow_markets:
  assumes "accepted execAt cs g = cs" and "\<forall>m \<in> fst ` set (va_escrow g). P m"
    and "\<forall>c \<in> set cs. tx_kind (fst c) = ''escrow_set'' \<longrightarrow> P (tx_market (fst c))"
  shows "\<forall>m \<in> fst ` set (va_escrow (run_calls execAt cs g)). P m"
  using assms
proof (induction cs arbitrary: g)
  case (Cons p cs)
  from Cons.prems(1) show ?case
  proof (rule accepted_Cons_all)
    fix g' assume ex: "execAt p g = Some g'" and rest: "accepted execAt cs g' = cs"
    have acc: "accepts (fst p) (snd p) g = Some g'" using ex by (simp add: execAt_def)
    have "\<forall>m \<in> fst ` set (va_escrow g'). P m"
      using acc Cons.prems(2,3) by (cases rule: accepts_cases) (auto simp: AList.dom_update AList.delete_eq)
    from Cons.IH [OF rest this] Cons.prems(3) ex show ?case by simp
  qed
qed simp

section \<open>Traced runs\<close>

text \<open>
  A run that is traced from the start: \<open>RunChaos\<close> opens the trace right after \<open>New\<close>. Names are plain
  words, as those of the harness are.
\<close>

inductive traced :: "sim \<Rightarrow> bool" where
  start: "traced (snd (TraceTo True (New f path None)))"
| deposit: "traced s \<Longrightarrow> plain_word user \<Longrightarrow> int64 amount \<Longrightarrow> traced (snd (Deposit user amount s))"
| submit: "traced s \<Longrightarrow> traceable t \<Longrightarrow> traced (snd (Submit u1 u2 written t s))"
| cancel: "traced s \<Longrightarrow> plain_word n \<Longrightarrow> 0 \<le> x \<Longrightarrow> int64 x \<Longrightarrow> traced (snd (Cancel n x s))"
| mine: "traced s \<Longrightarrow> traced (Mine md s)"
| set_faults: "traced s \<Longrightarrow> traced (SetFaults f s)"

definition trace_head :: string where
  "trace_head = ''# finalised vault history exported by the Go simulator''"

definition traced_by :: "block list \<Rightarrow> sim \<Rightarrow> bool" where
  "traced_by hist s \<longleftrightarrow> sim_inv hist s \<and> sm_trace s = Some (trace_head # trace_lines (calls hist)) \<and>
     (\<forall>t \<in> txs_of hist s. traceable t)"

lemma traced_by_more:
  assumes "traced_by hist s" and "\<And>p. chain_ok hist p s \<Longrightarrow> chain_ok hist p s'"
    and "sm_pending s' = sm_pending s" "sm_trace s' = sm_trace s"
    and "\<forall>t \<in> set (sm_mempool s'). t \<in> set (sm_mempool s) \<or> traceable t"
  shows "traced_by hist s'"
  using assms by (auto simp: traced_by_def txs_of_def)

lemma traced_Submit:
  assumes "traced_by hist s" and "traceable t"
  shows "traced_by hist (snd (Submit u1 u2 w t s))"
proof -
  have "traced_by hist (persistLocked w (s\<lparr>sm_mempool := sm_mempool s @ [t]\<rparr>))"
    by (rule traced_by_more [OF assms(1)]) (use assms(2) in \<open>auto simp: persistLocked_def chain_ok_def\<close>)
  then show ?thesis using assms(1) by (simp add: Submit_def Let_def)
qed

lemma traced_Mine:
  assumes "traced_by hist s"
  shows "\<exists>new. traced_by (hist @ new) (Mine md s)"
proof -
  have h: "sim_inv hist s" "sm_trace s = Some (trace_head # trace_lines (calls hist))" "\<forall>t \<in> txs_of hist s. traceable t"
    using assms by (simp_all add: traced_by_def)
  obtain keep gone b new where sh: "sm_pending s = keep @ gone" "sim_inv (hist @ new) (Mine md s)"
    "(hist @ new) @ sm_pending (Mine md s) = hist @ keep @ [b]"
    "set (bl_txs b) \<subseteq> set (sm_mempool s) \<union> (\<Union>c \<in> set gone. set (bl_txs c))" "sm_mempool (Mine md s) = []"
    "sm_trace (Mine md s) = map_option (\<lambda>ls. ls @ trace_lines (calls new)) (sm_trace s)"
    by (rule Mine_shape [OF h(1), of md]) blast
  have "txs_of (hist @ new) (Mine md s) \<subseteq> txs_of hist s"
    using sh(1,4,5) unfolding txs_of_def sh(3) by auto
  with h(3) have "\<forall>t \<in> txs_of (hist @ new) (Mine md s). traceable t" by blast
  with sh(2,6) h(2) show ?thesis unfolding traced_by_def by (intro exI [of _ new]) simp
qed

lemma traced_invariant: "traced s \<Longrightarrow> \<exists>hist. traced_by hist s"
proof (induction rule: traced.induct)
  case (start f path)
  let ?s = "New f path None"
  have "sim_inv [] ?s" by (rule New_empty)
  moreover have "sm_final_height ?s = 0" "sm_mempool ?s = []" "sm_pending ?s = []" by (simp_all add: New_def Let_def)
  moreover have "chain_ok hist p (snd (TraceTo True ?s)) = chain_ok hist p ?s" for hist p
    by (simp add: TraceTo_def chain_ok_def)
  ultimately have "traced_by [] (snd (TraceTo True ?s))"
    by (simp add: traced_by_def TraceTo_def trace_head_def txs_of_def)
  then show ?case by blast
next
  case (deposit s user amount)
  then obtain hist where t: "traced_by hist s" by blast
  have "plain_word (''dep-'' @ fmt_d (sm_next_deposit s + 1))"
    using plain_fmt_d [of "sm_next_deposit s + 1"] by (simp add: plain_word_def plain_char_def)
  then have "traced_by hist (snd (Deposit user amount s))"
    using deposit(2,3)
    by (intro traced_by_more [OF t]) (auto simp: Deposit_def Let_def chain_ok_def traceable_def plain_tx_def tx_ok_def int64_def)
  then show ?case by blast
next
  case (submit s t u1 u2 written)
  then show ?case using traced_Submit by blast
next
  case (cancel s n x)
  then obtain hist where t: "traced_by hist s" by blast
  have "traced_by hist (snd (Cancel n x s))"
    using cancel(2-4)
    by (intro traced_by_more [OF t]) (auto simp: Cancel_def cancel_tx_def chain_ok_def traceable_def plain_tx_def tx_ok_def int64_def)
  then show ?case by blast
next
  case (mine s md)
  then show ?case using traced_Mine by blast
next
  case (set_faults s f)
  then obtain hist where t: "traced_by hist s" by blast
  have "traced_by hist (SetFaults f s)" by (rule traced_by_more [OF t]) (auto simp: SetFaults_def chain_ok_def)
  then show ?case by blast
qed

lemma trace_head_blank: "parse_line trace_head = Blank" "whole_line trace_head"
  by (simp_all add: trace_head_def parse_line_def trim_def is_space_def whole_line_def)

lemma replay_of_trace:
  assumes t: "traced_by hist s" and cap: "deposit_sum (calls hist) \<le> 9223372036854775807"
    and h: "sm_final_height s \<le> 9223372036854775807"
  shows "\<exists>r. replay_main (trace_file s) = ReplayOK r \<and> mirrors (sm_final s) r"
proof -
  have inv: "sim_inv hist s" and tr: "sm_trace s = Some (trace_head # trace_lines (calls hist))"
    and txs: "\<forall>b \<in> set hist. \<forall>u \<in> set (bl_txs b). traceable u"
    using t by (auto simp: traced_by_def txs_of_def)
  have ex: "executes_all hist" "heights_ok hist" and fin: "sm_final s = state_after hist" and len: "sm_final_height s = int (length hist)"
    using inv executes_all_append heights_ok_append by (auto simp: chain_ok_def)
  have plain: "\<forall>b \<in> set hist. \<forall>u \<in> set (bl_txs b). plain_tx u" using txs by (simp add: traceable_def)
  then obtain r where r: "replay_calls (calls hist) new_rvault = Some r" "mirrors (sm_final s) r"
    using replay_agrees [OF ex _ cap] fin by auto
  have tok: "\<forall>b \<in> set hist. \<forall>u \<in> set (bl_txs b). tx_ok u" using plain by (simp add: plain_tx_def)
  have ok: "vault_ok (sm_final s)" using custody_after(1) [OF ex(1) tok cap] fin by simp
  have cs: "\<forall>c \<in> set (calls hist). traceable (fst c) \<and> 0 \<le> snd c \<and> int64 (snd c)"
  proof
    fix c assume "c \<in> set (calls hist)"
    then obtain b where b: "b \<in> set hist" "fst c \<in> set (bl_txs b)" "bl_height b = snd c" by (metis set_calls prod.collapse)
    then obtain i where i: "i < length hist" "b = hist ! i" by (metis in_set_conv_nth)
    have "snd c = int i + 1" using heights_ok_nth [OF ex(2) i(1)] b(3) i(2) by simp
    with b txs i(1) h len show "traceable (fst c) \<and> 0 \<le> snd c \<and> int64 (snd c)" by (auto simp: int64_def)
  qed
  let ?ms = "sort (map fst (va_escrow (sm_final s)))"
  have "\<forall>m \<in> fst ` set (va_escrow (sm_final s)). plain_word m"
    unfolding fin state_after_def
    by (rule escrow_markets) (use ex(1) cs in \<open>auto simp: executes_all_def newVault_def traceable_def\<close>)
  then have ms: "\<forall>m \<in> set ?ms. plain_word m \<and> int64 (escrow_at (sm_final s) m)"
    using found_values(6) [OF r(2) ok] by auto
  note el = replay_lines_expect [OF found_values(4,5) [OF r(2) ok] ms]
  let ?st = "\<lparr>rl_vault = new_rvault, rl_executed = 0, rl_applied = 0, rl_refused = [], rl_expects = []\<rparr>"
  have "replay_calls (calls hist) (rl_vault ?st) = Some r" using r(1) by simp
  from replay_lines_calls [OF this ex(1) [unfolded executes_all_def] cs] obtain st' where
    st: "\<forall>n. \<exists>n'. \<forall>ls. replay_lines n (trace_lines (calls hist) @ ls) ?st = replay_lines n' ls st'" "rl_vault st' = r"
    "rl_refused st' = []" "rl_expects st' = []" "list_all whole_line (trace_lines (calls hist))" by auto
  have shut: "fst (CloseTrace s) = trace_head # trace_lines (calls hist) @ expect_lines (sm_final s) ?ms"
    by (simp add: CloseTrace_def tr expect_lines_def del: words.simps)
  have lines: "text_lines [] (trace_file s) = fst (CloseTrace s)"
    unfolding trace_file_def by (rule text_lines_file) (simp add: shut trace_head_blank st(5) el(2))
  obtain n where "replay_lines 1 (trace_lines (calls hist) @ expect_lines (sm_final s) ?ms) ?st =
      replay_lines n (expect_lines (sm_final s) ?ms) st'" using st(1) by blast
  then have "replay_lines 0 (text_lines [] (trace_file s)) ?st =
      Inr (st'\<lparr>rl_expects := expectations (sm_final s) ?ms\<rparr>)"
    by (simp add: lines shut trace_head_blank el(1) st(4))
  moreover have "escrow_total r \<noteq> None" by (rule mirror_free [OF r(2) ok]) simp
  ultimately have "replay_main (trace_file s) = ReplayOK r"
    using no_mismatch [OF r(2) ok, of ?ms] st(2,3) by (simp add: replay_main_def) (simp add: expectations_def)
  with r(2) show ?thesis by blast
qed

end
