(* ===== verification/TraceClaims.thy ===== *)
theory TraceClaims
  imports Trace ChainExample
begin

text \<open>
  The trace of a run, written by the simulator and replayed through the contract: the properties
  and a concrete run of a deposit and a withdrawal.
\<close>

section \<open>A traced run\<close>

definition ex_traced :: sim where
  "ex_traced = Mine (draw 3) (Mine (draw 2) (snd (Submit 1 1 True (ex_withdraw 5)
     (Mine (draw 1) (snd (Deposit ''ann'' 100 (snd (TraceTo True (New (ex_faults 1) '''' None)))))))))"

lemma ex_traced: "traced ex_traced"
proof -
  have "plain_word ''ann''" "int64 100" "traceable (ex_withdraw 5)"
    by (simp_all add: plain_word_def plain_char_def int64_def traceable_def plain_tx_def tx_ok_def ex_withdraw_def)
  then show ?thesis unfolding ex_traced_def by (intro traced.intros)
qed

lemma ex_traced_facts:
  "sm_final_height ex_traced = 2" "sum_list (map ev_amount (FinalizedFacts ''deposit'' ex_traced)) = 100"
  "va_balance (sm_final ex_traced) = 70"
  by (simp_all add: ex_traced_def TraceTo_def sim_evals FinalizedFacts_def)

section \<open>The properties\<close>

text \<open>
  C30: the file a traced run of the simulator leaves is accepted by the replay program: every line is
  read back as the call that was executed, the Rust contract refuses none of them, no invariant
  breaks, every expectation is met, and the contract ends in the simulator's finalised state, as
  long as the finalised deposits and the height fit an \<open>int64\<close>.
\<close>

theorem trace_replays_in_rust:
  assumes "traced s" and "sum_list (map ev_amount (FinalizedFacts ''deposit'' s)) \<le> 9223372036854775807"
    and "sm_final_height s \<le> 9223372036854775807"
  shows "\<exists>r. replay_main (trace_file s) = ReplayOK r \<and> mirrors (sm_final s) r"
proof -
  obtain hist where t: "traced_by hist s" using traced_invariant [OF assms(1)] by blast
  then have "sim_inv hist s" by (simp add: traced_by_def)
  with replay_of_trace [OF t _ assms(3)] assms(2) show ?thesis by (simp add: final_deposits_sum)
qed

theorem trace_replays_in_rust_witness:
  "\<exists>r. replay_main (trace_file ex_traced) = ReplayOK r \<and> rv_balance r = 70"
proof -
  obtain r where r: "replay_main (trace_file ex_traced) = ReplayOK r" "mirrors (sm_final ex_traced) r"
    using trace_replays_in_rust [OF ex_traced] ex_traced_facts(1,2) by auto
  then have "int (rv_balance r) = 70" using ex_traced_facts(3) by (simp add: mirrors_def)
  with r(1) show ?thesis by auto
qed

end
