(* ===== verification/System.thy ===== *)
theory System
  imports Coupling
begin

text \<open>
  The engine and the chain together, as a transition system whose steps are the single
  transactions and calls the workers are made of, in any order: users, workers, the chain and
  crashes may interleave them freely, a worker that stops half-way has simply taken fewer steps.
  What a worker has read from the chain before it acts is the guard of its step. The invariant
  \<open>coupled\<close> holds in every reachable state.
\<close>

section \<open>Steps\<close>

text \<open>Changes of columns the invariants do not read: leases and attempts, drift counters, reports.\<close>

definition same_books :: "db \<Rightarrow> db \<Rightarrow> bool" where
  "same_books d d' \<longleftrightarrow>
     (\<exists>ob ed re. d' = d\<lparr>outbox := ob, escrow_drift := ed, reconciliations := re\<rparr> \<and>
        map (\<lambda>q. (ob_intent q, ob_payload q)) ob = map (\<lambda>q. (ob_intent q, ob_payload q)) (outbox d))"

text \<open>What the resolver has seen before it gives an intent up.\<close>

definition may_expire :: "sim \<Rightarrow> db \<Rightarrow> string \<Rightarrow> bool" where
  "may_expire s d iid \<longleftrightarrow> \<not> ts_processed (TxStatus iid s) \<and>
     (\<forall>a x. (iid, Withdraw, a, x) \<in> view_of d \<longrightarrow> x \<noteq> 0 \<longrightarrow> x < sm_head s \<and> Expired iid s)"

text \<open>A deposit the store has recorded, whatever its status by now.\<close>

definition recorded :: "db \<Rightarrow> stored_event \<Rightarrow> bool" where
  "recorded d e \<longleftrightarrow> (\<exists>q \<in> set (chain_events d). \<exists>st. e = (read_event q)\<lparr>se_status := st\<rparr>)"

definition final_fact_event :: "sim \<Rightarrow> db \<Rightarrow> string \<Rightarrow> bool" where
  "final_fact_event s d eid \<longleftrightarrow> (\<forall>f \<in> set (chain_facts d). cf_event f = eid \<longrightarrow> \<not> cf_reverted f \<longrightarrow>
     fact_live s f \<and> ts_finalized (TxStatus (cf_fact f) s))"

inductive sys_step :: "sim \<times> db \<Rightarrow> sim \<times> db \<Rightarrow> bool" where
  seed: "SeedMarket mid question mark d = Inr d' \<Longrightarrow> sys_step (s, d) (s, d')"
| mark: "sys_step (s, d) (s, SetMark mid mark d)"
| open_position: "OpenPosition npid ntid user marketID side sz idemKey d = Inr (pid, d') \<Longrightarrow> sys_step (s, d) (s, d')"
| close_position: "ClosePosition ntid pid mark reason d = Inr d' \<Longrightarrow> sys_step (s, d) (s, d')"
| freeze: "sys_step (s, d) (s, Freeze subject reason d)"
| unfreeze: "sys_step (s, d) (s, Unfreeze subject d)"
| withdraw: "fresh_id nid \<Longrightarrow> int64 amount \<Longrightarrow> app_RequestWithdraw nid ntid user amount key now s d = Inr (x, d') \<Longrightarrow>
    sys_step (s, d) (s, d')"
| settlement: "fresh_id nid \<Longrightarrow> RequestSettlement nid marketID outcome now d = Inr (x, d') \<Longrightarrow> sys_step (s, d) (s, d')"
| escrow: "fresh_id nid \<Longrightarrow> 0 \<le> target \<Longrightarrow> int64 target \<Longrightarrow> RequestEscrowSet nid marketID target expiry now d = Inr (x, d') \<Longrightarrow>
    sys_step (s, d) (s, d')"
| books: "same_books d d' \<Longrightarrow> sys_step (s, d) (s, d')"
| submit: "p \<in> ob_payload ` set (outbox d) \<Longrightarrow> sys_step (s, d) (snd (Submit u1 u2 written (tx_of_payload p) s), d)"
| submitted: "sys_step (s, d) (s, MarkSubmitted iid chainTx msg d)"
| record_event: "ev \<in> set (sm_log s) \<Longrightarrow> e = stored_of ev \<or> e = healed_event ev \<Longrightarrow>
    sys_step (s, d) (s, snd (RecordEvent e d))"
| advance: "sys_step (s, d) (s, AdvanceCursor sq d)"
| event_status: "sys_step (s, d) (s, SetEventStatus eid st d)"
| deposit: "recorded d e \<or> e \<in> healed_event ` set (sm_log s) \<Longrightarrow> se_kind e = ''deposit'' \<Longrightarrow>
    ApplyDeposit ntid e d = Inr d' \<Longrightarrow> sys_step (s, d) (s, d')"
| finalize: "final_fact_event s d eid \<Longrightarrow> sys_step (s, d) (s, MarkFactFinalized eid d)"
| revert_block: "sys_step (s, d) (s, snd (RevertBlock gen hash d))"
| confirm: "ts_processed (TxStatus iid s) \<Longrightarrow> ts_finalized (TxStatus iid s) \<Longrightarrow>
    Confirm gen ntid iid (ts_height (TxStatus iid s)) (ts_hash (TxStatus iid s)) d = Inr d' \<Longrightarrow> sys_step (s, d) (s, d')"
| cancel: "(iid, Withdraw, a, x) \<in> view_of d \<Longrightarrow> sys_step (s, d) (snd (Cancel iid x s), d)"
| expire: "may_expire s d iid \<Longrightarrow> Expire ntid iid (sm_head s) now d = Inr d' \<Longrightarrow> sys_step (s, d) (s, d')"
| chain_deposit: "int64 amount \<Longrightarrow> sys_step (s, d) (snd (Deposit user amount s), d)"
| mine: "block_hash (md_hash md) \<notin> ran (sm_hash_at s) \<Longrightarrow> sys_step (s, d) (Mine md s, d)"
| set_faults: "sys_step (s, d) (SetFaults f s, d)"

inductive sys_reachable :: "sim \<times> db \<Rightarrow> bool" where
  boot: "sys_reachable (New f statePath None, schema_db)"
| step: "sys_reachable w \<Longrightarrow> sys_step w w' \<Longrightarrow> sys_reachable w'"

section \<open>Steps of the store\<close>

text \<open>The store's side of a step, row by row.\<close>

lemma coupled_store:
  assumes c: "coupled amt hist (s, d)" and inv: "store_inv d'"
    and V: "view_of d \<subseteq> view_of d'"
    and ob: "\<And>q. q \<in> set (outbox d') \<Longrightarrow> (\<exists>q0 \<in> set (outbox d). ob_payload q = ob_payload q0) \<or> known_payload (view_of d') q"
    and ce: "\<And>q. q \<in> set (chain_events d') \<Longrightarrow> q \<in> set (chain_events d) \<or>
      (\<exists>q0 \<in> set (chain_events d). \<exists>st. q = q0\<lparr>ce_status := st\<rparr>) \<or> known_row amt (sm_next_deposit s) q"
    and cf: "\<And>f. f \<in> set (chain_facts d') \<Longrightarrow> f \<in> set (chain_facts d) \<or> (\<exists>g \<in> set (chain_facts d). f = g\<lparr>cf_reverted := True\<rparr>) \<or>
      known_fact amt s f"
    and it: "\<And>r. r \<in> set (intents d') \<Longrightarrow> r \<in> set (intents d) \<or> known_intent s r"
  shows "coupled amt hist (s, d')"
proof -
  have db: "db_coupled amt s d" and ch: "chain_coupled amt (view_of d) hist s" using c by (simp_all add: coupled_def)
  have row: "known_row amt n (q0\<lparr>ce_status := st\<rparr>) = known_row amt n q0" for q0 st n
    by (simp add: known_row_def known_stored_def read_event_def)
  have "known_payload (view_of d') q" if q: "q \<in> set (outbox d')" for q
    using ob [OF q]
  proof
    assume "\<exists>q0 \<in> set (outbox d). ob_payload q = ob_payload q0"
    then obtain q0 where "q0 \<in> set (outbox d)" "ob_payload q = ob_payload q0" by blast
    with db have "known_payload (view_of d) q" by (auto simp: db_coupled_def known_payload_def)
    then show ?thesis using V by (rule known_payload_mono)
  qed
  moreover have "known_row amt (sm_next_deposit s) q" if "q \<in> set (chain_events d')" for q
    using ce [OF that] db row by (auto simp: db_coupled_def)
  moreover have "known_fact amt s f" if "f \<in> set (chain_facts d')" for f
    using cf [OF that] db by (auto simp: db_coupled_def known_fact_def)
  moreover have "known_intent s r" if "r \<in> set (intents d')" for r
    using it [OF that] db by (auto simp: db_coupled_def)
  ultimately have "db_coupled amt s d'" by (simp add: db_coupled_def)
  then show ?thesis using inv chain_coupled_mono [OF ch V] by (simp add: coupled_def)
qed

lemma coupled_quiet:
  assumes "coupled amt hist (s, d)" "store_inv d'" "intents d' = intents d" "outbox d' = outbox d"
    "chain_events d' = chain_events d" "chain_facts d' = chain_facts d"
  shows "coupled amt hist (s, d')"
  using assms(1,2) by (rule coupled_store) (auto simp: assms(3-) view_of_def intro: exI)

lemma coupled_inv: "coupled amt hist (s, d) \<Longrightarrow> store_inv d"
  by (simp add: coupled_def)

lemma status_rows: "q \<in> set (chain_events (SetEventStatus eid st d)) \<Longrightarrow>
  q \<in> set (chain_events d) \<or> (\<exists>q0 \<in> set (chain_events d). \<exists>st. q = q0\<lparr>ce_status := st\<rparr>)"
  by (auto simp: SetEventStatus_def set_update_where split: if_splits)

lemma coupled_status:
  assumes c: "coupled amt hist (s, d)"
  shows "coupled amt hist (s, SetEventStatus eid st d)"
proof -
  have "store_inv (SetEventStatus eid st d)" using store_inv_step [OF store_step.event_status coupled_inv [OF c]] .
  with c show ?thesis
    by (rule coupled_store) (auto simp: view_of_def dest!: status_rows)
qed

text \<open>A new intent with its outbox row.\<close>

lemma coupled_request:
  assumes c: "coupled amt hist (s, d)" and inv: "store_inv d'"
    and ins: "intents d' = intents d @ [r]" and ob: "outbox d' = outbox (insert_outbox (in_id r) op payload now d)"
    and same: "chain_events d' = chain_events d" "chain_facts d' = chain_facts d"
    and r: "known_intent s r" and p: "tx_ok (tx_of_payload payload)" "tx_kind (tx_of_payload payload) \<noteq> ''deposit''"
      "tx_kind (tx_of_payload payload) \<noteq> ''cancel''" "carries_out (tx_of_payload payload) (view_row r)"
  shows "coupled amt hist (s, d')"
proof -
  have V: "view_of d' = insert (view_row r) (view_of d)" by (simp add: view_of_def ins)
  have "in_id r = tx_nonce (tx_of_payload payload)" using p(4) by (auto simp: carries_out_def view_row_def)
  then have it: "intent_tx (view_of d') (tx_of_payload payload)"
    using r p(2,4) by (simp add: intent_tx_def V known_intent_def)
  have rows: "q \<in> set (outbox d) \<or> ob_payload q = payload" if "q \<in> set (outbox d')" for q
    using that by (auto simp: ob insert_outbox_def split: if_splits)
  have pl: "(\<exists>q0 \<in> set (outbox d). ob_payload q = ob_payload q0) \<or> known_payload (view_of d') q" if "q \<in> set (outbox d')" for q
    using rows [OF that] it p(1,3) unfolding known_payload_def by blast
  show ?thesis
    using c inv by (rule coupled_store) (use pl r V in \<open>auto simp: ins same\<close>)
qed

lemma json_payload [simp]:
  "tx_of_payload (withdraw_payload i u a x) = \<lparr>tx_nonce = i, tx_kind = ''withdraw'', tx_user = u, tx_amount = a,
     tx_market = '''', tx_target = 0, tx_outcome = 0, tx_expiry = x\<rparr>"
  "tx_of_payload (settle_payload i m oc) = \<lparr>tx_nonce = i, tx_kind = ''settle_market'', tx_user = '''', tx_amount = 0,
     tx_market = m, tx_target = 0, tx_outcome = oc, tx_expiry = 0\<rparr>"
  "tx_of_payload (escrow_payload i m t x) = \<lparr>tx_nonce = i, tx_kind = ''escrow_set'', tx_user = '''', tx_amount = 0,
     tx_market = m, tx_target = t, tx_outcome = 0, tx_expiry = x\<rparr>"
  by (simp_all add: tx_of_payload_def withdraw_payload_def settle_payload_def escrow_payload_def json_str_def json_int_def)

lemma new_intent_known: "fresh_id i \<Longrightarrow> (k = Withdraw \<Longrightarrow> 0 < x) \<Longrightarrow> known_intent s (new_intent i ky k u m a dl x)"
  using fresh_id_plain [of i] by (auto simp: known_intent_def new_intent_def)

lemma reserve_withdraw_rows:
  assumes "reserve_withdraw nid ntid user amount key expiry now d = Inr ((i, rep), d')"
  shows "outbox d' = outbox (insert_outbox nid ''withdraw'' (withdraw_payload nid user amount expiry) now d)"
    and "chain_events d' = chain_events d" and "chain_facts d' = chain_facts d"
proof -
  from assms obtain tid rep0 d2 where
    post: "PostTx ntid (Transfer ''withdraw.reserve'' (reserve_key nid) [Leg (AvailableAcct user) (- amount), Leg (PendingAcct user) amount])
        (d\<lparr>intents := intents d @ [new_intent nid (null_if_empty key) Withdraw (Some user) None amount (now + WithdrawTTL) expiry]\<rparr>) = Inr ((tid, rep0), d2)"
    and d': "d' = insert_outbox nid ''withdraw'' (withdraw_payload nid user amount expiry) now
       (d2\<lparr>intents := update_where (\<lambda>r. in_id r = nid) (\<lambda>r. r\<lparr>in_reserve_transfer := Some tid\<rparr>) (intents d2)\<rparr>)"
    by (auto simp: reserve_withdraw_def insert_intent_Inr Let_def split: option.splits)
  show "outbox d' = outbox (insert_outbox nid ''withdraw'' (withdraw_payload nid user amount expiry) now d)"
    "chain_events d' = chain_events d" "chain_facts d' = chain_facts d"
    using PostTx_frame [OF post] by (simp_all add: d' insert_outbox_def)
qed

lemma coupled_head: "coupled amt hist (s, d) \<Longrightarrow> 0 \<le> sm_head s"
  by (simp add: coupled_def chain_coupled_def chain_ok_def)

lemma coupled_withdraw:
  assumes c: "coupled amt hist (s, d)" and nid: "fresh_id nid" and a: "int64 amount"
    and res: "app_RequestWithdraw nid ntid user amount key now s d = Inr ((i, rep), d')"
  shows "coupled amt hist (s, d')"
proof -
  define x where "x = sm_head s + WithdrawExpiryBlocks"
  have x: "0 < x" using coupled_head [OF c] by (simp add: x_def WithdrawExpiryBlocks_def)
  have ok: "id_ok nid" using fresh_id_plain [OF nid] by simp
  from res have res': "RequestWithdraw nid ntid user amount key x now d = Inr ((i, rep), d')"
    by (simp add: app_RequestWithdraw_def x_def VaultState_def Let_def)
  note parts = store_invD [OF coupled_inv [OF c]]
  have inv: "store_inv d'" by (rule store_inv_step [OF store_step.withdraw [OF ok a res'] coupled_inv [OF c]])
  from res' show ?thesis
  proof (cases rule: RequestWithdraw_cases)
    case (replay old)
    with c show ?thesis by simp
  next
    case fresh
    let ?r = "(new_intent nid (null_if_empty key) Withdraw (Some user) None amount (now + WithdrawTTL) x)\<lparr>in_reserve_transfer := Some ntid\<rparr>"
    note rows = reserve_withdraw_rows [OF fresh(3)]
    have ins: "intents d' = intents d @ [?r]"
      by (rule reserve_withdraw_spec [OF parts(4,6) ok fresh(1) a fresh(3)]) simp
    have "known_intent s ?r" using new_intent_known [OF nid, of Withdraw x] x by (simp add: known_intent_def)
    then show ?thesis
      by (intro coupled_request [OF c inv ins _ rows(2,3), of "''withdraw''" "withdraw_payload nid user amount x" now])
         (use a rows(1) in \<open>simp_all add: new_intent_def tx_ok_def carries_out_def view_row_def\<close>)
  qed
qed

lemma coupled_settlement:
  assumes c: "coupled amt hist (s, d)" and nid: "fresh_id nid"
    and res: "RequestSettlement nid marketID outcome now d = Inr ((i, rep), d')"
  shows "coupled amt hist (s, d')"
proof -
  have ok: "id_ok nid" using fresh_id_plain [OF nid] by simp
  have inv: "store_inv d'" by (rule store_inv_step [OF store_step.settlement [OF ok res] coupled_inv [OF c]])
  from res show ?thesis
  proof (cases rule: RequestSettlement_cases)
    case (replay old m)
    with c show ?thesis by simp
  next
    case fresh
    let ?r = "new_intent nid (Some (''settle:'' @ marketID)) SettleMarket None (Some marketID) 0 (now + 60000) 0"
    have "known_intent s ?r" by (rule new_intent_known [OF nid]) simp
    moreover have "intents d' = intents d @ [?r]" by (simp add: fresh(7) insert_outbox_def)
    ultimately show ?thesis
      by (intro coupled_request [OF c inv, of ?r "''settle''" "settle_payload nid marketID outcome" now])
         (simp_all add: fresh(7) new_intent_def tx_ok_def carries_out_def view_row_def insert_outbox_def)
  qed
qed

lemma coupled_escrow:
  assumes c: "coupled amt hist (s, d)" and nid: "fresh_id nid" and t: "0 \<le> target" "int64 target"
    and res: "RequestEscrowSet nid marketID target expiry now d = Inr ((i, rep), d')"
  shows "coupled amt hist (s, d')"
proof -
  have ok: "id_ok nid" using fresh_id_plain [OF nid] by simp
  have inv: "store_inv d'" by (rule store_inv_step [OF store_step.escrow [OF ok res] coupled_inv [OF c]])
  from res show ?thesis
  proof (cases rule: RequestEscrowSet_cases)
    case (replay old)
    with c show ?thesis by simp
  next
    case fresh
    let ?r = "new_intent nid None EscrowSet None (Some marketID) target (now + 60000) expiry"
    have "known_intent s ?r" by (rule new_intent_known [OF nid]) simp
    moreover have "intents d' = intents d @ [?r]" by (simp add: fresh(5) insert_outbox_def)
    ultimately show ?thesis
      by (intro coupled_request [OF c inv, of ?r "''escrow_set''" "escrow_payload nid marketID target expiry" now])
         (simp_all add: fresh(5) new_intent_def tx_ok_def carries_out_def view_row_def insert_outbox_def t)
  qed
qed

text \<open>A row of the intents replaced.\<close>

lemma coupled_update:
  assumes c: "coupled amt hist (s, d)" and inv: "store_inv d'"
    and up: "intents d' = update_where (\<lambda>r. in_id r = iid) f (intents d)"
    and ob: "\<And>q. q \<in> set (outbox d') \<Longrightarrow> \<exists>q0 \<in> set (outbox d). ob_payload q = ob_payload q0"
    and same: "chain_events d' = chain_events d" "chain_facts d' = chain_facts d"
    and f: "\<And>r. view_row (f r) = view_row r"
      "\<And>r. r \<in> set (intents d) \<Longrightarrow> in_id r = iid \<Longrightarrow> known_intent s r \<Longrightarrow> known_intent s (f r)"
  shows "coupled amt hist (s, d')"
proof -
  have "view_row (if in_id r = iid then f r else r) = view_row r" for r using f(1) by simp
  then have V: "view_of d' = view_of d" unfolding view_of_def up set_update_where
    by (simp add: image_image del: if_image_distrib)
  have kn: "known_intent s r" if "r \<in> set (intents d)" for r using c that by (simp add: coupled_def db_coupled_def)
  have "r \<in> set (intents d) \<or> known_intent s r" if "r \<in> set (intents d')" for r
    using that f(2) kn unfolding up set_update_where by (auto split: if_splits)
  then show ?thesis
    using ob by (intro coupled_store [OF c inv]) (auto simp: V same)
qed

lemma set_confirmed_rows:
  "intents (set_confirmed iid h x tid d) = update_where (\<lambda>r. in_id r = iid)
     (\<lambda>r. r\<lparr>in_state := StateConfirmed, in_height := Some h, in_hash := Some x, in_final_transfer := tid\<rparr>) (intents d)"
  "outbox (set_confirmed iid h x tid d) = outbox d" "chain_events (set_confirmed iid h x tid d) = chain_events d"
  "chain_facts (set_confirmed iid h x tid d) = chain_facts d"
  by (simp_all add: set_confirmed_def)

lemma TxStatus_final:
  assumes "sim_inv hist s" "ts_processed (TxStatus i s)" "ts_finalized (TxStatus i s)"
  shows "TxStatus i s = final_status (ts_height (TxStatus i s)) (ts_hash (TxStatus i s))"
proof -
  from assms(1,2) obtain b t where "TxStatus i s = receipt_for (int (length hist)) b" by (rule TxStatus_block)
  with assms(3) show ?thesis by (simp add: receipt_for_def final_status_def included_def no_status_def)
qed

lemma coupled_confirm:
  assumes c: "coupled amt hist (s, d)" and f: "ts_processed (TxStatus iid s)" "ts_finalized (TxStatus iid s)"
    and res: "Confirm gen ntid iid (ts_height (TxStatus iid s)) (ts_hash (TxStatus iid s)) d = Inr d'"
  shows "coupled amt hist (s, d')"
proof -
  let ?h = "ts_height (TxStatus iid s)" and ?x = "ts_hash (TxStatus iid s)"
  have inv: "store_inv d'" by (rule store_inv_step [OF store_step.confirm [OF res] coupled_inv [OF c]])
  note parts = store_invD [OF coupled_inv [OF c]]
  have st: "TxStatus iid s = final_status ?h ?x"
    using c TxStatus_final [OF _ f] by (auto simp: coupled_def chain_coupled_def)
  have commit: "coupled amt hist (s, d')" if d': "d' = set_confirmed iid ?h ?x tid d1"
    and same: "intents d1 = intents d" "outbox d1 = outbox d" "chain_events d1 = chain_events d" "chain_facts d1 = chain_facts d" for tid d1
  proof -
    have "intents d' = update_where (\<lambda>r. in_id r = iid) (\<lambda>r. r\<lparr>in_state := StateConfirmed, in_height := Some ?h,
        in_hash := Some ?x, in_final_transfer := tid\<rparr>) (intents d)" by (simp add: d' same)
    then show ?thesis
      by (rule coupled_update [OF c inv])
         (use st in \<open>auto simp: d' set_confirmed_rows same view_row_def known_intent_def\<close>)
  qed
  have "intent_books d" using parts(6) by (simp add: intent_inv_def)
  then show ?thesis using res
  proof (cases rule: Confirm_cases)
    case (already r)
    with c show ?thesis by simp
  next
    case (withdraw r i rep d1)
    show ?thesis by (rule commit [OF withdraw(5)]) (simp_all add: PostTx_frame [OF withdraw(4)])
  next
    case (settle r m outcome d1)
    show ?thesis by (rule commit [OF settle(7)])
      (use settleMarketTx_frame [OF settle(6) parts(4,5)] in \<open>simp_all add: trade_frame_def\<close>)
  next
    case (escrow r)
    show ?thesis by (rule commit [OF escrow(4)]) simp_all
  qed
qed

lemma coupled_expire:
  assumes c: "coupled amt hist (s, d)" and res: "Expire ntid iid height now d = Inr d'"
  shows "coupled amt hist (s, d')"
proof -
  have inv: "store_inv d'" by (rule store_inv_step [OF store_step.expire [OF res] coupled_inv [OF c]])
  note parts = store_invD [OF coupled_inv [OF c]]
  have rep: "\<exists>q0 \<in> set (outbox d). ob_payload q = ob_payload q0" if "q \<in> set (outbox (repend_outbox iid now d))" for q
    using that by (auto simp: repend_outbox_def set_update_where split: if_splits)
  have "intent_books d" using parts(6) by (simp add: intent_inv_def)
  then show ?thesis using res
  proof (cases rule: Expire_cases)
    case (already r)
    with c show ?thesis by simp
  next
    case (withdraw r i rep d1)
    have "intents d' = update_where (\<lambda>r. in_id r = iid) (\<lambda>r. r\<lparr>in_state := StateExpired\<rparr>) (intents d)"
      by (simp add: withdraw(7) PostTx_frame [OF withdraw(6)])
    then show ?thesis
      by (rule coupled_update [OF c inv])
         (auto simp: withdraw(7) update_intent_def PostTx_frame [OF withdraw(6)] view_row_def known_intent_def)
  next
    case (settle r)
    have "intents d' = update_where (\<lambda>r. in_id r = iid) (\<lambda>r. r\<lparr>in_deadline := now + 60000\<rparr>) (intents d)"
      by (simp add: settle(4))
    then show ?thesis
      by (rule coupled_update [OF c inv])
         (use rep in \<open>auto simp: settle(4) update_intent_def repend_outbox_def view_row_def known_intent_def\<close>)
  next
    case (escrow r)
    have "intents d' = update_where (\<lambda>r. in_id r = iid) (\<lambda>r. r\<lparr>in_state := StateExpired\<rparr>) (intents d)"
      by (simp add: escrow(4))
    then show ?thesis
      by (rule coupled_update [OF c inv])
         (auto simp: escrow(4) update_intent_def view_row_def known_intent_def)
  qed
qed

lemma coupled_submitted:
  assumes c: "coupled amt hist (s, d)"
  shows "coupled amt hist (s, MarkSubmitted iid tx msg d)"
proof -
  have inv: "store_inv (MarkSubmitted iid tx msg d)" by (rule store_inv_step [OF store_step.submitted coupled_inv [OF c]])
  show ?thesis
    by (rule coupled_update [OF c inv MarkSubmitted_rows])
       (auto simp: MarkSubmitted_frame view_row_def submit_row_def known_intent_def MarkSubmitted_def inflight_def)
qed

section \<open>Events and facts\<close>

lemma known_from_log:
  assumes "known_event amt n ev" and "e = stored_of ev \<or> e = healed_event ev"
  shows "id_ok (se_id e)" and "se_kind e = ''deposit'' \<Longrightarrow> known_stored amt n e"
  using assms by (auto simp: known_event_def known_stored_def healed_event_def stored_of_def)

lemma known_stored_status: "known_stored amt n (e\<lparr>se_status := st\<rparr>) = known_stored amt n e"
  by (simp add: known_stored_def)

lemma coupled_log: "coupled amt hist (s, d) \<Longrightarrow> ev \<in> set (sm_log s) \<Longrightarrow> known_event amt (sm_next_deposit s) ev"
  by (simp add: coupled_def chain_coupled_def)

lemma coupled_record:
  assumes c: "coupled amt hist (s, d)" and ev: "ev \<in> set (sm_log s)" and e: "e = stored_of ev \<or> e = healed_event ev"
  shows "coupled amt hist (s, snd (RecordEvent e d))"
proof -
  note kn = known_from_log [OF coupled_log [OF c ev] e]
  have inv: "store_inv (snd (RecordEvent e d))"
    by (rule store_inv_step [OF store_step.record_event [OF kn(1)] coupled_inv [OF c]])
  let ?q = "\<lparr>ce_id = se_id e, ce_seq = se_seq e, ce_kind = se_kind e, ce_payload = event_payload e,
     ce_height = se_height e, ce_hash = se_hash e, ce_status = EvReceived\<rparr>"
  have rb: "read_event ?q = e\<lparr>se_status := EvReceived\<rparr>"
    by (simp add: read_event_def event_payload_def json_str_def json_int_def)
  have "known_row amt (sm_next_deposit s) ?q"
    unfolding known_row_def rb known_stored_status using kn(2) by simp
  then show ?thesis
    by (intro coupled_store [OF c inv]) (auto simp: RecordEvent_def view_of_def split: if_splits)
qed

lemma coupled_apply:
  assumes c: "coupled amt hist (s, d)" and kn: "known_stored amt (sm_next_deposit s) e" and kind: "se_kind e = ''deposit''"
    and res: "ApplyDeposit ntid e d = Inr d'"
  shows "coupled amt hist (s, d')"
proof -
  have ok: "id_ok (se_id e)" and am: "0 < se_amount e" "int64 (se_amount e)" using kn unfolding known_stored_def by blast+
  note parts = store_invD [OF coupled_inv [OF c]]
  have inv: "store_inv d'" by (rule store_inv_step [OF store_step.deposit [OF ok kind am res] coupled_inv [OF c]])
  show ?thesis
  proof (rule ApplyDeposit_cases [OF parts(4,2) ok am res])
    assume "d' = SetEventStatus (se_id e) EvApplied d"
    then show ?thesis using coupled_status [OF c] by simp
  next
    fix i d1
    assume post: "PostTx ntid (Transfer ''deposit.provisional'' (deposit_key (se_id e))
        [Leg AcctExternal (- se_amount e), Leg (AvailableAcct (se_user e)) (se_amount e)]) d = Inr ((i, False), d1)"
      and d': "d' = SetEventStatus (se_id e) EvApplied (d1\<lparr>chain_facts := chain_facts d @ [new_fact e i]\<rparr>)"
    have "known_fact amt s (new_fact e i)" using kn by (simp add: known_fact_def new_fact_def known_stored_def)
    then show ?thesis
      by (intro coupled_store [OF c inv]) (auto simp: d' view_of_def PostTx_frame [OF post] dest!: status_rows)
  qed
qed

text \<open>A live fact is in the block the receipt names, at the height the fact was recorded with.\<close>

lemma live_height:
  assumes inv: "sim_inv hist s" and dist: "distinct (map bl_hash (hist @ sm_pending s))" and l: "fact_live s f"
  shows "ts_height (TxStatus (cf_fact f) s) = cf_height f"
proof -
  have p: "ts_processed (TxStatus (cf_fact f) s)" and x: "ts_hash (TxStatus (cf_fact f) s) = cf_hash f"
    and can: "CanonicalHash (cf_height f) s = Some (cf_hash f)" using l by (simp_all add: fact_live_def Let_def)
  from inv p obtain b where b: "b \<in> set (hist @ sm_pending s)" "TxStatus (cf_fact f) s = receipt_for (int (length hist)) b"
    by (rule TxStatus_block)
  obtain b' where b': "b' \<in> set (hist @ sm_pending s)" "bl_height b' = cf_height f" "bl_hash b' = cf_hash f"
    using can inv by (auto simp: CanonicalHash_def chain_ok_def hashes_ok_def)
  have "bl_hash b = bl_hash b'" using x b(2) b'(3) by (simp add: receipt_for_def included_def)
  then have "b = b'" using dist b(1) b'(1) by (metis distinct_map inj_onD)
  then show ?thesis using b(2) b'(2) by (simp add: receipt_for_def included_def)
qed

lemma coupled_finalize:
  assumes c: "coupled amt hist (s, d)" and f: "final_fact_event s d eid"
  shows "coupled amt hist (s, MarkFactFinalized eid d)"
proof -
  let ?d = "MarkFactFinalized eid d"
  have inv: "store_inv ?d" by (rule store_inv_step [OF store_step.finalize coupled_inv [OF c]])
  have ch: "sim_inv hist s" "distinct (map bl_hash (hist @ sm_pending s))" using c by (simp_all add: coupled_def chain_coupled_def)
  have "g \<in> set (chain_facts d) \<or> known_fact amt s g" if g: "g \<in> set (chain_facts ?d)" for g
  proof -
    obtain f0 where f0: "f0 \<in> set (chain_facts d)"
      "g = (if cf_event f0 = eid \<and> \<not> cf_reverted f0 then f0\<lparr>cf_finalized := True\<rparr> else f0)"
      using g unfolding MarkFactFinalized_def
      by (simp add: set_update_where del: if_image_distrib) blast
    show ?thesis
    proof (cases "cf_event f0 = eid \<and> \<not> cf_reverted f0")
      case True
      with f f0(1) have l: "fact_live s f0" and fin: "ts_finalized (TxStatus (cf_fact f0) s)" by (auto simp: final_fact_event_def)
      have p: "ts_processed (TxStatus (cf_fact f0) s)" using l by (simp add: fact_live_def Let_def)
      have "TxStatus (cf_fact f0) s = final_status (cf_height f0) (cf_hash f0)"
        using TxStatus_final [OF ch(1) p fin] live_height [OF ch l] l by (simp add: fact_live_def Let_def)
      moreover have "known_fact amt s f0" using c f0(1) by (simp add: coupled_def db_coupled_def)
      ultimately show ?thesis using True f0(2) by (simp add: known_fact_def)
    qed (use f0 in auto)
  qed
  then show ?thesis
    by (intro coupled_store [OF c inv]) (auto simp: view_of_def MarkFactFinalized_def)
qed

lemma revert_item_rows:
  assumes "revert_item_tx ntid h it d = Inr d'"
  shows "chain_facts d' = update_where (\<lambda>f. cf_event f = ri_event it) (\<lambda>f. f\<lparr>cf_reverted := True\<rparr>) (chain_facts d)"
    and "chain_events d' = chain_events (SetEventStatus (ri_event it) EvOrphaned d)"
proof -
  from assms obtain x d1 where post: "PostTx ntid (Transfer ''deposit.reverted'' (unwind_key (ri_event it))
       [Leg (AvailableAcct (ri_user it)) (- clawback (ri_amount it) (Balance d (AvailableAcct (ri_user it)))),
        Leg AcctInsurance (- i64 (ri_amount it - clawback (ri_amount it) (Balance d (AvailableAcct (ri_user it))))),
        Leg AcctExternal (ri_amount it)]) d = Inr (x, d1)"
    and d': "d' = (let d3 = SetEventStatus (ri_event it) EvOrphaned (d1\<lparr>chain_facts := update_where (\<lambda>f. cf_event f = ri_event it)
               (\<lambda>f. f\<lparr>cf_reverted := True\<rparr>) (chain_facts d1)\<rparr>)
       in if i64 (ri_amount it - clawback (ri_amount it) (Balance d (AvailableAcct (ri_user it)))) > 0 then
               Freeze (ri_user it) (''spent '' @ USD (i64 (ri_amount it - clawback (ri_amount it) (Balance d (AvailableAcct (ri_user it))))) @
                 '' of a provisional deposit orphaned in '' @ h) d3 else d3)"
    by (auto simp: revert_item_tx_def Let_def)
  obtain i r where "x = (i, r)" by (cases x)
  with post have fr: "chain_facts d1 = chain_facts d" "chain_events d1 = chain_events d" by (simp_all add: PostTx_frame)
  show "chain_facts d' = update_where (\<lambda>f. cf_event f = ri_event it) (\<lambda>f. f\<lparr>cf_reverted := True\<rparr>) (chain_facts d)"
    "chain_events d' = chain_events (SetEventStatus (ri_event it) EvOrphaned d)"
    using fr by (simp_all add: d' Let_def Freeze_def SetEventStatus_def)
qed

lemma revert_loop_rows:
  assumes "revert_loop gen h its n d = (x, d')"
  shows "(\<forall>f \<in> set (chain_facts d'). f \<in> set (chain_facts d) \<or> (\<exists>g \<in> set (chain_facts d). f = g\<lparr>cf_reverted := True\<rparr>)) \<and>
    (\<forall>q \<in> set (chain_events d'). q \<in> set (chain_events d) \<or> (\<exists>q0 \<in> set (chain_events d). \<exists>st. q = q0\<lparr>ce_status := st\<rparr>))"
  using assms
proof (induction gen h its n d rule: revert_loop.induct)
  case (2 gen h it its n d)
  show ?case
  proof (cases "ri_kind it \<noteq> ''deposit''")
    case True
    with 2 show ?thesis by simp
  next
    case False
    show ?thesis
    proof (cases "revert_item_tx (gen (ri_event it)) h it d")
      case (Inl e)
      with 2 False show ?thesis by auto
    next
      case (Inr d1)
      note rows = revert_item_rows [OF Inr]
      have f1: "f \<in> set (chain_facts d) \<or> (\<exists>g \<in> set (chain_facts d). f = g\<lparr>cf_reverted := True\<rparr>)" if "f \<in> set (chain_facts d1)" for f
        using that by (auto simp: rows(1) set_update_where split: if_splits)
      have q1: "q \<in> set (chain_events d) \<or> (\<exists>q0 \<in> set (chain_events d). \<exists>st. q = q0\<lparr>ce_status := st\<rparr>)" if "q \<in> set (chain_events d1)" for q
        using that by (auto simp: rows(2) dest!: status_rows)
      have ih: "(\<forall>f \<in> set (chain_facts d'). f \<in> set (chain_facts d1) \<or> (\<exists>g \<in> set (chain_facts d1). f = g\<lparr>cf_reverted := True\<rparr>)) \<and>
        (\<forall>q \<in> set (chain_events d'). q \<in> set (chain_events d1) \<or> (\<exists>q0 \<in> set (chain_events d1). \<exists>st. q = q0\<lparr>ce_status := st\<rparr>))"
        using 2(2) [OF False Inr] 2(3) False Inr by simp
      have "f \<in> set (chain_facts d) \<or> (\<exists>g \<in> set (chain_facts d). f = g\<lparr>cf_reverted := True\<rparr>)" if "f \<in> set (chain_facts d')" for f
        using conjunct1 [OF ih, rule_format, OF that]
      proof (elim disjE bexE)
        fix g assume g: "g \<in> set (chain_facts d1)" "f = g\<lparr>cf_reverted := True\<rparr>"
        then show ?thesis using f1 [OF g(1)] by auto
      qed (rule f1)
      moreover have "q \<in> set (chain_events d) \<or> (\<exists>q0 \<in> set (chain_events d). \<exists>st. q = q0\<lparr>ce_status := st\<rparr>)" if "q \<in> set (chain_events d')" for q
        using conjunct2 [OF ih, rule_format, OF that]
      proof (elim disjE bexE exE)
        fix q0 st assume q0: "q0 \<in> set (chain_events d1)" "q = q0\<lparr>ce_status := st\<rparr>"
        from q1 [OF q0(1)] show ?thesis
        proof (elim disjE bexE exE)
          fix q2 st2 assume "q2 \<in> set (chain_events d)" "q0 = q2\<lparr>ce_status := st2\<rparr>"
          with q0(2) show ?thesis by auto
        qed (use q0(2) in blast)
      qed (rule q1)
      ultimately show ?thesis by blast
    qed
  qed
qed simp

lemma coupled_revert_block:
  assumes c: "coupled amt hist (s, d)"
  shows "coupled amt hist (s, snd (RevertBlock gen h d))"
proof -
  obtain n e d' where res: "RevertBlock gen h d = ((n, e), d')" by (metis prod.collapse)
  note parts = store_invD [OF coupled_inv [OF c]]
  have inv: "store_inv (snd (RevertBlock gen h d))" by (rule store_inv_step [OF store_step.revert_block coupled_inv [OF c]])
  have fr: "intents d' = intents d" "outbox d' = outbox d"
    using RevertBlock_spec(3) [OF parts(4,2) res] by (simp_all add: revert_frame_def)
  note rows = revert_loop_rows [OF res [unfolded RevertBlock_def]]
  show ?thesis using inv rows unfolding res snd_conv
    by (intro coupled_store [OF c]) (auto simp: fr view_of_def)
qed

section \<open>Every step\<close>

lemma same_books_inv:
  assumes inv: "store_inv d" and b: "same_books d d'"
  shows "store_inv d'"
proof -
  obtain ob ed re where d': "d' = d\<lparr>outbox := ob, escrow_drift := ed, reconciliations := re\<rparr>"
    and ob: "map (\<lambda>q. (ob_intent q, ob_payload q)) ob = map (\<lambda>q. (ob_intent q, ob_payload q)) (outbox d)"
    using b by (auto simp: same_books_def)
  note parts = store_invD [OF inv]
  have "map ob_intent ob = map ob_intent (outbox d)" using arg_cong [OF ob, of "map fst"] by (simp add: comp_def)
  then have ids: "ob_intent ` set ob = ob_intent ` set (outbox d)" by (metis set_map)
  have eq: "transfers d' = transfers d" "entries d' = entries d" "account_balances d' = account_balances d"
    by (simp_all add: d')
  note led = ledger_tables_eq [OF eq]
  have "market_inv d'" by (rule market_inv_frame [OF parts(5)]) (simp_all add: led d')
  moreover have "intent_inv d'" by (rule intent_inv_frame [OF parts(6)]) (use ids in \<open>simp_all add: led d'\<close>)
  moreover have "fact_inv d'" by (rule fact_inv_events [OF parts(2)]) (simp_all add: led d')
  moreover have "custody_inv d'"
    using parts(3) by (simp add: custody_inv_def live_deposits_def paid_out_def led) (simp add: d')
  moreover have "ledger_inv d'" using parts(4) led by simp
  ultimately show ?thesis by (simp add: store_inv_def core_inv_def)
qed

lemma coupled_books:
  assumes c: "coupled amt hist (s, d)" and b: "same_books d d'"
  shows "coupled amt hist (s, d')"
proof -
  obtain ob ed re where d': "d' = d\<lparr>outbox := ob, escrow_drift := ed, reconciliations := re\<rparr>"
    and ob: "map (\<lambda>q. (ob_intent q, ob_payload q)) ob = map (\<lambda>q. (ob_intent q, ob_payload q)) (outbox d)"
    using b by (auto simp: same_books_def)
  have "map ob_payload ob = map ob_payload (outbox d)" using arg_cong [OF ob, of "map snd"] by (simp add: comp_def)
  then have "ob_payload ` set ob = ob_payload ` set (outbox d)" by (metis set_map)
  then have "\<exists>q0 \<in> set (outbox d). ob_payload q = ob_payload q0" if "q \<in> set ob" for q
    using that by (metis imageE imageI)
  then show ?thesis
    by (intro coupled_store [OF c same_books_inv [OF coupled_inv [OF c] b]]) (simp_all add: d' view_of_def)
qed

lemma coupled_chain:
  assumes c: "coupled amt hist (s, d)" and ch: "chain_coupled amt (view_of d) (hist @ new) s'"
    and "sm_next_deposit s' = sm_next_deposit s"
  shows "coupled amt (hist @ new) (s', d)"
proof -
  have "chain_coupled amt (view_of d) hist s" "sim_inv (hist @ new) s'" "db_coupled amt s d" "store_inv d"
    using c ch by (simp_all add: coupled_def chain_coupled_def)
  then show ?thesis using db_coupled_later [of amt _ hist s new s' amt d] ch assms(3) by (simp add: coupled_def)
qed

lemma coupled_quiet_step:
  assumes "coupled amt hist (s, d)" "store_step d d'" "intents d' = intents d" "outbox d' = outbox d"
    "chain_events d' = chain_events d" "chain_facts d' = chain_facts d"
  shows "coupled amt hist (s, d')"
  using coupled_quiet [OF assms(1) store_inv_step [OF assms(2) coupled_inv [OF assms(1)]] assms(3-)] .

lemma coupled_trade:
  assumes c: "coupled amt hist (s, d)" and "store_step d d'" and "trade_frame d d'"
  shows "coupled amt hist (s, d')"
  using assms(3) by (intro coupled_quiet [OF c store_inv_step [OF assms(2) coupled_inv [OF c]]]) (simp_all add: trade_frame_def)

lemma coupled_cancel_tx:
  assumes c: "coupled amt hist (s, d)" and "(iid, k, a, y) \<in> view_of d"
  shows "known_tx amt n (view_of d) (cancel_tx iid x)"
proof -
  obtain r where r: "r \<in> set (intents d)" "iid = in_id r" using assms(2) by (auto simp: view_of_def view_row_def)
  then have "known_intent s r" using c by (simp add: coupled_def db_coupled_def)
  then show ?thesis using r
    by (auto simp: known_tx_def tx_ok_def cancel_tx_def intent_tx_def known_intent_def carries_out_def view_of_def view_row_def)
qed

lemma sys_step_coupled:
  assumes "sys_step w w'" and "coupled amt hist w"
  shows "\<exists>amt' new. coupled amt' (hist @ new) w'"
proof -
  have keep: "\<exists>amt' new. coupled amt' (hist @ new) w'" if "coupled amt hist w'"
    using that by (intro exI [of _ amt] exI [of _ "[]"]) simp
  from assms(1) show ?thesis
  proof cases
    case (seed mid question mark d d' s)
    have c: "coupled amt hist (s, d)" using assms(2) seed(1) by simp
    show ?thesis
      by (rule keep, unfold seed(2), rule coupled_quiet_step [OF c store_step.seed [OF seed(3)]])
         (use seed(3) in \<open>auto simp: SeedMarket_def split: if_splits\<close>)
  next
    case (mark s d mid mark)
    have c: "coupled amt hist (s, d)" using assms(2) mark(1) by simp
    show ?thesis
      by (rule keep, unfold mark(2), rule coupled_quiet_step [OF c store_step.mark])
         (simp_all add: SetMark_def Let_def)
  next
    case (open_position npid ntid user marketID side sz idemKey d pid d' s)
    have c: "coupled amt hist (s, d)" using assms(2) open_position(1) by simp
    note parts = store_invD [OF coupled_inv [OF c]]
    show ?thesis
      using coupled_trade [OF c store_step.open_position [OF open_position(3)] OpenPosition_frame [OF parts(4,5) open_position(3)]]
        open_position(2) by (intro keep) simp
  next
    case (close_position ntid pid mark reason d d' s)
    have c: "coupled amt hist (s, d)" using assms(2) close_position(1) by simp
    note parts = store_invD [OF coupled_inv [OF c]]
    show ?thesis
      using coupled_trade [OF c store_step.close_position [OF close_position(3)] ClosePosition_frame [OF parts(4,5) close_position(3)]]
        close_position(2) by (intro keep) simp
  next
    case (freeze s d subject reason)
    have c: "coupled amt hist (s, d)" using assms(2) freeze(1) by simp
    show ?thesis
      by (rule keep, unfold freeze(2), rule coupled_quiet_step [OF c store_step.freeze])
         (simp_all add: Freeze_def)
  next
    case (unfreeze s d subject)
    have c: "coupled amt hist (s, d)" using assms(2) unfreeze(1) by simp
    show ?thesis
      by (rule keep, unfold unfreeze(2), rule coupled_quiet_step [OF c store_step.unfreeze])
         (simp_all add: Unfreeze_def)
  next
    case (withdraw nid amount ntid user key now s d x d')
    have c: "coupled amt hist (s, d)" using assms(2) withdraw(1) by simp
    obtain i rep where x: "x = (i, rep)" by (cases x)
    show ?thesis by (rule keep, unfold withdraw(2), rule coupled_withdraw [OF c withdraw(3,4) withdraw(5) [unfolded x]])
  next
    case (settlement nid marketID outcome now d x d' s)
    have c: "coupled amt hist (s, d)" using assms(2) settlement(1) by simp
    obtain i rep where x: "x = (i, rep)" by (cases x)
    show ?thesis by (rule keep, unfold settlement(2), rule coupled_settlement [OF c settlement(3) settlement(4) [unfolded x]])
  next
    case (escrow nid target marketID expiry now d x d' s)
    have c: "coupled amt hist (s, d)" using assms(2) escrow(1) by simp
    obtain i rep where x: "x = (i, rep)" by (cases x)
    show ?thesis by (rule keep, unfold escrow(2), rule coupled_escrow [OF c escrow(3,4,5) escrow(6) [unfolded x]])
  next
    case (books d d' s)
    have c: "coupled amt hist (s, d)" using assms(2) books(1) by simp
    show ?thesis by (rule keep, unfold books(2), rule coupled_books [OF c books(3)])
  next
    case (submit p d s u1 u2 written)
    have c: "coupled amt hist (s, d)" using assms(2) submit(1) by simp
    obtain q where q: "q \<in> set (outbox d)" "p = ob_payload q" using submit(3) by blast
    have ch: "chain_coupled amt (view_of d) hist s" and "known_payload (view_of d) q"
      using c q(1) by (simp_all add: coupled_def db_coupled_def)
    then have "known_tx amt (sm_next_deposit s) (view_of d) (tx_of_payload p)" unfolding q(2)
      by (simp add: known_payload_def known_tx_def)
    then show ?thesis using Submit_coupled [OF ch] coupled_chain [OF c, of "[]"] submit(2) by (intro keep) simp
  next
    case (submitted s d iid chainTx msg)
    have c: "coupled amt hist (s, d)" using assms(2) submitted(1) by simp
    show ?thesis by (rule keep, unfold submitted(2), rule coupled_submitted [OF c])
  next
    case (record_event ev s e d)
    have c: "coupled amt hist (s, d)" using assms(2) record_event(1) by simp
    show ?thesis by (rule keep, unfold record_event(2), rule coupled_record [OF c record_event(3,4)])
  next
    case (advance s d sq)
    have c: "coupled amt hist (s, d)" using assms(2) advance(1) by simp
    show ?thesis
      by (rule keep, unfold advance(2), rule coupled_quiet_step [OF c store_step.advance])
         (simp_all add: AdvanceCursor_def)
  next
    case (event_status s d eid st)
    have c: "coupled amt hist (s, d)" using assms(2) event_status(1) by simp
    show ?thesis by (rule keep, unfold event_status(2), rule coupled_status [OF c])
  next
    case (deposit d e s ntid d')
    have c: "coupled amt hist (s, d)" using assms(2) deposit(1) by simp
    have "known_stored amt (sm_next_deposit s) e"
      using deposit(3)
    proof
      assume "recorded d e"
      then obtain q st where q: "q \<in> set (chain_events d)" "e = (read_event q)\<lparr>se_status := st\<rparr>" by (auto simp: recorded_def)
      then have "known_row amt (sm_next_deposit s) q" using c by (simp add: coupled_def db_coupled_def)
      then show ?thesis using deposit(4) q(2) by (simp add: known_row_def known_stored_status) (simp add: read_event_def)
    next
      assume "e \<in> healed_event ` set (sm_log s)"
      then obtain ev where ev: "ev \<in> set (sm_log s)" "e = healed_event ev" by blast
      then show ?thesis using known_from_log(2) [OF coupled_log [OF c ev(1)] disjI2 [OF ev(2)] deposit(4)] by simp
    qed
    from coupled_apply [OF c this deposit(4,5)] show ?thesis using deposit(2) by (intro keep) simp
  next
    case (finalize s d eid)
    have c: "coupled amt hist (s, d)" using assms(2) finalize(1) by simp
    show ?thesis by (rule keep, unfold finalize(2), rule coupled_finalize [OF c finalize(3)])
  next
    case (revert_block s d gen hash)
    have c: "coupled amt hist (s, d)" using assms(2) revert_block(1) by simp
    show ?thesis by (rule keep, unfold revert_block(2), rule coupled_revert_block [OF c])
  next
    case (confirm iid s gen ntid d d')
    have c: "coupled amt hist (s, d)" using assms(2) confirm(1) by simp
    show ?thesis by (rule keep, unfold confirm(2), rule coupled_confirm [OF c confirm(3,4,5)])
  next
    case (cancel iid a x d s)
    have c: "coupled amt hist (s, d)" using assms(2) cancel(1) by simp
    then have ch: "chain_coupled amt (view_of d) hist s" by (simp add: coupled_def)
    show ?thesis
      using Cancel_coupled [OF ch coupled_cancel_tx [OF c cancel(3)]] coupled_chain [OF c, of "[]"] cancel(2)
      by (intro keep) simp
  next
    case (expire s d iid ntid now d')
    have c: "coupled amt hist (s, d)" using assms(2) expire(1) by simp
    show ?thesis by (rule keep, unfold expire(2), rule coupled_expire [OF c expire(4)])
  next
    case (chain_deposit amount s d user)
    have c: "coupled amt hist (s, d)" using assms(2) chain_deposit(1) by simp
    then have ch: "chain_coupled amt (view_of d) hist s" and db: "db_coupled amt s d" and inv: "store_inv d"
      by (simp_all add: coupled_def)
    note dep = Deposit_coupled [OF ch chain_deposit(3)]
    have "sim_inv (hist @ []) (snd (Deposit user amount s))" using dep(1) by (simp add: chain_coupled_def)
    from db_coupled_later [OF ch this dep(2) _ db] dep(1,3) inv have
      "coupled (amt(dep_id (sm_next_deposit s + 1) := amount)) (hist @ []) w'"
      by (simp add: chain_deposit(2) coupled_def)
    then show ?thesis by blast
  next
    case (mine md s d)
    have c: "coupled amt hist (s, d)" using assms(2) mine(1) by simp
    then have ch: "chain_coupled amt (view_of d) hist s" by (simp add: coupled_def)
    from Mine_coupled(1) [OF ch mine(3)] obtain new where "chain_coupled amt (view_of d) (hist @ new) (Mine md s)" by blast
    from coupled_chain [OF c this Mine_coupled(2) [OF ch mine(3)]] show ?thesis using mine(2) by blast
  next
    case (set_faults s d f)
    have c: "coupled amt hist (s, d)" using assms(2) set_faults(1) by simp
    then have ch: "chain_coupled amt (view_of d) hist s" by (simp add: coupled_def)
    show ?thesis using SetFaults_coupled [OF ch] coupled_chain [OF c, of "[]"] set_faults(2) by (intro keep) simp
  qed
qed

lemma boot_coupled: "coupled (\<lambda>_. 0) [] (New f statePath None, schema_db)"
proof -
  have "sim_inv [] (New f statePath None)" by (rule New_empty)
  then have "chain_coupled (\<lambda>_. 0) V [] (New f statePath None)" for V
    by (simp add: chain_coupled_def txs_of_def New_def Let_def)
  moreover have "db_coupled (\<lambda>_. 0) s schema_db" for s by (simp add: db_coupled_def schema_db_def)
  ultimately show ?thesis using store_inv_schema by (simp add: coupled_def)
qed

lemma sys_reachable_coupled: "sys_reachable w \<Longrightarrow> \<exists>amt hist. coupled amt hist w"
proof (induction rule: sys_reachable.induct)
  case (boot f statePath)
  then show ?case using boot_coupled by blast
next
  case (step w w')
  then show ?case using sys_step_coupled by blast
qed

end
