(* ===== verification/Residue.thy ===== *)
theory Residue
  imports System
begin

text \<open>
  The arithmetic of \<open>Reconcile\<close> in a reachable state of engine and chain. After the provisional
  facts are settled, the difference of ledger and custody is explained by the three terms down to
  the withdrawals that were refunded and paid all the same: \<open>double_paid\<close>.
\<close>

section \<open>Sums by key\<close>

lemma sum_list_by_key:
  assumes "distinct (map k xs)" and "\<And>x. x \<in> set xs \<Longrightarrow> f x = v (k x)"
  shows "sum_list (map f xs) = (\<Sum>n \<in> k ` set xs. v n)"
proof -
  have "map f xs = map v (map k xs)" using assms(2) by simp
  then have "sum_list (map f xs) = sum_list (map v (map k xs))" by (simp only:)
  also have "\<dots> = (\<Sum>n \<in> set (map k xs). v n)" using assms(1) by (rule sum_list_distinct_conv_sum_set)
  finally show ?thesis by simp
qed

lemma sum_split3:
  fixes v :: "'a \<Rightarrow> int"
  assumes "\<And>x. x \<in> set xs \<Longrightarrow> p x \<longleftrightarrow> q1 x \<or> q2 x \<or> q3 x" "\<And>x. \<not> (q1 x \<and> q2 x)" "\<And>x. \<not> (q1 x \<and> q3 x)" "\<And>x. \<not> (q2 x \<and> q3 x)"
  shows "sum_where p v xs = sum_where q1 v xs + sum_where q2 v xs + sum_where q3 v xs"
  using assms(1)
proof (induction xs)
  case (Cons x xs)
  have "sum_where p v xs = sum_where q1 v xs + sum_where q2 v xs + sum_where q3 v xs"
    by (rule Cons.IH) (use Cons.prems in simp)
  then show ?case using Cons.prems [of x] assms(2-4) [of x] by (auto simp: row_simps)
qed (simp add: row_simps)

section \<open>Facts that are settled\<close>

text \<open>Every credit that was not taken back is in the block the chain's receipt names.\<close>

definition settled :: "sim \<Rightarrow> db \<Rightarrow> bool" where
  "settled s d \<longleftrightarrow> (\<forall>f \<in> set (chain_facts d). \<not> cf_reverted f \<longrightarrow>
     ts_processed (TxStatus (cf_fact f) s) \<and> ts_hash (TxStatus (cf_fact f) s) = cf_hash f \<and>
     ts_height (TxStatus (cf_fact f) s) = cf_height f)"

definition double_paid :: "sim \<Rightarrow> db \<Rightarrow> int" where
  "double_paid s d = sum_where (\<lambda>r. in_kind r = Withdraw \<and> in_state r = StateExpired \<and>
     ts_processed (TxStatus (in_id r) s) \<and> ts_finalized (TxStatus (in_id r) s)) in_amount (intents d)"

lemma coupledD:
  assumes "coupled amt hist (s, d)"
  shows "sim_inv hist s" and "store_inv d" and "distinct (map bl_hash (hist @ sm_pending s))"
    and "t \<in> txs_of hist s \<Longrightarrow> known_tx amt (sm_next_deposit s) (view_of d) t"
    and "f \<in> set (chain_facts d) \<Longrightarrow> known_fact amt s f" and "r \<in> set (intents d) \<Longrightarrow> known_intent s r"
    and "ev \<in> set (sm_log s) \<Longrightarrow> known_event amt (sm_next_deposit s) ev"
  using assms by (auto simp: coupled_def chain_coupled_def db_coupled_def)

lemma hist_txs: "(t, h) \<in> set (calls hist) \<Longrightarrow> t \<in> txs_of hist s"
  by (auto simp: set_calls txs_of_def)

lemma hist_nonces:
  assumes "coupled amt hist (s, d)"
  shows "distinct (map (\<lambda>c. tx_nonce (fst c)) (calls hist))"
proof -
  have "executes_all hist" using coupledD(1) [OF assms] executes_all_append by (auto simp: chain_ok_def)
  then show ?thesis using calls_distinct by (simp add: call_nonce_def [abs_def])
qed

text \<open>A nonce is final exactly when a final block holds its call.\<close>

lemma final_nonce:
  assumes c: "coupled amt hist (s, d)"
  shows "ts_processed (TxStatus n s) \<and> ts_finalized (TxStatus n s) \<longleftrightarrow>
    (\<exists>x \<in> set (calls hist). tx_kind (fst x) \<noteq> ''cancel'' \<and> tx_nonce (fst x) = n)"
proof -
  note inv = coupledD(1) [OF c]
  have ex: "executes_all hist" and fs: "sm_final s = state_after hist"
    using inv executes_all_append by (auto simp: chain_ok_def)
  have "(\<exists>x \<in> set (calls hist). P (fst x)) \<longleftrightarrow> (\<exists>b \<in> set hist. \<exists>t \<in> set (bl_txs b). P t)" for P
    by (auto simp: calls_def)
  from this [of "\<lambda>t. tx_kind t \<noteq> ''cancel'' \<and> tx_nonce t = n"] show ?thesis
    unfolding TxStatus_finalized [OF inv] fs processed_after [OF ex] by simp
qed

section \<open>Withdrawals\<close>

definition final_in :: "sim \<Rightarrow> intent_row \<Rightarrow> bool" where
  "final_in s r \<longleftrightarrow> ts_processed (TxStatus (in_id r) s) \<and> ts_finalized (TxStatus (in_id r) s)"

lemma final_withdrawals:
  assumes c: "coupled amt hist (s, d)"
  shows "sum_list (map (\<lambda>x. tx_amount (fst x)) (filter (\<lambda>x. tx_kind (fst x) = ''withdraw'') (calls hist))) =
    sum_where (\<lambda>r. in_kind r = Withdraw \<and> final_in s r) in_amount (intents d)"
proof -
  define v where "v n = in_amount (the (select_one (\<lambda>r. in_id r = n) (intents d)))" for n
  have ids: "distinct (map in_id (intents d))"
    using store_invD(6) [OF coupledD(2) [OF c]] intent_books_parts(1) by (auto simp: intent_inv_def)
  have v: "v (in_id r) = in_amount r" if "r \<in> set (intents d)" for r
    using select_one_key_unique [OF ids that, of "\<lambda>q. in_id q = in_id r"] by (simp add: v_def)
  let ?cs = "filter (\<lambda>x. tx_kind (fst x) = ''withdraw'') (calls hist)"
  let ?rs = "filter (\<lambda>r. in_kind r = Withdraw \<and> final_in s r) (intents d)"
  have intent: "\<exists>r \<in> set (intents d). in_id r = tx_nonce t \<and> (tx_kind t \<noteq> ''cancel'' \<longrightarrow>
      (tx_kind t = ''withdraw'' \<longleftrightarrow> in_kind r = Withdraw) \<and> (in_kind r = Withdraw \<longrightarrow> tx_amount t = in_amount r))"
    if "(t, h) \<in> set (calls hist)" "tx_kind t \<noteq> ''deposit''" for t h
    using coupledD(4) [OF c hist_txs [OF that(1)]] that(2)
    by (auto simp: known_tx_def deposit_tx_def intent_tx_def carries_out_def view_of_def view_row_def)
  have cv: "tx_amount (fst x) = v (tx_nonce (fst x))" if x: "x \<in> set ?cs" for x
  proof -
    obtain t h where t: "x = (t, h)" by (cases x)
    with x intent [of t h] obtain r where "r \<in> set (intents d)" "in_id r = tx_nonce t" "tx_amount t = in_amount r" by auto
    then show ?thesis using v [of r] t by simp
  qed
  have "(\<lambda>x. tx_nonce (fst x)) ` set ?cs = in_id ` set ?rs"
  proof (intro equalityI subsetI)
    fix n assume "n \<in> (\<lambda>x. tx_nonce (fst x)) ` set ?cs"
    then obtain t h where t: "(t, h) \<in> set (calls hist)" "tx_kind t = ''withdraw''" "n = tx_nonce t" by auto
    with intent [of t h] obtain r where r: "r \<in> set (intents d)" "in_id r = tx_nonce t" "in_kind r = Withdraw" by auto
    moreover have "final_in s r" unfolding final_in_def final_nonce [OF c] r(2)
      by (intro bexI [OF _ t(1)]) (simp add: t(2))
    ultimately show "n \<in> in_id ` set ?rs" using t(3) by force
  next
    fix n assume "n \<in> in_id ` set ?rs"
    then obtain r where r: "r \<in> set (intents d)" "in_kind r = Withdraw" "final_in s r" "n = in_id r" by auto
    then obtain t h where t: "(t, h) \<in> set (calls hist)" "tx_kind t \<noteq> ''cancel''" "tx_nonce t = in_id r"
      unfolding final_in_def final_nonce [OF c] by force
    have nd: "tx_kind t \<noteq> ''deposit''"
    proof
      assume "tx_kind t = ''deposit''"
      then have "used (sm_next_deposit s) (tx_nonce t)"
        using coupledD(4) [OF c hist_txs [OF t(1)]] by (simp add: known_tx_def deposit_tx_def intent_tx_def)
      then show False using used_plain(3) coupledD(6) [OF c r(1)] t(3) by (simp add: known_intent_def)
    qed
    obtain r' where r': "r' \<in> set (intents d)" "in_id r' = tx_nonce t" "tx_kind t = ''withdraw'' \<longleftrightarrow> in_kind r' = Withdraw"
      using intent [OF t(1) nd] t(2) by blast
    then have "r' = r" using ids r(1) t(3) by (metis distinct_map inj_onD)
    then show "n \<in> (\<lambda>x. tx_nonce (fst x)) ` set ?cs" using r' r t by force
  qed
  moreover have "distinct (map (\<lambda>x. tx_nonce (fst x)) ?cs)" using hist_nonces [OF c] by (rule distinct_map_filter)
  moreover have "distinct (map in_id ?rs)" using ids by (rule distinct_map_filter)
  ultimately show ?thesis
    using sum_list_by_key [of "\<lambda>x. tx_nonce (fst x)" ?cs "\<lambda>x. tx_amount (fst x)" v] cv
      sum_list_by_key [of in_id ?rs in_amount v] v by (simp add: sum_where_def)
qed

text \<open>Every final withdrawal is confirmed, in flight or refunded.\<close>

lemma final_withdrawals_split:
  assumes c: "coupled amt hist (s, d)"
  shows "sum_where (\<lambda>r. in_kind r = Withdraw \<and> final_in s r) in_amount (intents d) =
    paid_out d + sum_list (map in_amount (withdrawn_rows s (InFlight d))) + double_paid s d"
proof -
  have st: "in_state r \<noteq> StateReverted" if "r \<in> set (intents d)" for r
    using store_invD(6) [OF coupledD(2) [OF c]] intent_books_parts(2) [of d r] that by (auto simp: intent_inv_def row_ok_def)
  have fin: "final_in s r" if "r \<in> set (intents d)" "in_state r = StateConfirmed" for r
    using coupledD(6) [OF c that(1)] that(2) by (auto simp: known_intent_def final_in_def final_status_def included_def)
  have "sum_where (\<lambda>r. in_kind r = Withdraw \<and> final_in s r) in_amount (intents d) =
    sum_where (\<lambda>r. in_kind r = Withdraw \<and> in_state r = StateConfirmed) in_amount (intents d) +
    sum_where (\<lambda>r. inflight r \<and> in_kind r = Withdraw \<and> final_in s r) in_amount (intents d) +
    sum_where (\<lambda>r. in_kind r = Withdraw \<and> in_state r = StateExpired \<and> final_in s r) in_amount (intents d)"
  proof (rule sum_split3)
    fix r assume r: "r \<in> set (intents d)"
    show "(in_kind r = Withdraw \<and> final_in s r) =
      (in_kind r = Withdraw \<and> in_state r = StateConfirmed \<or> inflight r \<and> in_kind r = Withdraw \<and> final_in s r \<or>
       in_kind r = Withdraw \<and> in_state r = StateExpired \<and> final_in s r)"
      using st [OF r] fin [OF r] by (cases "in_state r") (auto simp: inflight_def)
  qed (auto simp: inflight_def)
  then show ?thesis
    by (simp add: paid_out_def double_paid_def sum_where_def withdrawn_rows_def InFlight_def final_in_def)
qed

section \<open>Deposits\<close>

lemma deposit_call_amount:
  assumes c: "coupled amt hist (s, d)" and x: "x \<in> set (calls hist)"
  shows "tx_kind (fst x) = ''deposit'' \<longleftrightarrow> prefix ''dep-'' (tx_nonce (fst x))"
    and "tx_kind (fst x) = ''deposit'' \<Longrightarrow> tx_amount (fst x) = amt (tx_nonce (fst x))"
proof -
  obtain t h where t: "x = (t, h)" by (cases x)
  note k = coupledD(4) [OF c hist_txs [OF x [unfolded t]]]
  show "tx_kind (fst x) = ''deposit'' \<longleftrightarrow> prefix ''dep-'' (tx_nonce (fst x))"
    using k used_plain(3) by (auto simp: t known_tx_def deposit_tx_def intent_tx_def)
  show "tx_amount (fst x) = amt (tx_nonce (fst x))" if "tx_kind (fst x) = ''deposit''"
    using k that by (auto simp: t known_tx_def deposit_tx_def intent_tx_def)
qed

definition final_rows :: "sim \<Rightarrow> db \<Rightarrow> chain_fact_row list" where
  "final_rows s d = filter (\<lambda>f. \<not> cf_reverted f \<and> cf_height f \<le> sm_final_height s) (chain_facts d)"

lemma applied_iff: "n \<in> AppliedFactIDs d \<longleftrightarrow> (\<exists>f \<in> set (chain_facts d). \<not> cf_reverted f \<and> cf_fact f = n)"
  by (auto simp: AppliedFactIDs_def)

lemma settled_facts_unique:
  assumes c: "coupled amt hist (s, d)" and st: "settled s d"
  shows "distinct (map cf_fact (filter (\<lambda>f. \<not> cf_reverted f) (chain_facts d)))"
proof -
  have ev: "distinct (map cf_event (chain_facts d))"
    using store_invD(2) [OF coupledD(2) [OF c]] fact_inv_parts(1) by blast
  have "f = g" if "f \<in> set (chain_facts d)" "g \<in> set (chain_facts d)" "\<not> cf_reverted f" "\<not> cf_reverted g" "cf_fact f = cf_fact g" for f g
  proof -
    have "cf_hash f = cf_hash g" using st that unfolding settled_def by metis
    then have "cf_event f = cf_event g" using coupledD(5) [OF c] that by (metis known_fact_def)
    then show ?thesis using ev that by (metis distinct_map inj_onD)
  qed
  moreover have "distinct (filter (\<lambda>f. \<not> cf_reverted f) (chain_facts d))" using ev by (simp add: distinct_map)
  ultimately show ?thesis unfolding distinct_map inj_on_def by simp
qed

lemma final_fact_nonces:
  assumes c: "coupled amt hist (s, d)" and st: "settled s d"
  shows "(\<lambda>x. tx_nonce (fst x)) ` set (filter (\<lambda>x. tx_kind (fst x) = ''deposit'' \<and> tx_nonce (fst x) \<in> AppliedFactIDs d) (calls hist)) =
    cf_fact ` set (final_rows s d)" (is "?N ` set ?cs = _")
proof (intro equalityI subsetI)
  note inv = coupledD(1) [OF c]
  fix n assume "n \<in> ?N ` set ?cs"
  then obtain x where x: "x \<in> set (calls hist)" "tx_kind (fst x) = ''deposit''" "tx_nonce (fst x) = n" "n \<in> AppliedFactIDs d" by auto
  then obtain f where f: "f \<in> set (chain_facts d)" "\<not> cf_reverted f" "cf_fact f = n" by (auto simp: applied_iff)
  have fin: "ts_processed (TxStatus n s) \<and> ts_finalized (TxStatus n s)"
    unfolding final_nonce [OF c] by (intro bexI [OF _ x(1)]) (simp add: x(2,3))
  then have "cf_height f \<le> sm_final_height s"
    using st f TxStatus_height(2) [OF inv, of n] by (auto simp: settled_def)
  then show "n \<in> cf_fact ` set (final_rows s d)" using f by (auto simp: final_rows_def)
next
  note inv = coupledD(1) [OF c]
  fix n assume "n \<in> cf_fact ` set (final_rows s d)"
  then obtain f where f: "f \<in> set (chain_facts d)" "\<not> cf_reverted f" "cf_height f \<le> sm_final_height s" "n = cf_fact f"
    by (auto simp: final_rows_def)
  then have "ts_processed (TxStatus n s) \<and> ts_finalized (TxStatus n s)"
    using st TxStatus_height(2) [OF inv, of n] by (auto simp: settled_def)
  then obtain x where x: "x \<in> set (calls hist)" "tx_nonce (fst x) = n" unfolding final_nonce [OF c] by blast
  have "prefix ''dep-'' n" using coupledD(5) [OF c f(1)] used_plain(3) f(4) by (auto simp: known_fact_def)
  then have "tx_kind (fst x) = ''deposit''" using deposit_call_amount(1) [OF c x(1)] x(2) by simp
  moreover have "n \<in> AppliedFactIDs d" using f by (auto simp: applied_iff)
  ultimately show "n \<in> ?N ` set ?cs" using x by force
qed

lemma final_deposits_split:
  assumes c: "coupled amt hist (s, d)" and st: "settled s d"
  shows "deposit_sum (calls hist) = sum_list (map ev_amount (missing_facts s d)) + sum_list (map cf_amount (final_rows s d))"
proof -
  let ?A = "AppliedFactIDs d"
  let ?cs = "filter (\<lambda>x. tx_kind (fst x) = ''deposit'' \<and> tx_nonce (fst x) \<in> ?A) (calls hist)"
  have inv: "sim_inv hist s" by (rule coupledD(1) [OF c])
  have "sum_list (map ev_amount (missing_facts s d)) =
    sum_list (map (\<lambda>ev. if ev_fact ev \<notin> ?A then ev_amount ev else 0) (FinalizedFacts ''deposit'' s))"
    by (simp only: missing_facts_def sum_filter_if)
  also have "\<dots> = sum_list (map (\<lambda>x. if tx_kind (fst x) = ''deposit'' then (if tx_nonce (fst x) \<notin> ?A then tx_amount (fst x) else 0) else 0) (calls hist))"
    by (rule final_deposits_by [OF inv, of "\<lambda>n a. if n \<notin> ?A then a else 0"])
  finally have miss: "sum_list (map ev_amount (missing_facts s d)) = \<dots>" .
  have applied: "sum_list (map (\<lambda>x. tx_amount (fst x)) ?cs) = sum_list (map cf_amount (final_rows s d))"
  proof -
    have fs: "distinct (map cf_fact (final_rows s d))"
      using distinct_map_filter [OF settled_facts_unique [OF c st], of "\<lambda>f. cf_height f \<le> sm_final_height s"]
      by (simp add: final_rows_def conj_commute)
    have "sum_list (map cf_amount (final_rows s d)) = (\<Sum>n \<in> cf_fact ` set (final_rows s d). amt n)"
      by (rule sum_list_by_key [OF fs]) (use coupledD(5) [OF c] in \<open>auto simp: final_rows_def known_fact_def\<close>)
    moreover have "sum_list (map (\<lambda>x. tx_amount (fst x)) ?cs) = (\<Sum>n \<in> (\<lambda>x. tx_nonce (fst x)) ` set ?cs. amt n)"
      by (rule sum_list_by_key [OF distinct_map_filter [OF hist_nonces [OF c]]])
         (use deposit_call_amount(2) [OF c] in auto)
    ultimately show ?thesis unfolding final_fact_nonces [OF c st] by simp
  qed
  have "deposit_sum cs = sum_list (map (\<lambda>x. if tx_kind (fst x) = ''deposit'' then (if tx_nonce (fst x) \<notin> ?A then tx_amount (fst x) else 0) else 0) cs) +
      sum_list (map (\<lambda>x. tx_amount (fst x)) (filter (\<lambda>x. tx_kind (fst x) = ''deposit'' \<and> tx_nonce (fst x) \<in> ?A) cs))" for cs
    by (induction cs) auto
  then show ?thesis unfolding miss applied [symmetric] .
qed

section \<open>The residue\<close>

lemma i64_diff_left [simp]: "i64 (i64 x - y) = i64 (x - y)"
  using i64_add_left [of x "- y"] by simp

lemma i64_diff_right [simp]: "i64 (x - i64 y) = i64 (x - y)"
  unfolding i64_cong_mod by (metis i64_mod mod_diff_right_eq)

lemma i64_terms: "i64 (x - (i64 a - i64 b + c)) = i64 (x - (a - b + c))"
proof -
  have "i64 (x - (i64 a - i64 b + c)) = i64 ((x + i64 b - c) - i64 a)" by (rule arg_cong [of _ _ i64]) simp
  also have "\<dots> = i64 ((x - c - a) + i64 b)" unfolding i64_diff_right by (rule arg_cong [of _ _ i64]) simp
  also have "\<dots> = i64 (x - (a - b + c))" unfolding i64_add_right by (rule arg_cong [of _ _ i64]) simp
  finally show ?thesis .
qed

lemma sum_i64_eq: "sum_i64 xs = i64 (sum_list xs)"
  using foldl_i64 [of 0 xs] by (simp add: sum_i64_def)

lemma hist_delta: "sum_list (map (\<lambda>c. tx_delta (fst c)) cs) =
  deposit_sum cs - sum_list (map (\<lambda>x. tx_amount (fst x)) (filter (\<lambda>x. tx_kind (fst x) = ''withdraw'') cs))"
  by (induction cs) (auto simp: tx_delta_def)

lemma live_split:
  assumes "store_inv d"
  shows "live_deposits d = unfinalized_sum (sm_final_height s) d + sum_list (map cf_amount (final_rows s d))"
proof -
  have kind: "cf_kind f = ''deposit''" if "f \<in> set (chain_facts d)" for f
    using fact_inv_parts(4) [OF store_invD(2) [OF assms] that] by (simp add: deposit_fact_def)
  have "live_deposits d = sum_where (\<lambda>f. \<not> cf_reverted f \<and> cf_kind f = ''deposit'' \<and> cf_height f > sm_final_height s) cf_amount (chain_facts d) +
    sum_where (\<lambda>f. \<not> cf_reverted f \<and> cf_height f \<le> sm_final_height s) cf_amount (chain_facts d) + sum_where (\<lambda>_. False) cf_amount (chain_facts d)"
    unfolding live_deposits_def by (rule sum_split3) (use kind in auto)
  then show ?thesis by (simp add: unfinalized_sum_def final_rows_def sum_where_def)
qed

text \<open>The equation of custody between ledger and vault, over the integers.\<close>

lemma residue_equation:
  assumes c: "coupled amt hist (s, d)" and st: "settled s d"
    and cap: "sum_list (map ev_amount (FinalizedFacts ''deposit'' s)) \<le> 9223372036854775807"
  shows "internal_sum d - vs_final_balance (VaultState s) =
    sum_list (map in_amount (withdrawn_rows s (InFlight d))) - sum_list (map ev_amount (missing_facts s d)) +
    unfinalized_sum (sm_final_height s) d + double_paid s d"
proof -
  note inv = coupledD(1) [OF c] and store = coupledD(2) [OF c]
  have ex: "executes_all hist" and fs: "sm_final s = state_after hist"
    using inv executes_all_append by (auto simp: chain_ok_def)
  have ok: "\<forall>b \<in> set hist. \<forall>t \<in> set (bl_txs b). tx_ok t"
    using coupledD(4) [OF c] by (auto simp: txs_of_def known_tx_def)
  have dep: "sum_list (map ev_amount (FinalizedFacts ''deposit'' s)) = deposit_sum (calls hist)"
    by (rule final_deposits_sum [OF inv])
  have bal: "vs_final_balance (VaultState s) = deposit_sum (calls hist) -
      (paid_out d + sum_list (map in_amount (withdrawn_rows s (InFlight d))) + double_paid s d)"
    using custody_after(2) [OF ex ok] cap dep fs hist_delta final_withdrawals [OF c] final_withdrawals_split [OF c]
    by (simp add: VaultState_def)
  have "internal_sum d = live_deposits d - paid_out d" by (rule internal_is_custody [OF store])
  then have "internal_sum d = unfinalized_sum (sm_final_height s) d + sum_list (map cf_amount (final_rows s d)) - paid_out d"
    using live_split [OF store, of s] by simp
  then show ?thesis using bal final_deposits_split [OF c st] by simp
qed

lemma report_residue:
  assumes c: "coupled amt hist (s, d)" and st: "settled s d"
    and cap: "sum_list (map ev_amount (FinalizedFacts ''deposit'' s)) \<le> 9223372036854775807"
  shows "rp_unexplained (make_report s d (internal_sum d) (unfinalized_sum (sm_final_height s) d)) = i64 (double_paid s d)"
proof -
  have eq: "internal_sum d - vs_final_balance (VaultState s) -
      (sum_list (map in_amount (withdrawn_rows s (InFlight d))) - sum_list (map ev_amount (missing_facts s d)) +
       unfinalized_sum (sm_final_height s) d) = double_paid s d"
    using residue_equation [OF c st cap] by simp
  show ?thesis unfolding eq [symmetric]
    by (simp add: make_report_def Let_def Sum_def sum_i64_eq i64_terms)
qed

end
