(* ===== verification/Workers.thy ===== *)
theory Workers
  imports Residue
begin

text \<open>
  The workers' passes as runs of the transition system: whatever a tick does, also when it fails
  half-way, is a sequence of the system's steps. Hence everything proved about reachable states
  holds before, between and after the ticks, in any order they are called.
\<close>

section \<open>Runs\<close>

abbreviation steps :: "sim \<times> db \<Rightarrow> sim \<times> db \<Rightarrow> bool" where
  "steps \<equiv> rtranclp sys_step"

lemma steps_first: "sys_step w w1 \<Longrightarrow> steps w1 w2 \<Longrightarrow> steps w w2"
  by (rule converse_rtranclp_into_rtranclp)

lemma steps_coupled: "steps w w' \<Longrightarrow> coupled amt hist w \<Longrightarrow> \<exists>amt' new. coupled amt' (hist @ new) w'"
proof (induction rule: rtranclp_induct)
  case base
  then show ?case by (intro exI [of _ amt] exI [of _ "[]"]) simp
next
  case (step y z)
  then obtain amt1 new1 where "coupled amt1 (hist @ new1) y" by blast
  from sys_step_coupled [OF step(2) this] show ?case by (metis append.assoc)
qed

lemma steps_reachable: "steps w w' \<Longrightarrow> sys_reachable w \<Longrightarrow> sys_reachable w'"
  by (induction rule: rtranclp_induct) (auto intro: sys_reachable.step)

lemma steps_store_inv: "steps (s, d) (s', d') \<Longrightarrow> coupled amt hist (s, d) \<Longrightarrow> store_inv d'"
  using steps_coupled coupledD(2) by blast

section \<open>Settling facts\<close>

definition core_fact :: "chain_fact_row \<Rightarrow> chain_fact_row" where
  "core_fact f = f\<lparr>cf_finalized := False\<rparr>"

lemma core_fact_simps [simp]:
  "cf_event (core_fact f) = cf_event f" "cf_hash (core_fact f) = cf_hash f" "cf_reverted (core_fact f) = cf_reverted f"
  "fact_live s (core_fact f) = fact_live s f" "cf_fact (core_fact f) = cf_fact f" "cf_height (core_fact f) = cf_height f"
  by (simp_all add: core_fact_def fact_live_def)

lemma MarkFactFinalized_core: "map core_fact (chain_facts (MarkFactFinalized e d)) = map core_fact (chain_facts d)"
  by (simp add: MarkFactFinalized_def update_where_def core_fact_def)

lemma scan_steps:
  assumes "scan_facts s fs d = (os, d')" and "map core_fact (chain_facts d) = map core_fact rows"
    and "distinct (map cf_event rows)" and "set fs \<subseteq> set rows"
  shows "steps (s, d) (s, d') \<and> map core_fact (chain_facts d') = map core_fact rows \<and> intents d' = intents d \<and>
    (\<forall>f \<in> set fs. \<not> fact_live s f \<longrightarrow> cf_hash f \<in> set os)"
  using assms
proof (induction s fs d arbitrary: os rule: scan_facts.induct)
  case (2 s f fs d)
  have sub: "set fs \<subseteq> set rows" using 2(7) by simp
  show ?case
  proof (cases "fact_live s f")
    case False
    obtain os1 where r: "scan_facts s fs d = (os1, d')" "os = List.insert (cf_hash f) os1"
      using 2(4) False by (auto split: prod.splits)
    from 2(1) [OF False r(1) 2(5,6) sub] show ?thesis by (auto simp: r(2))
  next
    case live: True
    show ?thesis
    proof (cases "ts_finalized (TxStatus (cf_fact f) s)")
      case False
      with live 2(4) have r: "scan_facts s fs d = (os, d')" by simp
      from 2(3) [OF _ False r 2(5,6) sub] live show ?thesis by auto
    next
      case True
      let ?d = "MarkFactFinalized (cf_event f) d"
      have r: "scan_facts s fs ?d = (os, d')" using live True 2(4) by simp
      have "final_fact_event s d (cf_event f)"
        unfolding final_fact_event_def
      proof (intro ballI impI)
        fix g assume g: "g \<in> set (chain_facts d)" "cf_event g = cf_event f"
        have "core_fact g \<in> core_fact ` set rows" using g(1) 2(5) by (metis imageI set_map)
        then obtain g0 where g0: "g0 \<in> set rows" "core_fact g = core_fact g0" by blast
        then have "cf_event g0 = cf_event f" using g(2) by (metis core_fact_simps(1))
        then have "g0 = f" using g0(1) 2(6,7) by (metis distinct_map inj_onD list.set_intros(1) subsetD)
        then show "fact_live s g \<and> ts_finalized (TxStatus (cf_fact g) s)"
          using live True g0(2) by (metis core_fact_simps(4,5))
      qed
      then have "sys_step (s, d) (s, ?d)" by (rule sys_step.finalize)
      moreover have "intents ?d = intents d" by (simp add: MarkFactFinalized_def)
      moreover have "map core_fact (chain_facts ?d) = map core_fact rows" using 2(5) MarkFactFinalized_core by simp
      ultimately show ?thesis
        using 2(2) [OF _ True r _ 2(6) sub] live by (auto intro: converse_rtranclp_into_rtranclp)
    qed
  qed
qed auto

lemma revert_blocks_steps:
  assumes "revert_blocks gen hs d = (e, d')" and "coupled amt hist (s, d)"
  shows "steps (s, d) (s, d') \<and> intents d' = intents d \<and>
    (e = None \<longrightarrow> (\<forall>f \<in> set (chain_facts d'). \<not> cf_reverted f \<longrightarrow> f \<in> set (chain_facts d) \<and> cf_hash f \<notin> set hs))"
  using assms
proof (induction hs arbitrary: d)
  case (Cons h hs)
  obtain n e1 d1 where rb: "RevertBlock gen h d = ((n, e1), d1)" by (metis prod.collapse)
  note parts = store_invD [OF coupledD(2) [OF Cons.prems(2)]]
  have step: "sys_step (s, d) (s, d1)" using sys_step.revert_block [of s d gen h] rb by simp
  have c1: "coupled amt hist (s, d1)" using coupled_revert_block [OF Cons.prems(2), of gen h] rb by simp
  have ins: "intents d1 = intents d" using RevertBlock_spec(3) [OF parts(4,2) rb] by (simp add: revert_frame_def)
  show ?case
  proof (cases e1)
    case (Some x)
    with Cons.prems(1) rb ins step show ?thesis by auto
  next
    case None
    have fs: "chain_facts d1 = update_where (\<lambda>f. cf_hash f = h) revert_fact (chain_facts d)"
      using RevertBlock_spec(5) [OF parts(4,2) rb] None by simp
    have r: "revert_blocks gen hs d1 = (e, d')" using Cons.prems(1) rb None by simp
    have "f \<in> set (chain_facts d) \<and> cf_hash f \<noteq> h" if "f \<in> set (chain_facts d1)" "\<not> cf_reverted f" for f
      using that by (auto simp: fs set_update_where revert_fact_def split: if_splits)
    then show ?thesis
      using Cons.IH [OF r c1] ins step by (auto intro: converse_rtranclp_into_rtranclp)
  qed
qed simp

lemma settleFacts_steps:
  assumes res: "settleFacts gen ord s d = (e, d')" and c: "coupled amt hist (s, d)"
  shows "steps (s, d) (s, d')" and "intents d' = intents d"
    and "e = None \<Longrightarrow> (\<And>os. set os \<subseteq> set (ord os)) \<Longrightarrow> settled s d'"
proof -
  obtain os d1 where scan: "scan_facts s (ProvisionalFacts d) d = (os, d1)" by (metis surj_pair)
  have rev: "revert_blocks gen (ord os) d1 = (e, d')" using res scan by (simp add: settleFacts_def)
  have ev: "distinct (map cf_event (chain_facts d))"
    using store_invD(2) [OF coupledD(2) [OF c]] fact_inv_parts(1) by blast
  have prov: "set (ProvisionalFacts d) = {f \<in> set (chain_facts d). \<not> cf_finalized f \<and> \<not> cf_reverted f}"
    by (auto simp: ProvisionalFacts_def)
  have sc: "steps (s, d) (s, d1)" "map core_fact (chain_facts d1) = map core_fact (chain_facts d)" "intents d1 = intents d"
    "\<And>f. f \<in> set (ProvisionalFacts d) \<Longrightarrow> \<not> fact_live s f \<Longrightarrow> cf_hash f \<in> set os"
    using scan_steps [OF scan refl ev] prov by auto
  from steps_coupled [OF sc(1) c] obtain amt1 new where c1: "coupled amt1 (hist @ new) (s, d1)" by blast
  note rb = revert_blocks_steps [OF rev c1]
  show "steps (s, d) (s, d')" using sc(1) rb by (meson rtranclp_trans)
  show "intents d' = intents d" using sc(3) rb by simp
  show "settled s d'" if e: "e = None" and ord: "\<And>os. set os \<subseteq> set (ord os)"
    unfolding settled_def
  proof (intro ballI impI)
    fix f assume f: "f \<in> set (chain_facts d')" "\<not> cf_reverted f"
    then have f1: "f \<in> set (chain_facts d1)" "cf_hash f \<notin> set os" using rb e ord [of os] by auto
    have "core_fact f \<in> core_fact ` set (chain_facts d)" using f1(1) sc(2) by (metis imageI set_map)
    then obtain g where g: "g \<in> set (chain_facts d)" "core_fact f = core_fact g" by blast
    have same: "cf_fact f = cf_fact g" "cf_hash f = cf_hash g" "cf_height f = cf_height g" "cf_reverted f = cf_reverted g"
      using g(2) by (metis core_fact_simps)+
    show "ts_processed (TxStatus (cf_fact f) s) \<and> ts_hash (TxStatus (cf_fact f) s) = cf_hash f \<and>
        ts_height (TxStatus (cf_fact f) s) = cf_height f"
    proof (cases "cf_finalized g")
      case True
      with coupledD(5) [OF c g(1)] f(2) same show ?thesis by (simp add: known_fact_def final_status_def included_def)
    next
      case False
      then have "g \<in> set (ProvisionalFacts d)" using g(1) f(2) same prov by simp
      then have "fact_live s g" using sc(4) f1(2) same(2) by metis
      then show ?thesis
        using live_height [OF coupledD(1,3) [OF c]] same by (simp add: fact_live_def Let_def)
    qed
  qed
qed

section \<open>The outbox\<close>

lemma same_books_rows:
  assumes "\<And>q. ob_intent (f q) = ob_intent q" "\<And>q. ob_payload (f q) = ob_payload q"
  shows "same_books d (d\<lparr>outbox := update_where p f (outbox d)\<rparr>)"
proof -
  have "map (\<lambda>q. (ob_intent q, ob_payload q)) (update_where p f (outbox d)) = map (\<lambda>q. (ob_intent q, ob_payload q)) (outbox d)"
    using assms by (simp add: update_where_def)
  then show ?thesis unfolding same_books_def
    by (intro exI [of _ "update_where p f (outbox d)"] exI [of _ "escrow_drift d"] exI [of _ "reconciliations d"]) simp
qed

lemma outbox_books:
  "same_books d (claim_job now d j)" "same_books d (mark_sent i d)" "same_books d (mark_retry now i msg d)"
  unfolding claim_job_def mark_sent_def mark_retry_def by (rule same_books_rows, simp_all)+

lemma same_books_payloads: "same_books d d' \<Longrightarrow> ob_payload ` set (outbox d') = ob_payload ` set (outbox d)"
proof -
  assume "same_books d d'"
  then have "map (\<lambda>q. (ob_intent q, ob_payload q)) (outbox d') = map (\<lambda>q. (ob_intent q, ob_payload q)) (outbox d)"
    by (auto simp: same_books_def)
  from arg_cong [OF this, of "map snd"] have "map ob_payload (outbox d') = map ob_payload (outbox d)" by (simp add: comp_def)
  then show ?thesis by (metis set_map)
qed

lemma claim_steps: "steps (s, d) (s, foldl (claim_job now) d js) \<and>
  ob_payload ` set (outbox (foldl (claim_job now) d js)) = ob_payload ` set (outbox d)"
proof (induction js arbitrary: d)
  case (Cons j js)
  from Cons [of "claim_job now d j"] same_books_payloads [OF outbox_books(1) [of d now j]]
    sys_step.books [OF outbox_books(1) [of d now j], of s]
  show ?case by (auto intro: converse_rtranclp_into_rtranclp)
qed simp

lemma send_steps:
  assumes "send_job now draws j (s, d) = (s', d')" and "ob_payload j \<in> ob_payload ` set (outbox d)"
  shows "steps (s, d) (s', d') \<and> ob_payload ` set (outbox d') = ob_payload ` set (outbox d)"
proof -
  obtain u1 u2 w where dr: "draws (ob_id j) = (u1, u2, w)" by (metis prod.collapse)
  obtain res s1 where sub: "Submit u1 u2 w (tx_of_payload (ob_payload j)) s = (res, s1)" by (metis surj_pair)
  have step1: "sys_step (s, d) (s1, d)" using sys_step.submit [OF assms(2), of s u1 u2 w] sub by simp
  define d1 where "d1 = (case res of Inr hash \<Rightarrow> MarkSubmitted (ob_intent j) hash '''' d
    | Inl e \<Rightarrow> MarkSubmitted (ob_intent j) '''' (chain_error_text e) d)"
  define d2 where "d2 = (case res of Inr hash \<Rightarrow> mark_sent (ob_id j) d1 | Inl e \<Rightarrow> mark_retry now (ob_id j) (chain_error_text e) d1)"
  have out: "s' = s1" "d' = d2"
    using assms(1) by (auto simp: send_job_def dr sub d1_def d2_def split: sum.splits)
  have step2: "sys_step (s1, d) (s1, d1)" unfolding d1_def by (cases res) (auto intro: sys_step.submitted)
  have bk: "same_books d1 d2" unfolding d2_def by (cases res) (auto intro: outbox_books)
  have "outbox d1 = outbox d" unfolding d1_def by (cases res) (simp_all add: MarkSubmitted_frame)
  then have "ob_payload ` set (outbox d2) = ob_payload ` set (outbox d)" using same_books_payloads [OF bk] by simp
  moreover have "steps (s, d) (s1, d2)"
    using step1 step2 sys_step.books [OF bk, of s1] by (meson converse_rtranclp_into_rtranclp r_into_rtranclp)
  ultimately show ?thesis by (simp add: out)
qed

lemma send_all_steps:
  assumes "\<forall>j \<in> set js. ob_payload j \<in> ob_payload ` set (outbox d)"
  shows "steps (s, d) (fold (send_job now draws) js (s, d))"
  using assms
proof (induction js arbitrary: s d)
  case (Cons j js)
  obtain s1 d1 where r: "send_job now draws j (s, d) = (s1, d1)" by (metis surj_pair)
  have "steps (s, d) (s1, d1)" "ob_payload ` set (outbox d1) = ob_payload ` set (outbox d)"
    using send_steps [OF r] Cons.prems by auto
  with Cons.IH [of d1 s1] Cons.prems show ?case using rtranclp_trans [of sys_step "(s, d)" "(s1, d1)"] by (simp add: r)
qed simp

lemma OutboxTick_steps: "OutboxTick now draws (s, d) = (n, w) \<Longrightarrow> steps (s, d) w"
proof -
  assume r: "OutboxTick now draws (s, d) = (n, w)"
  let ?js = "outbox_jobs now d"
  have "set ?js \<subseteq> set (outbox d)"
    by (auto simp: outbox_jobs_def dest: in_set_takeD)
  then have "\<forall>j \<in> set ?js. ob_payload j \<in> ob_payload ` set (outbox (foldl (claim_job now) d ?js))"
    using claim_steps [of s d now ?js] by auto
  from send_all_steps [OF this, of s now draws] claim_steps [of s d now ?js] r show "steps (s, d) w"
    by (auto simp: OutboxTick_def Let_def intro: rtranclp_trans)
qed

section \<open>The inbox\<close>

lemma ingest_steps:
  "ingest bound evs n d = (m, d') \<Longrightarrow> set evs \<subseteq> set (sm_log s) \<Longrightarrow> steps (s, d) (s, d')"
proof (induction evs arbitrary: n d)
  case (Cons ev evs)
  show ?case
  proof (cases "ev_seq ev > bound")
    case False
    obtain isNew d1 where r: "RecordEvent (stored_of ev) d = (isNew, d1)" by (metis surj_pair)
    have "sys_step (s, d) (s, d1)"
      using sys_step.record_event [of ev s "stored_of ev" d] r Cons.prems(2) by simp
    moreover have "steps (s, d1) (s, d')" using Cons.prems False r by (intro Cons.IH) auto
    ultimately show ?thesis by (rule converse_rtranclp_into_rtranclp)
  qed (use Cons in auto)
qed simp

lemma poll_steps: "poll_batch dr s d = (n, d') \<Longrightarrow> steps (s, d) (s, d')"
proof -
  assume r: "poll_batch dr s d = (n, d')"
  define batch where "batch = PollEvents (Cursor d) 64 (id_gap dr) (id_dup dr) (id_reorder dr) (id_swap dr) s"
  define adv where "adv = advance_over (ev_seq ` set batch) (length batch) (Cursor d)"
  obtain m d1 where ing: "ingest adv batch 0 d = (m, d1)" by (metis surj_pair)
  have "set batch \<subseteq> set (sm_log s)" unfolding batch_def using PollEvents_sound by fastforce
  from ingest_steps [OF ing this] have "steps (s, d) (s, d1)" .
  moreover have "d' = (if adv > Cursor d then AdvanceCursor adv d1 else d1)"
    using r ing unfolding poll_batch_def Let_def batch_def [symmetric] adv_def [symmetric] by simp
  ultimately show ?thesis using sys_step.advance [of s d1 adv] by (auto intro: rtranclp.rtrancl_into_rtrancl)
qed

lemma recorded_status: "recorded (SetEventStatus i st d) e = recorded d e"
proof -
  have u: "(read_event q)\<lparr>se_status := a\<rparr> = (read_event (q\<lparr>ce_status := b\<rparr>))\<lparr>se_status := a\<rparr>" for q a b
    by (simp add: read_event_def)
  have "set (chain_events (SetEventStatus i st d)) = (\<lambda>q. if ce_id q = i then q\<lparr>ce_status := st\<rparr> else q) ` set (chain_events d)"
    unfolding SetEventStatus_def by (simp add: set_update_where del: if_image_distrib)
  then show ?thesis unfolding recorded_def by (simp del: if_image_distrib) (metis u)
qed

lemma ApplyDeposit_events:
  assumes "coupled amt hist (s, d)" and "known_stored amt n e" and "ApplyDeposit ntid e d = Inr d'"
  shows "chain_events d' = chain_events (SetEventStatus (se_id e) EvApplied d)"
proof -
  have ok: "id_ok (se_id e)" and am: "0 < se_amount e" "int64 (se_amount e)" using assms(2) unfolding known_stored_def by blast+
  note parts = store_invD [OF coupledD(2) [OF assms(1)]]
  show ?thesis
    by (rule ApplyDeposit_cases [OF parts(4,2) ok am assms(3)])
       (simp_all add: SetEventStatus_def PostTx_frame)
qed

lemma recorded_known:
  assumes c: "coupled amt hist (s, d)" and "recorded d e" and "se_kind e = ''deposit''"
  shows "known_stored amt (sm_next_deposit s) e"
proof -
  obtain q st where q: "q \<in> set (chain_events d)" "e = (read_event q)\<lparr>se_status := st\<rparr>" using assms(2) by (auto simp: recorded_def)
  then have "known_row amt (sm_next_deposit s) q" using c by (simp add: coupled_def db_coupled_def)
  then show ?thesis using assms(3) q(2) by (simp add: known_row_def known_stored_status) (simp add: read_event_def)
qed

lemma apply_steps:
  assumes "\<forall>e \<in> set es. recorded d e" and "coupled amt hist (s, d)"
  shows "steps (s, d) (s, apply_pending gen es d)"
  using assms
proof (induction es arbitrary: d)
  case (Cons e es)
  show ?case
  proof (cases "se_kind e = ''deposit''")
    case True
    show ?thesis
    proof (cases "ApplyDeposit (gen (se_id e)) e d")
      case (Inl err)
      with True Cons show ?thesis by simp
    next
      case (Inr d1)
      have rec: "recorded d e" using Cons.prems(1) by simp
      have step: "sys_step (s, d) (s, d1)" using sys_step.deposit [OF disjI1 [OF rec] True Inr] .
      have kn: "known_stored amt (sm_next_deposit s) e" by (rule recorded_known [OF Cons.prems(2) rec True])
      have "recorded d1 x = recorded d x" for x
        using recorded_status ApplyDeposit_events [OF Cons.prems(2) kn Inr] by (simp add: recorded_def)
      then have "steps (s, d1) (s, apply_pending gen es d1)"
        using Cons.prems by (intro Cons.IH coupled_apply [OF _ kn True Inr]) auto
      with True Inr show ?thesis by (auto intro: steps_first [OF step])
    qed
  next
    case False
    have "steps (s, SetEventStatus (se_id e) EvIgnored d) (s, apply_pending gen es (SetEventStatus (se_id e) EvIgnored d))"
      using Cons.prems by (intro Cons.IH coupled_status) (auto simp: recorded_status)
    with False show ?thesis by (auto intro: steps_first [OF sys_step.event_status])
  qed
qed simp

lemma pending_recorded: "e \<in> set (PendingEvents k d) \<Longrightarrow> recorded d e"
proof -
  assume "e \<in> set (PendingEvents k d)"
  then obtain q where "q \<in> set (take k (sort_key ce_seq (filter (\<lambda>q. ce_status q = EvReceived) (chain_events d))))" "e = read_event q"
    by (auto simp: PendingEvents_def)
  then have "q \<in> set (chain_events d)" "e = (read_event q)\<lparr>se_status := se_status e\<rparr>"
    by (auto dest: in_set_takeD)
  then show "recorded d e" unfolding recorded_def by blast
qed

end
