(* ===== verification/Ticks.thy ===== *)
theory Ticks
  imports Workers
begin

text \<open>
  The passes of the inbox, the resolver, the liquidator, the price walk, the escrow reconciler, the
  reconciler and a whole round of \<open>Quiesce\<close>, each as a run of the transition system.
\<close>

lemma steps_one: "sys_step w w' \<Longrightarrow> steps w w'"
  by (rule r_into_rtranclp)

section \<open>The reorganisation check\<close>

lemma check_blocks_quiet:
  "\<forall>b \<in> set bs. CanonicalHash (fst b) s = Some (snd b) \<Longrightarrow> check_blocks gen now s bs d = (None, d)"
  by (induction bs) auto

lemma confirmed_canonical:
  assumes c: "coupled amt hist (s, d)" and r: "r \<in> set (intents d)" "in_state r = StateConfirmed"
  shows "\<exists>h x. in_height r = Some h \<and> in_hash r = Some x \<and> CanonicalHash h s = Some x"
proof -
  note inv = coupledD(1) [OF c]
  obtain h x where h: "in_height r = Some h" "in_hash r = Some x" "TxStatus (in_id r) s = final_status h x"
    using coupledD(6) [OF c r(1)] r(2) by (auto simp: known_intent_def)
  then have "ts_processed (TxStatus (in_id r) s)" by (simp add: final_status_def included_def)
  from inv this obtain b where b: "b \<in> set (hist @ sm_pending s)" "TxStatus (in_id r) s = receipt_for (int (length hist)) b"
    by (rule TxStatus_block)
  from b(2) h(3) have eq: "receipt_for (int (length hist)) b = final_status h x" by simp
  have "bl_height b = h" "bl_hash b = x"
    using arg_cong [OF eq, of ts_height] arg_cong [OF eq, of ts_hash] by (simp_all add: receipt_for_def final_status_def included_def)
  moreover have "hashes_ok (hist @ sm_pending s) (sm_hash_at s)" using inv by (simp add: chain_ok_def)
  ultimately have "CanonicalHash h s = Some x" using b(1) unfolding CanonicalHash_def hashes_ok_def by blast
  with h show ?thesis by blast
qed

text \<open>
  What is confirmed was final when it was confirmed, so the check finds nothing to revert: the
  code's defence is never needed in a reachable state.
\<close>

lemma reorgCheck_quiet:
  assumes c: "coupled amt hist (s, d)" and ord: "\<And>hs. set (ord hs) \<subseteq> set hs"
  shows "reorgCheck gen now ord s d = (None, d)"
proof -
  let ?rows = "filter (\<lambda>r. in_state r = StateConfirmed \<and> in_height r \<noteq> None) (intents d)"
  let ?kv = "map (\<lambda>r. (the (in_height r), the (in_hash r))) ?rows"
  have can: "in_hash r \<noteq> None \<and> CanonicalHash (the (in_height r)) s = Some (the (in_hash r))" if "r \<in> set ?rows" for r
    using confirmed_canonical [OF c, of r] that by auto
  then have "\<forall>r \<in> set ?rows. in_hash r \<noteq> None" by blast
  then have "\<not> list_ex (\<lambda>r. in_hash r = None) ?rows" unfolding list_ex_iff by blast
  then have live: "ConfirmedBlocks d = Inr (map_of (rev (remdups ?kv)))"
    by (simp add: ConfirmedBlocks_def Let_def)
  let ?m = "map_of (rev (remdups ?kv))" and ?hs = "remdups (map (\<lambda>r. the (in_height r)) ?rows)"
  have at: "CanonicalHash h s = Some (the (?m h))" if h: "h \<in> fst ` set ?kv" for h
  proof -
    have "?m h \<noteq> None" using h by (simp add: map_of_eq_None_iff)
    then obtain x where x: "?m h = Some x" by blast
    from map_of_SomeD [OF x] have "(h, x) \<in> set ?kv" by (simp only: set_remdups set_rev)
    then obtain r where r: "r \<in> set ?rows" "h = the (in_height r)" "x = the (in_hash r)"
      unfolding set_map by (rule imageE) (simp only: prod.inject)
    have "CanonicalHash h s = Some x" unfolding r(2,3) using can [OF r(1)] by (rule conjunct2)
    then show ?thesis by (simp only: x option.sel)
  qed
  have "fst ` set ?kv = set ?hs" by (simp add: image_image)
  with ord [of ?hs] have sub: "set (ord ?hs) \<subseteq> fst ` set ?kv" by (simp only:)
  have "\<forall>b \<in> set (map (\<lambda>h. (h, the (?m h))) (ord ?hs)). CanonicalHash (fst b) s = Some (snd b)"
  proof
    fix b assume "b \<in> set (map (\<lambda>h. (h, the (?m h))) (ord ?hs))"
    then obtain h where h: "b = (h, the (?m h))" "h \<in> set (ord ?hs)" unfolding set_map by (rule imageE)
    show "CanonicalHash (fst b) s = Some (snd b)" unfolding h(1) fst_conv snd_conv using h(2) sub by (intro at) (rule subsetD)
  qed
  from check_blocks_quiet [OF this] show ?thesis by (simp only: reorgCheck_def live Let_def sum.case)
qed

section \<open>The inbox tick\<close>

lemma InboxTick_steps:
  assumes res: "InboxTick gen now dr s d = (x, d')" and c: "coupled amt hist (s, d)"
    and ord: "\<And>hs. set (id_heights dr hs) \<subseteq> set hs"
  shows "steps (s, d) (s, d')"
proof -
  obtain e d1 where st: "settleFacts gen (id_hashes dr) s d = (e, d1)" by (metis surj_pair)
  note s1 = settleFacts_steps(1) [OF st c]
  from steps_coupled [OF s1 c] obtain amt1 new where c1: "coupled amt1 (hist @ new) (s, d1)" by blast
  show ?thesis
  proof (cases e)
    case (Some err)
    with res st s1 show ?thesis by (simp add: InboxTick_def)
  next
    case None
    obtain n d3 where p: "poll_batch dr s d1 = (n, d3)" by (metis surj_pair)
    note s3 = poll_steps [OF p]
    from steps_coupled [OF s3 c1] obtain amt3 new3 where c3: "coupled amt3 ((hist @ new) @ new3) (s, d3)" by blast
    have "steps (s, d3) (s, apply_pending gen (PendingEvents 128 d3) d3)"
      using apply_steps [OF _ c3] pending_recorded by blast
    moreover have "d' = apply_pending gen (PendingEvents 128 d3) d3"
      using res by (simp add: InboxTick_def st None reorgCheck_quiet [OF c1 ord] p Let_def)
    ultimately show ?thesis using s1 s3 by (meson rtranclp_trans)
  qed
qed

section \<open>The resolver\<close>

lemma view_of_update:
  assumes "intents d' = update_where p f (intents d)" and "\<And>r. view_row (f r) = view_row r"
  shows "view_of d' = view_of d"
proof -
  have "view_row (if p r then f r else r) = view_row r" for r using assms(2) by simp
  then show ?thesis unfolding view_of_def assms(1) set_update_where by (simp add: image_image del: if_image_distrib)
qed

lemma Confirm_view:
  assumes inv: "store_inv d" and res: "Confirm gen ntid iid h x d = Inr d'"
  shows "view_of d' = view_of d"
proof -
  note parts = store_invD [OF inv]
  have bk: "intent_books d" using parts(6) by (simp add: intent_inv_def)
  have commit: "view_of d' = view_of d" if "d' = set_confirmed iid h x tid d1" "intents d1 = intents d" for tid d1
    by (rule view_of_update [of d' "\<lambda>r. in_id r = iid" "\<lambda>r. r\<lparr>in_state := StateConfirmed, in_height := Some h,
        in_hash := Some x, in_final_transfer := tid\<rparr>" d]) (simp_all add: that set_confirmed_rows view_row_def)
  show ?thesis using bk res
  proof (cases rule: Confirm_cases)
    case (withdraw r i rep d1)
    show ?thesis by (rule commit [OF withdraw(5)]) (simp add: PostTx_frame [OF withdraw(4)])
  next
    case (settle r m outcome d1)
    show ?thesis by (rule commit [OF settle(7)])
      (use settleMarketTx_frame [OF settle(6) parts(4,5)] in \<open>simp add: trade_frame_def\<close>)
  next
    case (escrow r)
    show ?thesis by (rule commit [OF escrow(4)]) simp
  qed simp
qed

lemma Expire_view:
  assumes inv: "store_inv d" and res: "Expire ntid iid height now d = Inr d'"
  shows "view_of d' = view_of d"
proof -
  note parts = store_invD [OF inv]
  have bk: "intent_books d" using parts(6) by (simp add: intent_inv_def)
  show ?thesis using bk res
  proof (cases rule: Expire_cases)
    case (withdraw r i rep d1)
    show ?thesis
      by (rule view_of_update [of d' "\<lambda>r. in_id r = iid" "\<lambda>r. r\<lparr>in_state := StateExpired\<rparr>" d])
         (simp_all add: withdraw(7) PostTx_frame [OF withdraw(6)] view_row_def)
  next
    case (settle r)
    show ?thesis
      by (rule view_of_update [of d' "\<lambda>r. in_id r = iid" "\<lambda>r. r\<lparr>in_deadline := now + 60000\<rparr>" d])
         (simp_all add: settle(4) view_row_def)
  next
    case (escrow r)
    show ?thesis
      by (rule view_of_update [of d' "\<lambda>r. in_id r = iid" "\<lambda>r. r\<lparr>in_state := StateExpired\<rparr>" d])
         (simp_all add: escrow(4) view_row_def)
  qed simp
qed

lemma view_unique:
  assumes "coupled amt hist (s, d)" and "(i, k, a, x) \<in> view_of d" "(i, k', a', x') \<in> view_of d"
  shows "k = k' \<and> a = a' \<and> x = x'"
proof -
  have ids: "distinct (map in_id (intents d))"
    using store_invD(6) [OF coupledD(2) [OF assms(1)]] intent_books_parts(1) by (auto simp: intent_inv_def)
  obtain r r' where "r \<in> set (intents d)" "r' \<in> set (intents d)" "view_row r = (i, k, a, x)" "view_row r' = (i, k', a', x')"
    using assms(2,3) unfolding view_of_def by (metis imageE)
  moreover from this have "r = r'" using ids by (metis (no_types) distinct_map inj_onD prod.inject view_row_def)
  ultimately show ?thesis by simp
qed

lemma Cancel_frame: "sm_head (snd (Cancel i x s)) = sm_head s" "TxStatus n (snd (Cancel i x s)) = TxStatus n s"
  by (simp_all add: Cancel_def TxStatus_def)

lemma resolve_one_steps:
  assumes res: "resolve_one gen gens now (sm_head s) it (s, d) = (r, s', d')" and c: "coupled amt hist (s, d)"
    and v: "view_row it \<in> view_of d"
  shows "steps (s, d) (s', d') \<and> sm_head s' = sm_head s \<and> view_of d' = view_of d"
proof -
  let ?i = "in_id it" and ?st = "TxStatus (in_id it) s"
  have v': "(?i, in_kind it, in_amount it, in_expiry it) \<in> view_of d" using v by (simp add: view_row_def)
  note inv = coupledD(2) [OF c]
  consider (final) "ts_processed ?st" "ts_finalized ?st" | (seen) "ts_processed ?st" "\<not> ts_finalized ?st"
    | (unseen) "\<not> ts_processed ?st" by blast
  then show ?thesis
  proof cases
    case final
    show ?thesis
    proof (cases "Confirm gens (gen ?i) ?i (ts_height ?st) (ts_hash ?st) d")
      case (Inl e)
      with res final show ?thesis by (auto simp: resolve_one_def Let_def split: if_splits)
    next
      case (Inr d1)
      with res final have "s' = s" "d' = d1" by (simp_all add: resolve_one_def Let_def)
      then show ?thesis using sys_step.confirm [OF final Inr] Confirm_view [OF inv Inr] by auto
    qed
  next
    case seen
    with res show ?thesis by (simp add: resolve_one_def Let_def)
  next
    case unseen
    define past where "past \<longleftrightarrow> in_expiry it > 0 \<and> sm_head s > in_expiry it"
    define ask where "ask \<longleftrightarrow> past \<and> in_kind it = Withdraw \<and> \<not> Expired ?i s"
    define s1 where "s1 = (if ask then snd (Cancel ?i (in_expiry it) s) else s)"
    have head: "sm_head s1 = sm_head s" "TxStatus ?i s1 = ?st" by (simp_all add: s1_def Cancel_frame)
    have st1: "steps (s, d) (s1, d)"
      using sys_step.cancel [of ?i "in_amount it" "in_expiry it" d s] v' by (auto simp: s1_def ask_def)
    from steps_coupled [OF st1 c] obtain amt1 new where c1: "coupled amt1 (hist @ new) (s1, d)" by blast
    have out: "s' = s1 \<and> (d' = d \<or> (past \<and> (Expired ?i s1 \<or> in_kind it \<noteq> Withdraw) \<or> in_expiry it = 0 \<and> now > in_deadline it) \<and>
        Expire (gen ?i) ?i (sm_head s) now d = Inr d')"
      using res unseen unfolding resolve_one_def Let_def s1_def ask_def past_def
      by (auto split: if_splits prod.splits sum.splits)
    show ?thesis
    proof (cases "d' = d")
      case True
      with out st1 head show ?thesis by simp
    next
      case False
      with out have e: "Expire (gen ?i) ?i (sm_head s1) now d = Inr d'" and s': "s' = s1"
        and why: "past \<and> (Expired ?i s1 \<or> in_kind it \<noteq> Withdraw) \<or> in_expiry it = 0 \<and> now > in_deadline it" by (auto simp: head)
      have "may_expire s1 d ?i"
        unfolding may_expire_def
      proof (intro conjI allI impI)
        show "\<not> ts_processed (TxStatus ?i s1)" using unseen head by simp
        fix a x assume a: "(?i, Withdraw, a, x) \<in> view_of d" "x \<noteq> 0"
        then have "in_kind it = Withdraw" "in_expiry it = x" using view_unique [OF c v'] by blast+
        with why a(2) show "x < sm_head s1" "Expired ?i s1" by (auto simp: past_def head)
      qed
      then have "sys_step (s1, d) (s1, d')" using e by (rule sys_step.expire)
      with st1 s' head Expire_view [OF inv e] show ?thesis by (auto intro: rtranclp.rtrancl_into_rtrancl)
    qed
  qed
qed

lemma resolve_all_steps:
  assumes "resolve_all gen gens now (sm_head s) its n (s, d) = (r, s', d')" and "coupled amt hist (s, d)"
    and "view_row ` set its \<subseteq> view_of d"
  shows "steps (s, d) (s', d') \<and> view_of d' = view_of d"
  using assms
proof (induction its arbitrary: n s d amt hist)
  case (Cons it its)
  obtain x e s1 d1 where o: "resolve_one gen gens now (sm_head s) it (s, d) = ((x, e), s1, d1)" by (metis surj_pair)
  have one: "steps (s, d) (s1, d1)" "sm_head s1 = sm_head s" "view_of d1 = view_of d"
    using resolve_one_steps [OF o Cons.prems(2)] Cons.prems(3) by auto
  from steps_coupled [OF one(1) Cons.prems(2)] obtain amt1 new where c1: "coupled amt1 (hist @ new) (s1, d1)" by blast
  show ?case
  proof (cases e)
    case (Some err)
    with Cons.prems(1) o one show ?thesis by simp
  next
    case None
    with Cons.prems(1) o one(2) have "resolve_all gen gens now (sm_head s1) its (if x then Suc n else n) (s1, d1) = (r, s', d')"
      by simp
    from Cons.IH [OF this c1] Cons.prems(3) one(1,3) show ?thesis by (auto intro: rtranclp_trans)
  qed
qed simp

lemma ResolverTick_steps:
  assumes "ResolverTick gen gens now (s, d) = (r, s', d')" and "coupled amt hist (s, d)"
  shows "steps (s, d) (s', d') \<and> view_of d' = view_of d"
  using assms by (intro resolve_all_steps [of gen gens now s "InFlight d" 0 d r])
    (auto simp: ResolverTick_def VaultState_def InFlight_def view_of_def)


section \<open>Liquidations and prices\<close>

lemma liquidate_steps:
  "liquidate gen lease marks ps n d = (x, d') \<Longrightarrow> steps (s, d) (s, d')"
proof (induction ps arbitrary: n d)
  case (Cons p ps)
  let ?c = "ClosePosition (gen (po_id p)) (po_id p) (case marks (po_market p) of None \<Rightarrow> 0 | Some m \<Rightarrow> m) ''liquidation'' d"
  show ?case
  proof (cases "lease (''liq:'' @ po_id p)")
    case True
    show ?thesis
    proof (cases ?c)
      case (Inl e)
      with Cons True show ?thesis by (auto split: if_splits)
    next
      case (Inr d1)
      have "steps (s, d1) (s, d')" using Cons.IH [of "Suc n" d1] Cons.prems True Inr by simp
      with sys_step.close_position [OF Inr] show ?thesis by (rule steps_first)
    qed
  qed (use Cons in simp)
qed simp

lemma LiquidatorTick_steps: "LiquidatorTick gen feed lease d = (x, d') \<Longrightarrow> steps (s, d) (s, d')"
  by (rule liquidate_steps) (simp add: LiquidatorTick_def Let_def)

lemma PriceTick_steps: "PriceTick drift draw d = Some (ps, d') \<Longrightarrow> steps (s, d) (s, d')"
proof -
  have loop: "steps (s, d) (s, snd (fold (price_step drift draw) ms (ps, d)))" for ms ps d
  proof (induction ms arbitrary: ps d)
    case (Cons m ms)
    obtain ps1 d1 where o: "price_step drift draw m (ps, d) = (ps1, d1)" by (metis surj_pair)
    then have "d1 = d \<or> (\<exists>i k. d1 = SetMark i k d)" by (auto simp: price_step_def Let_def split: if_splits)
    then have "steps (s, d) (s, d1)" using sys_step.mark by auto
    with Cons [of d1 ps1] o show ?case by (auto intro: rtranclp_trans)
  qed simp
  assume "PriceTick drift draw d = Some (ps, d')"
  then have "fold (price_step drift draw) (Markets d) ([], d) = (ps, d')" by (simp add: PriceTick_def split: if_splits)
  with loop [of d "Markets d" "[]"] show "steps (s, d) (s, d')" by simp
qed

section \<open>The escrow reconciler\<close>

lemma drift_books: "same_books d (d\<lparr>escrow_drift := ed\<rparr>)"
  unfolding same_books_def
  by (intro exI [of _ "outbox d"] exI [of _ ed] exI [of _ "reconciliations d"]) simp

lemma escrow_books: "same_books d (delete_drift m d)" "same_books d (reset_drift m want got d)"
  "count_drift m want got d = Inr d' \<Longrightarrow> same_books d d'"
  by (auto simp: delete_drift_def reset_drift_def count_drift_def drift_books Let_def split: option.splits if_splits)

lemma chase_gap_steps:
  assumes res: "chase_gap nid issue now s busy m want got d = (x, d')" and "fresh_id nid" "0 \<le> want" "int64 want"
  shows "steps (s, d) (s, d')"
proof -
  let ?req = "issue \<and> \<not> busy \<and> \<not> SettledOnChain m s"
  let ?r = "if ?req then RequestEscrowSet nid m want (vs_head (VaultState s) + EscrowExpiryBlocks) now d else Inr (('''', False), d)"
  show ?thesis
  proof (cases ?r)
    case (Inl e)
    with res show ?thesis by (simp add: chase_gap_def Let_def)
  next
    case (Inr y)
    obtain z d1 where y: "?r = Inr (z, d1)" using Inr by (cases y) simp
    have s1: "steps (s, d) (s, d1)"
    proof (cases ?req)
      case True
      with y show ?thesis by (intro r_into_rtranclp sys_step.escrow [OF assms(2-4)]) simp
    next
      case False
      then have "?r = Inr (('''', False), d)" by (simp only: if_False)
      with y show ?thesis by simp
    qed
    have "d' = d1 \<or> same_books d1 d'"
      using res y escrow_books(3) [of m want got d1]
      by (auto simp: chase_gap_def Let_def split: if_splits sum.splits prod.splits)
    with s1 show ?thesis by (auto intro: rtranclp.rtrancl_into_rtrancl sys_step.books)
  qed
qed

lemma escrow_market_steps:
  assumes res: "escrow_market gen issue now s targets (m, want) rep d = (x, d')"
    and "fresh_id (gen m)" "0 \<le> want" "int64 want"
  shows "steps (s, d) (s, d')"
proof -
  consider (same) "d' = d \<or> same_books d d'"
    | (chase) y where "chase_gap (gen m) issue now s (targets m \<noteq> None) m want (EscrowOf (VaultState s) m) d = (y, d')"
    using res escrow_books(1,2) [of d m]
    by (auto simp: escrow_market_def Let_def split: if_splits prod.splits sum.splits)
  then show ?thesis
  proof cases
    case same
    then show ?thesis using sys_step.books by auto
  next
    case chase
    then show ?thesis by (rule chase_gap_steps) (fact assms(2-4))+
  qed
qed

lemma escrow_markets_steps:
  assumes "escrow_markets gen issue now s targets mws rep d = (x, d')" and "\<And>m. fresh_id (gen m)"
    and "\<forall>mw \<in> set mws. 0 \<le> snd mw \<and> int64 (snd mw)"
  shows "steps (s, d) (s, d')"
  using assms
proof (induction mws arbitrary: rep d)
  case (Cons mw mws)
  obtain m want where mw: "mw = (m, want)" by (cases mw)
  obtain y d1 where o: "escrow_market gen issue now s targets (m, want) rep d = (y, d1)" by (metis surj_pair)
  have s1: "steps (s, d) (s, d1)" using escrow_market_steps [OF o Cons.prems(2)] Cons.prems(3) mw by simp
  show ?case
  proof (cases y)
    case (Inl e)
    with Cons.prems(1) o mw s1 show ?thesis by simp
  next
    case (Inr rep1)
    with Cons.prems o mw have "steps (s, d1) (s, d')" by (intro Cons.IH [of rep1]) auto
    with s1 show ?thesis by (rule rtranclp_trans)
  qed
qed simp

lemma collateral_range:
  assumes "store_inv d" and "MarketCollateral d = Inr mws"
  shows "\<forall>mw \<in> set mws. 0 \<le> snd mw \<and> int64 (snd mw)"
proof -
  have pos: "0 < po_collateral p" if "p \<in> set (positions d)" for p
    using store_invD(5) [OF assms(1)] that by (simp add: market_inv_def)
  have "0 \<le> market_collateral m d" for m
    unfolding market_collateral_def sum_where_def using pos by (intro sum_list_nonneg) (auto intro: less_imp_le)
  then show ?thesis using assms(2) by (auto simp: MarketCollateral_def Let_def list_ex_iff split: if_splits)
qed

lemma ReconcileEscrow_steps:
  assumes res: "ReconcileEscrow gen issue now s d = (x, d')" and c: "coupled amt hist (s, d)" and gen: "\<And>m. fresh_id (gen m)"
  shows "steps (s, d) (s, d')"
proof (cases "MarketCollateral d")
  case (Inl e)
  with res show ?thesis by (simp add: ReconcileEscrow_def)
next
  case coll: (Inr mws)
  show ?thesis
  proof (cases "InFlightEscrowTargets d")
    case (Inl e)
    with res coll show ?thesis by (simp add: ReconcileEscrow_def)
  next
    case (Inr targets)
    let ?rep = "\<lparr>er_markets = length mws, er_synced = 0, er_explained = 0, er_unexplained = 0,
          er_total_ledger = 0, er_total_chain = 0, er_drifts = [], er_issued = 0\<rparr>"
    obtain y d1 where o: "escrow_markets gen issue now s targets (sort_key fst mws) ?rep d = (y, d1)" by (metis surj_pair)
    have "steps (s, d) (s, d1)"
      by (rule escrow_markets_steps [OF o gen]) (use collateral_range [OF coupledD(2) [OF c] coll] in simp)
    moreover have "d' = d1" using res coll Inr o by (auto simp: ReconcileEscrow_def split: sum.splits)
    ultimately show ?thesis by simp
  qed
qed

lemma EscrowTick_steps:
  assumes "EscrowTick gen now s d = (x, d')" and "coupled amt hist (s, d)" and "\<And>m. fresh_id (gen m)"
  shows "steps (s, d) (s, d')"
proof -
  obtain y d1 where o: "ReconcileEscrow gen True now s d = (y, d1)" by (metis surj_pair)
  with assms(1) have "d' = d1" by (auto simp: EscrowTick_def split: sum.splits)
  with ReconcileEscrow_steps [OF o assms(2,3)] show ?thesis by simp
qed


section \<open>The reconciler\<close>

lemma event_name_inj:
  assumes "CHR ''@'' \<notin> set n" "CHR ''@'' \<notin> set n'" "event_name n x = event_name n' x'"
  shows "n = n'"
proof -
  have "takeWhile (\<lambda>c. c \<noteq> CHR ''@'') (event_name m y) = m" if "CHR ''@'' \<notin> set m" for m y
  proof -
    have "takeWhile (\<lambda>c. c \<noteq> CHR ''@'') m = m" using that by (induction m) auto
    moreover have "takeWhile (\<lambda>c. c \<noteq> CHR ''@'') (m @ CHR ''@'' # y) = takeWhile (\<lambda>c. c \<noteq> CHR ''@'') m"
      using takeWhile_tail [of "\<lambda>c. c \<noteq> CHR ''@''" "CHR ''@''" m y] by simp
    ultimately show ?thesis by (simp add: event_name_def)
  qed
  then show ?thesis using assms by metis
qed

text \<open>An event of the log whose receipt is final, as the fact it becomes.\<close>

lemma final_event_live:
  assumes c: "coupled amt hist (s, d)" and ev: "ev \<in> set (FinalizedFacts ''deposit'' s)"
  shows "fact_live s (new_fact (healed_event ev) i)" and "ts_finalized (TxStatus (ev_fact ev) s)"
    and "ev \<in> set (sm_log s)" and "ev_kind ev = ''deposit''"
proof -
  note inv = coupledD(1) [OF c]
  have "is_final_fact ''deposit'' s ev" and log: "ev \<in> set (sm_log s)" using ev by (simp_all add: FinalizedFacts_filter)
  then obtain st where st: "sm_receipts s (ev_fact ev) = Some st" "ts_finalized st" "ts_hash st = ev_hash ev" "ev_kind ev = ''deposit''"
    by (auto simp: is_final_fact_def split: option.splits)
  then have tx: "TxStatus (ev_fact ev) s = st" by (simp add: TxStatus_def)
  obtain k where k: "k < length (sm_log s)" "ev = sm_log s ! k" using log by (auto simp: in_set_conv_nth)
  have lg: "log_ok (hist @ sm_pending s) (sm_log s)" using inv by (simp add: chain_ok_def)
  have "ev_kind (sm_log s ! k) \<noteq> ''orphaned''" using st(4) k(2) by simp
  from log_entry [OF lg k(1) this] obtain b j where b: "b \<in> set (hist @ sm_pending s)" "j < length (bl_txs b)"
    "ev = event_of (bl_height b) (bl_hash b) (int k + 1) (bl_txs b ! j)" using k(2) by blast
  let ?t = "bl_txs b ! j"
  have t: "?t \<in> set (bl_txs b)" "tx_nonce ?t = ev_fact ev" "ev_height ev = bl_height b" "ev_hash ev = bl_hash b"
    using b by (simp_all add: event_of_def)
  have "tx_kind ?t = ''deposit''" using st(4) b(3) by (simp add: event_of_def evKind_deposit)
  then have "tx_kind ?t \<noteq> ''cancel''" by simp
  moreover have rc: "receipts_ok (hist @ sm_pending s) (int (length hist)) (sm_receipts s)" using inv by (simp add: chain_ok_def)
  ultimately have "sm_receipts s (ev_fact ev) = Some (receipt_for (int (length hist)) b) \<and> ts_processed (receipt_for (int (length hist)) b)"
    using receipts_ok_iff [OF rc, of "ev_fact ev"] b(1) t(1,2) by blast
  then have p: "ts_processed st" using st(1) by simp
  have "CanonicalHash (ev_height ev) s = Some (ev_hash ev)"
    using inv b(1) t unfolding CanonicalHash_def chain_ok_def hashes_ok_def by auto
  then show "fact_live s (new_fact (healed_event ev) i)" using st p tx
    by (simp add: fact_live_def new_fact_def healed_event_def stored_of_def Let_def)
  show "ts_finalized (TxStatus (ev_fact ev) s)" "ev \<in> set (sm_log s)" "ev_kind ev = ''deposit''"
    using st tx log by simp_all
qed

text \<open>The facts that carry the events still to heal are live and final, so marking them is sound.\<close>

definition heal_ready :: "sim \<Rightarrow> db \<Rightarrow> stored_event list \<Rightarrow> bool" where
  "heal_ready s d es \<longleftrightarrow> (\<forall>e \<in> set es. final_fact_event s d (se_id e))"

lemma fact_live_core: "core_fact f = core_fact g \<Longrightarrow> fact_live s f = fact_live s g"
  by (metis core_fact_simps(4))

lemma final_fact_event_core:
  assumes "core_fact ` set (chain_facts d') = core_fact ` set (chain_facts d)"
  shows "final_fact_event s d' eid = final_fact_event s d eid"
proof -
  let ?P = "\<lambda>f. cf_event f = eid \<longrightarrow> \<not> cf_reverted f \<longrightarrow> fact_live s f \<and> ts_finalized (TxStatus (cf_fact f) s)"
  have "final_fact_event s x eid \<longleftrightarrow> (\<forall>g \<in> core_fact ` set (chain_facts x). ?P g)" for x
    by (simp add: final_fact_event_def)
  then show ?thesis by (simp only: assms)
qed

lemma heal_one_steps:
  assumes c: "coupled amt hist (s, d)" and ev: "ev \<in> set (FinalizedFacts ''deposit'' s)"
    and ready: "heal_ready s d es" and e: "e = healed_event ev" "e \<in> set es"
    and res: "heal_one gen e (n, d) = (n', d')"
  shows "steps (s, d) (s, d') \<and> heal_ready s d' es"
proof -
  note fin = final_event_live [OF c ev]
  define d1 where "d1 = snd (RecordEvent e d)"
  have s1: "sys_step (s, d) (s, d1)" unfolding d1_def by (rule sys_step.record_event [OF fin(3)]) (simp add: e)
  have f1: "chain_facts d1 = chain_facts d" by (simp add: d1_def RecordEvent_def)
  then have r1: "heal_ready s d1 es" using ready by (simp add: heal_ready_def final_fact_event_def)
  from sys_step_coupled [OF s1 c] obtain amt1 new where c1: "coupled amt1 (hist @ new) (s, d1)" by blast
  show ?thesis
  proof (cases "ApplyDeposit (gen (se_id e)) e d1")
    case (Inl err)
    with res s1 r1 show ?thesis by (auto simp: heal_one_def d1_def [symmetric] Let_def)
  next
    case (Inr d2)
    have d': "d' = MarkFactFinalized (se_id e) d2" using res Inr by (simp add: heal_one_def d1_def [symmetric] Let_def)
    have kind: "se_kind e = ''deposit''" by (simp add: e healed_event_def stored_of_def fin(4))
    have s2: "sys_step (s, d1) (s, d2)"
      by (rule sys_step.deposit [OF disjI2 kind Inr]) (use e fin(3) in simp)
    note kn = known_from_log(2) [OF coupled_log [OF c1 fin(3)] disjI2 [OF e(1)] kind]
    have ok: "id_ok (se_id e)" and am: "0 < se_amount e" "int64 (se_amount e)" using kn unfolding known_stored_def by blast+
    note parts = store_invD [OF coupledD(2) [OF c1]]
    have r2: "heal_ready s d2 es"
    proof (rule ApplyDeposit_cases [OF parts(4,2) ok am Inr])
      assume "d2 = SetEventStatus (se_id e) EvApplied d1"
      then show ?thesis using r1 by (simp add: heal_ready_def final_fact_event_def)
    next
      fix i d3 assume d2: "d2 = SetEventStatus (se_id e) EvApplied (d3\<lparr>chain_facts := chain_facts d1 @ [new_fact e i]\<rparr>)"
      have "fact_live s (new_fact e i)" "ts_finalized (TxStatus (cf_fact (new_fact e i)) s)"
        using fin(1) [of i] fin(2) by (simp_all add: e new_fact_def healed_event_def stored_of_def)
      then show ?thesis using r1 by (auto simp: d2 heal_ready_def final_fact_event_def)
    qed
    have s3: "sys_step (s, d2) (s, d')" unfolding d'
      by (rule sys_step.finalize) (use r2 e(2) in \<open>simp add: heal_ready_def\<close>)
    have "core_fact ` set (chain_facts d') = core_fact ` set (chain_facts d2)"
      using MarkFactFinalized_core [of "se_id e" d2] unfolding d' by (metis set_map)
    from final_fact_event_core [OF this] have "heal_ready s d' es" using r2 by (simp only: heal_ready_def)
    moreover have "steps (s, d) (s, d')" by (rule steps_first [OF s1 steps_first [OF s2 steps_one [OF s3]]])
    ultimately show ?thesis by simp
  qed
qed

lemma heal_steps:
  assumes "coupled amt hist (s, d)" and "set evs \<subseteq> set (FinalizedFacts ''deposit'' s)"
    and "heal_ready s d es" and "set (map healed_event evs) \<subseteq> set es"
    and "fold (heal_one gen) (map healed_event evs) (n, d) = (n', d')"
  shows "steps (s, d) (s, d')"
  using assms
proof (induction evs arbitrary: n d amt hist)
  case (Cons ev evs)
  obtain n1 d1 where o: "heal_one gen (healed_event ev) (n, d) = (n1, d1)" by (metis surj_pair)
  have one: "steps (s, d) (s, d1)" "heal_ready s d1 es"
    using heal_one_steps [OF Cons.prems(1) _ Cons.prems(3) refl _ o] Cons.prems(2,4) by auto
  from steps_coupled [OF one(1) Cons.prems(1)] obtain amt1 new where c1: "coupled amt1 (hist @ new) (s, d1)" by blast
  have "steps (s, d1) (s, d')" by (rule Cons.IH [OF c1 _ one(2)]) (use Cons.prems o in auto)
  with one(1) show ?case by (rule rtranclp_trans)
qed simp

lemma missing_ready:
  assumes c: "coupled amt hist (s, d)"
  shows "heal_ready s d (map healed_event (missing_facts s d))"
  unfolding heal_ready_def final_fact_event_def
proof (intro ballI impI)
  fix e f assume e: "e \<in> set (map healed_event (missing_facts s d))" and f: "f \<in> set (chain_facts d)" "cf_event f = se_id e" "\<not> cf_reverted f"
  obtain ev where ev: "e = healed_event ev" "ev \<in> set (FinalizedFacts ''deposit'' s)" "ev_fact ev \<notin> AppliedFactIDs d"
    using e by (auto simp: missing_facts_def)
  note fin = final_event_live [OF c ev(2)]
  have kn: "known_event amt (sm_next_deposit s) ev" by (rule coupled_log [OF c fin(3)])
  have fk: "known_fact amt s f" by (rule coupledD(5) [OF c f(1)])
  have "event_name (ev_fact ev) (ev_hash ev) = event_name (cf_fact f) (cf_hash f)"
    using f(2) fk kn by (simp add: known_fact_def known_event_def ev(1) healed_event_def stored_of_def)
  moreover have "CHR ''@'' \<notin> set (ev_fact ev)" "CHR ''@'' \<notin> set (cf_fact f)"
    using kn fk fin(4) used_plain(2) by (auto simp: known_event_def known_fact_def)
  ultimately have "ev_fact ev = cf_fact f" by (metis event_name_inj)
  then have "ev_fact ev \<in> AppliedFactIDs d" using f by (auto simp: applied_iff)
  with ev(3) show "fact_live s f \<and> ts_finalized (TxStatus (cf_fact f) s)" by simp
qed

lemma Reconcile_steps:
  assumes res: "Reconcile gen ord stamp s d = (x, d')" and c: "coupled amt hist (s, d)"
  shows "steps (s, d) (s, d')"
proof -
  obtain e d1 where st: "settleFacts gen ord s d = (e, d1)" by (metis surj_pair)
  note s1 = settleFacts_steps(1) [OF st c]
  from steps_coupled [OF s1 c] obtain amt1 new where c1: "coupled amt1 (hist @ new) (s, d1)" by blast
  show ?thesis
  proof (cases "e = None \<and> (\<exists>l p. InternalTotal d1 = Inr l \<and> UnfinalizedApplied (vs_final_height (VaultState s)) d1 = Inr p)")
    case False
    then have "d' = d1" using res st by (auto simp: Reconcile_def split: option.splits sum.splits)
    with s1 show ?thesis by simp
  next
    case True
    then obtain l p where lp: "e = None" "InternalTotal d1 = Inr l" "UnfinalizedApplied (vs_final_height (VaultState s)) d1 = Inr p" by blast
    let ?r = "make_report s d1 l p" and ?ms = "missing_facts s d1"
    obtain n d2 where h: "fold (heal_one gen) (map healed_event ?ms) (0, d1) = (n, d2)" by (metis surj_pair)
    have s2: "steps (s, d1) (s, d2)"
      by (rule heal_steps [OF c1 _ missing_ready [OF c1] _ h]) (auto simp: missing_facts_def)
    define d3 where "d3 = (if rp_status ?r = StatusShortfall then Freeze ''*'' (halt_reason (rp_unexplained ?r) stamp) d2 else d2)"
    obtain r1 where d': "d' = insert_reconciliation r1 d3"
      using res st lp h by (auto simp: Reconcile_def finish_report_def Let_def d3_def)
    have s3: "steps (s, d2) (s, d3)" using sys_step.freeze by (auto simp: d3_def)
    have "same_books d3 d'" unfolding same_books_def d' insert_reconciliation_def
      by (rule exI [of _ "outbox d3"], rule exI [of _ "escrow_drift d3"], intro exI) auto
    then have "sys_step (s, d3) (s, d')" by (rule sys_step.books)
    with s1 s2 s3 show ?thesis by (meson rtranclp.rtrancl_into_rtrancl rtranclp_trans)
  qed
qed


section \<open>A round\<close>

definition fresh_draws :: "round_draws \<Rightarrow> bool" where
  "fresh_draws rd \<longleftrightarrow> (\<forall>i. fresh_id (rd_gen rd i)) \<and> (\<forall>hs. set (id_heights (rd_inbox rd) hs) \<subseteq> set hs)"

lemma work_round_steps:
  assumes res: "work_round rd (s, d) = (e, s', d')" and c: "coupled amt hist (s, d)" and rd: "fresh_draws rd"
    and fresh: "block_hash (md_hash (rd_mine rd)) \<notin> ran (sm_hash_at s)"
  shows "steps (s, d) (s', d')"
proof -
  note s0 = steps_one [OF sys_step.mine [of "rd_mine rd" s d, OF fresh]]
  obtain n0 s1 d1 where o1: "OutboxTick (rd_now rd) (rd_outbox rd) (Mine (rd_mine rd) s, d) = (n0, s1, d1)" by (metis surj_pair)
  note s1 = rtranclp_trans [OF s0 OutboxTick_steps [OF o1]]
  from steps_coupled [OF s1 c] obtain amt1 new1 where c1: "coupled amt1 (hist @ new1) (s1, d1)" by blast
  obtain n1 e1 d2 where o2: "InboxTick (rd_gen rd) (rd_now rd) (rd_inbox rd) s1 d1 = ((n1, e1), d2)" by (metis prod.collapse)
  have i2: "steps (s1, d1) (s1, d2)" by (rule InboxTick_steps [OF o2 c1]) (use rd in \<open>simp add: fresh_draws_def\<close>)
  note s2 = rtranclp_trans [OF s1 i2]
  from steps_coupled [OF s2 c] obtain amt2 new2 where c2: "coupled amt2 (hist @ new2) (s1, d2)" by blast
  obtain n2 e2 s3 d3 where o3: "ResolverTick (rd_gen rd) (rd_gens rd) (rd_now rd) (s1, d2) = ((n2, e2), s3, d3)"
    by (metis prod.collapse)
  note s3 = rtranclp_trans [OF s2 conjunct1 [OF ResolverTick_steps [OF o3 c2]]]
  from steps_coupled [OF s3 c] obtain amt3 new3 where c3: "coupled amt3 (hist @ new3) (s3, d3)" by blast
  obtain y d4 where o4: "EscrowTick (rd_gen rd) (rd_now rd) s3 d3 = (y, d4)" by (metis surj_pair)
  have i4: "steps (s3, d3) (s3, d4)" by (rule EscrowTick_steps [OF o4 c3]) (use rd in \<open>simp add: fresh_draws_def\<close>)
  note s4 = rtranclp_trans [OF s3 i4]
  have "(s', d') = (s1, d2) \<or> (s', d') = (s3, d3) \<or> (s', d') = (s3, d4)"
    using res by (auto simp: work_round_def o1 o2 o3 o4 split: option.splits sum.splits)
  with s2 s3 s4 show ?thesis by auto
qed

end
