(* ===== verification/Refunds.thy ===== *)
theory Refunds
  imports Ticks
begin

text \<open>
  When a refund is safe. A run is calm while the head stays above the deadline of every refunded
  withdrawal, that is while no reorganisation goes back below it. In a calm run no refunded
  withdrawal is ever executed, so the reconciler has nothing to report.
\<close>

section \<open>Which rows become refunds\<close>

definition refunded :: "intent_row \<Rightarrow> bool" where
  "refunded r \<longleftrightarrow> in_kind r = Withdraw \<and> in_state r = StateExpired"

definition refunds_from :: "sim \<Rightarrow> db \<Rightarrow> db \<Rightarrow> bool" where
  "refunds_from s d d' \<longleftrightarrow> (\<forall>r' \<in> set (intents d'). refunded r' \<longrightarrow>
     (\<exists>r \<in> set (intents d). refunded r \<and> in_id r = in_id r' \<and> in_expiry r = in_expiry r') \<or> may_expire s d (in_id r'))"

lemma refunds_same: "intents d' = intents d \<Longrightarrow> refunds_from s d d'"
  by (auto simp: refunds_from_def)

lemma refunds_new: "intents d' = intents d @ [r] \<Longrightarrow> \<not> refunded r \<Longrightarrow> refunds_from s d d'"
  by (auto simp: refunds_from_def)

lemma refunds_update:
  assumes "intents d' = update_where (\<lambda>r. in_id r = iid) f (intents d)"
    and "\<And>r. refunded (f r) \<Longrightarrow> in_id r = iid \<Longrightarrow> refunded r \<and> in_id (f r) = in_id r \<and> in_expiry (f r) = in_expiry r \<or>
      may_expire s d iid \<and> in_id (f r) = iid"
  shows "refunds_from s d d'"
  unfolding refunds_from_def
proof (intro ballI impI)
  fix r' assume "r' \<in> set (intents d')" and ref: "refunded r'"
  then obtain r where r: "r \<in> set (intents d)" "r' = (if in_id r = iid then f r else r)"
    by (auto simp: assms(1) set_update_where simp del: if_image_distrib)
  show "(\<exists>r \<in> set (intents d). refunded r \<and> in_id r = in_id r' \<and> in_expiry r = in_expiry r') \<or> may_expire s d (in_id r')"
  proof (cases "in_id r = iid")
    case True
    then have "refunded (f r)" using ref r(2) by simp
    from assms(2) [OF this True] r True show ?thesis by auto
  qed (use r ref in auto)
qed

lemma Confirm_refunds:
  assumes inv: "store_inv d" and res: "Confirm gen ntid iid h x d = Inr d'"
  shows "refunds_from s d d'"
proof -
  note parts = store_invD [OF inv]
  have bk: "intent_books d" using parts(6) by (simp add: intent_inv_def)
  have commit: "refunds_from s d d'" if "d' = set_confirmed iid h x tid d1" "intents d1 = intents d" for tid d1
    by (rule refunds_update [of d' iid "\<lambda>r. r\<lparr>in_state := StateConfirmed, in_height := Some h,
        in_hash := Some x, in_final_transfer := tid\<rparr>"]) (simp_all add: that set_confirmed_rows refunded_def)
  show ?thesis using bk res
  proof (cases rule: Confirm_cases)
    case (withdraw r i rep d1)
    show ?thesis by (rule commit [OF withdraw(5)]) (simp add: PostTx_frame [OF withdraw(4)])
  next
    case (settle r m outcome d1)
    show ?thesis by (rule commit [OF settle(7)])
      (use settleMarketTx_frame [OF settle(6) parts(4,5)] in \<open>simp add: trade_frame_def\<close>)
  next
    case (escrow r)
    show ?thesis by (rule commit [OF escrow(4)]) simp
  qed (simp add: refunds_same)
qed

lemma Expire_refunds:
  assumes inv: "store_inv d" and res: "Expire ntid iid height now d = Inr d'" and may: "may_expire s d iid"
  shows "refunds_from s d d'"
proof -
  note parts = store_invD [OF inv]
  have bk: "intent_books d" using parts(6) by (simp add: intent_inv_def)
  show ?thesis using bk res
  proof (cases rule: Expire_cases)
    case (withdraw r i rep d1)
    show ?thesis
      by (rule refunds_update [of d' iid "\<lambda>r. r\<lparr>in_state := StateExpired\<rparr>"])
         (simp_all add: withdraw(7) PostTx_frame [OF withdraw(6)] may)
  next
    case (settle r)
    show ?thesis
      by (rule refunds_update [of d' iid "\<lambda>r. r\<lparr>in_deadline := now + 60000\<rparr>"])
         (simp_all add: settle(4) refunded_def)
  next
    case (escrow r)
    show ?thesis
      by (rule refunds_update [of d' iid "\<lambda>r. r\<lparr>in_state := StateExpired\<rparr>"]) (simp_all add: escrow(4) may)
  qed (simp add: refunds_same)
qed

lemma sys_step_refunds:
  assumes "sys_step (s, d) (s', d')" and c: "coupled amt hist (s, d)"
  shows "refunds_from s d d'"
proof -
  note inv = coupledD(2) [OF c]
  note parts = store_invD [OF inv]
  from assms(1) show ?thesis
  proof cases
    case (open_position npid ntid user marketID side sz idemKey pid)
    then show ?thesis using OpenPosition_frame [OF parts(4,5)] by (intro refunds_same) (simp add: trade_frame_def)
  next
    case (close_position ntid pid mark reason)
    then show ?thesis using ClosePosition_frame [OF parts(4,5)] by (intro refunds_same) (simp add: trade_frame_def)
  next
    case (withdraw nid amount ntid user key now x)
    obtain i rep where x: "x = (i, rep)" by (cases x)
    let ?x = "sm_head s + WithdrawExpiryBlocks"
    from withdraw(4) x have res: "RequestWithdraw nid ntid user amount key ?x now d = Inr ((i, rep), d')"
      by (simp add: app_RequestWithdraw_def VaultState_def Let_def)
    from res show ?thesis
    proof (cases rule: RequestWithdraw_cases)
      case (replay old)
      then show ?thesis by (simp add: refunds_same)
    next
      case fresh
      have "id_ok nid" using fresh_id_plain [OF withdraw(2)] by simp
      then have "intents d' = intents d @ [(new_intent nid (null_if_empty key) Withdraw (Some user) None amount (now + WithdrawTTL) ?x)
          \<lparr>in_reserve_transfer := Some ntid\<rparr>]"
        by (rule reserve_withdraw_spec [OF parts(4,6) _ fresh(1) withdraw(3) fresh(3)]) simp
      then show ?thesis by (rule refunds_new) (simp add: refunded_def new_intent_def)
    qed
  next
    case (settlement nid marketID outcome now x)
    obtain i rep where x: "x = (i, rep)" by (cases x)
    from settlement(3) [unfolded x] show ?thesis
    proof (cases rule: RequestSettlement_cases)
      case (replay old m)
      then show ?thesis by (simp add: refunds_same)
    next
      case fresh
      have "intents d' = intents d @ [new_intent nid (Some (''settle:'' @ marketID)) SettleMarket None (Some marketID) 0 (now + 60000) 0]"
        by (simp add: fresh(7) insert_outbox_def)
      then show ?thesis by (rule refunds_new) (simp add: refunded_def new_intent_def)
    qed
  next
    case (escrow nid target marketID expiry now x)
    obtain i rep where x: "x = (i, rep)" by (cases x)
    from escrow(5) [unfolded x] show ?thesis
    proof (cases rule: RequestEscrowSet_cases)
      case (replay old)
      then show ?thesis by (simp add: refunds_same)
    next
      case fresh
      have "intents d' = intents d @ [new_intent nid None EscrowSet None (Some marketID) target (now + 60000) expiry]"
        by (simp add: fresh(5) insert_outbox_def)
      then show ?thesis by (rule refunds_new) (simp add: refunded_def new_intent_def)
    qed
  next
    case (submitted iid chainTx msg)
    have "intents d' = update_where (\<lambda>r. in_id r = iid) (submit_row chainTx msg) (intents d)"
      using submitted(2) by (simp add: MarkSubmitted_rows)
    then show ?thesis by (rule refunds_update) (auto simp: refunded_def submit_row_def split: if_splits)
  next
    case (deposit e ntid)
    have kn: "known_stored amt (sm_next_deposit s) e"
      using deposit(2)
    proof
      assume "recorded d e"
      then show ?thesis by (rule recorded_known [OF c _ deposit(3)])
    next
      assume "e \<in> healed_event ` set (sm_log s)"
      then show ?thesis using known_from_log(2) [OF coupled_log [OF c]] deposit(3) by blast
    qed
    then have ok: "id_ok (se_id e)" and am: "0 < se_amount e" "int64 (se_amount e)" unfolding known_stored_def by blast+
    have "intents d' = intents d"
      by (rule ApplyDeposit_cases [OF parts(4,2) ok am deposit(4)]) (simp_all add: PostTx_frame)
    then show ?thesis by (rule refunds_same)
  next
    case (revert_block gen hash)
    obtain n e where r: "RevertBlock gen hash d = ((n, e), d')" using revert_block(2) by (metis prod.collapse)
    show ?thesis using RevertBlock_spec(3) [OF parts(4,2) r] by (intro refunds_same) (simp add: revert_frame_def)
  next
    case (confirm iid gen ntid)
    show ?thesis by (rule Confirm_refunds [OF inv confirm(4)])
  next
    case (expire iid ntid now)
    show ?thesis by (rule Expire_refunds [OF inv expire(3,2)])
  qed (auto intro!: refunds_same simp: SeedMarket_def SetMark_def Let_def Freeze_def Unfreeze_def same_books_def RecordEvent_def
      AdvanceCursor_def SetEventStatus_def MarkFactFinalized_def split: if_splits)
qed


section \<open>What a new block can execute\<close>

lemma accepted_each:
  "accepted execAt cs v = cs \<Longrightarrow> c \<in> set cs \<Longrightarrow> \<exists>u u'. execAt c u = Some u'"
proof (induction cs arbitrary: v)
  case (Cons x cs)
  from Cons.prems(1) obtain v' where "execAt x v = Some v'" "accepted execAt cs v' = cs" by (rule accepted_Cons_all)
  with Cons show ?case by auto
qed simp

lemma mined_in_time:
  assumes "sim_inv hist s" and "b \<in> set (hist @ sm_pending s)" "t \<in> set (bl_txs b)" "tx_kind t \<noteq> ''cancel''" "0 < tx_expiry t"
  shows "bl_height b \<le> tx_expiry t"
proof -
  have "(t, bl_height b) \<in> set (calls (hist @ sm_pending s))" using assms(2,3) unfolding set_calls by blast
  then obtain u u' where "execAt (t, bl_height b) u = Some u'"
    using accepted_each assms(1) by (meson chain_ok_def executes_all_def)
  then show ?thesis using accepts_fresh(3) assms(4,5) by (auto simp: execAt_def)
qed

text \<open>A nonce that a block makes processed was processed before, or its call is in the new block.\<close>

lemma Mine_processed:
  assumes inv: "sim_inv hist s" and p: "ts_processed (TxStatus n (Mine md s))"
  obtains (before) "ts_processed (TxStatus n s)"
  | (now) new b t where "sim_inv (hist @ new) (Mine md s)" "b \<in> set ((hist @ new) @ sm_pending (Mine md s))" "bl_height b = sm_head (Mine md s)"
      "t \<in> txs_of hist s" "t \<in> set (bl_txs b)" "tx_kind t \<noteq> ''cancel''" "tx_nonce t = n"
proof -
  let ?s = "Mine md s"
  from inv obtain keep gone b new where sh: "sm_pending s = keep @ gone" "sim_inv (hist @ new) ?s"
    "(hist @ new) @ sm_pending ?s = hist @ keep @ [b]"
    "set (bl_txs b) \<subseteq> set (sm_mempool s) \<union> (\<Union>c \<in> set gone. set (bl_txs c))"
    by (rule Mine_shape [of hist s md]) blast
  let ?bs = "(hist @ new) @ sm_pending ?s"
  obtain c t where c: "c \<in> set ?bs" "t \<in> set (bl_txs c)" "tx_kind t \<noteq> ''cancel''" "tx_nonce t = n"
    using TxStatus_block [OF sh(2) p] by blast
  show ?thesis
  proof (cases "c \<in> set (hist @ keep)")
    case True
    have rc: "receipts_ok (hist @ sm_pending s) (int (length hist)) (sm_receipts s)" using inv by (simp add: chain_ok_def)
    have "c \<in> set (hist @ sm_pending s)" using True sh(1) by auto
    then have "sm_receipts s n = Some (receipt_for (int (length hist)) c) \<and> ts_processed (receipt_for (int (length hist)) c)"
      using receipts_ok_iff [OF rc, of n "receipt_for (int (length hist)) c"] c(2-4) by blast
    then show ?thesis by (intro before) (simp add: TxStatus_def)
  next
    case False
    then have "c = b" using c(1) unfolding sh(3) by auto
    moreover have "bl_height b = int (length ?bs)"
      using heights_ok_nth [of ?bs "length (hist @ keep)"] sh(2) unfolding chain_ok_def sh(3) by simp
    moreover have "sm_head ?s = int (length ?bs)" using sh(2) by (simp add: chain_ok_def)
    moreover have "t \<in> txs_of hist s" using c(2) \<open>c = b\<close> sh(1,4) by (auto simp: txs_of_def)
    ultimately show ?thesis using c sh(2) by (intro now [of new c t]) simp_all
  qed
qed

section \<open>Calm runs\<close>

definition refund_safe :: "sim \<Rightarrow> db \<Rightarrow> bool" where
  "refund_safe s d \<longleftrightarrow> (\<forall>r \<in> set (intents d). refunded r \<longrightarrow> in_expiry r < sm_head s)"

definition unexecuted :: "sim \<Rightarrow> db \<Rightarrow> bool" where
  "unexecuted s d \<longleftrightarrow> (\<forall>r \<in> set (intents d). refunded r \<longrightarrow> \<not> ts_processed (TxStatus (in_id r) s))"

inductive calm_reachable :: "sim \<times> db \<Rightarrow> bool" where
  calm_boot: "calm_reachable (New f statePath None, schema_db)"
| calm_step: "calm_reachable w \<Longrightarrow> sys_step w w' \<Longrightarrow> refund_safe (fst w') (snd w') \<Longrightarrow> calm_reachable w'"

lemma calm_sys_reachable: "calm_reachable w \<Longrightarrow> sys_reachable w"
  by (induction rule: calm_reachable.induct) (auto intro: sys_reachable.intros)

lemma TxStatus_frame:
  "TxStatus n (snd (Submit u1 u2 w t s)) = TxStatus n s" "TxStatus n (snd (Deposit u a s)) = TxStatus n s"
  "TxStatus n (SetFaults f s) = TxStatus n s"
  by (simp_all add: TxStatus_def Submit_def Deposit_def SetFaults_def persistLocked_def Let_def)

text \<open>A step of the chain executes no refunded withdrawal, as long as the head ends above its deadline.\<close>

lemma chain_step_status:
  assumes "sys_step (s, d) (s', d')"
  obtains (still) "\<And>n. TxStatus n s' = TxStatus n s" | (mined) md where "s' = Mine md s" "d' = d"
  using assms by cases (auto simp: TxStatus_frame Cancel_frame)

lemma Mine_unexecuted:
  assumes c: "coupled amt hist (s, d)" and un: "unexecuted s d" and safe: "refund_safe (Mine md s) d"
  shows "unexecuted (Mine md s) d"
  unfolding unexecuted_def
proof (intro ballI impI notI)
  fix r assume r: "r \<in> set (intents d)" "refunded r" and p: "ts_processed (TxStatus (in_id r) (Mine md s))"
  show False
  proof (cases rule: Mine_processed [OF coupledD(1) [OF c] p])
    case 1
    with un r show False by (simp add: unexecuted_def)
  next
    case (2 new b t)
    have kr: "known_intent s r" by (rule coupledD(6) [OF c r(1)])
    have "known_tx amt (sm_next_deposit s) (view_of d) t" by (rule coupledD(4) [OF c 2(4)])
    then have "intent_tx (view_of d) t" using kr used_plain(3) 2(7) by (auto simp: known_tx_def deposit_tx_def known_intent_def)
    then obtain v where v: "v \<in> view_of d" "carries_out t v" by (auto simp: intent_tx_def)
    obtain i k a x where ikax: "v = (i, k, a, x)" by (cases v)
    have "view_row r \<in> view_of d" using r(1) by (simp add: view_of_def)
    then have "k = in_kind r \<and> a = in_amount r \<and> x = in_expiry r"
      using view_unique [OF c, of i k a x] v ikax 2(7) by (simp add: view_row_def carries_out_def)
    then have "tx_expiry t = in_expiry r" "0 < in_expiry r"
      using v(2) ikax 2(6) r(2) kr by (simp_all add: carries_out_def refunded_def known_intent_def)
    then have "bl_height b \<le> in_expiry r" using mined_in_time [OF 2(1,2,5,6)] by simp
    with safe r 2(3) show False by (fastforce simp: refund_safe_def)
  qed
qed

lemma calm_step_unexecuted:
  assumes st: "sys_step (s, d) (s', d')" and c: "coupled amt hist (s, d)"
    and un: "unexecuted s d" and safe: "refund_safe s' d'"
  shows "unexecuted s' d'"
proof (cases rule: chain_step_status [OF st])
  case 1
  have "refunds_from s d d'" by (rule sys_step_refunds [OF st c])
  with un 1 show ?thesis unfolding unexecuted_def refunds_from_def may_expire_def by metis
next
  case (2 md)
  with Mine_unexecuted [OF c un] safe show ?thesis by simp
qed

lemma calm_unexecuted: "calm_reachable w \<Longrightarrow> unexecuted (fst w) (snd w)"
proof (induction rule: calm_reachable.induct)
  case (calm_boot f statePath)
  show ?case by (simp add: unexecuted_def schema_db_def)
next
  case (calm_step w w')
  obtain s d s' d' where w: "w = (s, d)" "w' = (s', d')" by (cases w, cases w')
  obtain amt hist where "coupled amt hist (s, d)"
    using sys_reachable_coupled [OF calm_sys_reachable [OF calm_step(1)]] w(1) by blast
  with calm_step w show ?case using calm_step_unexecuted by auto
qed

lemma calm_pays_once: "calm_reachable (s, d) \<Longrightarrow> double_paid s d = 0"
proof -
  assume "calm_reachable (s, d)"
  then have un: "unexecuted s d" using calm_unexecuted by fastforce
  have "filter (\<lambda>r. in_kind r = Withdraw \<and> in_state r = StateExpired \<and> ts_processed (TxStatus (in_id r) s) \<and>
      ts_finalized (TxStatus (in_id r) s)) (intents d) = []"
    using un by (auto simp: unexecuted_def refunded_def filter_empty_conv)
  then show ?thesis by (simp add: double_paid_def sum_where_def)
qed

end
