(* ===== verification/Tidy.thy ===== *)
theory Tidy
  imports Ticks
begin

text \<open>
  Which accounts the program posts to: the world outside, the insurance fund and accounts that may
  not go negative. No step posts to any other, so no other account ever has an entry.
\<close>

definition plain_acct :: "string \<Rightarrow> bool" where
  "plain_acct code \<longleftrightarrow> code = AcctExternal \<or> code = AcctInsurance \<or> mustStayNonNegative code"

definition tidy :: "db \<Rightarrow> bool" where
  "tidy d \<longleftrightarrow> (\<forall>e \<in> set (entries d). plain_acct (en_account e))"

lemma plain_accts [simp]:
  "plain_acct AcctExternal" "plain_acct AcctInsurance" "plain_acct (AvailableAcct u)" "plain_acct (PendingAcct u)"
  "plain_acct (MarginAcct u)"
  by (simp_all add: plain_acct_def)

lemma tidy_entries: "entries d' = entries d \<Longrightarrow> tidy d' = tidy d"
  by (simp add: tidy_def)

lemma PostTx_entries:
  assumes "PostTx nid t d = Inr (x, d')"
  shows "entries d' = entries d \<or> entries d' = entries d @ leg_entries nid (t_legs t)"
proof -
  obtain ex d1 where ins: "insert_transfer nid (t_kind t) (t_key t) d = Inr (ex, d1)"
    using assms by (auto simp: PostTx_def split: if_splits)
  have d1: "entries d1 = entries d"
    using ins by (auto simp: insert_transfer_def Let_def split: option.splits if_splits)
  have ens: "entries (fold ensureAccount cs d) = entries d" for cs d
    by (induction cs arbitrary: d) (simp_all add: ensureAccount_def Let_def)
  show ?thesis
  proof (cases ex)
    case (Some i)
    with assms ins d1 show ?thesis by (auto simp: PostTx_def split: if_splits)
  next
    case None
    with assms ins obtain d3 where "apply_deltas (t_legs t) (lock_order (t_legs t)) d3 = Inr d'"
      "entries d3 = entries d1 @ leg_entries nid (t_legs t)"
      by (auto simp: PostTx_def Let_def ens split: if_splits)
    with d1 show ?thesis using apply_deltas_frame [of "t_legs t" "lock_order (t_legs t)" d3 d'] by auto
  qed
qed

lemma PostTx_tidy:
  assumes "PostTx nid (Transfer kind key legs) d = Inr (x, d')" and "tidy d" and "\<forall>l \<in> set legs. plain_acct (lg_account l)"
  shows "tidy d'"
  using PostTx_entries [OF assms(1)] assms(2,3) by (auto simp: tidy_def leg_entries_def Transfer_def)

lemma settle_positions_tidy: "settle_positions gen outcome ps d = Inr d' \<Longrightarrow> tidy d \<Longrightarrow> tidy d'"
proof (induction ps arbitrary: d)
  case (Cons p ps)
  let ?hit = "\<lambda>r. po_id r = po_id p \<and> po_state r = PositionOpen"
  let ?d1 = "d\<lparr>positions := update_where ?hit (\<lambda>r. r\<lparr>po_state := PositionClosed, po_version := po_version r + 1\<rparr>) (positions d)\<rparr>"
  let ?legs = "[Leg (MarginAcct (po_user p)) (- po_collateral p), Leg (AvailableAcct (po_user p)) (settle_payout p outcome),
     Leg AcctInsurance (po_collateral p - settle_payout p outcome)]"
  from Cons.prems(1) obtain x d2 where
    post: "PostTx (gen (po_id p)) (Transfer ''market.settle'' (settle_key (po_id p)) ?legs) ?d1 = Inr (x, d2)"
    and rest: "settle_positions gen outcome ps d2 = Inr d'"
    by (simp only: settle_positions.simps Let_def) (auto split: if_splits sum.splits)
  have "tidy ?d1" using Cons.prems(2) by (simp add: tidy_def)
  from PostTx_tidy [OF post this] have "tidy d2" by (simp add: Leg_def)
  with Cons.IH [OF rest] show ?case .
qed simp

lemma settleMarketTx_tidy: "settleMarketTx gen m outcome d = Inr d' \<Longrightarrow> tidy d \<Longrightarrow> tidy d'"
  by (auto simp: settleMarketTx_def dest!: settle_positions_tidy) (simp add: tidy_def)

lemma OpenPosition_tidy:
  assumes "OpenPosition npid ntid user m side sz key d = Inr (pid, d')" and "tidy d"
  shows "tidy d'"
proof (cases "d' = d")
  case False
  with assms(1) have "open_new_position npid ntid user m side sz key d = Inr (pid, d')"
    by (auto simp: OpenPosition_def split: if_splits option.splits)
  then obtain p d1 c where ins: "insert_position p d = Inr d1" and
    post: "\<exists>x. PostTx ntid (Transfer ''position.open'' (open_key npid) [Leg (AvailableAcct user) (- c), Leg (MarginAcct user) c]) d1 = Inr (x, d')"
    unfolding open_new_position_def Let_def by (auto simp only: try_bind_Inr prod.case split: prod.splits) force
  have "tidy d1" using assms(2) ins by (auto simp: insert_position_def tidy_def split: if_splits)
  with post show ?thesis using PostTx_tidy by (fastforce simp: Leg_def)
qed (use assms in simp)

lemma ClosePosition_tidy:
  assumes "ClosePosition ntid pid mark reason d = Inr d'" and "tidy d"
  shows "tidy d'"
proof -
  from assms(1) obtain p where "close_read_position ntid p mark reason d = Inr d'" by (auto simp: ClosePosition_def)
  then obtain k key c y d1 x where
    post: "PostTx ntid (Transfer k key [Leg (MarginAcct (po_user p)) (- c), Leg (AvailableAcct (po_user p)) y, Leg AcctInsurance (c - y)]) d1 = Inr (x, d')"
    and d1: "entries d1 = entries d"
    by (auto simp: close_read_position_def Let_def split: if_splits)
  have "tidy d1" using assms(2) d1 by (simp add: tidy_def)
  from PostTx_tidy [OF post this] show ?thesis by (simp add: Leg_def)
qed

lemma RequestWithdraw_tidy:
  assumes "RequestWithdraw nid ntid user amount key expiry now d = Inr ((i, rep), d')" and "tidy d"
  shows "tidy d'"
  using assms(1)
proof (cases rule: RequestWithdraw_cases)
  case (replay old)
  with assms(2) show ?thesis by simp
next
  case fresh
  from fresh(3) obtain tid rep0 d2 d1 where
    post: "PostTx ntid (Transfer ''withdraw.reserve'' (reserve_key nid) [Leg (AvailableAcct user) (- amount), Leg (PendingAcct user) amount]) d1 = Inr ((tid, rep0), d2)"
    and d: "entries d1 = entries d" "entries d' = entries d2"
    by (auto simp: reserve_withdraw_def insert_intent_Inr Let_def insert_outbox_def split: option.splits)
  have "tidy d1" using assms(2) d(1) by (simp add: tidy_def)
  from PostTx_tidy [OF post this] show ?thesis using d(2) by (simp add: Leg_def tidy_def)
qed

lemma Confirm_tidy:
  assumes inv: "store_inv d" and res: "Confirm gen ntid iid h x d = Inr d'" and "tidy d"
  shows "tidy d'"
proof -
  have bk: "intent_books d" using store_invD(6) [OF inv] by (simp add: intent_inv_def)
  show ?thesis using bk res
  proof (cases rule: Confirm_cases)
    case (withdraw r i rep d1)
    from PostTx_tidy [OF withdraw(4) assms(3)] show ?thesis by (simp add: Leg_def withdraw(5) set_confirmed_def tidy_def)
  next
    case (settle r m outcome d1)
    from settleMarketTx_tidy [OF settle(6) assms(3)] show ?thesis by (simp add: settle(7) set_confirmed_def tidy_def)
  next
    case (escrow r)
    then show ?thesis using assms(3) by (simp add: set_confirmed_def tidy_def)
  qed (use assms(3) in simp)
qed

lemma Expire_tidy:
  assumes inv: "store_inv d" and res: "Expire ntid iid h now d = Inr d'" and "tidy d"
  shows "tidy d'"
proof -
  have bk: "intent_books d" using store_invD(6) [OF inv] by (simp add: intent_inv_def)
  show ?thesis using bk res
  proof (cases rule: Expire_cases)
    case (withdraw r i rep d1)
    from PostTx_tidy [OF withdraw(6) assms(3)] show ?thesis by (simp add: Leg_def withdraw(7) update_intent_def tidy_def)
  qed (use assms(3) in \<open>simp_all add: update_intent_def repend_outbox_def tidy_def\<close>)
qed

lemma ApplyDeposit_tidy:
  assumes "ApplyDeposit ntid e d = Inr d'" and "tidy d"
  shows "tidy d'"
proof -
  from assms(1) obtain tid rep d1 where
    post: "PostTx ntid (Transfer ''deposit.provisional'' (deposit_key (se_id e)) [Leg AcctExternal (- se_amount e), Leg (AvailableAcct (se_user e)) (se_amount e)]) d = Inr ((tid, rep), d1)"
    and d': "entries d' = entries d1"
    by (auto simp: ApplyDeposit_def insert_fact_def SetEventStatus_def split: if_splits)
  from PostTx_tidy [OF post assms(2)] show ?thesis using d' by (simp add: Leg_def tidy_def)
qed

lemma revert_item_tidy:
  assumes "revert_item_tx ntid h it d = Inr d'" and "tidy d"
  shows "tidy d'"
proof -
  from assms(1) obtain b c x d1 where
    post: "PostTx ntid (Transfer ''deposit.reverted'' (unwind_key (ri_event it))
       [Leg (AvailableAcct (ri_user it)) b, Leg AcctInsurance c, Leg AcctExternal (ri_amount it)]) d = Inr (x, d1)"
    and d': "entries d' = entries d1"
    by (auto simp: revert_item_tx_def SetEventStatus_def Freeze_def Let_def)
  from PostTx_tidy [OF post assms(2)] show ?thesis using d' by (simp add: Leg_def tidy_def)
qed

lemma revert_loop_tidy: "tidy d \<Longrightarrow> tidy (snd (revert_loop gen h its n d))"
proof (induction its arbitrary: n d)
  case (Cons it its)
  then show ?case using revert_item_tidy [of "gen (ri_event it)" h it d] by (auto split: sum.splits)
qed simp

section \<open>Every step\<close>

lemma sys_step_tidy:
  assumes "sys_step (s, d) (s', d')" and c: "coupled amt hist (s, d)" and t: "tidy d"
  shows "tidy d'"
  using assms(1)
proof cases
  case (open_position npid ntid user marketID side sz idemKey pid)
  then show ?thesis using OpenPosition_tidy t by blast
next
  case (close_position ntid pid mark reason)
  then show ?thesis using ClosePosition_tidy t by blast
next
  case (withdraw nid amount ntid user key now x)
  obtain i rep where "x = (i, rep)" by (cases x)
  with withdraw(4) show ?thesis using RequestWithdraw_tidy t by (fastforce simp: app_RequestWithdraw_def Let_def)
next
  case (settlement nid marketID outcome now x)
  obtain i rep where x: "x = (i, rep)" by (cases x)
  from settlement(3) [unfolded x] show ?thesis
    by (cases rule: RequestSettlement_cases) (use t in \<open>simp_all add: tidy_def insert_outbox_def\<close>)
next
  case (escrow nid target marketID expiry now x)
  obtain i rep where x: "x = (i, rep)" by (cases x)
  from escrow(5) [unfolded x] show ?thesis
    by (cases rule: RequestEscrowSet_cases) (use t in \<open>simp_all add: tidy_def insert_outbox_def\<close>)
next
  case (deposit e ntid)
  then show ?thesis using ApplyDeposit_tidy t by blast
next
  case (revert_block gen hash)
  then show ?thesis using revert_loop_tidy [OF t] by (simp add: RevertBlock_def)
next
  case (confirm iid gen ntid)
  show ?thesis by (rule Confirm_tidy [OF coupledD(2) [OF c] confirm(4) t])
next
  case (expire iid ntid now)
  show ?thesis by (rule Expire_tidy [OF coupledD(2) [OF c] expire(3) t])
qed (use t in \<open>auto simp: tidy_def SeedMarket_def SetMark_def Let_def Freeze_def Unfreeze_def same_books_def RecordEvent_def
    AdvanceCursor_def SetEventStatus_def MarkFactFinalized_def MarkSubmitted_def split: if_splits\<close>)

lemma sys_reachable_tidy: "sys_reachable w \<Longrightarrow> tidy (snd w)"
proof (induction rule: sys_reachable.induct)
  case (boot f statePath)
  show ?case by (simp add: tidy_def schema_db_def)
next
  case (step w w')
  obtain s d s' d' where w: "w = (s, d)" "w' = (s', d')" by (cases w, cases w')
  with sys_reachable_coupled [OF step(1)] step sys_step_tidy show ?case by auto
qed

end
