(* ===== verification/Verify.thy ===== *)
theory Verify
  imports Reconcile
begin

text \<open>
  The verifier of \<open>internal/app/verify.go\<close>: the invariants I0 to I7 as queries over the tables, the
  strict mode, and the report's text. A query's violations come in the order of its rows; an
  amount beyond \<open>int64\<close> or a NULL text cannot be scanned and ends the run with an error.
\<close>

section \<open>Violations\<close>

record violation =
  vi_id :: string
  vi_name :: string
  vi_detail :: string

definition String_of :: "violation \<Rightarrow> string" where
  "String_of v = vi_id v @ '' ('' @ vi_name v @ ''): '' @ vi_detail v"

definition Invariants :: "(string \<times> string) list" where
  "Invariants =
    [(''I0'', ''cached balance equals the sum of its entries''),
     (''I1'', ''every transfer's entries sum to zero''),
     (''I2'', ''ledger - chain_finalized equals the explainable in-flight delta''),
     (''I3'', ''no user available, pending-withdrawal, or margin account is ever negative''),
     (''I4'', ''margin balances equal the collateral on open positions''),
     (''I5'', ''each idempotency key maps to exactly one transfer''),
     (''I6'', ''no in-flight intent is orphaned; funds are never left dangling''),
     (''I7'', ''per-market escrow converges on ledger collateral and never stalls'')]"

definition nameOf :: "string \<Rightarrow> string" where
  "nameOf i = (case List.find (\<lambda>x. fst x = i) Invariants of None \<Rightarrow> '''' | Some x \<Rightarrow> snd x)"

definition broken :: "string \<Rightarrow> string \<Rightarrow> violation" where
  "broken i detail = \<lparr>vi_id = i, vi_name = nameOf i, vi_detail = detail\<rparr>"

section \<open>The queries\<close>

text \<open>A query whose amounts are all scanned: an error, or a violation for each row.\<close>

definition scan_rows :: "('r \<Rightarrow> bool) \<Rightarrow> ('r \<Rightarrow> violation) \<Rightarrow> 'r list \<Rightarrow> error + violation list" where
  "scan_rows fits f rs = (if list_all fits rs then Inr (map f rs) else Inl ErrScan)"

definition check_I0 :: "db \<Rightarrow> error + violation list" where
  "check_I0 d =
    scan_rows (\<lambda>b. int64 (entry_sum d (ba_code b)))
      (\<lambda>b. broken ''I0'' (ba_code b @ '': cached '' @ USD (ba_balance b) @ '', entries sum to '' @
         USD (entry_sum d (ba_code b))))
      (filter (\<lambda>b. ba_balance b \<noteq> entry_sum d (ba_code b)) (account_balances d))"

definition check_I1 :: "db \<Rightarrow> error + violation list" where
  "check_I1 d =
    scan_rows (\<lambda>t. int64 (transfer_sum d t))
      (\<lambda>t. broken ''I1'' (''transfer '' @ t @ '' is unbalanced by '' @ USD (transfer_sum d t)))
      (filter (\<lambda>t. transfer_sum d t \<noteq> 0) (remdups (map en_transfer (entries d))))"

definition status_text :: "status \<Rightarrow> string" where
  "status_text st = (case st of StatusOK \<Rightarrow> ''ok'' | StatusExplained \<Rightarrow> ''explained''
     | StatusShortfall \<Rightarrow> ''unsafe_shortfall'' | StatusSurplus \<Rightarrow> ''unsafe_surplus'')"

definition check_I2 :: "report \<Rightarrow> violation list" where
  "check_I2 r =
    (if rp_unexplained r \<noteq> 0 then
       [broken ''I2'' (''ledger '' @ USD (rp_ledger r) @ '', chain '' @ USD (rp_chain r) @ '', explained '' @
          USD (rp_explained r) @ '', unexplained '' @ USD (rp_unexplained r) @ '' ('' @ status_text (rp_status r) @ '')'')]
     else [])"

definition check_I3 :: "db \<Rightarrow> violation list" where
  "check_I3 d =
    map (\<lambda>b. broken ''I3'' (ba_code b @ '' is '' @ USD (ba_balance b)))
      (filter (\<lambda>b. ba_code b \<noteq> AcctInsurance)
        (sort_key ba_code (filter (\<lambda>b. ba_balance b < 0 \<and> ba_code b \<noteq> ''external'') (account_balances d))))"

definition check_I4 :: "db \<Rightarrow> error + violation list" where
  "check_I4 d =
    try_bind (MarginTotal d) (\<lambda>margin.
    try_bind (OpenCollateral d) (\<lambda>collateral.
    Inr (if margin \<noteq> collateral then
      [broken ''I4'' (''margin accounts hold '' @ USD margin @ '', open positions claim '' @ USD collateral)] else [])))"

definition duplicate_keys :: "db \<Rightarrow> nat" where
  "duplicate_keys d =
    (let keys = concat (map (\<lambda>t. case tr_key t of None \<Rightarrow> [] | Some k \<Rightarrow> [k]) (transfers d))
     in length (filter (\<lambda>k. 1 < length (filter (\<lambda>j. j = k) keys)) (remdups keys)))"

definition check_I5 :: "db \<Rightarrow> violation list" where
  "check_I5 d =
    (if duplicate_keys d > 0 then
       [broken ''I5'' (fmt_d (int (duplicate_keys d)) @ '' idempotency key(s) map to more than one transfer'')] else [])"

definition state_text :: "intent_state \<Rightarrow> string" where
  "state_text st = (case st of StateReserved \<Rightarrow> ''reserved'' | StateSubmitted \<Rightarrow> ''submitted''
     | StateConfirmed \<Rightarrow> ''confirmed'' | StateExpired \<Rightarrow> ''expired'' | StateReverted \<Rightarrow> ''reverted'')"

definition check_I6_outbox :: "db \<Rightarrow> violation list" where
  "check_I6_outbox d =
    map (\<lambda>r. broken ''I6'' (''intent '' @ in_id r @ '' is '' @ state_text (in_state r) @ '' with no outbox row''))
      (filter (\<lambda>r. \<not> list_ex (\<lambda>q. ob_intent q = in_id r) (outbox d)) (InFlight d))"

text \<open>The in-flight withdrawals grouped by user, each sum beside the user's pending balance.\<close>

definition reserved_groups :: "db \<Rightarrow> (string option \<times> int \<times> int) list" where
  "reserved_groups d =
    (let rows = filter (\<lambda>r. in_kind r = Withdraw) (InFlight d)
     in map (\<lambda>u. (u, sum_where (\<lambda>r. in_user r = u) in_amount rows,
           case u of None \<Rightarrow> 0 | Some x \<Rightarrow> Balance d (PendingAcct x)))
          (remdups (map in_user rows)))"

definition check_I6_reserved :: "db \<Rightarrow> error + violation list" where
  "check_I6_reserved d =
    scan_rows (\<lambda>(u, reserved, pending). u \<noteq> None \<and> int64 reserved)
      (\<lambda>(u, reserved, pending). broken ''I6'' (the u @ '' has '' @ USD reserved @
         '' of in-flight withdrawals but '' @ USD pending @ '' reserved''))
      (filter (\<lambda>(u, reserved, pending). reserved \<noteq> pending) (reserved_groups d))"

definition check_I7 :: "db \<Rightarrow> violation list" where
  "check_I7 d =
    map (\<lambda>g. broken ''I7'' (eg_market g @ '': ledger holds '' @ USD (eg_collateral g) @ '', vault escrows '' @
        USD (eg_on_chain g) @ '', unchanged for '' @ fmt_d (eg_misses g) @ '' passes''))
      (StuckEscrow d)"

section \<open>Strict mode\<close>

definition terms_text :: "terms \<Rightarrow> string" where
  "terms_text t = ''{WithdrawnNotRecognised:'' @ fmt_d (tm_withdrawn t) @ '' DepositsNotIngested:'' @
     fmt_d (tm_missing t) @ '' ProvisionalCredits:'' @ fmt_d (tm_provisional t) @ ''}''"

definition unapplied :: "db \<Rightarrow> nat" where
  "unapplied d = rows_affected (\<lambda>q. ce_status q = EvReceived) (chain_events d)"

definition check_strict :: "report \<Rightarrow> escrow_report \<Rightarrow> db \<Rightarrow> violation list" where
  "check_strict rep esc d =
    (if er_unexplained esc \<noteq> 0 then [broken ''I7'' (''strict mode: '' @ fmt_d (int (er_unexplained esc)) @
       '' market(s) out of sync with no instruction in flight'')] else []) @
    (if er_explained esc \<noteq> 0 then [broken ''I7'' (''strict mode: '' @ fmt_d (int (er_explained esc)) @
       '' escrow instruction(s) still in flight'')] else []) @
    (if rp_in_flight rep \<noteq> 0 then [broken ''I6'' (''strict mode: '' @ fmt_d (int (rp_in_flight rep)) @
       '' intent(s) still in flight'')] else []) @
    (if rp_terms rep \<noteq> \<lparr>tm_withdrawn = 0, tm_missing = 0, tm_provisional = 0\<rparr> then
       [broken ''I2'' (''strict mode: expected zero in-flight delta, got '' @ terms_text (rp_terms rep))] else []) @
    (if rp_ledger rep \<noteq> rp_chain rep then
       [broken ''I2'' (''strict mode: ledger '' @ USD (rp_ledger rep) @ '' != chain '' @ USD (rp_chain rep))] else []) @
    (if unapplied d \<noteq> 0 then [broken ''I2'' (''strict mode: '' @ fmt_d (int (unapplied d)) @
       '' event(s) still unapplied'')] else [])"

section \<open>The run\<close>

text \<open>The checks before the reconciler runs see the database as it was, the later ones what it left.\<close>

definition checks_before :: "db \<Rightarrow> error + violation list" where
  "checks_before d = try_bind (check_I0 d) (\<lambda>v0. try_bind (check_I1 d) (\<lambda>v1. Inr (v0 @ v1)))"

definition checks_after :: "report \<Rightarrow> db \<Rightarrow> error + violation list" where
  "checks_after rep d =
    try_bind (check_I4 d) (\<lambda>v4.
    try_bind (check_I6_reserved d) (\<lambda>v6.
    Inr (check_I2 rep @ check_I3 d @ v4 @ check_I5 d @ check_I6_outbox d @ v6)))"

definition Verify :: "(string \<Rightarrow> string) \<Rightarrow> (string list \<Rightarrow> string list) \<Rightarrow> string \<Rightarrow> int \<Rightarrow> bool \<Rightarrow> sim \<Rightarrow> db \<Rightarrow>
    (error + violation list) \<times> db" where
  "Verify gen ord stamp now strict s d =
    (case checks_before d of
       Inl e \<Rightarrow> (Inl e, d)
     | Inr before \<Rightarrow>
     (case Reconcile gen ord stamp s d of
       (Inl e, d1) \<Rightarrow> (Inl e, d1)
     | (Inr rep, d1) \<Rightarrow>
     (case checks_after rep d1 of
       Inl e \<Rightarrow> (Inl e, d1)
     | Inr later \<Rightarrow>
     (case ReconcileEscrow gen False now s d1 of
       (Inl e, d2) \<Rightarrow> (Inl e, d2)
     | (Inr esc, d2) \<Rightarrow>
         (Inr (before @ later @ check_I7 d2 @ (if strict then check_strict rep esc d2 else [])), d2)))))"

definition Format :: "violation list \<Rightarrow> string" where
  "Format vs =
    (if vs = [] then ''all invariants hold''
     else fmt_d (int (length vs)) @ '' violation(s):'' @ [CHR 0x0A] @
       concat (map (\<lambda>v. ''  - '' @ String_of v @ [CHR 0x0A]) vs))"

end
