(* ===== verification/Verdict.thy ===== *)
theory Verdict
  imports Refunds Tidy Verify
begin

text \<open>
  What the reconciler and the verifier conclude in a reachable state: the report's unexplained part
  is the amount of refunded withdrawals the chain has paid, and the verifier's queries over the
  store alone never find anything.
\<close>

section \<open>The reconciler's verdict\<close>

lemma double_paid_bounds:
  assumes c: "coupled amt hist (s, d)" and cap: "sum_list (map ev_amount (FinalizedFacts ''deposit'' s)) \<le> 9223372036854775807"
  shows "0 \<le> double_paid s d \<and> int64 (double_paid s d)"
proof -
  note inv = coupledD(1) [OF c] and store = coupledD(2) [OF c]
  have ex: "executes_all hist" and fs: "sm_final s = state_after hist"
    using inv executes_all_append by (auto simp: chain_ok_def)
  have ok: "\<forall>b \<in> set hist. \<forall>t \<in> set (bl_txs b). tx_ok t"
    using coupledD(4) [OF c] by (auto simp: txs_of_def known_tx_def)
  have dep: "sum_list (map ev_amount (FinalizedFacts ''deposit'' s)) = deposit_sum (calls hist)"
    by (rule final_deposits_sum [OF inv])
  note after = custody_after [OF ex ok]
  have "0 \<le> escrow_sum (state_after hist)" "escrow_sum (state_after hist) \<le> va_balance (state_after hist)"
    using after(1) cap dep escrow_at_le [of "state_after hist"] by (fastforce simp: vault_ok_def)+
  then have bal: "0 \<le> deposit_sum (calls hist) -
      (paid_out d + sum_list (map in_amount (withdrawn_rows s (InFlight d))) + double_paid s d)"
    using after(2) cap dep hist_delta final_withdrawals [OF c] final_withdrawals_split [OF c] by simp
  have "row_ok r" if "r \<in> set (intents d)" for r
    using store_invD(6) [OF store] intent_books_parts(2) that by (auto simp: intent_inv_def)
  then have pos: "0 < in_amount r" if "r \<in> set (intents d)" "in_kind r = Withdraw" for r
    using that by (simp add: row_ok_def)
  have sums: "0 \<le> sum_list (map in_amount (filter p (intents d)))" if "\<And>r. p r \<Longrightarrow> in_kind r = Withdraw" for p
    by (rule sum_list_nonneg) (use pos that in \<open>force simp: less_imp_le\<close>)
  have "0 \<le> paid_out d" "0 \<le> double_paid s d"
    unfolding paid_out_def double_paid_def sum_where_def by (rule sums, simp)+
  moreover have "0 \<le> sum_list (map in_amount (withdrawn_rows s (InFlight d)))"
    unfolding withdrawn_rows_def InFlight_def filter_filter by (rule sums) simp
  ultimately show ?thesis using bal cap dep by (simp add: int64_def)
qed

lemma double_paid_intents: "intents d' = intents d \<Longrightarrow> double_paid s d' = double_paid s d"
  by (simp add: double_paid_def)

lemma Reconcile_cases:
  assumes "Reconcile gen ord stamp s d = (Inr r, d')"
  obtains d1 n where "settleFacts gen ord s d = (None, d1)" "int64 (internal_sum d1)" "int64 (unfinalized_sum (sm_final_height s) d1)"
    "let r0 = make_report s d1 (internal_sum d1) (unfinalized_sum (sm_final_height s) d1) in
      rp_status r = rp_status r0 \<and> rp_unexplained r = rp_unexplained r0 \<and> rp_explained r = rp_explained r0 \<and>
      rp_terms r = rp_terms r0 \<and> rp_ledger r = rp_ledger r0 \<and> rp_chain r = rp_chain r0"
    "rp_healed r = n" "\<exists>d2. fold (heal_one gen) (map healed_event (missing_facts s d1)) (0, d1) = (n, d2) \<and>
      d' = insert_reconciliation r (if rp_status r = StatusShortfall then Freeze ''*'' (halt_reason (rp_unexplained r) stamp) d2 else d2)"
proof -
  obtain e d1 where st: "settleFacts gen ord s d = (e, d1)" by (metis surj_pair)
  obtain n d2 where h: "fold (heal_one gen) (map healed_event (missing_facts s d1)) (0, d1) = (n, d2)" by (metis surj_pair)
  from assms st have "e = None" "int64 (internal_sum d1)" "int64 (unfinalized_sum (sm_final_height s) d1)"
    by (auto simp: Reconcile_def InternalTotal_def UnfinalizedApplied_def scan_int64_def VaultState_def
        split: option.splits sum.splits if_splits)
  with assms st h show ?thesis
    by (intro that [of d1 n])
       (auto simp: Reconcile_def InternalTotal_def UnfinalizedApplied_def scan_int64_def VaultState_def finish_report_def Let_def)
qed

lemma verdict:
  assumes c: "coupled amt hist (s, d)" and ord: "\<And>os. set os \<subseteq> set (ord os)"
    and cap: "sum_list (map ev_amount (FinalizedFacts ''deposit'' s)) \<le> 9223372036854775807"
    and res: "Reconcile gen ord stamp s d = (Inr r, d')"
  shows "rp_unexplained r = double_paid s d" and "rp_status r = StatusShortfall \<longleftrightarrow> 0 < double_paid s d"
    and "rp_status r \<noteq> StatusSurplus"
    and "0 < double_paid s d \<Longrightarrow> list_ex (\<lambda>f. fr_subject f = ''*'') (freezes d')"
proof -
  from Reconcile_cases [OF res] obtain d1 n where d1: "settleFacts gen ord s d = (None, d1)"
    and r: "let r0 = make_report s d1 (internal_sum d1) (unfinalized_sum (sm_final_height s) d1) in
      rp_status r = rp_status r0 \<and> rp_unexplained r = rp_unexplained r0 \<and> rp_explained r = rp_explained r0 \<and>
      rp_terms r = rp_terms r0 \<and> rp_ledger r = rp_ledger r0 \<and> rp_chain r = rp_chain r0"
    and d': "\<exists>d2. fold (heal_one gen) (map healed_event (missing_facts s d1)) (0, d1) = (n, d2) \<and>
      d' = insert_reconciliation r (if rp_status r = StatusShortfall then Freeze ''*'' (halt_reason (rp_unexplained r) stamp) d2 else d2)"
    by metis
  note st = settleFacts_steps [OF d1 c]
  from steps_coupled [OF st(1) c] obtain amt1 new where c1: "coupled amt1 (hist @ new) (s, d1)" by blast
  have sd: "settled s d1" by (rule st(3)) (use ord in simp_all)
  have same: "double_paid s d1 = double_paid s d" by (rule double_paid_intents [OF st(2)])
  note b = double_paid_bounds [OF c cap]
  show u: "rp_unexplained r = double_paid s d"
    using r report_residue [OF c1 sd cap] b by (simp add: Let_def same)
  have status: "rp_status r = status_of (rp_unexplained r) (rp_explained r)"
    using r by (simp add: make_report_def Let_def)
  show s1: "rp_status r = StatusShortfall \<longleftrightarrow> 0 < double_paid s d" and "rp_status r \<noteq> StatusSurplus"
    using status u b by (auto simp: status_of_def)
  show "list_ex (\<lambda>f. fr_subject f = ''*'') (freezes d')" if "0 < double_paid s d"
    using that s1 d' by (auto simp: insert_reconciliation_def Freeze_def list_ex_iff)
qed


section \<open>The verifier's verdict\<close>

lemma scan_rows_empty: "scan_rows fits f [] = Inr []"
  by (simp add: scan_rows_def)

lemma ledger_rows:
  assumes "ledger_inv d"
  shows "b \<in> set (account_balances d) \<Longrightarrow> ba_balance b = entry_sum d (ba_code b)"
    and "b \<in> set (account_balances d) \<Longrightarrow> mustStayNonNegative (ba_code b) \<Longrightarrow> 0 \<le> ba_balance b"
    and "e \<in> set (entries d) \<Longrightarrow> transfer_sum d (en_transfer e) = 0"
    and "distinct (filter (\<lambda>k. k \<noteq> None) (map tr_key (transfers d)))"
proof -
  note inv = assms [unfolded ledger_inv_def list_all_iff list_ex_iff]
  show "b \<in> set (account_balances d) \<Longrightarrow> ba_balance b = entry_sum d (ba_code b)"
    "b \<in> set (account_balances d) \<Longrightarrow> mustStayNonNegative (ba_code b) \<Longrightarrow> 0 \<le> ba_balance b"
    "distinct (filter (\<lambda>k. k \<noteq> None) (map tr_key (transfers d)))" using inv by blast+
  show "transfer_sum d (en_transfer e) = 0" if "e \<in> set (entries d)"
  proof -
    obtain t where "t \<in> set (transfers d)" "tr_id t = en_transfer e" using inv \<open>e \<in> set (entries d)\<close> by blast
    then show ?thesis using inv by metis
  qed
qed

lemma I0_holds: "ledger_inv d \<Longrightarrow> check_I0 d = Inr []"
proof -
  assume "ledger_inv d"
  then have "filter (\<lambda>b. ba_balance b \<noteq> entry_sum d (ba_code b)) (account_balances d) = []"
    using ledger_rows(1) by (auto simp: filter_empty_conv)
  then show "check_I0 d = Inr []" by (simp only: check_I0_def scan_rows_empty)
qed

lemma I1_holds: "ledger_inv d \<Longrightarrow> check_I1 d = Inr []"
proof -
  assume "ledger_inv d"
  then have "filter (\<lambda>t. transfer_sum d t \<noteq> 0) (remdups (map en_transfer (entries d))) = []"
    using ledger_rows(3) by (auto simp: filter_empty_conv)
  then show "check_I1 d = Inr []" by (simp only: check_I1_def scan_rows_empty)
qed

lemma checks_before_holds: "store_inv d \<Longrightarrow> checks_before d = Inr []"
  using I0_holds I1_holds store_invD(4) by (simp add: checks_before_def try_bind_def)

lemma distinct_some_keys:
  "distinct (filter (\<lambda>k. k \<noteq> None) ks) \<Longrightarrow> distinct (concat (map (\<lambda>k. case k of None \<Rightarrow> [] | Some x \<Rightarrow> [x]) ks))"
  by (induction ks) (auto split: option.splits)

lemma I5_holds: "ledger_inv d \<Longrightarrow> check_I5 d = []"
proof -
  assume "ledger_inv d"
  let ?ks = "concat (map (\<lambda>t. case tr_key t of None \<Rightarrow> [] | Some k \<Rightarrow> [k]) (transfers d))"
  have "?ks = concat (map (\<lambda>k. case k of None \<Rightarrow> [] | Some x \<Rightarrow> [x]) (map tr_key (transfers d)))" by (simp add: comp_def)
  then have "distinct ?ks" using distinct_some_keys ledger_rows(4) [OF \<open>ledger_inv d\<close>] by metis
  have le: "length (filter (\<lambda>j. j = k) xs) \<le> 1" if "distinct xs" for k :: string and xs
    using that by (induction xs) (auto simp: filter_empty_conv)
  have "length (filter (\<lambda>j. j = k) ?ks) \<le> 1" for k by (rule le [OF \<open>distinct ?ks\<close>])
  then have "filter (\<lambda>k. 1 < length (filter (\<lambda>j. j = k) ?ks)) (remdups ?ks) = []" by (simp add: filter_empty_conv not_less)
  then show "check_I5 d = []" by (simp add: check_I5_def duplicate_keys_def Let_def)
qed


lemma I3_holds:
  assumes "ledger_inv d" and "tidy d"
  shows "check_I3 d = []"
proof -
  have "0 \<le> ba_balance b \<or> ba_code b = AcctInsurance" if b: "b \<in> set (account_balances d)" "ba_code b \<noteq> ''external''" for b
  proof (cases "plain_acct (ba_code b)")
    case True
    with b ledger_rows(2) [OF assms(1) b(1)] show ?thesis by (auto simp: plain_acct_def AcctExternal_def)
  next
    case False
    then have "filter (\<lambda>e. en_account e = ba_code b) (entries d) = []"
      using assms(2) by (auto simp: tidy_def filter_empty_conv)
    then have "entry_sum d (ba_code b) = 0" by (simp add: entry_sum_def sum_where_def)
    with ledger_rows(1) [OF assms(1) b(1)] show ?thesis by simp
  qed
  then have "filter (\<lambda>b. ba_code b \<noteq> AcctInsurance)
      (sort_key ba_code (filter (\<lambda>b. ba_balance b < 0 \<and> ba_code b \<noteq> ''external'') (account_balances d))) = []"
    by (force simp: filter_empty_conv)
  then show ?thesis by (simp only: check_I3_def list.map)
qed

lemma I4_holds:
  assumes "store_inv d" and "check_I4 d = Inr vs"
  shows "vs = []"
  using assms margin_total_is_collateral [of d] store_invD(4,5) [OF assms(1)]
  by (auto simp: check_I4_def MarginTotal_def OpenCollateral_def)

lemma I6_outbox_holds:
  assumes "store_inv d"
  shows "check_I6_outbox d = []"
proof -
  have "intent_books d" using store_invD(6) [OF assms] by (simp add: intent_inv_def)
  then have "list_ex (\<lambda>q. ob_intent q = in_id r) (outbox d)" if "r \<in> set (intents d)" for r
    using intent_books_parts(3) that by (fastforce simp: list_ex_iff)
  then have "filter (\<lambda>r. \<not> list_ex (\<lambda>q. ob_intent q = in_id r) (outbox d)) (InFlight d) = []"
    by (auto simp: filter_empty_conv InFlight_def)
  then show ?thesis by (simp only: check_I6_outbox_def list.map)
qed

lemma I6_reserved_holds:
  assumes "store_inv d"
  shows "check_I6_reserved d = Inr []"
proof -
  have bk: "intent_books d" using store_invD(6) [OF assms] by (simp add: intent_inv_def)
  let ?rows = "filter (\<lambda>r. in_kind r = Withdraw) (InFlight d)"
  have user: "in_user r \<noteq> None" if "r \<in> set ?rows" for r
    using intent_books_parts(2) [OF bk, of r] that by (auto simp: InFlight_def row_ok_def)
  have group: "sum_where (\<lambda>r. in_user r = Some x) in_amount ?rows = Balance d (PendingAcct x)" for x
    unfolding intent_books_parts(5) [OF bk] pending_sum_def InFlight_def sum_where_def filter_filter
    by (rule arg_cong [of _ _ "\<lambda>p. sum_list (map in_amount (filter p (intents d)))"]) (auto simp: pending_of_def)
  have "snd g = (a, b) \<Longrightarrow> a = b" if "g \<in> set (reserved_groups d)" for g a b
  proof -
    from that obtain r where r: "r \<in> set ?rows" and g: "g = (in_user r, sum_where (\<lambda>q. in_user q = in_user r) in_amount ?rows,
        case in_user r of None \<Rightarrow> 0 | Some x \<Rightarrow> Balance d (PendingAcct x))"
      by (auto simp: reserved_groups_def Let_def)
    obtain x where "in_user r = Some x" using user [OF r] by blast
    then show "snd g = (a, b) \<Longrightarrow> a = b" using g group [of x] by simp
  qed
  then have "filter (\<lambda>(u, reserved, pending). reserved \<noteq> pending) (reserved_groups d) = []"
    by (auto simp: filter_empty_conv)
  then show ?thesis by (simp only: check_I6_reserved_def scan_rows_empty)
qed

lemma checks_after_holds:
  assumes "store_inv d" and "tidy d" and "checks_after rep d = Inr vs"
  shows "vs = check_I2 rep"
  using assms(3) I3_holds [OF store_invD(4) [OF assms(1)] assms(2)] I4_holds [OF assms(1)]
    I5_holds [OF store_invD(4) [OF assms(1)]] I6_outbox_holds [OF assms(1)] I6_reserved_holds [OF assms(1)]
  by (auto simp: checks_after_def)

lemma verifier_verdict:
  assumes reach: "sys_reachable (s, d)" and ord: "\<And>os. set os \<subseteq> set (ord os)"
    and cap: "sum_list (map ev_amount (FinalizedFacts ''deposit'' s)) \<le> 9223372036854775807"
    and res: "Verify gen ord stamp now False s d = (Inr vs, d')"
  obtains r where "vs = check_I2 r @ check_I7 d'" "rp_unexplained r = double_paid s d"
proof -
  obtain amt hist where c: "coupled amt hist (s, d)" using sys_reachable_coupled [OF reach] by blast
  have before: "checks_before d = Inr []" by (rule checks_before_holds [OF coupledD(2) [OF c]])
  obtain x d1 where rec: "Reconcile gen ord stamp s d = (x, d1)" by (metis surj_pair)
  from res before rec obtain r where r: "x = Inr r" by (cases x) (auto simp: Verify_def)
  have run: "steps (s, d) (s, d1)" by (rule Reconcile_steps [OF rec c])
  from steps_coupled [OF run c] obtain amt1 new where c1: "coupled amt1 (hist @ new) (s, d1)" by blast
  have t1: "tidy d1" using sys_reachable_tidy [OF steps_reachable [OF run reach]] by simp
  from res before rec r obtain later where later: "checks_after r d1 = Inr later"
    by (auto simp: Verify_def split: sum.splits)
  have l: "later = check_I2 r" by (rule checks_after_holds [OF coupledD(2) [OF c1] t1 later])
  obtain y d2 where esc: "ReconcileEscrow gen False now s d1 = (y, d2)" by (metis surj_pair)
  from res before rec r later esc have "vs = later @ check_I7 d'"
    by (auto simp: Verify_def split: sum.splits)
  moreover have "rp_unexplained r = double_paid s d" by (rule verdict(1) [OF c ord cap rec [unfolded r]])
  ultimately show ?thesis using l that by blast
qed

end
