(* ===== verification/Stream.thy ===== *)
theory Stream
  imports Verdict
begin

text \<open>
  The event cursor: the loop that finds the contiguous prefix of a batch, and what an orphaned
  entry of the log does to it. And the escrow reconciler as the verifier and \<open>Quiesce\<close> use it,
  without issuing anything.
\<close>

section \<open>The contiguous prefix\<close>

lemma advance_over_bounds:
  "c \<le> advance_over seen n c \<and> advance_over seen n c \<le> c + int n \<and>
   (\<forall>i. c < i \<longrightarrow> i \<le> advance_over seen n c \<longrightarrow> i \<in> seen) \<and>
   (advance_over seen n c < c + int n \<longrightarrow> advance_over seen n c + 1 \<notin> seen)"
proof (induction n arbitrary: c)
  case (Suc n)
  show ?case
  proof (cases "c + 1 \<in> seen")
    case True
    have "i \<in> seen" if "c < i" "i \<le> advance_over seen n (c + 1)" for i
      using that True Suc [of "c + 1"] by (cases "i = c + 1") auto
    with True Suc [of "c + 1"] show ?thesis by auto
  qed auto
qed simp

lemma advance_over_stops:
  assumes "card seen \<le> n" and "finite seen"
  shows "advance_over seen n c + 1 \<notin> seen"
proof
  let ?a = "advance_over seen n c"
  assume a: "?a + 1 \<in> seen"
  note b = advance_over_bounds [of c seen n]
  with a have "?a = c + int n" by linarith
  have "i \<in> seen" if "i \<in> {c + 1..c + int n + 1}" for i
    using that a b \<open>?a = c + int n\<close> by (cases "i = c + int n + 1") auto
  then have "{c + 1..c + int n + 1} \<subseteq> seen" by blast
  then have "card {c + 1..c + int n + 1} \<le> card seen" using assms(2) by (rule card_mono [rotated])
  with assms(1) show False by simp
qed

lemma batch_card: "card (ev_seq ` set batch) \<le> length batch"
  by (metis card_length length_map set_map)

section \<open>The orphaned entry\<close>

lemma Mine_log_orphaned:
  assumes "k < length (sm_log s)" and "ev_kind (sm_log s ! k) = ''orphaned''"
  shows "k < length (sm_log (Mine md s)) \<and> ev_kind (sm_log (Mine md s) ! k) = ''orphaned''"
proof -
  let ?re = "sm_pending s \<noteq> [] \<and> hit (fa_reorg (sm_faults s)) (md_reorg md)"
  define s1 where "s1 = (if ?re then reorgLocked (md_depth md) (md_swap md) s else s)"
  define s2 where "s2 = mine_block (block_hash (md_hash md)) s1"
  obtain gone where "sm_log (reorgLocked (md_depth md) (md_swap md) s) = mark_orphaned (log_of gone) (sm_log s)"
    using reorg_shape [of s "md_depth md" "md_swap md"] by metis
  moreover have "length (mark_orphaned is lg) = length lg" for "is" lg
    by (induction "is" arbitrary: lg) (simp_all add: mark_orphaned_def)
  ultimately have 1: "k < length (sm_log s1) \<and> ev_kind (sm_log s1 ! k) = ''orphaned''"
    using assms by (simp add: s1_def nth_mark_orphaned)
  obtain b evs where "sm_log s2 = sm_log s1 @ evs" unfolding s2_def
    using mine_block_shape [of "block_hash (md_hash md)" s1] by metis
  with 1 have 2: "k < length (sm_log s2) \<and> ev_kind (sm_log s2 ! k) = ''orphaned''" by (simp add: nth_append)
  have "sm_log (Mine md s) = sm_log s2"
    using finalize_loop_frame [of "sm_pending s2" s2] by (simp add: Mine_def Let_def s1_def s2_def persistLocked_def)
  with 2 show ?thesis by simp
qed

lemma ingest_beyond: "\<forall>ev \<in> set evs. bound < ev_seq ev \<Longrightarrow> ingest bound evs n d = (n, d)"
  by (induction evs) auto

lemma poll_stalls:
  assumes inv: "sim_inv hist s" and k: "Cursor d = int k" "k < length (sm_log s)" "ev_kind (sm_log s ! k) = ''orphaned''"
  shows "poll_batch dr s d = (0, d)"
proof -
  let ?batch = "PollEvents (Cursor d) 64 (id_gap dr) (id_dup dr) (id_reorder dr) (id_swap dr) s"
  have lg: "log_ok (hist @ sm_pending s) (sm_log s)" using inv by (simp add: chain_ok_def)
  have seq: "Cursor d < ev_seq ev \<and> ev_seq ev \<noteq> Cursor d + 1" if ev: "ev \<in> set ?batch" for ev
  proof -
    have ev': "ev \<in> set (sm_log s)" "pollable (Cursor d) ev" using PollEvents_sound ev by blast+
    then have kind: "Cursor d < ev_seq ev" "ev_kind ev \<noteq> ''orphaned''" by (auto simp: pollable_def)
    obtain i where i: "i < length (sm_log s)" "ev = sm_log s ! i" using ev'(1) by (auto simp: in_set_conv_nth)
    have "ev_seq (sm_log s ! i) = int i + 1"
    proof (rule log_entry [OF lg i(1)])
      show "ev_kind (sm_log s ! i) \<noteq> ''orphaned''" using kind(2) i(2) by simp
    qed (simp add: event_of_def)
    moreover have "i \<noteq> k" using kind(2) i(2) k(3) by blast
    ultimately show ?thesis using kind(1) i(2) k(1) by simp
  qed
  then have "Cursor d + 1 \<notin> ev_seq ` set ?batch" by force
  then have adv: "advance_over (ev_seq ` set ?batch) (length ?batch) (Cursor d) = Cursor d"
    by (cases "length ?batch") simp_all
  have "ingest (Cursor d) ?batch 0 d = (0, d)" by (rule ingest_beyond) (use seq in blast)
  then show ?thesis by (simp add: poll_batch_def Let_def adv)
qed

section \<open>The escrow check without instructions\<close>

lemma escrow_market_reads:
  "escrow_market gen False now s targets mw rep d = (x, d') \<Longrightarrow> d' = d"
  by (auto simp: escrow_market_def chase_gap_def Let_def split: prod.splits if_splits)

lemma escrow_markets_reads:
  "escrow_markets gen False now s targets mws rep d = (x, d') \<Longrightarrow> d' = d"
proof (induction mws arbitrary: rep d)
  case (Cons mw mws)
  obtain y d1 where o: "escrow_market gen False now s targets mw rep d = (y, d1)" by (metis surj_pair)
  with escrow_market_reads have "d1 = d" by blast
  with Cons o show ?case by (cases y) auto
qed simp

lemma ReconcileEscrow_reads: "ReconcileEscrow gen False now s d = (x, d') \<Longrightarrow> d' = d"
  by (auto simp: ReconcileEscrow_def split: sum.splits prod.splits dest!: escrow_markets_reads)

text \<open>The counters only grow; a market counted in neither is in step.\<close>

lemma escrow_market_counts:
  assumes "escrow_market gen issue now s targets (m, want) rep d = (Inr rep', d')"
  shows "er_unexplained rep \<le> er_unexplained rep' \<and> er_explained rep \<le> er_explained rep' \<and>
    (er_unexplained rep' = er_unexplained rep \<longrightarrow> er_explained rep' = er_explained rep \<longrightarrow> EscrowOf (VaultState s) m = want)"
  using assms by (auto simp: escrow_market_def Let_def split: if_splits prod.splits sum.splits)

lemma escrow_markets_counts:
  assumes "escrow_markets gen issue now s targets mws rep d = (Inr rep', d')"
  shows "er_unexplained rep \<le> er_unexplained rep' \<and> er_explained rep \<le> er_explained rep' \<and>
    (er_unexplained rep' = er_unexplained rep \<longrightarrow> er_explained rep' = er_explained rep \<longrightarrow>
      (\<forall>(m, want) \<in> set mws. EscrowOf (VaultState s) m = want))"
  using assms
proof (induction mws arbitrary: rep d)
  case (Cons mw mws)
  obtain m want where mw: "mw = (m, want)" by (cases mw)
  obtain y d1 where o: "escrow_market gen issue now s targets (m, want) rep d = (y, d1)" by (metis surj_pair)
  with Cons.prems mw obtain rep1 where y: "y = Inr rep1" by (cases y) auto
  with Cons.prems mw o have rest: "escrow_markets gen issue now s targets mws rep1 d1 = (Inr rep', d')" by simp
  from escrow_market_counts [OF o [unfolded y]] Cons.IH [OF rest] show ?case unfolding mw by auto
qed simp

lemma escrow_in_step:
  assumes "ReconcileEscrow gen issue now s d = (Inr rep, d')" and "er_unexplained rep = 0" "er_explained rep = 0"
    and m: "m \<in> set (markets d)" "mk_state m \<noteq> MarketSettled"
  shows "EscrowOf (VaultState s) (mk_id m) = market_collateral (mk_id m) d"
proof -
  from assms(1) obtain mws where mws: "MarketCollateral d = Inr mws" by (auto simp: ReconcileEscrow_def split: sum.splits)
  with assms(1) obtain targets where "InFlightEscrowTargets d = Inr targets" by (auto simp: ReconcileEscrow_def split: sum.splits)
  with assms(1) mws obtain rep0 d1 where run: "escrow_markets gen issue now s targets (sort_key fst mws) rep0 d = (Inr rep, d1)"
    "er_unexplained rep0 = 0" "er_explained rep0 = 0"
    by (auto simp: ReconcileEscrow_def split: sum.splits prod.splits if_splits)
  have "(mk_id m, market_collateral (mk_id m) d) \<in> set mws"
    using mws m by (auto simp: MarketCollateral_def Let_def split: if_splits)
  then show ?thesis using escrow_markets_counts [OF run(1)] run(2,3) assms(2,3) by fastforce
qed


section \<open>At rest\<close>

text \<open>What the reconciler leaves alone: intents, markets and positions.\<close>

definition trades :: "db \<Rightarrow> intent_row list \<times> market_row list \<times> position_row list" where
  "trades d = (intents d, markets d, positions d)"

lemma ApplyDeposit_trades: "ApplyDeposit ntid e d = Inr d' \<Longrightarrow> trades d' = trades d"
  by (auto simp: ApplyDeposit_def insert_fact_def SetEventStatus_def trades_def PostTx_frame split: if_splits)

lemma revert_loop_trades: "trades (snd (revert_loop gen h its n d)) = trades d"
proof (induction its arbitrary: n d)
  case (Cons it its)
  show ?case
  proof (cases "revert_item_tx (gen (ri_event it)) h it d")
    case (Inr d1)
    then have "trades d1 = trades d"
      by (auto simp: revert_item_tx_def Let_def SetEventStatus_def Freeze_def trades_def PostTx_frame)
    with Cons Inr show ?thesis by simp
  qed (use Cons in simp)
qed simp

lemma revert_blocks_trades: "trades (snd (revert_blocks gen hs d)) = trades d"
proof (induction hs arbitrary: d)
  case (Cons h hs)
  obtain n e d1 where rb: "RevertBlock gen h d = ((n, e), d1)" by (metis prod.collapse)
  then have "trades d1 = trades d" using revert_loop_trades [of gen h "revert_items h d" 0 d] by (simp add: RevertBlock_def)
  with rb Cons show ?case by (cases e) simp_all
qed simp

lemma scan_facts_trades: "trades (snd (scan_facts s fs d)) = trades d"
proof (induction fs arbitrary: d)
  case (Cons f fs)
  have "trades (MarkFactFinalized e d) = trades d" for e by (simp add: MarkFactFinalized_def trades_def)
  with Cons show ?case by (simp split: prod.split) (metis snd_conv)
qed simp

lemma heal_trades: "trades (snd (fold (heal_one gen) es w)) = trades (snd w)"
proof (induction es arbitrary: w)
  case (Cons e es)
  have "trades (snd (heal_one gen e w)) = trades (snd w)"
  proof (cases w)
    case (Pair n d)
    let ?d = "snd (RecordEvent e d)"
    have "trades ?d = trades d" by (simp add: RecordEvent_def trades_def)
    moreover have "trades (MarkFactFinalized i d2) = trades d2" for i d2 by (simp add: MarkFactFinalized_def trades_def)
    ultimately show ?thesis using ApplyDeposit_trades [of "gen (se_id e)" e ?d]
      by (auto simp: Pair heal_one_def Let_def split: sum.split)
  qed
  with Cons show ?case by simp
qed simp

lemma Reconcile_trades:
  assumes "Reconcile gen ord stamp s d = (Inr r, d')"
  shows "trades d' = trades d"
proof (rule Reconcile_cases [OF assms])
  fix d1 n
  assume st: "settleFacts gen ord s d = (None, d1)"
    and ex: "\<exists>d2. fold (heal_one gen) (map healed_event (missing_facts s d1)) (0, d1) = (n, d2) \<and>
      d' = insert_reconciliation r (if rp_status r = StatusShortfall then Freeze ''*'' (halt_reason (rp_unexplained r) stamp) d2 else d2)"
  obtain os d0 where scan: "scan_facts s (ProvisionalFacts d) d = (os, d0)" by (metis surj_pair)
  have "trades d0 = trades d" using scan_facts_trades [of s "ProvisionalFacts d" d] scan by simp
  moreover have "trades d1 = trades d0" using revert_blocks_trades [of gen "ord os" d0] st scan by (simp add: settleFacts_def)
  moreover obtain d2 where d2: "fold (heal_one gen) (map healed_event (missing_facts s d1)) (0, d1) = (n, d2)"
    "d' = insert_reconciliation r (if rp_status r = StatusShortfall then Freeze ''*'' (halt_reason (rp_unexplained r) stamp) d2 else d2)"
    using ex by blast
  moreover have "trades d2 = trades d1" using heal_trades [of gen "map healed_event (missing_facts s d1)" "(0, d1)"] d2(1) by simp
  moreover have "trades d' = trades d2" by (simp add: d2(2) insert_reconciliation_def Freeze_def trades_def)
  ultimately show "trades d' = trades d" by simp
qed

definition resting :: "sim \<Rightarrow> db \<Rightarrow> bool" where
  "resting s d \<longleftrightarrow> InFlight d = [] \<and>
     (\<forall>m \<in> set (markets d). mk_state m \<noteq> MarketSettled \<longrightarrow>
        EscrowOf (VaultState s) (mk_id m) = market_collateral (mk_id m) d)"

lemma resting_trades: "trades d' = trades d \<Longrightarrow> resting s d' = resting s d"
  by (simp add: trades_def resting_def InFlight_def market_collateral_def)

lemma quiesce_rounds_rest: "quiesce_rounds rds w = (Quiet, s', d') \<Longrightarrow> resting s' d'"
proof (induction rds arbitrary: w)
  case (Cons rd rds)
  obtain e s1 d1 where wr: "work_round rd w = (e, s1, d1)" by (metis prod.collapse)
  from Cons.prems wr have e: "e = None" by (cases e) auto
  from Cons.prems wr e obtain p where p: "UnfinalizedApplied (vs_final_height (VaultState s1)) d1 = Inr p"
    by (cases "UnfinalizedApplied (vs_final_height (VaultState s1)) d1") auto
  obtain y d2 where re: "ReconcileEscrow (rd_gen rd) False (rd_now rd) s1 d1 = (y, d2)" by (metis surj_pair)
  from Cons.prems wr e p re obtain esc where y: "y = Inr esc" by (cases y) auto
  show ?case
  proof (cases "at_rest esc p d2")
    case False
    with Cons.prems wr e p re y have "quiesce_rounds rds (s1, d2) = (Quiet, s', d')" by simp
    then show ?thesis by (rule Cons.IH)
  next
    case True
    obtain z d3 where rc: "Reconcile (rd_gen rd) (id_hashes (rd_inbox rd)) (rd_stamp rd) s1 d2 = (z, d3)" by (metis surj_pair)
    from Cons.prems wr e p re y True rc obtain r where z: "z = Inr r" "s' = s1" "d' = d3" by (cases z) auto
    have "d2 = d1" using ReconcileEscrow_reads [OF re] .
    with escrow_in_step [OF re [unfolded y]] True have "resting s1 d2" by (auto simp: resting_def at_rest_def)
    moreover have "trades d3 = trades d2" using Reconcile_trades rc z(1) by blast
    ultimately show ?thesis using resting_trades z(2,3) by blast
  qed
qed simp

lemma SetFaults_escrow: "EscrowOf (VaultState (SetFaults f s)) m = EscrowOf (VaultState s) m"
  by (simp add: EscrowOf_def VaultState_def SetFaults_def)

lemma Quiesce_rest:
  assumes "Quiesce rds (s, d) = (Quiet, s', d')"
  shows "resting s' d'" and "0 < fa_confirms (sm_faults s) \<Longrightarrow> sm_faults s' = sm_faults s"
proof -
  obtain res s1 d1 where q: "quiesce_rounds rds (SetFaults (no_faults_of (sm_faults s)) s, d) = (res, s1, d1)" by (metis prod.collapse)
  with assms have out: "res = Quiet" "s' = SetFaults (sm_faults s) s1" "d' = d1" by (simp_all add: Quiesce_def Let_def)
  moreover have "resting s1 d1" using quiesce_rounds_rest q out(1) by blast
  ultimately show "resting s' d'" by (simp add: resting_def SetFaults_escrow)
  show "sm_faults s' = sm_faults s" if "0 < fa_confirms (sm_faults s)" using that by (simp add: out(2) SetFaults_def)
qed

end
