(* ===== verification/SystemExample.thy ===== *)
theory SystemExample
  imports Stream ChainExample
begin

text \<open>
  Concrete states of engine and chain together: a deposit that became final while the engine was
  down, and a deposit whose block a reorganisation orphaned before the engine polled.
\<close>

section \<open>A deposit the engine has not seen\<close>

lemma ex_live_hashes:
  "block_hash (md_hash (draw 1)) \<notin> ran (sm_hash_at ex_chain0)" "block_hash (md_hash (draw 2)) \<notin> ran (sm_hash_at ex_chain1)"
  using hashes_differ by (simp_all add: ex_chain_defs sim_evals)

lemma no_intents_safe: "intents d = [] \<Longrightarrow> refund_safe s d"
  by (simp add: refund_safe_def)

lemma ex_calm:
  "calm_reachable (New (ex_faults 1) '''' None, schema_db)" "calm_reachable (ex_chain1, schema_db)"
  "calm_reachable (ex_live, schema_db)"
proof -
  have safe: "refund_safe (fst (s, schema_db)) (snd (s, schema_db))" for s by (simp add: no_intents_safe schema_db_def)
  show b: "calm_reachable (New (ex_faults 1) '''' None, schema_db)" by (rule calm_boot)
  have c0: "calm_reachable (ex_chain0, schema_db)" unfolding ex_chain0_def
    by (rule calm_step [OF b sys_step.chain_deposit safe]) (simp add: int64_def)
  show c1: "calm_reachable (ex_chain1, schema_db)" unfolding ex_chain1_def
    by (rule calm_step [OF c0 sys_step.mine [OF ex_live_hashes(1)] safe])
  show "calm_reachable (ex_live, schema_db)" unfolding ex_live_def
    by (rule calm_step [OF c1 sys_step.mine [OF ex_live_hashes(2)] safe])
qed

lemma ex_live_reachable: "sys_reachable (ex_live, schema_db)"
  by (rule calm_sys_reachable [OF ex_calm(3)])

lemma ex_live_settles: "settleFacts gen (\<lambda>os. os) ex_live schema_db = (None, schema_db)"
  by (simp add: settleFacts_def ProvisionalFacts_def schema_db_def)

lemma ex_live_runs:
  obtains r d' where "Reconcile gen (\<lambda>os. os) stamp ex_live schema_db = (Inr r, d')"
proof -
  have z: "InternalTotal schema_db = Inr 0" "UnfinalizedApplied h schema_db = Inr 0" for h
    by (simp_all add: InternalTotal_def UnfinalizedApplied_def internal_sum_def unfinalized_sum_def schema_db_def scan_int64_def
        int64_def sum_where_def)
  obtain r d' where "finish_report gen stamp (missing_facts ex_live schema_db) (make_report ex_live schema_db 0 0) schema_db = (r, d')"
    by (metis surj_pair)
  with z show ?thesis by (intro that [of r d']) (simp add: Reconcile_def ex_live_settles)
qed

section \<open>A hole in the event stream\<close>

lemma ex_hole_reachable: "sys_reachable (ex_hole, schema_db)"
proof -
  let ?n = "New (ex_faults 3) '''' None"
  let ?a = "snd (Deposit ''ann'' 100 ?n)"
  let ?b = "Mine (draw 1) ?a"
  have b: "sys_reachable (?n, schema_db)" by (rule sys_reachable.boot)
  have c0: "sys_reachable (?a, schema_db)"
    by (rule sys_reachable.step [OF b sys_step.chain_deposit]) (simp add: int64_def)
  have h1: "block_hash (md_hash (draw 1)) \<notin> ran (sm_hash_at ?a)" by (simp add: sim_evals)
  have c1: "sys_reachable (?b, schema_db)" by (rule sys_reachable.step [OF c0 sys_step.mine [OF h1]])
  have h2: "block_hash (md_hash (redraw 0 4)) \<notin> ran (sm_hash_at ?b)" using hashes_differ by (simp add: sim_evals)
  show ?thesis unfolding ex_hole_def by (rule sys_reachable.step [OF c1 sys_step.mine [OF h2]])
qed

section \<open>Draws of a round\<close>

definition ex_inbox :: inbox_draws where
  "ex_inbox = \<lparr>id_gap = (\<lambda>_. 1), id_dup = (\<lambda>_. 1), id_reorder = 1, id_swap = (\<lambda>_. 0), id_hashes = (\<lambda>hs. hs), id_heights = (\<lambda>hs. hs)\<rparr>"

definition ex_round :: "32 word \<Rightarrow> round_draws" where
  "ex_round w = \<lparr>rd_now = 0, rd_gen = (\<lambda>_. NewID (replicate 16 0)), rd_gens = (\<lambda>_. NewID (replicate 16 0)), rd_mine = draw w,
     rd_outbox = (\<lambda>_. (1, 1, True)), rd_inbox = ex_inbox, rd_stamp = ''now''\<rparr>"

lemma ex_round_fresh: "fresh_draws (ex_round w)"
  by (auto simp: fresh_draws_def ex_round_def ex_inbox_def fresh_id_def)

section \<open>An idle system\<close>

definition ex_boot :: sim where "ex_boot = New (ex_faults 1) '''' None"
definition ex_first :: sim where "ex_first = Mine (draw 1) (SetFaults (no_faults_of (sm_faults ex_boot)) ex_boot)"

lemma idle_facts: "sm_log ex_boot = []" "sm_log ex_first = []"
  "va_balance (sm_final ex_boot) = 0" "va_balance (sm_final ex_first) = 0"
  by (simp_all add: ex_boot_def ex_first_def sim_evals SetFaults_def no_faults_of_def)

definition idle_report :: report where
  "idle_report = \<lparr>rp_status = StatusOK, rp_ledger = 0, rp_chain = 0, rp_raw = 0, rp_explained = 0, rp_unexplained = 0,
     rp_terms = \<lparr>tm_withdrawn = 0, tm_missing = 0, tm_provisional = 0\<rparr>, rp_in_flight = 0, rp_healed = 0, rp_note = ''''\<rparr>"

lemma idle_reconcile:
  assumes "sm_log s = []" "va_balance (sm_final s) = 0"
  shows "Reconcile gen (\<lambda>os. os) stamp s schema_db = (Inr idle_report, insert_reconciliation idle_report schema_db)"
proof -
  have z: "InternalTotal schema_db = Inr 0" "UnfinalizedApplied h schema_db = Inr 0" for h
    by (simp_all add: InternalTotal_def UnfinalizedApplied_def internal_sum_def unfinalized_sum_def schema_db_def scan_int64_def
        int64_def sum_where_def)
  have f: "InFlight schema_db = []" by (simp add: InFlight_def schema_db_def)
  have m: "missing_facts s schema_db = []" by (simp add: missing_facts_def FinalizedFacts_def assms)
  have v: "vs_final_balance (VaultState s) = 0" by (simp add: VaultState_def assms)
  have st: "settleFacts gen (\<lambda>os. os) s schema_db = (None, schema_db)"
    by (simp add: settleFacts_def ProvisionalFacts_def schema_db_def)
  have "make_report s schema_db 0 0 = idle_report"
    by (simp add: make_report_def f m v withdrawn_rows_def sum_i64_def Sum_def status_of_def idle_report_def Let_def i64_def)
  then show ?thesis by (simp add: Reconcile_def st z m finish_report_def Let_def) (simp add: idle_report_def)
qed

lemma idle_escrow:
  assumes "va_balance (sm_final s) = 0" "d = schema_db\<lparr>reconciliations := rs\<rparr>"
  shows "ReconcileEscrow gen issue now s d = (Inr \<lparr>er_markets = 0, er_synced = 0, er_explained = 0, er_unexplained = 0,
          er_total_ledger = 0, er_total_chain = 0, er_drifts = [], er_issued = 0\<rparr>, d)"
  by (simp add: assms ReconcileEscrow_def MarketCollateral_def InFlightEscrowTargets_def schema_db_def VaultState_def Let_def)

lemma idle_verify: "\<exists>d'. Verify gen (\<lambda>os. os) stamp now False ex_boot schema_db = (Inr [], d')"
proof -
  let ?d = "insert_reconciliation idle_report schema_db"
  have d: "?d = schema_db\<lparr>reconciliations := [\<lparr>re_status = StatusOK, re_ledger_internal = 0, re_chain_finalized = 0,
      re_explained = 0, re_unexplained = 0\<rparr>]\<rparr>"
    by (simp add: insert_reconciliation_def idle_report_def schema_db_def)
  have "checks_after idle_report ?d = Inr []"
    unfolding d by (simp add: checks_after_def check_I2_def check_I3_def check_I4_def check_I5_def check_I6_outbox_def check_I6_reserved_def
      idle_report_def MarginTotal_def OpenCollateral_def schema_db_def scan_int64_def int64_def sum_where_def duplicate_keys_def
      InFlight_def reserved_groups_def scan_rows_def Let_def margin_sum_def collateral_sum_def)
  moreover have "check_I7 ?d = []" unfolding d by (simp add: check_I7_def StuckEscrow_def schema_db_def)
  ultimately show ?thesis
    by (simp add: Verify_def checks_before_holds [OF store_inv_schema] idle_reconcile idle_facts idle_escrow [OF idle_facts(3) d])
qed

lemma idle_ticks:
  assumes "sm_log s = []" "va_balance (sm_final s) = 0"
  shows "OutboxTick now draws (s, schema_db) = (0, s, schema_db)"
    and "InboxTick gen now ex_inbox s schema_db = ((0, None), schema_db)"
    and "ResolverTick gen gens now (s, schema_db) = ((0, None), s, schema_db)"
    and "EscrowTick gen now s schema_db = (Inr 0, schema_db)"
proof -
  show "OutboxTick now draws (s, schema_db) = (0, s, schema_db)"
    by (simp add: OutboxTick_def outbox_jobs_def schema_db_def)
  have "PollEvents c l g u r sw s = []" for c l g u r sw by (simp add: PollEvents_def assms)
  then have "poll_batch ex_inbox s schema_db = (0, schema_db)" by (simp add: poll_batch_def)
  moreover have "reorgCheck gen now (\<lambda>hs. hs) s schema_db = (None, schema_db)"
    by (simp add: reorgCheck_def ConfirmedBlocks_def schema_db_def)
  moreover have "PendingEvents 128 schema_db = []" by (simp add: PendingEvents_def schema_db_def)
  ultimately show "InboxTick gen now ex_inbox s schema_db = ((0, None), schema_db)"
    by (simp add: InboxTick_def ex_inbox_def settleFacts_def ProvisionalFacts_def) (simp add: schema_db_def)
  show "ResolverTick gen gens now (s, schema_db) = ((0, None), s, schema_db)"
    by (simp add: ResolverTick_def InFlight_def schema_db_def)
  show "EscrowTick gen now s schema_db = (Inr 0, schema_db)"
    using idle_escrow [OF assms(2), of schema_db "[]"] by (simp add: EscrowTick_def schema_db_def)
qed

lemma idle_quiesce: "\<exists>s' d'. Quiesce [ex_round 1] (ex_boot, schema_db) = (Quiet, s', d')"
proof -
  let ?s0 = "SetFaults (no_faults_of (sm_faults ex_boot)) ex_boot"
  have m: "Mine (draw 1) ?s0 = ex_first" by (simp add: ex_first_def)
  have u: "UnfinalizedApplied h schema_db = Inr 0" for h
    by (simp add: UnfinalizedApplied_def unfinalized_sum_def schema_db_def scan_int64_def int64_def sum_where_def)
  have wr: "work_round (ex_round 1) (?s0, schema_db) = (None, ex_first, schema_db)"
    by (simp add: work_round_def ex_round_def m idle_ticks idle_facts)
  have re: "ReconcileEscrow gen False now ex_first schema_db = (Inr \<lparr>er_markets = 0, er_synced = 0, er_explained = 0, er_unexplained = 0,
          er_total_ledger = 0, er_total_chain = 0, er_drifts = [], er_issued = 0\<rparr>, schema_db)" for gen now
    using idle_escrow [OF idle_facts(4), of schema_db "[]"] by (simp add: schema_db_def)
  have q: "at_rest \<lparr>er_markets = 0, er_synced = 0, er_explained = 0, er_unexplained = 0,
          er_total_ledger = 0, er_total_chain = 0, er_drifts = [], er_issued = 0\<rparr> 0 schema_db"
    by (simp add: at_rest_def InFlight_def PendingEvents_def schema_db_def)
  have i: "id_hashes (rd_inbox (ex_round 1)) = (\<lambda>hs. hs)" by (simp add: ex_round_def ex_inbox_def)
  show ?thesis by (simp add: Quiesce_def Let_def wr u re q i idle_reconcile idle_facts)
qed

end
