(* ===== verification/SystemClaims.thy ===== *)
theory SystemClaims
  imports SystemExample Example
begin

text \<open>
  The properties of engine and chain together: what the reconciler and the verifier conclude, when
  refunds are safe, and that every worker's pass is a run of the transition system of \<open>System\<close>.
\<close>

section \<open>Reconciliation\<close>







section \<open>The workers\<close>

text \<open>
  C4: a whole round of the workers, whether it completes or stops at an error, as well as a pass of
  the reconciler, the liquidator or the price walk, is a run of the transition system: from a
  reachable state it ends in a reachable state, so every invariant of the store and of the coupling
  with the chain survives it.
\<close>

theorem passes_are_runs:
  assumes reach: "sys_reachable (s, d)" and rd: "fresh_draws rd"
    and fresh: "block_hash (md_hash (rd_mine rd)) \<notin> ran (sm_hash_at s)"
  shows "sys_reachable (snd (work_round rd (s, d))) \<and> sys_reachable (s, snd (Reconcile gen ord stamp s d)) \<and>
    sys_reachable (s, snd (LiquidatorTick gen feed lease d)) \<and>
    (case PriceTick drift walk d of None \<Rightarrow> True | Some (ps, d') \<Rightarrow> sys_reachable (s, d'))"
proof -
  obtain amt hist where c: "coupled amt hist (s, d)" using sys_reachable_coupled [OF reach] by blast
  have run: "steps (s, d) w \<Longrightarrow> sys_reachable w" for w using steps_reachable reach by blast
  obtain e s1 d1 where w: "work_round rd (s, d) = (e, s1, d1)" by (metis prod.collapse)
  have "sys_reachable (s, d')" if "PriceTick drift walk d = Some (ps, d')" for ps d' by (rule run [OF PriceTick_steps [OF that]])
  moreover have "sys_reachable (s, snd (Reconcile gen ord stamp s d))"
    by (rule run [OF Reconcile_steps [OF surjective_pairing c]])
  moreover have "sys_reachable (s, snd (LiquidatorTick gen feed lease d))"
    by (rule run [OF LiquidatorTick_steps [OF surjective_pairing]])
  moreover have "sys_reachable (snd (work_round rd (s, d)))" using run [OF work_round_steps [OF w c rd fresh]] w by simp
  ultimately show ?thesis by (auto split: option.split)
qed

theorem passes_are_runs_witness:
  "sys_reachable (snd (work_round (ex_round 2) (ex_chain1, schema_db))) \<and>
   sys_reachable (ex_chain1, snd (Reconcile (\<lambda>_. ''t1'') (\<lambda>os. os) ''now'' ex_chain1 schema_db))"
proof -
  have "md_hash (rd_mine (ex_round 2)) = md_hash (draw 2)" by (simp add: ex_round_def)
  then have "block_hash (md_hash (rd_mine (ex_round 2))) \<notin> ran (sm_hash_at ex_chain1)" using ex_live_hashes(2) by simp
  from passes_are_runs [OF calm_sys_reachable [OF ex_calm(2)] ex_round_fresh this] show ?thesis by blast
qed

text \<open>
  C5: the reorganisation check of the inbox never finds anything. An intent is only confirmed when
  its call is final, and final blocks stay, so in every reachable state each confirmed intent's block
  is canonical and the check changes nothing; no confirmed withdrawal is ever taken back.
\<close>

theorem reorg_check_is_idle:
  assumes "sys_reachable (s, d)" and "\<And>hs. set (ord hs) \<subseteq> set hs"
  shows "reorgCheck gen now ord s d = (None, d) \<and>
    (\<forall>r \<in> set (intents d). in_state r = StateConfirmed \<longrightarrow>
       (\<exists>h x. in_height r = Some h \<and> in_hash r = Some x \<and> CanonicalHash h s = Some x))"
proof -
  obtain amt hist where c: "coupled amt hist (s, d)" using sys_reachable_coupled [OF assms(1)] by blast
  show ?thesis using reorgCheck_quiet [OF c assms(2)] confirmed_canonical [OF c] by blast
qed

theorem reorg_check_is_idle_witness: "reorgCheck (\<lambda>_. ''t1'') 0 (\<lambda>hs. hs) ex_live schema_db = (None, schema_db)"
  using reorg_check_is_idle [OF ex_live_reachable, of "\<lambda>hs. hs"] by simp

section \<open>The event stream\<close>

text \<open>
  The loop that advances the event cursor over a batch ends after at most as many steps as the
  batch is long, exactly at the end of the contiguous run of sequence numbers after the cursor.
\<close>

theorem cursor_loop_ends:
  "let seen = ev_seq ` set batch; c' = advance_over seen (length batch) c in
     c \<le> c' \<and> c' \<le> c + int (length batch) \<and> {i. c < i \<and> i \<le> c'} \<subseteq> seen \<and> c' + 1 \<notin> seen"
  using advance_over_bounds [of c "ev_seq ` set batch" "length batch"]
    advance_over_stops [OF batch_card, of batch c] by (auto simp: Let_def)

text \<open>
  C6: a reorganisation can stop the event stream for good. Polling skips orphaned entries of the log,
  whose sequence numbers stay used, so a cursor just before one never moves again: every later poll
  ingests nothing, whatever it draws, and mining only leaves the entry orphaned. From then on deposits
  are credited by the reconciler alone, after they are final.
\<close>

theorem orphaned_entry_stalls_the_stream:
  assumes "sys_reachable (s, d)" and k: "Cursor d = int k" "k < length (sm_log s)" "ev_kind (sm_log s ! k) = ''orphaned''"
  shows "poll_batch dr s d = (0, d) \<and>
    k < length (sm_log (Mine md s)) \<and> ev_kind (sm_log (Mine md s) ! k) = ''orphaned''"
proof -
  obtain amt hist where "coupled amt hist (s, d)" using sys_reachable_coupled [OF assms(1)] by blast
  from poll_stalls [OF coupledD(1) [OF this] k] Mine_log_orphaned [OF k(2,3)] show ?thesis by blast
qed

theorem orphaned_entry_stalls_the_stream_witness:
  "poll_batch ex_inbox ex_hole schema_db = (0, schema_db) \<and> ev_kind (sm_log ex_hole ! 1) = ''deposit''"
proof -
  have "Cursor schema_db = int 0" by (simp add: Cursor_def schema_db_def)
  with orphaned_entry_stalls_the_stream [OF ex_hole_reachable this] ex_hole_log show ?thesis by simp
qed

section \<open>Quiescing\<close>

text \<open>
  C7: when \<open>Quiesce\<close> reports success, no intent is in flight, the vault's escrow of every market that
  is not settled equals the collateral of its open positions, and the chain's faults are as before.
\<close>

theorem quiet_means_at_rest:
  assumes "Quiesce rds (s, d) = (Quiet, s', d')" and "0 < fa_confirms (sm_faults s)"
  shows "InFlight d' = [] \<and> sm_faults s' = sm_faults s \<and>
    (\<forall>m \<in> set (markets d'). mk_state m \<noteq> MarketSettled \<longrightarrow>
       EscrowOf (VaultState s') (mk_id m) = market_collateral (mk_id m) d')"
  using Quiesce_rest [OF assms(1)] assms(2) by (simp add: resting_def)

theorem quiet_means_at_rest_witness:
  "\<exists>s' d'. Quiesce [ex_round 1] (ex_boot, schema_db) = (Quiet, s', d') \<and> InFlight d' = [] \<and> sm_faults s' = sm_faults ex_boot"
proof -
  obtain s' d' where q: "Quiesce [ex_round 1] (ex_boot, schema_db) = (Quiet, s', d')" using idle_quiesce by blast
  have "0 < fa_confirms (sm_faults ex_boot)" by (simp add: ex_boot_def sim_evals)
  from quiet_means_at_rest [OF q this] q show ?thesis by blast
qed

section \<open>Types\<close>



end
