(* ===== verification/FeedClaims.thy ===== *)
theory FeedClaims
  imports Feed Ticks Example "HOL-Library.AList"
begin

text \<open>
  The price cache against the code that uses it: the two feeds agree, the reader of replies ends and
  inverts the writer, leases exclude, and a price tick leaves the cache equal to the database.
\<close>

section \<open>A server for the examples\<close>

text \<open>It keeps one hash, decodes requests with the reader, and refuses every other command.\<close>

definition hash_server :: "(string \<times> string) list server" where
  "hash_server kvs bytes =
    (case readReply bytes of
       Inr (RArr [RStr c, RStr h, RStr i, RStr v], _) \<Rightarrow>
         if c = ''HSET'' then (Some ('':'' @ fmt_d (if i \<in> fst ` set kvs then 0 else 1) @ CRLF), AList.update i v kvs)
         else (None, kvs)
     | Inr (RArr [RStr c, RStr h], _) \<Rightarrow>
         if c = ''HGETALL'' then (Some (request (flat_pairs kvs)), kvs) else (None, kvs)
     | _ \<Rightarrow> (None, kvs))"

lemma hash_server_honest:
  assumes "list_all fits ids"
  shows "honest hash_server (\<lambda>kvs. kvs) ids"
proof -
  have fits: "fits ''HSET''" "fits ''HGETALL''" "fits marks_key" by (simp_all add: fits_def marks_key_def)
  have get: "hash_server kvs (request [''HGETALL'', marks_key]) = (Some (request (flat_pairs kvs)), kvs)" for kvs
    using readReply_request [of "[''HGETALL'', marks_key]" "[]"] fits by (simp add: hash_server_def)
  have set: "hash_server kvs (request [''HSET'', marks_key, i, fmt_d v]) =
      (Some ('':'' @ fmt_d (if i \<in> fst ` set kvs then 0 else 1) @ CRLF), AList.update i (fmt_d v) kvs)"
    if "i \<in> set ids" "int64 v" for kvs i v
    using readReply_request [of "[''HSET'', marks_key, i, fmt_d v]" "[]"] fits fits_fmt_d [OF that(2)] assms that(1)
    by (simp add: hash_server_def list_all_iff)
  show ?thesis
    unfolding honest_def using get set
    by (auto simp: update_conv' distinct_update int64_def intro!: exI)
qed

section \<open>A price tick and the cache\<close>

text \<open>The markets \<open>S\<close> walked so far have in the database the mark that was published last.\<close>

definition in_step :: "string set \<Rightarrow> (string \<times> int) list \<times> db \<Rightarrow> bool" where
  "in_step S w \<longleftrightarrow> (\<forall>r\<in>set (markets (snd w)). mk_state r = MarketOpen \<longrightarrow> mk_id r \<in> S \<longrightarrow>
     map_of (rev (fst w)) (mk_id r) = Some (mk_mark r) \<and> 1000 \<le> mk_mark r \<and> mk_mark r \<le> One - 1000)"

definition open_ids :: "market_row list \<Rightarrow> string set" where
  "open_ids ms = set (map mk_id (filter (\<lambda>r. mk_state r = MarketOpen) ms))"

lemma SetMark_clamp:
  "SetMark i v d = d\<lparr>markets := update_where (\<lambda>m. mk_id m = i \<and> mk_state m = MarketOpen)
     (\<lambda>m. m\<lparr>mk_mark := clamp v, mk_version := mk_version m + 1\<rparr>) (markets d)\<rparr>"
  by (simp add: SetMark_def clamp_def Let_def One_def)

lemma SetMark_rows:
  assumes "r \<in> set (markets (SetMark i v d))"
  obtains q where "q \<in> set (markets d)"
    "r = (if mk_id q = i \<and> mk_state q = MarketOpen then q\<lparr>mk_mark := clamp v, mk_version := mk_version q + 1\<rparr> else q)"
  using assms unfolding SetMark_clamp update_where_def by auto

lemma open_ids_SetMark: "open_ids (markets (SetMark i v d)) = open_ids (markets d)"
proof -
  have "open_ids (update_where p (\<lambda>m. m\<lparr>mk_mark := clamp v, mk_version := mk_version m + 1\<rparr>) ms) = open_ids ms" for p ms
    by (induction ms) (auto simp: open_ids_def update_where_def)
  then show ?thesis by (simp add: SetMark_clamp)
qed

lemma clamp_range: "1000 \<le> clamp v \<and> clamp v \<le> One - 1000"
  by (simp add: clamp_def One_def)

lemma price_step_in_step:
  assumes "in_step S w"
  shows "in_step (S \<union> open_ids [m]) (price_step drift draw m w) \<and>
    open_ids (markets (snd (price_step drift draw m w))) = open_ids (markets (snd w))"
proof (cases "mk_state m = MarketOpen")
  case True
  define v where "v = i64 (mk_mark m + i64 (int (Intn (draw (mk_id m)) (nat (i64 (2 * drift + 1)))) - drift))"
  have step: "price_step drift draw m w = (fst w @ [(mk_id m, clamp v)], SetMark (mk_id m) v (snd w))"
    using True by (simp add: price_step_def v_def Let_def)
  have "in_step (insert (mk_id m) S) (price_step drift draw m w)"
    unfolding in_step_def step
  proof (intro ballI impI)
    fix r assume r: "r \<in> set (markets (snd (fst w @ [(mk_id m, clamp v)], SetMark (mk_id m) v (snd w))))"
      "mk_state r = MarketOpen" "mk_id r \<in> insert (mk_id m) S"
    then obtain q where q: "q \<in> set (markets (snd w))"
      "r = (if mk_id q = mk_id m \<and> mk_state q = MarketOpen then q\<lparr>mk_mark := clamp v, mk_version := mk_version q + 1\<rparr> else q)"
      by (auto elim: SetMark_rows)
    show "map_of (rev (fst (fst w @ [(mk_id m, clamp v)], SetMark (mk_id m) v (snd w)))) (mk_id r) = Some (mk_mark r) \<and>
        1000 \<le> mk_mark r \<and> mk_mark r \<le> One - 1000"
      using assms r q clamp_range [of v] by (cases "mk_id q = mk_id m \<and> mk_state q = MarketOpen") (auto simp: in_step_def)
  qed
  moreover have "open_ids (markets (SetMark (mk_id m) v (snd w))) = open_ids (markets (snd w))"
    by (rule open_ids_SetMark)
  moreover have "S \<union> open_ids [m] = insert (mk_id m) S" using True by (auto simp: open_ids_def)
  ultimately show ?thesis by (simp add: step)
next
  case False
  then show ?thesis using assms by (simp add: price_step_def open_ids_def)
qed

lemma price_fold_in_step:
  assumes "in_step S w"
  shows "in_step (S \<union> open_ids ms) (fold (price_step drift draw) ms w) \<and>
    open_ids (markets (snd (fold (price_step drift draw) ms w))) = open_ids (markets (snd w))"
  using assms
proof (induction ms arbitrary: S w)
  case (Cons m ms)
  have "S \<union> open_ids (m # ms) = S \<union> open_ids [m] \<union> open_ids ms" by (auto simp: open_ids_def)
  moreover note s = price_step_in_step [OF Cons.prems, of m drift draw]
  ultimately show ?case using Cons.IH [OF conjunct1 [OF s]] by simp
qed (simp add: open_ids_def)

lemma PriceTick_in_step:
  assumes "PriceTick drift draw d = Some (ps, d')" and "r \<in> set (markets d')" and "mk_state r = MarketOpen"
  shows "map_of (rev ps) (mk_id r) = Some (mk_mark r) \<and> 1000 \<le> mk_mark r \<and> mk_mark r \<le> One - 1000"
proof -
  have w: "fold (price_step drift draw) (Markets d) ([], d) = (ps, d')"
    using assms(1) by (simp add: PriceTick_def split: if_splits)
  have "in_step {} ([], d)" by (simp add: in_step_def)
  from price_fold_in_step [OF this, of "Markets d" drift draw] have s: "in_step (open_ids (Markets d)) (ps, d')"
    and o: "open_ids (markets d') = open_ids (markets d)" by (simp_all add: w)
  have "open_ids (Markets d) = open_ids (markets d)" by (simp add: open_ids_def Markets_def)
  moreover have "mk_id r \<in> open_ids (markets d')" using assms(2,3) by (simp add: open_ids_def)
  ultimately show ?thesis using s o assms(2,3) by (simp add: in_step_def)
qed

lemma database_marks:
  assumes "\<And>r. r \<in> set (markets d) \<Longrightarrow> mk_state r = MarketOpen \<Longrightarrow> c (mk_id r) = Some (mk_mark r)"
    and "r \<in> set (markets d)" and "mk_state r = MarketOpen"
  shows "tick_marks None d (mk_id r) = Some (mk_mark r)"
proof -
  let ?rows = "filter (\<lambda>m. mk_state m = MarketOpen) (rev (Markets d))"
  have "\<exists>n. tick_marks None d (mk_id r) = Some n"
    using assms(2,3) by (force simp: tick_marks_def Markets_def map_of_eq_None_iff simp flip: not_None_eq)
  then obtain n where n: "tick_marks None d (mk_id r) = Some n" ..
  then obtain q where "q \<in> set (markets d)" "mk_state q = MarketOpen" "mk_id q = mk_id r" "mk_mark q = n"
    by (auto simp: tick_marks_def Markets_def dest!: map_of_SomeD)
  with assms(1) [of q] assms(1) [OF assms(2,3)] n show ?thesis by simp
qed

definition mem_publishes :: "(string \<times> int) list \<Rightarrow> mem_feed \<Rightarrow> mem_feed" where
  "mem_publishes ps m = fold (\<lambda>(i, v). mem_Publish i v) ps m"

definition redis_publishes :: "'s server \<Rightarrow> (string \<times> int) list \<Rightarrow> 's redis \<Rightarrow> 's redis" where
  "redis_publishes srv ps r = fold (\<lambda>(i, v) r. snd (redis_Publish srv i v r)) ps r"

lemma mem_publishes_marks: "mem_Marks (mem_publishes ps m) = mem_Marks m ++ map_of (rev ps)"
proof -
  have "mem_Marks (mem_Publish i v m) = (mem_Marks m)(i \<mapsto> v)" for i v m
    by (simp add: mem_Publish_def mem_Marks_def)
  then show ?thesis
    by (induction ps arbitrary: m) (auto simp: mem_publishes_def map_add_def fun_eq_iff split: option.split)
qed

section \<open>Properties\<close>

text \<open>
  C38: the reader of Redis replies inverts the writer of requests: of any stream that starts with a
  request it reads exactly the strings that were written and leaves exactly what follows them, whatever
  bytes the strings hold.
\<close>

theorem reader_inverts_writer:
  assumes "list_all fits args" and "length args \<le> 17592186044416"
  shows "readReply (request args @ rest) = Inr (RArr (map RStr args), rest)"
  using assms by (rule readReply_request)

theorem reader_inverts_writer_witness:
  "readReply (request [''HSET'', ''a'' @ CRLF, ''''] @ '':1'') = Inr (RArr [RStr ''HSET'', RStr (''a'' @ CRLF), RStr ''''], '':1'')"
  using reader_inverts_writer [of "[''HSET'', ''a'' @ CRLF, '''']" "'':1''"] by (simp add: fits_def CRLF_def)

text \<open>
  C39: reading a reply ends on every stream, even one that announces more elements than it holds: one
  unit of fuel per byte and one more suffice, more fuel changes nothing, and a reply that is
  returned has consumed at least two bytes.
\<close>

theorem reply_reader_ends:
  assumes "length inp < k"
  shows "read_reply k inp = Some (readReply inp) \<and>
    (case readReply inp of Inl e \<Rightarrow> True | Inr (v, rest) \<Rightarrow> length rest + 2 \<le> length inp)"
  using readReply_fuel [OF assms] reader_consumes(1) [of k inp] by (auto split: sum.split)

theorem reply_reader_ends_witness:
  "read_reply 30 (''*9'' @ CRLF @ '':1'' @ CRLF) = Some (readReply (''*9'' @ CRLF @ '':1'' @ CRLF))"
  using reply_reader_ends [of "''*9'' @ CRLF @ '':1'' @ CRLF" 30] by (simp add: CRLF_def)

text \<open>
  C40: the two feeds are interchangeable. Against a server that keeps a hash as Redis documents it, any
  sequence of published marks is read back from Redis as the same map that the in-memory feed holds.
\<close>

theorem feeds_agree:
  assumes srv: "honest srv table ids" and ids: "list_all fits ids" "length ids \<le> 8796093022208"
    and start: "table s0 = []" and ps: "list_all (\<lambda>(i, v). i \<in> set ids \<and> int64 v) ps"
  shows "fst (redis_Marks srv (redis_publishes srv ps (None, s0))) = Inr (mem_Marks (mem_publishes ps NewMemory))"
proof -
  have init: "redis_ok table ids (None, s0)" using start by (simp add: redis_ok_def unread_def)
  let ?r = "redis_publishes srv ps (None, s0)"
  from price_cache.marks_fold [OF redis_is_cache [OF srv] init, of ps] ps
  have r: "redis_ok table ids ?r" "hash_marks (table (snd ?r)) = hash_marks (table s0) ++ map_of (rev ps)"
    by (auto simp: redis_publishes_def list_all_iff)
  have "hash_marks (table s0) = Map.empty" using start by (simp add: hash_marks_def)
  moreover have "mem_Marks (mem_publishes ps NewMemory) = map_of (rev ps)"
    by (simp add: mem_publishes_marks) (simp add: NewMemory_def mem_Marks_def)
  ultimately show ?thesis using redis_Marks_hash [OF srv r(1) ids] r(2) by auto
qed

theorem feeds_agree_witness:
  "fst (redis_Marks hash_server (redis_publishes hash_server [(''m'', 500000), (''n'', 7), (''m'', 510000)] (None, []))) =
     Inr (mem_Marks (mem_publishes [(''m'', 500000), (''n'', 7), (''m'', 510000)] NewMemory))"
proof -
  have ids: "list_all fits [''m'', ''n'']" by (simp add: fits_def)
  show ?thesis
    by (rule feeds_agree [where table = "\<lambda>kvs. kvs" and ids = "[''m'', ''n'']", OF hash_server_honest [OF ids] ids])
      (simp_all add: int64_def)
qed

text \<open>
  A lease excludes. Once the in-memory feed has granted a key until a certain time, no call for that
  key whose clock reads earlier is granted, whatever calls for this key or others come in between.
\<close>

theorem lease_excludes:
  assumes "mem_Lease key ttl now now' m = (True, m1)"
    and "list_all (\<lambda>(k, d, t, t'). t < now' + ttl) between" and "s < now' + ttl"
  shows "\<not> fst (mem_Lease key ttl2 s s' (fold lease_step between m1))"
  using lease_is_exclusive [OF assms(1) _ assms(3), of between] assms(2) by (auto simp: list_all_iff)

theorem lease_excludes_witness:
  "\<not> fst (mem_Lease ''liq:p'' 5 8 8 (fold lease_step [(''liq:q'', 5, 3, 3), (''liq:p'', 5, 4, 4)]
     (snd (mem_Lease ''liq:p'' 10 0 1 NewMemory))))"
  using lease_excludes [of "''liq:p''" 10 0 1 NewMemory "snd (mem_Lease ''liq:p'' 10 0 1 NewMemory)"
      "[(''liq:q'', 5, 3, 3), (''liq:p'', 5, 4, 4)]" 8 5 8]
  by (simp add: mem_Lease_def NewMemory_def)

text \<open>
  After a price tick whose publications all arrived, the liquidator reads from the cache, for every
  open market, exactly the mark it would read from the database, and that mark is at least a
  thousandth of the scale away from zero and from one.
\<close>

theorem price_tick_refreshes_cache:
  assumes tick: "PriceTick drift draw d = Some (ps, d')"
    and r: "r \<in> set (markets d')" "mk_state r = MarketOpen"
  shows "tick_marks (Some (mem_Marks (mem_publishes ps m))) d' (mk_id r) = Some (mk_mark r) \<and>
    tick_marks None d' (mk_id r) = Some (mk_mark r) \<and> 1000 \<le> mk_mark r \<and> mk_mark r \<le> One - 1000"
proof -
  note p = PriceTick_in_step [OF tick]
  have "mem_Marks (mem_publishes ps m) (mk_id r) = Some (mk_mark r)"
    using p [OF r] by (simp add: mem_publishes_marks)
  then have "tick_marks (Some (mem_Marks (mem_publishes ps m))) d' (mk_id r) = Some (mk_mark r)"
    by (auto simp: tick_marks_def)
  moreover have "tick_marks None d' (mk_id r) = Some (mk_mark r)"
    by (rule database_marks [where c = "map_of (rev ps)"]) (use p r in auto)
  ultimately show ?thesis using p [OF r] by simp
qed

theorem price_tick_refreshes_cache_witness:
  "\<exists>ps d'. PriceTick 15000 (\<lambda>_. 3) ex_market = Some (ps, d') \<and>
     tick_marks (Some (mem_Marks (mem_publishes ps NewMemory))) d' ''m'' = Some 485003 \<and>
     tick_marks None d' ''m'' = Some 485003"
proof -
  define ps d' where "ps = fst (the (PriceTick 15000 (\<lambda>_. 3) ex_market))" and "d' = snd (the (PriceTick 15000 (\<lambda>_. 3) ex_market))"
  define r where "r = hd (markets d')"
  have "(case PriceTick 15000 (\<lambda>_. 3) ex_market of None \<Rightarrow> False | Some (ps, d') \<Rightarrow>
      map (\<lambda>r. (mk_id r, mk_mark r, mk_state r = MarketOpen)) (markets d') = [(''m'', 485003, True)])"
    by code_simp
  then have t: "PriceTick 15000 (\<lambda>_. 3) ex_market = Some (ps, d')"
    and r: "r \<in> set (markets d')" "mk_state r = MarketOpen" "mk_id r = ''m''" "mk_mark r = 485003"
    by (auto simp: ps_def d'_def r_def split: option.splits)
  from price_tick_refreshes_cache [OF t r(1,2), of NewMemory] r(3,4) t show ?thesis by auto
qed

end
