(* ===== verification/Doubles.thy ===== *)
theory Doubles
  imports Prelude "HOL-Library.Log_Nat"
begin

text \<open>
  Go's \<open>float64\<close> as far as the request handlers use it: the nearest double of a rational, its
  relative error, and the conversion to \<open>int64\<close>.
\<close>

section \<open>Doubles\<close>

text \<open>
  The nearest IEEE double of a rational, ties to even, for magnitudes in the normal range.
\<close>

definition floor_log2 :: "rat \<Rightarrow> int" where
  "floor_log2 x =
    (case quotient_of x of (p, q) \<Rightarrow>
     let e = bitlen p - bitlen q in if 2 powi e \<le> x then e else e - 1)"

definition round_even :: "rat \<Rightarrow> int" where
  "round_even x =
    (let n = \<lfloor>x\<rfloor>; r = x - of_int n
     in if r < 1 / 2 then n else if 1 / 2 < r then n + 1 else if even n then n else n + 1)"

definition double :: "rat \<Rightarrow> rat" where
  "double x =
    (if x = 0 then 0
     else let u = 2 powi (floor_log2 \<bar>x\<bar> - 52) in of_int (round_even (x / u)) * u)"

text \<open>\<open>int64(x)\<close> truncates; what it gives out of range is the value amd64 gives.\<close>

definition int64_of :: "rat \<Rightarrow> int" where
  "int64_of x =
    (let n = (if x < 0 then - \<lfloor>- x\<rfloor> else \<lfloor>x\<rfloor>) in if int64 n then n else - 9223372036854775808)"

section \<open>The error of rounding\<close>

lemma floor_log2_bounds:
  assumes "0 < x"
  shows "2 powi floor_log2 x \<le> x \<and> x < 2 powi (floor_log2 x + 1)"
proof -
  obtain p q where pq: "quotient_of x = (p, q)" by (metis surj_pair)
  have q: "0 < q" using quotient_of_denom_pos [OF pq] .
  have x: "x = of_int p / of_int q" using quotient_of_div [OF pq] .
  have p: "0 < p" using assms q unfolding x by (simp add: zero_less_divide_iff)
  define e where "e = bitlen p - bitlen q"
  have bp: "2 ^ nat (bitlen p - 1) \<le> p" "p < 2 ^ nat (bitlen p)" using bitlen_bounds [OF p] by auto
  have bq: "2 ^ nat (bitlen q - 1) \<le> q" "q < 2 ^ nat (bitlen q)" using bitlen_bounds [OF q] by auto
  have pos: "0 < bitlen p" "0 < bitlen q" using p q bitlen_eq_zero_iff bitlen_nonneg
    by (simp_all add: order_less_le)
  have pos1: "0 \<le> bitlen p - 1" "0 \<le> bitlen q - 1" using pos by simp_all
  have pw: "(2 :: rat) powi n = of_int (2 ^ nat n)" if "0 \<le> n" for n using that by (simp add: power_int_def)
  have P: "(2 :: rat) powi (bitlen p - 1) \<le> of_int p" "of_int p < (2 :: rat) powi bitlen p"
    unfolding pw [of "bitlen p - 1", OF pos1(1)] pw [of "bitlen p", OF less_imp_le [OF pos(1)]]
    using bp by (simp_all only: of_int_le_iff of_int_less_iff)
  have Q: "(2 :: rat) powi (bitlen q - 1) \<le> of_int q" "of_int q < (2 :: rat) powi bitlen q"
    unfolding pw [of "bitlen q - 1", OF pos1(2)] pw [of "bitlen q", OF less_imp_le [OF pos(2)]]
    using bq by (simp_all only: of_int_le_iff of_int_less_iff)
  have low: "2 powi (e - 1) < x"
  proof -
    have "2 powi (e - 1) * of_int q < 2 powi (e - 1) * (2 :: rat) powi bitlen q" using Q(2) by simp
    also have "\<dots> = 2 powi (bitlen p - 1)" by (simp add: e_def flip: power_int_add)
    finally show ?thesis using P(1) q by (simp add: x pos_less_divide_eq)
  qed
  have high: "x < 2 powi (e + 1)"
  proof -
    have "of_int p < 2 powi (e + 1) * (2 :: rat) powi (bitlen q - 1)" using P(2) by (simp add: e_def flip: power_int_add)
    also have "\<dots> \<le> 2 powi (e + 1) * of_int q" using Q(1) by simp
    finally show ?thesis using q by (simp add: x pos_divide_less_eq)
  qed
  show ?thesis
    using low high by (auto simp: floor_log2_def pq e_def [symmetric] Let_def)
qed

lemma round_even_error: "\<bar>of_int (round_even x) - x\<bar> \<le> 1 / 2"
  using floor_correct [of x] by (auto simp: round_even_def Let_def abs_le_iff)

lemma double_error: "\<bar>double x - x\<bar> \<le> \<bar>x\<bar> / 9007199254740992"
proof (cases "x = 0")
  case False
  define u :: rat where "u = 2 powi (floor_log2 \<bar>x\<bar> - 52)"
  have u: "0 < u" by (simp add: u_def)
  have "double x - x = (of_int (round_even (x / u)) - x / u) * u"
    using False u by (simp add: double_def u_def [symmetric] Let_def algebra_simps)
  then have "\<bar>double x - x\<bar> = \<bar>of_int (round_even (x / u)) - x / u\<bar> * u" using u by (simp add: abs_mult)
  also have "\<dots> \<le> u / 2" using mult_right_mono [OF round_even_error, of u "x / u"] u by simp
  also have "u = 2 powi floor_log2 \<bar>x\<bar> / 4503599627370496" by (simp add: u_def power_int_diff)
  finally show ?thesis using floor_log2_bounds [of "\<bar>x\<bar>"] False by simp
qed (simp add: double_def)

end
