(* ===== verification/Http.thy ===== *)
theory Http
  imports Verify Doubles
begin

text \<open>
  The request handlers of \<open>internal/httpapi/http.go\<close>: how a body's fields become arguments, what
  each handler does to the chain and the store, and what the panel's state request reads and writes.
  The decoded body is a map from keys to JSON values; encoding, routing by URL and the embedded page
  are I/O.
\<close>

section \<open>Bodies\<close>

text \<open>A number is the double its literal was decoded to.\<close>

datatype json = JText string | JDouble rat | JOther

type_synonym json_body = "string \<rightharpoonup> json"

definition http_str :: "json_body \<Rightarrow> string \<Rightarrow> string \<Rightarrow> string" where
  "http_str m k def = (case m k of Some (JText v) \<Rightarrow> if v \<noteq> [] then v else def | _ \<Rightarrow> def)"

definition http_amount :: "json_body \<Rightarrow> string \<Rightarrow> int \<Rightarrow> int" where
  "http_amount m k def =
    (case m k of Some (JDouble v) \<Rightarrow> int64_of (double (v * of_int One)) | _ \<Rightarrow> def)"

section \<open>Handlers\<close>

definition http_deposit :: "json_body \<Rightarrow> sim \<Rightarrow> string \<times> sim" where
  "http_deposit m s = Deposit (http_str m ''user'' ''alice'') (http_amount m ''amount'' (100 * One)) s"

definition http_withdraw :: "string \<Rightarrow> string \<Rightarrow> int \<Rightarrow> json_body \<Rightarrow> sim \<Rightarrow> db \<Rightarrow> error + ((string \<times> bool) \<times> db)" where
  "http_withdraw nid ntid now m s d =
    app_RequestWithdraw nid ntid (http_str m ''user'' ''alice'') (http_amount m ''amount'' (10 * One))
      (http_str m ''key'' '''') now s d"

definition http_position :: "string \<Rightarrow> string \<Rightarrow> json_body \<Rightarrow> db \<Rightarrow> error + (string \<times> db)" where
  "http_position npid ntid m d =
    OpenPosition npid ntid (http_str m ''user'' ''alice'') (http_str m ''market'' ''m00'') (http_str m ''side'' ''long'')
      (http_amount m ''size'' (50 * One)) '''' d"

definition http_settle :: "string \<Rightarrow> int \<Rightarrow> json_body \<Rightarrow> db \<Rightarrow> error + ((string \<times> bool) \<times> db)" where
  "http_settle nid now m d =
    (let outcome = (case m ''outcome'' of Some (JDouble v) \<Rightarrow> if v \<ge> 1 / 2 then One else 0 | _ \<Rightarrow> 0)
     in RequestSettlement nid (http_str m ''market'' ''m00'') outcome now d)"

text \<open>A body that is no faults object is refused, None.\<close>

definition http_faults :: "faults option \<Rightarrow> sim \<Rightarrow> sim" where
  "http_faults f s = (case f of None \<Rightarrow> s | Some f \<Rightarrow> SetFaults f s)"

definition http_unfreeze :: "json_body \<Rightarrow> db \<Rightarrow> db" where
  "http_unfreeze m d = Unfreeze (http_str m ''subject'' ''*'') d"

definition phantom_credit :: "string \<Rightarrow> string \<Rightarrow> int \<Rightarrow> transfer" where
  "phantom_credit nid user amt =
    Transfer ''INJECTED_BUG.phantom_credit'' (''bug:'' @ nid)
      [Leg AcctExternal (- amt), Leg (AvailableAcct user) amt]"

definition http_injectShortfall :: "string \<Rightarrow> string \<Rightarrow> json_body \<Rightarrow> db \<Rightarrow> error + ((string \<times> bool) \<times> db)" where
  "http_injectShortfall nid ntid m d =
    PostTx ntid (phantom_credit nid (http_str m ''user'' ''alice'') (http_amount m ''amount'' (500 * One))) d"

text \<open>The answer of \<open>verify\<close>: the violations, and whether there are none.\<close>

definition http_verify :: "(string \<Rightarrow> string) \<Rightarrow> (string list \<Rightarrow> string list) \<Rightarrow> string \<Rightarrow> int \<Rightarrow> bool \<Rightarrow> sim \<Rightarrow> db \<Rightarrow>
    (error + violation list \<times> bool) \<times> db" where
  "http_verify gen ord stamp now strict s d =
    (case Verify gen ord stamp now strict s d of
       (Inl e, d1) \<Rightarrow> (Inl e, d1)
     | (Inr vs, d1) \<Rightarrow> (Inr (vs, vs = []), d1))"

section \<open>The panel\<close>

definition on_chain_text :: "tx_status \<Rightarrow> string" where
  "on_chain_text st =
    (if ts_processed st \<and> ts_finalized st then ''finalized''
     else if ts_processed st then ''in block '' @ fmt_d (ts_height st)
     else ''not seen'')"

record panel_intent =
  pi_id :: string
  pi_kind :: intent_kind
  pi_user :: string
  pi_amount :: int
  pi_state :: intent_state
  pi_attempts :: int
  pi_on_chain :: string
  pi_error :: string

definition panel_row :: "sim \<Rightarrow> intent_row \<Rightarrow> panel_intent" where
  "panel_row s it =
    \<lparr>pi_id = take 8 (in_id it), pi_kind = in_kind it, pi_user = text_or_empty (in_user it), pi_amount = in_amount it,
     pi_state = in_state it, pi_attempts = in_attempts it, pi_on_chain = on_chain_text (TxStatus (in_id it) s),
     pi_error = text_or_empty (in_last_error it)\<rparr>"

definition panel_balances :: "db \<Rightarrow> (string \<times> int) list" where
  "panel_balances d =
    take 60 (map (\<lambda>b. (ba_code b, ba_balance b)) (sort_key ba_code (filter (\<lambda>b. ba_balance b \<noteq> 0) (account_balances d))))"

record panel =
  pa_report :: report
  pa_escrow :: escrow_report
  pa_stuck :: nat
  pa_violations :: "violation list"
  pa_intents :: "panel_intent list"
  pa_balances :: "(string \<times> int) list"
  pa_freezes :: "(string \<times> string) list"
  pa_markets :: "(string \<times> int \<times> market_state) list"
  pa_margin :: int
  pa_collateral :: int

definition zero_on_error :: "error + int \<Rightarrow> int" where
  "zero_on_error x = (case x of Inl e \<Rightarrow> 0 | Inr n \<Rightarrow> n)"

text \<open>Reading the panel runs the reconciler, the verifier and the escrow pass, without instructions.\<close>

definition http_state :: "(string \<Rightarrow> string) \<Rightarrow> (string list \<Rightarrow> string list) \<Rightarrow> string \<Rightarrow> int \<Rightarrow> sim \<Rightarrow> db \<Rightarrow>
    (error + panel) \<times> db" where
  "http_state gen ord stamp now s d =
    (case Reconcile gen ord stamp s d of
       (Inl e, d1) \<Rightarrow> (Inl e, d1)
     | (Inr rep, d1) \<Rightarrow>
     (case Verify gen ord stamp now False s d1 of
       (Inl e, d2) \<Rightarrow> (Inl e, d2)
     | (Inr viol, d2) \<Rightarrow>
     (case ReconcileEscrow gen False now s d2 of
       (Inl e, d3) \<Rightarrow> (Inl e, d3)
     | (Inr esc, d3) \<Rightarrow>
       (Inr \<lparr>pa_report = rep, pa_escrow = esc, pa_stuck = length (StuckEscrow d3), pa_violations = viol,
          pa_intents = map (panel_row s) (InFlight d2), pa_balances = panel_balances d2,
          pa_freezes = Freezes d3, pa_markets = map (\<lambda>m. (mk_id m, mk_mark m, mk_state m)) (Markets d3),
          pa_margin = zero_on_error (MarginTotal d3), pa_collateral = zero_on_error (OpenCollateral d3)\<rparr>, d3))))"

section \<open>Dispatch\<close>

text \<open>
  A request with what its handler draws: fresh ids, the clock, the ids of the reconciler's postings and
  its iteration order. \<open>handle\<close> is the effect on chain and store; a refused request has none.
\<close>

datatype http_request =
    ReqState "string \<Rightarrow> string" "string list \<Rightarrow> string list" string int
  | ReqDeposit json_body
  | ReqWithdraw string string int json_body
  | ReqPosition string string json_body
  | ReqSettle string int json_body
  | ReqFaults "faults option"
  | ReqVerify "string \<Rightarrow> string" "string list \<Rightarrow> string list" string int bool
  | ReqUnfreeze json_body
  | ReqInjectShortfall string string json_body

definition commit :: "error + ('a \<times> db) \<Rightarrow> db \<Rightarrow> db" where
  "commit res d = (case res of Inl e \<Rightarrow> d | Inr (x, d') \<Rightarrow> d')"

fun handle :: "http_request \<Rightarrow> sim \<times> db \<Rightarrow> sim \<times> db" where
  "handle (ReqState gen ord stamp now) (s, d) = (s, snd (http_state gen ord stamp now s d))"
| "handle (ReqDeposit m) (s, d) = (snd (http_deposit m s), d)"
| "handle (ReqWithdraw nid ntid now m) (s, d) = (s, commit (http_withdraw nid ntid now m s d) d)"
| "handle (ReqPosition npid ntid m) (s, d) = (s, commit (http_position npid ntid m d) d)"
| "handle (ReqSettle nid now m) (s, d) = (s, commit (http_settle nid now m d) d)"
| "handle (ReqFaults f) (s, d) = (http_faults f s, d)"
| "handle (ReqVerify gen ord stamp now strict) (s, d) = (s, snd (http_verify gen ord stamp now strict s d))"
| "handle (ReqUnfreeze m) (s, d) = (s, http_unfreeze m d)"
| "handle (ReqInjectShortfall nid ntid m) (s, d) = (s, commit (http_injectShortfall nid ntid m d) d)"

end
