(* ===== verification/Serve.thy ===== *)
theory Serve
  imports Http Stream
begin

text \<open>
  The server of \<open>cmdServe\<close> in \<open>cmd/pmr/main.go\<close>: the markets it lists at the start, and the
  loops it runs beside the request handlers. A state is served when the loops and requests can reach
  it in any order; within \<open>System\<close> every pass is a run of single transactions.
\<close>

section \<open>The program\<close>

definition serve_market :: "nat \<Rightarrow> db \<Rightarrow> error + db" where
  "serve_market i d =
    SeedMarket (''m'' @ (if i < 10 then ''0'' else []) @ digits i)
      (''Will event '' @ digits i @ '' resolve YES?'') (200000 + int i * 50000) d"

text \<open>The first error ends the start.\<close>

fun serve_markets :: "nat list \<Rightarrow> db \<Rightarrow> error + db" where
  "serve_markets [] d = Inr d"
| "serve_markets (i # is) d = try_bind (serve_market i d) (serve_markets is)"

text \<open>Requests that are no deliberate fault, with ids the store does not have.\<close>

fun lawful :: "http_request \<Rightarrow> bool" where
  "lawful (ReqWithdraw nid ntid now m) = fresh_id nid"
| "lawful (ReqSettle nid now m) = fresh_id nid"
| "lawful (ReqInjectShortfall nid ntid m) = False"
| "lawful _ = True"

inductive serve_step :: "sim \<times> db \<Rightarrow> sim \<times> db \<Rightarrow> bool" where
  block: "block_hash (md_hash md) \<notin> ran (sm_hash_at s) \<Longrightarrow> serve_step (s, d) (Mine md s, d)"
| outbox: "OutboxTick now draws (s, d) = (n, w) \<Longrightarrow> serve_step (s, d) w"
| inbox: "InboxTick gen now dr s d = (x, d') \<Longrightarrow> (\<And>hs. set (id_heights dr hs) \<subseteq> set hs) \<Longrightarrow> serve_step (s, d) (s, d')"
| resolver: "ResolverTick gen gens now (s, d) = (x, w) \<Longrightarrow> serve_step (s, d) w"
| liquidator: "LiquidatorTick gen feed lease d = (x, d') \<Longrightarrow> serve_step (s, d) (s, d')"
| price: "PriceTick 15000 draw d = Some (ps, d') \<Longrightarrow> serve_step (s, d) (s, d')"
| reconcile: "Reconcile gen ord stamp s d = (x, d') \<Longrightarrow> serve_step (s, d) (s, d')"
| request: "lawful r \<Longrightarrow> serve_step w (handle r w)"

inductive served :: "sim \<times> db \<Rightarrow> bool" where
  start: "serve_markets [0..<12] schema_db = Inr d \<Longrightarrow> served (New f statePath None, d)"
| step: "served w \<Longrightarrow> serve_step w w' \<Longrightarrow> served w'"

section \<open>Requests are runs\<close>

lemma Verify_store:
  "snd (Verify gen ord stamp now strict s d) = d \<or> snd (Verify gen ord stamp now strict s d) = snd (Reconcile gen ord stamp s d)"
  using ReconcileEscrow_reads [of gen now s]
  by (auto simp: Verify_def split: sum.splits prod.splits)

lemma http_verify_store: "snd (http_verify gen ord stamp now strict s d) = snd (Verify gen ord stamp now strict s d)"
  by (auto simp: http_verify_def split: prod.splits sum.splits)

lemma http_state_store:
  "snd (http_state gen ord stamp now s d) = snd (Reconcile gen ord stamp s d) \<or>
   snd (http_state gen ord stamp now s d) = snd (Verify gen ord stamp now False s (snd (Reconcile gen ord stamp s d)))"
  using ReconcileEscrow_reads [of gen now s]
  by (auto simp: http_state_def split: prod.splits sum.splits)

lemma http_amount_int64: "int64 def \<Longrightarrow> int64 (http_amount m k def)"
  by (auto simp: http_amount_def int64_of_def Let_def int64_def split: option.splits json.splits)

lemma Verify_steps:
  assumes "coupled amt hist (s, d)"
  shows "steps (s, d) (s, snd (Verify gen ord stamp now strict s d))"
  using Verify_store [of gen ord stamp now strict s d] Reconcile_steps [OF surjective_pairing assms] by auto

lemma http_state_steps:
  assumes c: "coupled amt hist (s, d)"
  shows "steps (s, d) (s, snd (http_state gen ord stamp now s d))"
proof -
  note rec = Reconcile_steps [OF surjective_pairing c, of gen ord stamp]
  from steps_coupled [OF rec c] obtain amt1 new where
    "coupled amt1 (hist @ new) (s, snd (Reconcile gen ord stamp s d))" by blast
  from rtranclp_trans [OF rec Verify_steps [OF this]] rec show ?thesis
    using http_state_store [of gen ord stamp now s d] by auto
qed

lemma handle_steps:
  assumes c: "coupled amt hist (s, d)" and r: "lawful r"
  shows "steps (s, d) (handle r (s, d))"
proof (cases r)
  case (ReqState gen ord stamp now)
  then show ?thesis using http_state_steps [OF c] by simp
next
  case (ReqDeposit m)
  have "int64 (http_amount m ''amount'' (100 * One))" by (rule http_amount_int64) (simp add: One_def int64_def)
  then show ?thesis using sys_step.chain_deposit ReqDeposit by (auto simp: http_deposit_def)
next
  case (ReqWithdraw nid ntid now m)
  have amount: "int64 (http_amount m ''amount'' (10 * One))" by (rule http_amount_int64) (simp add: One_def int64_def)
  show ?thesis
  proof (cases "http_withdraw nid ntid now m s d")
    case (Inr x)
    obtain y d' where x: "x = (y, d')" by (metis surj_pair)
    have "sys_step (s, d) (s, d')"
      using sys_step.withdraw [OF _ amount Inr [unfolded http_withdraw_def x]] r ReqWithdraw by simp
    with ReqWithdraw Inr x show ?thesis by (auto simp: commit_def)
  qed (simp add: ReqWithdraw commit_def)
next
  case (ReqPosition npid ntid m)
  show ?thesis
  proof (cases "http_position npid ntid m d")
    case (Inr x)
    obtain y d' where x: "x = (y, d')" by (metis surj_pair)
    have "sys_step (s, d) (s, d')" using sys_step.open_position [OF Inr [unfolded http_position_def x]] .
    with ReqPosition Inr x show ?thesis by (auto simp: commit_def)
  qed (simp add: ReqPosition commit_def)
next
  case (ReqSettle nid now m)
  show ?thesis
  proof (cases "http_settle nid now m d")
    case (Inr x)
    obtain y d' where x: "x = (y, d')" by (metis surj_pair)
    have "sys_step (s, d) (s, d')"
      using sys_step.settlement [OF _ Inr [unfolded http_settle_def Let_def x]] r ReqSettle by simp
    with ReqSettle Inr x show ?thesis by (auto simp: commit_def)
  qed (simp add: ReqSettle commit_def)
next
  case (ReqFaults f)
  then show ?thesis using sys_step.set_faults by (cases f) (auto simp: http_faults_def)
next
  case (ReqVerify gen ord stamp now strict)
  then show ?thesis using Verify_steps [OF c] by (simp add: http_verify_store)
next
  case (ReqUnfreeze m)
  then show ?thesis using sys_step.unfreeze by (auto simp: http_unfreeze_def)
next
  case (ReqInjectShortfall nid ntid m)
  with r show ?thesis by simp
qed

lemma serve_step_steps:
  assumes "serve_step w w'" and "coupled amt hist w"
  shows "steps w w'"
  using assms
proof (induction rule: serve_step.induct)
  case (block md s d)
  then show ?case by (intro steps_one sys_step.mine)
next
  case (outbox now draws s d n w)
  show ?case by (rule OutboxTick_steps [OF outbox(1)])
next
  case (inbox gen now dr s d x d')
  then show ?case by (intro InboxTick_steps)
next
  case (resolver gen gens now s d x w)
  obtain s' d' where "w = (s', d')" by (metis surj_pair)
  with resolver ResolverTick_steps [of gen gens now s d x s' d'] show ?case by blast
next
  case (liquidator gen feed lease d x d' s)
  then show ?case by (intro LiquidatorTick_steps)
next
  case (price draw d ps d' s)
  then show ?case by (intro PriceTick_steps)
next
  case (reconcile gen ord stamp s d x d')
  then show ?case by (intro Reconcile_steps)
next
  case (request r w)
  then show ?case by (cases w) (auto intro: handle_steps)
qed

section \<open>No escrow instructions\<close>

definition kinds :: "db \<Rightarrow> intent_kind set" where
  "kinds d = in_kind ` set (intents d)"

lemma kinds_intents: "intents d' = intents d \<Longrightarrow> kinds d' = kinds d"
  by (simp add: kinds_def)

lemma kinds_trades: "trades d' = trades d \<Longrightarrow> kinds d' = kinds d"
  by (simp add: trades_def kinds_def)

lemma kinds_view: "view_of d' = view_of d \<Longrightarrow> kinds d' = kinds d"
proof -
  have "kinds d = (\<lambda>(i, k, a, x). k) ` view_of d" for d
    by (auto simp: kinds_def view_of_def view_row_def image_image)
  then show "view_of d' = view_of d \<Longrightarrow> kinds d' = kinds d" by simp
qed

lemma MarkSubmitted_view: "view_of (MarkSubmitted i tx msg d) = view_of d"
  by (rule view_of_update [of _ "\<lambda>r. in_id r = i \<and> inflight r"
        "\<lambda>r. r\<lparr>in_state := (if in_state r = StateReserved then StateSubmitted else in_state r),
             in_attempts := in_attempts r + 1,
             in_chain_tx := (if tx = [] then in_chain_tx r else Some tx),
             in_last_error := null_if_empty msg\<rparr>"])
     (simp_all add: MarkSubmitted_def view_row_def)

lemma send_job_view:
  assumes "send_job now draws j (s, d) = (s', d')"
  shows "view_of d' = view_of d"
proof -
  have "view_of (mark_sent i d) = view_of d" "view_of (mark_retry now i msg d) = view_of d" for i msg d
    by (simp_all add: view_of_def mark_sent_def mark_retry_def)
  with assms show ?thesis by (auto simp: send_job_def MarkSubmitted_view split: prod.splits sum.splits)
qed

lemma OutboxTick_view: "OutboxTick now draws (s, d) = (n, s', d') \<Longrightarrow> view_of d' = view_of d"
proof -
  have claim: "view_of (foldl (claim_job now) d js) = view_of d" for js d
    by (induction js arbitrary: d) (simp_all add: view_of_def claim_job_def)
  have send: "view_of (snd (fold (send_job now draws) js w)) = view_of (snd w)" for js w
  proof (induction js arbitrary: w)
    case (Cons j js)
    have "view_of (snd (send_job now draws j w)) = view_of (snd w)"
      using send_job_view [of now draws j "fst w" "snd w"] by (metis prod.collapse)
    with Cons show ?case by simp
  qed simp
  assume "OutboxTick now draws (s, d) = (n, s', d')"
  then show ?thesis
    using send [of "outbox_jobs now d" "(s, foldl (claim_job now) d (outbox_jobs now d))"] claim
    by (simp add: OutboxTick_def Let_def)
qed

lemma settleFacts_trades: "trades (snd (settleFacts gen ord s d)) = trades d"
  using scan_facts_trades [of s "ProvisionalFacts d" d] revert_blocks_trades
  by (simp add: settleFacts_def split: prod.split) (metis snd_conv)

lemma Reconcile_kinds: "kinds (snd (Reconcile gen ord stamp s d)) = kinds d"
proof (cases "fst (Reconcile gen ord stamp s d)")
  case (Inl e)
  then have "snd (Reconcile gen ord stamp s d) = snd (settleFacts gen ord s d)"
    by (auto simp: Reconcile_def split: prod.splits option.splits sum.splits)
  then show ?thesis using kinds_trades [OF settleFacts_trades] by simp
next
  case (Inr r)
  then show ?thesis using Reconcile_trades kinds_trades by (metis prod.collapse)
qed

lemma Verify_kinds: "kinds (snd (Verify gen ord stamp now strict s d)) = kinds d"
  using Verify_store [of gen ord stamp now strict s d] Reconcile_kinds by auto

lemma ingest_trades: "trades (snd (ingest bound evs n d)) = trades d"
proof (induction evs arbitrary: n d)
  case (Cons ev evs)
  have "trades (snd (RecordEvent e d)) = trades d" for e d by (simp add: RecordEvent_def trades_def)
  then show ?case using Cons by (simp split: prod.split) (metis snd_conv)
qed simp

lemma poll_trades: "trades (snd (poll_batch dr s d)) = trades d"
proof -
  define batch where "batch = PollEvents (Cursor d) 64 (id_gap dr) (id_dup dr) (id_reorder dr) (id_swap dr) s"
  define bound where "bound = advance_over (ev_seq ` set batch) (length batch) (Cursor d)"
  obtain n d1 where i: "ingest bound batch 0 d = (n, d1)" by (metis surj_pair)
  then have "trades d1 = trades d" using ingest_trades [of bound batch 0 d] by simp
  moreover have "snd (poll_batch dr s d) = (if bound > Cursor d then AdvanceCursor bound d1 else d1)"
    unfolding poll_batch_def Let_def batch_def [symmetric] bound_def [symmetric] i by simp
  ultimately show ?thesis by (simp add: AdvanceCursor_def trades_def)
qed

lemma apply_pending_trades: "trades (apply_pending gen es d) = trades d"
proof (induction es arbitrary: d)
  case (Cons e es)
  have "trades (SetEventStatus i st d) = trades d" for i st by (simp add: SetEventStatus_def trades_def)
  with Cons ApplyDeposit_trades show ?case by (auto split: sum.splits)
qed simp

lemma InboxTick_kinds:
  assumes c: "coupled amt hist (s, d)" and ord: "\<And>hs. set (id_heights dr hs) \<subseteq> set hs"
  shows "kinds (snd (InboxTick gen now dr s d)) = kinds d"
proof -
  obtain e d1 where st: "settleFacts gen (id_hashes dr) s d = (e, d1)" by (metis surj_pair)
  have t1: "trades d1 = trades d" using settleFacts_trades [of gen "id_hashes dr" s d] st by simp
  show ?thesis
  proof (cases e)
    case (Some x)
    with st show ?thesis by (simp add: InboxTick_def kinds_trades [OF t1])
  next
    case None
    from steps_coupled [OF settleFacts_steps(1) [OF st c] c] obtain amt1 new
      where c1: "coupled amt1 (hist @ new) (s, d1)" by blast
    obtain n d3 where p: "poll_batch dr s d1 = (n, d3)" by (metis surj_pair)
    have "trades d3 = trades d" using poll_trades [of dr s d1] p t1 by simp
    then have "trades (apply_pending gen (PendingEvents 128 d3) d3) = trades d" by (simp add: apply_pending_trades)
    note k = kinds_trades [OF this]
    show ?thesis by (simp add: InboxTick_def st None reorgCheck_quiet [OF c1 ord] p Let_def k)
  qed
qed

lemma liquidate_kinds: "kinds (snd (liquidate gen lease marks ps n d)) = kinds d"
proof (induction ps arbitrary: n d)
  case (Cons p ps)
  have "kinds d' = kinds d" if "ClosePosition ntid pid mark reason d = Inr d'" for ntid pid mark reason d'
    by (rule kinds_intents) (use that in \<open>auto simp: ClosePosition_def close_read_position_def Let_def PostTx_frame split: if_splits\<close>)
  with Cons show ?case by (auto split: sum.splits)
qed simp

lemma PriceTick_kinds:
  assumes "PriceTick drift draw d = Some (ps, d')"
  shows "kinds d' = kinds d"
proof -
  have "kinds (snd (fold (price_step drift draw) ms w)) = kinds (snd w)" for ms w
  proof (induction ms arbitrary: w)
    case (Cons m ms)
    have "kinds (snd (price_step drift draw m w)) = kinds (snd w)"
      by (simp add: price_step_def Let_def SetMark_def kinds_def)
    with Cons show ?case by simp
  qed simp
  then have "kinds (snd (fold (price_step drift draw) (Markets d) ([], d))) = kinds d" by simp
  then show ?thesis using assms by (simp add: PriceTick_def split: if_splits)
qed

lemma OpenPosition_kinds: "OpenPosition npid ntid user marketID side sz idemKey d = Inr (pid, d') \<Longrightarrow> kinds d' = kinds d"
  by (rule kinds_intents)
     (auto simp: OpenPosition_def open_new_position_def insert_position_def Let_def PostTx_frame split: if_splits option.splits)

lemma RequestWithdraw_kinds:
  assumes "RequestWithdraw nid ntid user amount idemKey expiry now d = Inr ((i, rep), d')"
    and inv: "store_inv d" and "fresh_id nid" "int64 amount"
  shows "kinds d' \<subseteq> insert Withdraw (kinds d)"
  using assms(1)
proof (cases rule: RequestWithdraw_cases)
  case fresh
  have nid: "id_ok nid" using assms(3) fresh_id_plain by blast
  show ?thesis
  proof (rule reserve_withdraw_spec [OF store_invD(4,6) [OF inv] nid fresh(1) assms(4) fresh(3)])
    assume "intents d' = intents d @ [(new_intent nid (null_if_empty idemKey) Withdraw (Some user) None amount
        (now + WithdrawTTL) expiry)\<lparr>in_reserve_transfer := Some ntid\<rparr>]"
    then show ?thesis by (simp add: kinds_def new_intent_def)
  qed
qed auto

lemma RequestSettlement_kinds:
  assumes "RequestSettlement nid marketID outcome now d = Inr ((i, rep), d')"
  shows "kinds d' \<subseteq> insert SettleMarket (kinds d)"
  using assms
  by (cases rule: RequestSettlement_cases) (auto simp: kinds_def insert_outbox_def new_intent_def)

lemma handle_kinds:
  assumes c: "coupled amt hist (s, d)" and r: "lawful r"
  shows "kinds (snd (handle r (s, d))) \<subseteq> kinds d \<union> {Withdraw, SettleMarket}"
proof (cases r)
  case (ReqState gen ord stamp now)
  then show ?thesis using http_state_store [of gen ord stamp now s d] Reconcile_kinds [of gen ord stamp s]
      Verify_kinds [of gen ord stamp now False s] by fastforce
next
  case (ReqWithdraw nid ntid now m)
  have amount: "int64 (http_amount m ''amount'' (10 * One))" by (rule http_amount_int64) (simp add: One_def int64_def)
  show ?thesis
  proof (cases "http_withdraw nid ntid now m s d")
    case (Inr x)
    obtain i rep d' where x: "x = ((i, rep), d')" by (metis prod.collapse)
    have "kinds d' \<subseteq> insert Withdraw (kinds d)"
      by (rule RequestWithdraw_kinds [OF Inr [unfolded http_withdraw_def app_RequestWithdraw_def Let_def x]
            coupledD(2) [OF c] _ amount]) (use r ReqWithdraw in simp)
    with ReqWithdraw Inr x show ?thesis by (auto simp: commit_def)
  qed (auto simp: ReqWithdraw commit_def)
next
  case (ReqPosition npid ntid m)
  show ?thesis
  proof (cases "http_position npid ntid m d")
    case (Inr x)
    obtain y d' where x: "x = (y, d')" by (metis surj_pair)
    have "kinds d' = kinds d" using OpenPosition_kinds [OF Inr [unfolded http_position_def x]] .
    with ReqPosition Inr x show ?thesis by (auto simp: commit_def)
  qed (auto simp: ReqPosition commit_def)
next
  case (ReqSettle nid now m)
  show ?thesis
  proof (cases "http_settle nid now m d")
    case (Inr x)
    obtain i rep d' where x: "x = ((i, rep), d')" by (metis prod.collapse)
    have "kinds d' \<subseteq> insert SettleMarket (kinds d)"
      using RequestSettlement_kinds [OF Inr [unfolded http_settle_def Let_def x]] .
    with ReqSettle Inr x show ?thesis by (auto simp: commit_def)
  qed (auto simp: ReqSettle commit_def)
next
  case (ReqVerify gen ord stamp now strict)
  then show ?thesis by (auto simp: http_verify_store Verify_kinds)
qed (use r in \<open>auto simp: http_unfreeze_def Unfreeze_def kinds_def\<close>)

lemma serve_step_kinds:
  assumes "serve_step w w'" and "coupled amt hist w"
  shows "kinds (snd w') \<subseteq> kinds (snd w) \<union> {Withdraw, SettleMarket}"
  using assms
proof (induction rule: serve_step.induct)
  case (outbox now draws s d n w)
  obtain s' d' where w: "w = (s', d')" by (metis surj_pair)
  from OutboxTick_view [OF outbox(1) [unfolded w]] have "kinds d' = kinds d" by (rule kinds_view)
  then show ?case by (auto simp: w)
next
  case (inbox gen now dr s d x d')
  then show ?case using InboxTick_kinds [OF inbox(3,2), of gen now] by auto
next
  case (resolver gen gens now s d x w)
  obtain s' d' where w: "w = (s', d')" by (metis surj_pair)
  from ResolverTick_steps [OF resolver(1) [unfolded w] resolver(2)] have "view_of d' = view_of d" by simp
  then have "kinds d' = kinds d" by (rule kinds_view)
  then show ?case by (auto simp: w)
next
  case (liquidator gen feed lease d x d' s)
  then show ?case using liquidate_kinds [of gen lease "tick_marks feed d" "AtRisk (tick_marks feed d) d" 0 d]
    by (auto simp: LiquidatorTick_def Let_def)
next
  case (price draw d ps d' s)
  then show ?case using PriceTick_kinds by auto
next
  case (reconcile gen ord stamp s d x d')
  then show ?case using Reconcile_kinds [of gen ord stamp s d] by auto
next
  case (request r w)
  then show ?case using handle_kinds by (cases w) auto
qed auto

section \<open>Served states\<close>

lemma serve_markets_steps: "serve_markets is d = Inr d' \<Longrightarrow> steps (s, d) (s, d') \<and> intents d' = intents d"
proof (induction "is" arbitrary: d)
  case (Cons i js)
  then obtain d1 where d1: "serve_market i d = Inr d1" "serve_markets js d1 = Inr d'" by auto
  have "sys_step (s, d) (s, d1)" using d1(1) sys_step.seed by (simp add: serve_market_def)
  moreover have "intents d1 = intents d" using d1(1) by (auto simp: serve_market_def SeedMarket_def split: if_splits)
  ultimately show ?case using Cons.IH [OF d1(2)] steps_first by auto
qed simp

lemma served_reachable: "served w \<Longrightarrow> sys_reachable w \<and> EscrowSet \<notin> kinds (snd w)"
proof (induction rule: served.induct)
  case (start d f statePath)
  from serve_markets_steps [OF start, of "New f statePath None"] steps_reachable sys_reachable.boot
  show ?case by (auto simp: kinds_def schema_db_def)
next
  case (step w w')
  then obtain amt hist where c: "coupled amt hist w" using sys_reachable_coupled by blast
  show ?case
    using step serve_step_steps [OF step(2) c] serve_step_kinds [OF step(2) c] steps_reachable by auto
qed

end
