(* ===== verification/Phantom.thy ===== *)
theory Phantom
  imports Http Stream
begin

text \<open>
  The deliberate fault of \<open>injectShortfall\<close>: a credit that no deposit backs. The ledger's own
  invariants survive it; the reconciler's difference grows by exactly its amount.
\<close>

section \<open>Settling a ledger that was exchanged\<close>

definition with_ledger :: "db \<Rightarrow> db \<Rightarrow> db" where
  "with_ledger x d = d\<lparr>accounts := accounts x, transfers := transfers x, entries := entries x,
     account_balances := account_balances x\<rparr>"

lemma with_ledger_simps:
  "ProvisionalFacts (with_ledger x d) = ProvisionalFacts d" "chain_facts (with_ledger x d) = chain_facts d"
  "InFlight (with_ledger x d) = InFlight d" "missing_facts s (with_ledger x d) = missing_facts s d"
  "unfinalized_sum h (with_ledger x d) = unfinalized_sum h d" "internal_sum (with_ledger x d) = internal_sum x"
  "MarkFactFinalized i (with_ledger x d) = with_ledger x (MarkFactFinalized i d)"
  by (simp_all add: with_ledger_def ProvisionalFacts_def InFlight_def missing_facts_def AppliedFactIDs_def
      unfinalized_sum_def internal_sum_def MarkFactFinalized_def)

lemma scan_with_ledger:
  "scan_facts s fs (with_ledger x d) = (fst (scan_facts s fs d), with_ledger x (snd (scan_facts s fs d)))"
  by (induction fs arbitrary: d) (auto simp: with_ledger_simps split: prod.splits)

lemma scan_facts_internal: "internal_sum (snd (scan_facts s fs d)) = internal_sum d"
proof (induction fs arbitrary: d)
  case (Cons f fs)
  have "internal_sum (MarkFactFinalized i d) = internal_sum d" for i d by (simp add: MarkFactFinalized_def internal_sum_def)
  with Cons show ?case by (simp split: prod.split) (metis snd_conv)
qed simp

lemma scan_facts_live: "\<forall>f \<in> set fs. fact_live s f \<Longrightarrow> fst (scan_facts s fs d) = []"
  by (induction fs arbitrary: d) auto

lemma settled_live:
  assumes c: "coupled amt hist (s, d)" and st: "settled s d" and f: "f \<in> set (ProvisionalFacts d)"
  shows "fact_live s f"
proof -
  have "f \<in> set (chain_facts d)" "\<not> cf_reverted f" using f by (auto simp: ProvisionalFacts_def)
  then have t: "ts_processed (TxStatus (cf_fact f) s)" "ts_hash (TxStatus (cf_fact f) s) = cf_hash f"
    "ts_height (TxStatus (cf_fact f) s) = cf_height f" using st by (auto simp: settled_def)
  note inv = coupledD(1) [OF c]
  from inv t(1) obtain b where b: "b \<in> set (hist @ sm_pending s)" "TxStatus (cf_fact f) s = receipt_for (int (length hist)) b"
    by (rule TxStatus_block)
  then have "bl_height b = cf_height f" "bl_hash b = cf_hash f" using t(2,3) by (simp_all add: receipt_for_def included_def)
  moreover have "hashes_ok (hist @ sm_pending s) (sm_hash_at s)" using inv by (simp add: chain_ok_def)
  ultimately have "CanonicalHash (cf_height f) s = Some (cf_hash f)"
    using b(1) unfolding CanonicalHash_def hashes_ok_def by blast
  with t show ?thesis by (simp add: fact_live_def)
qed

lemma settled_settles:
  assumes c: "coupled amt hist (s, d)" and st: "settled s d" and ord: "\<And>os. set (ord os) = set os"
  obtains d1 where "settleFacts gen ord s d = (None, d1)" "settleFacts gen ord s (with_ledger x d) = (None, with_ledger x d1)"
    "internal_sum d1 = internal_sum d"
proof -
  define d1 where "d1 = snd (scan_facts s (ProvisionalFacts d) d)"
  have scan: "scan_facts s (ProvisionalFacts d) d = ([], d1)"
    using scan_facts_live [of "ProvisionalFacts d" s d] settled_live [OF c st] by (simp add: d1_def prod_eq_iff)
  have "ord [] = []" using ord [of "[]"] by simp
  then show ?thesis
    using scan scan_facts_internal [of s "ProvisionalFacts d" d]
    by (intro that [of d1]) (simp_all add: settleFacts_def with_ledger_simps scan_with_ledger)
qed

section \<open>The credit\<close>

lemma phantom_posts:
  assumes post: "PostTx ntid (phantom_credit nid user amt) d = Inr ((i, False), d')"
    and inv: "ledger_inv d" and amt: "0 < amt" "int64 amt"
  shows "d' = with_ledger d' d" and "internal_sum d' = internal_sum d + amt" and "ledger_inv d'"
proof -
  have legs: "t_legs (phantom_credit nid user amt) = [Leg AcctExternal (- amt), Leg (AvailableAcct user) amt]"
    by (simp add: phantom_credit_def Transfer_def)
  have neg: "int64 (- amt)" using amt by (simp add: int64_def)
  have ex: "legs_exact (t_legs (phantom_credit nid user amt))"
    using amt neg by (simp add: legs legs_exact_def Leg_def)
  show inv': "ledger_inv d'" by (rule PostTx_inv [OF post inv ex])
  have dist: "distinct (map ba_code (account_balances d))" using inv by (simp add: ledger_inv_def)
  have "d' = with_ledger d' d \<and> internal_sum d' = internal_sum d + amt"
    using post dist
  proof (cases rule: PostTx_cases)
    case (fresh ac ab)
    have "d' = with_ledger d' d" by (simp add: with_ledger_def fresh(6))
    moreover have "Balance d' AcctExternal = Balance d AcctExternal - amt"
      using amt neg by (simp add: fresh(9) legs leg_delta_def Leg_def AcctExternal_def AvailableAcct_def)
    ultimately show ?thesis by (simp add: internal_sum_eq [OF inv] internal_sum_eq [OF inv'])
  qed simp
  then show "d' = with_ledger d' d" and "internal_sum d' = internal_sum d + amt" by blast+
qed

section \<open>The reconciler's answer\<close>

lemma phantom_report:
  assumes c: "coupled amt hist (s, d)" and st: "settled s d" and led: "internal_sum x = internal_sum d + a"
    and cap: "sum_list (map ev_amount (FinalizedFacts ''deposit'' s)) \<le> 9223372036854775807"
  shows "rp_unexplained (make_report s (with_ledger x d) (internal_sum x) (unfinalized_sum (sm_final_height s) d)) =
    i64 (double_paid s d + a)"
proof -
  have eq: "internal_sum x - vs_final_balance (VaultState s) -
      (sum_list (map in_amount (withdrawn_rows s (InFlight d))) - sum_list (map ev_amount (missing_facts s d)) +
       unfinalized_sum (sm_final_height s) d) = double_paid s d + a"
    using residue_equation [OF c st cap] led by simp
  show ?thesis unfolding eq [symmetric]
    by (simp add: make_report_def Let_def Sum_def sum_i64_eq i64_terms with_ledger_simps)
qed

lemma phantom_caught:
  assumes c: "coupled am hist (s, d)" and st: "settled s d" and ord: "\<And>os. set (ord os) = set os"
    and cap: "sum_list (map ev_amount (FinalizedFacts ''deposit'' s)) \<le> 9223372036854775807"
    and post: "PostTx ntid (phantom_credit nid user amt) d = Inr ((i, False), d')"
    and amt: "0 < amt" "int64 amt" and fit: "int64 (double_paid s d + amt)"
    and res: "Reconcile gen ord stamp s d' = (Inr r, d'')"
  shows "rp_unexplained r = double_paid s d + amt" and "rp_status r = StatusShortfall"
    and "Frozen u d'' \<noteq> None"
proof -
  note p = phantom_posts [OF post store_invD(4) [OF coupledD(2) [OF c]] amt]
  obtain d1 where s1: "settleFacts gen ord s d = (None, d1)" "settleFacts gen ord s (with_ledger d' d) = (None, with_ledger d' d1)"
    "internal_sum d1 = internal_sum d" by (rule settled_settles [OF c st ord])
  note run = settleFacts_steps [OF s1(1) c]
  from steps_coupled [OF run(1) c] obtain am1 new where c1: "coupled am1 (hist @ new) (s, d1)" by blast
  have st1: "settled s d1" by (rule run(3)) (simp_all add: ord)
  from Reconcile_cases [OF res] obtain e1 n where e1: "settleFacts gen ord s d' = (None, e1)"
    and r: "let r0 = make_report s e1 (internal_sum e1) (unfinalized_sum (sm_final_height s) e1) in
      rp_status r = rp_status r0 \<and> rp_unexplained r = rp_unexplained r0 \<and> rp_explained r = rp_explained r0 \<and>
      rp_terms r = rp_terms r0 \<and> rp_ledger r = rp_ledger r0 \<and> rp_chain r = rp_chain r0"
    and fin: "\<exists>d2. fold (heal_one gen) (map healed_event (missing_facts s e1)) (0, e1) = (n, d2) \<and>
      d'' = insert_reconciliation r (if rp_status r = StatusShortfall then Freeze ''*'' (halt_reason (rp_unexplained r) stamp) d2 else d2)"
    by metis
  have e: "e1 = with_ledger d' d1" using e1 s1(2) p(1) by simp
  have led: "internal_sum d' = internal_sum d1 + amt" using p(2) s1(3) by simp
  have dp: "double_paid s d1 = double_paid s d" by (rule double_paid_intents [OF run(2)])
  show u: "rp_unexplained r = double_paid s d + amt"
    using r phantom_report [OF c1 st1 led cap] fit by (simp add: Let_def e with_ledger_simps dp)
  have status: "rp_status r = status_of (rp_unexplained r) (rp_explained r)"
    using r by (simp add: make_report_def Let_def)
  have "0 \<le> double_paid s d" using double_paid_bounds [OF c cap] by simp
  then show short: "rp_status r = StatusShortfall" using status u amt by (simp add: status_of_def)
  show "Frozen u d'' \<noteq> None"
    using fin short by (auto simp: Frozen_None_iff insert_reconciliation_def Freeze_def list_ex_iff)
qed

end
