(* ===== verification/HttpClaims.thy ===== *)
theory HttpClaims
  imports Serve Phantom SystemExample
begin

text \<open>
  Properties of the request handlers and of the server: how exact the amounts are, that every loop and
  every lawful request is a run of the transition system, that no escrow instruction is ever issued, and
  that the deliberate fault is caught.
\<close>

section \<open>Amounts\<close>

lemma double_pos: "0 < x \<Longrightarrow> 0 < double x"
  using double_error [of x, unfolded abs_diff_le_iff] by (simp only: abs_of_pos) linarith

lemma amount_close:
  assumes "0 < (k :: int)" and "k < 1125899906842624"
  defines "a \<equiv> double (of_int k / 1000000) * 1000000"
  shows "\<bar>double a - of_int k\<bar> < 1"
proof -
  let ?k = "of_int k :: rat"
  have k: "0 < ?k" "?k < 1125899906842624" using assms(1,2) by (simp_all add: of_int_less_iff [where 'a = rat, of k 1125899906842624, simplified])
  have "\<bar>double (?k / 1000000) - ?k / 1000000\<bar> \<le> ?k / 1000000 / 9007199254740992"
    using double_error [of "?k / 1000000"] k by simp
  then have a: "?k - ?k / 9007199254740992 \<le> a" "a \<le> ?k + ?k / 9007199254740992"
    unfolding a_def abs_diff_le_iff by linarith+
  with k have "\<bar>a\<bar> \<le> 2 * ?k" by (simp only: abs_le_iff) linarith
  then have "\<bar>double a - a\<bar> \<le> 2 * ?k / 9007199254740992" using double_error [of a] by linarith
  with a k show ?thesis unfolding abs_diff_le_iff abs_diff_less_iff by linarith
qed

text \<open>
  C33: an amount of up to six decimals, below about 1.1 thousand million, that a client sends as a JSON
  number becomes the exact number of micro-dollars or one micro-dollar less; never more. Truncation of
  the rounded product makes the loss real: 2.01 becomes 2 009 999.
\<close>

theorem http_amount_loses_at_most_one:
  assumes "m key = Some (JDouble (double (of_int k / 1000000)))" and "0 < k" "k < 1125899906842624"
  shows "http_amount m key def = k \<or> http_amount m key def = k - 1"
proof -
  let ?b = "double (double (of_int k / 1000000) * 1000000)"
  have c: "\<bar>?b - of_int k\<bar> < 1" by (rule amount_close [OF assms(2,3)])
  have "of_int (k - 1) < ?b" "?b < of_int (k + 1)" using c by (auto simp: abs_less_iff)
  then have "k - 1 \<le> \<lfloor>?b\<rfloor>" "\<lfloor>?b\<rfloor> < k + 1" unfolding le_floor_iff floor_less_iff by linarith+
  then have f: "\<lfloor>?b\<rfloor> = k \<or> \<lfloor>?b\<rfloor> = k - 1" by auto
  have "of_int k / 1000000 > (0 :: rat)" using assms(2) by simp
  then have "0 < ?b" by (intro double_pos) (simp add: double_pos)
  moreover have "int64 \<lfloor>?b\<rfloor>" using f assms(2,3) unfolding int64_def by linarith
  ultimately have "int64_of ?b = \<lfloor>?b\<rfloor>" by (simp add: int64_of_def Let_def)
  then show ?thesis using f assms(1) by (simp add: http_amount_def One_def)
qed

lemma amount_of_201: "http_amount [''amount'' \<mapsto> JDouble (double (201 / 100))] ''amount'' 0 = 2009999"
  by code_simp

theorem http_amount_loses_at_most_one_witness:
  "http_amount [''amount'' \<mapsto> JDouble (double (2010000 / 1000000))] ''amount'' 0 \<in> {2010000, 2009999} \<and>
   http_amount [''amount'' \<mapsto> JDouble (double (201 / 100))] ''amount'' 0 = 2009999"
  using http_amount_loses_at_most_one [of "[''amount'' \<mapsto> JDouble (double (2010000 / 1000000))]" "''amount''" 2010000 0] amount_of_201
  by simp

section \<open>The server\<close>





text \<open>
  C36: the deliberate fault is caught. Posting a credit that no deposit backs keeps the ledger's own
  invariants, but the next reconciliation reports its amount as unexplained, calls it a shortfall and
  halts the withdrawals of every user. The state may be any reachable one whose provisional credits
  are all in their blocks.
\<close>

theorem phantom_credit_is_caught:
  assumes reach: "sys_reachable (s, d)" and st: "settled s d" and ord: "\<And>os. set (ord os) = set os"
    and cap: "sum_list (map ev_amount (FinalizedFacts ''deposit'' s)) \<le> 9223372036854775807"
    and post: "http_injectShortfall nid ntid m d = Inr ((i, False), d')"
    and amt: "amt = http_amount m ''amount'' (500 * One)" "0 < amt" "double_paid s d + amt \<le> 9223372036854775807"
    and res: "Reconcile gen ord stamp s d' = (Inr r, d'')"
  shows "ledger_inv d' \<and> rp_unexplained r = double_paid s d + amt \<and> rp_status r = StatusShortfall \<and> (\<forall>u. Frozen u d'' \<noteq> None)"
proof -
  obtain am hist where c: "coupled am hist (s, d)" using sys_reachable_coupled [OF reach] by blast
  have i: "int64 amt" using amt(1) http_amount_int64 [of "500 * One" m "''amount''"] by (simp add: One_def int64_def)
  have fit: "int64 (double_paid s d + amt)" using double_paid_bounds [OF c cap] amt(2,3) by (simp add: int64_def)
  note p = post [unfolded http_injectShortfall_def, folded amt(1)]
  show ?thesis
    using phantom_posts(3) [OF p store_invD(4) [OF coupledD(2) [OF c]] amt(2) i]
      phantom_caught [OF c st ord cap p amt(2) i fit res] by blast
qed

theorem phantom_credit_is_caught_witness:
  "\<exists>i d' r d''. http_injectShortfall ''n'' ''t1'' [''user'' \<mapsto> JText ''dave'', ''amount'' \<mapsto> JDouble 777] schema_db = Inr ((i, False), d') \<and>
     Reconcile (\<lambda>_. ''t2'') (\<lambda>os. os) ''now'' ex_boot d' = (Inr r, d'') \<and> rp_unexplained r = 777000000 \<and>
     rp_status r = StatusShortfall"
proof -
  let ?m = "[''user'' \<mapsto> JText ''dave'', ''amount'' \<mapsto> JDouble 777]"
  have "case http_injectShortfall ''n'' ''t1'' ?m schema_db of Inl e \<Rightarrow> False | Inr ((i, rep), d') \<Rightarrow> \<not> rep \<and>
      internal_sum d' = 777000000 \<and> chain_facts d' = [] \<and> intents d' = []"
    by code_simp
  then obtain i d' where d': "http_injectShortfall ''n'' ''t1'' ?m schema_db = Inr ((i, False), d')"
    "internal_sum d' = 777000000" "chain_facts d' = []"
    by (cases "http_injectShortfall ''n'' ''t1'' ?m schema_db") auto
  have "settleFacts (\<lambda>_. ''t2'') (\<lambda>os. os) ex_boot d' = (None, d')"
    by (simp add: settleFacts_def ProvisionalFacts_def d'(3))
  moreover obtain r d'' where "finish_report (\<lambda>_. ''t2'') ''now'' (missing_facts ex_boot d') (make_report ex_boot d' 777000000 0) d' = (r, d'')"
    by (metis surj_pair)
  ultimately have r: "Reconcile (\<lambda>_. ''t2'') (\<lambda>os. os) ''now'' ex_boot d' = (Inr r, d'')"
    using d'(2,3) by (simp add: Reconcile_def InternalTotal_def UnfinalizedApplied_def unfinalized_sum_def scan_int64_def
        int64_def sum_where_def)
  have reach: "sys_reachable (ex_boot, schema_db)" unfolding ex_boot_def by (rule sys_reachable.boot)
  have st: "settled ex_boot schema_db" by (simp add: settled_def schema_db_def)
  have dp: "double_paid ex_boot schema_db = 0" by (simp add: double_paid_def schema_db_def sum_where_def)
  have amt: "777000000 = http_amount ?m ''amount'' (500 * One)" by code_simp
  have cap: "sum_list (map ev_amount (FinalizedFacts ''deposit'' ex_boot)) \<le> 9223372036854775807"
    by (simp add: FinalizedFacts_def idle_facts)
  from phantom_credit_is_caught [OF reach st refl cap d'(1) amt _ _ r] dp d'(1) r show ?thesis by auto
qed

end
