(* ===== verification/Chaos.thy ===== *)
theory Chaos
  imports Feed Stream
begin

text \<open>
  The fault harness of \<open>internal/app/chaos.go\<close>: one iteration of \<open>RunChaos\<close> as a function of its
  draws (a workload operation, perhaps a block, some of the workers in some order), and the run with
  its verifications. A crash drops the process and opens it again on the same store and chain, so it
  changes neither; the counters of the result are not kept.
\<close>

section \<open>The state of a run\<close>

record chaos =
  ch_sim :: sim
  ch_db :: db
  ch_market :: nat
  ch_keys :: "(string \<times> string \<times> int) list"

datatype worker = Outbox | Inbox | Resolver | Liquidator | EscrowWorker

text \<open>
  The draws of one iteration: raw numbers for \<open>Intn\<close>, the order of the workers and of unordered
  query results, fresh ids, the clock, and what each worker draws.
\<close>

record chaos_draws =
  cd_index :: nat
  cd_user :: nat
  cd_market :: nat
  cd_list :: nat
  cd_mark :: nat
  cd_op :: nat
  cd_amount :: nat
  cd_coin :: nat
  cd_pick :: nat
  cd_rows :: "(string \<times> int) list \<Rightarrow> (string \<times> int) list"
  cd_walk :: "string \<Rightarrow> nat"
  cd_mine :: nat
  cd_block :: mine_draws
  cd_liquidator :: nat
  cd_escrow :: nat
  cd_order :: "worker list \<Rightarrow> worker list"
  cd_count :: nat
  cd_nid :: string
  cd_ntid :: string
  cd_npid :: string
  cd_now :: int
  cd_gen :: "string \<Rightarrow> string"
  cd_gens :: "string \<Rightarrow> string"
  cd_outbox :: "nat \<Rightarrow> rat \<times> rat \<times> bool"
  cd_inbox :: inbox_draws
  cd_feed :: "(string \<rightharpoonup> int) option"
  cd_lease :: "string \<Rightarrow> bool"
  cd_stamp :: string

text \<open>What an operation leaves: a state, an error that ends the run, or a reported violation.\<close>

datatype chaos_step = Going chaos | Failed error | Replayed string

definition chaos_bind :: "chaos_step \<Rightarrow> (chaos \<Rightarrow> chaos_step) \<Rightarrow> chaos_step" where
  "chaos_bind r f = (case r of Going st \<Rightarrow> f st | _ \<Rightarrow> r)"

text \<open>
  \<open>isExpected\<close> looks for fragments of the message; a message that names a market is a conflict
  here, and the errors of the schema that mention one cannot occur in these operations.
\<close>

definition is_expected :: "error \<Rightarrow> bool" where
  "is_expected e =
    (case e of
       ErrInsufficientFunds \<Rightarrow> True | ErrConflict \<Rightarrow> True | ErrHalted _ \<Rightarrow> True | ErrTooSmall \<Rightarrow> True
     | ErrNoRows \<Rightarrow> True | ErrUnique \<Rightarrow> True | _ \<Rightarrow> False)"

definition refused_or_failed :: "error \<Rightarrow> chaos \<Rightarrow> chaos_step" where
  "refused_or_failed e st = (if is_expected e then Going st else Failed e)"

section \<open>Names\<close>

definition pad :: "nat \<Rightarrow> nat \<Rightarrow> string" where
  "pad w n = replicate (w - length (digits n)) CHR ''0'' @ digits n"

definition user_name :: "nat \<Rightarrow> string" where
  "user_name n = ''u'' @ pad 2 n"

definition market_name :: "nat \<Rightarrow> string" where
  "market_name n = ''m'' @ pad 3 n"

definition question :: "nat \<Rightarrow> string" where
  "question n = ''Will event '' @ digits n @ '' resolve YES?''"

definition request_key :: "nat \<Rightarrow> string \<Rightarrow> string" where
  "request_key i user = ''wd-'' @ digits i @ ''-'' @ user"

section \<open>One iteration\<close>

text \<open>A market that is open, or a new one: when there is none, and three times in a hundred.\<close>

definition pick_market :: "chaos_draws \<Rightarrow> chaos \<Rightarrow> error + (string \<times> chaos)" where
  "pick_market dr st =
    (let open = OpenMarketIDs (ch_db st);
         market = (if open = [] then [] else open ! Intn (cd_market dr) (length open))
     in if market = [] \<or> Intn (cd_list dr) 100 < 3 then
          (let n = Suc (ch_market st)
           in try_bind (SeedMarket (market_name n) (question n) (150000 + int (Intn (cd_mark dr) 700000)) (ch_db st))
                (\<lambda>d. Inr (market_name n, st\<lparr>ch_market := n, ch_db := d\<rparr>)))
        else Inr (market, st))"

definition chaos_deposit :: "chaos_draws \<Rightarrow> string \<Rightarrow> chaos \<Rightarrow> chaos_step" where
  "chaos_deposit dr user st =
    Going (st\<lparr>ch_sim := snd (Deposit user (int (1 + Intn (cd_amount dr) 500) * One) (ch_sim st))\<rparr>)"

definition chaos_withdraw :: "chaos_draws \<Rightarrow> string \<Rightarrow> chaos \<Rightarrow> chaos_step" where
  "chaos_withdraw dr user st =
    (let amt = int (1 + Intn (cd_amount dr) 200) * One; key = request_key (cd_index dr) user
     in case app_RequestWithdraw (cd_nid dr) (cd_ntid dr) user amt key (cd_now dr) (ch_sim st) (ch_db st) of
          Inl e \<Rightarrow> refused_or_failed e st
        | Inr (x, d) \<Rightarrow> Going (st\<lparr>ch_db := d, ch_keys := ch_keys st @ [(key, user, amt)]\<rparr>))"

definition chaos_open :: "chaos_draws \<Rightarrow> string \<Rightarrow> string \<Rightarrow> chaos \<Rightarrow> chaos_step" where
  "chaos_open dr user market st =
    (let side = (if Intn (cd_coin dr) 2 = 0 then ''short'' else ''long'');
         sz = int (1 + Intn (cd_amount dr) 300) * One
     in case OpenPosition (cd_npid dr) (cd_ntid dr) user market side sz [] (ch_db st) of
          Inl e \<Rightarrow> refused_or_failed e st
        | Inr (x, d) \<Rightarrow> Going (st\<lparr>ch_db := d\<rparr>))"

text \<open>Open positions of open markets with the market's mark, at most 200 of them in any order.\<close>

definition open_rows :: "db \<Rightarrow> (string \<times> int) list" where
  "open_rows d = concat (map (\<lambda>p. map (\<lambda>m. (po_id p, mk_mark m))
     (filter (\<lambda>m. mk_id m = po_market p \<and> mk_state m = MarketOpen) (markets d)))
     (filter (\<lambda>p. po_state p = PositionOpen) (positions d)))"

definition randomOpenPosition :: "chaos_draws \<Rightarrow> db \<Rightarrow> (string \<times> int) option" where
  "randomOpenPosition dr d =
    (let rows = take 200 (cd_rows dr (open_rows d))
     in if rows = [] then None else Some (rows ! Intn (cd_pick dr) (length rows)))"

definition chaos_close :: "chaos_draws \<Rightarrow> chaos \<Rightarrow> chaos_step" where
  "chaos_close dr st =
    (case randomOpenPosition dr (ch_db st) of
       None \<Rightarrow> Going st
     | Some (pid, mark) \<Rightarrow>
       (case ClosePosition (cd_ntid dr) pid mark ''user'' (ch_db st) of
          Inl e \<Rightarrow> refused_or_failed e st
        | Inr d \<Rightarrow> Going (st\<lparr>ch_db := d\<rparr>)))"

definition chaos_settle :: "chaos_draws \<Rightarrow> string \<Rightarrow> chaos \<Rightarrow> chaos_step" where
  "chaos_settle dr market st =
    (let outcome = (if Intn (cd_coin dr) 2 = 0 then One else 0)
     in case RequestSettlement (cd_nid dr) market outcome (cd_now dr) (ch_db st) of
          Inl e \<Rightarrow> refused_or_failed e st
        | Inr (x, d) \<Rightarrow> Going (st\<lparr>ch_db := d\<rparr>))"

definition entryCount :: "db \<Rightarrow> nat" where
  "entryCount d = length (entries d)"

text \<open>
  A recorded request once more. The second count overwrites the error of the request, so a refusal is
  tested like an answer: it counts as replayed only when the stored parameters differ.
\<close>

definition chaos_replay :: "chaos_draws \<Rightarrow> chaos \<Rightarrow> chaos_step" where
  "chaos_replay dr st =
    (if ch_keys st = [] then Going st
     else case ch_keys st ! Intn (cd_pick dr) (length (ch_keys st)) of (key, user, amt) \<Rightarrow>
       let res = app_RequestWithdraw (cd_nid dr) (cd_ntid dr) user amt key (cd_now dr) (ch_sim st) (ch_db st);
           d = (case res of Inl e \<Rightarrow> ch_db st | Inr (x, d) \<Rightarrow> d);
           replayed = (case res of Inl e \<Rightarrow> e = ErrConflict | Inr ((i, rep), d) \<Rightarrow> rep)
       in if (case res of Inl e \<Rightarrow> \<not> is_expected e | Inr x \<Rightarrow> False) then
            (case res of Inl e \<Rightarrow> Failed e | Inr x \<Rightarrow> Going st)
          else if \<not> replayed \<or> entryCount (ch_db st) \<noteq> entryCount d then Replayed key
          else Going (st\<lparr>ch_db := d\<rparr>))"

text \<open>The bound of the price walk is positive, so \<open>Intn\<close> never panics there.\<close>

definition chaos_prices :: "chaos_draws \<Rightarrow> chaos \<Rightarrow> chaos_step" where
  "chaos_prices dr st =
    (case PriceTick 20000 (cd_walk dr) (ch_db st) of
       None \<Rightarrow> Failed ErrRange
     | Some (ps, d) \<Rightarrow> Going (st\<lparr>ch_db := d\<rparr>))"

definition chaos_op :: "chaos_draws \<Rightarrow> string \<Rightarrow> string \<Rightarrow> chaos \<Rightarrow> chaos_step" where
  "chaos_op dr user market st =
    (let n = Intn (cd_op dr) 100 in
     if n < 22 then chaos_deposit dr user st
     else if n < 42 then chaos_withdraw dr user st
     else if n < 62 then chaos_open dr user market st
     else if n < 72 then chaos_close dr st
     else if n < 78 then chaos_settle dr market st
     else if n < 88 then chaos_replay dr st
     else chaos_prices dr st)"

definition chaos_mine :: "chaos_draws \<Rightarrow> chaos \<Rightarrow> chaos" where
  "chaos_mine dr st = (if Intn (cd_mine dr) 100 < 60 then st\<lparr>ch_sim := Mine (cd_block dr) (ch_sim st)\<rparr> else st)"

text \<open>One worker's pass, and the error it stopped at.\<close>

definition run_worker :: "chaos_draws \<Rightarrow> worker \<Rightarrow> sim \<times> db \<Rightarrow> error option \<times> sim \<times> db" where
  "run_worker dr k w =
    (case w of (s, d) \<Rightarrow>
     case k of
       Outbox \<Rightarrow> (None, snd (OutboxTick (cd_now dr) (cd_outbox dr) (s, d)))
     | Inbox \<Rightarrow> (case InboxTick (cd_gen dr) (cd_now dr) (cd_inbox dr) s d of ((n, e), d') \<Rightarrow> (e, s, d'))
     | Resolver \<Rightarrow> (case ResolverTick (cd_gen dr) (cd_gens dr) (cd_now dr) (s, d) of ((n, e), w') \<Rightarrow> (e, w'))
     | Liquidator \<Rightarrow> (case LiquidatorTick (cd_gen dr) (cd_feed dr) (cd_lease dr) d of ((n, e), d') \<Rightarrow> (e, s, d'))
     | EscrowWorker \<Rightarrow> (case EscrowTick (cd_gen dr) (cd_now dr) s d of
           (Inl e, d') \<Rightarrow> (Some e, s, d') | (Inr n, d') \<Rightarrow> (None, s, d')))"

fun run_workers :: "chaos_draws \<Rightarrow> worker list \<Rightarrow> chaos \<Rightarrow> chaos_step" where
  "run_workers dr [] st = Going st"
| "run_workers dr (k # ks) st =
    (case run_worker dr k (ch_sim st, ch_db st) of
       (e, s, d) \<Rightarrow>
       let st' = st\<lparr>ch_sim := s, ch_db := d\<rparr>
       in case e of
            None \<Rightarrow> run_workers dr ks st'
          | Some err \<Rightarrow> if is_expected err then run_workers dr ks st' else Failed err)"

definition picked_workers :: "chaos_draws \<Rightarrow> worker list" where
  "picked_workers dr =
    (let ks = cd_order dr ([Outbox, Inbox, Resolver] @
          (if Intn (cd_liquidator dr) 100 < 40 then [Liquidator] else []) @
          (if Intn (cd_escrow dr) 100 < 50 then [EscrowWorker] else []))
     in take (1 + Intn (cd_count dr) (length ks)) ks)"

definition chaos_iteration :: "nat \<Rightarrow> chaos_draws \<Rightarrow> chaos \<Rightarrow> chaos_step" where
  "chaos_iteration users dr st =
    (let user = user_name (Intn (cd_user dr) users) in
     case pick_market dr st of
       Inl e \<Rightarrow> Failed e
     | Inr (market, st1) \<Rightarrow>
         chaos_bind (chaos_op dr user market st1)
           (\<lambda>st2. run_workers dr (picked_workers dr) (chaos_mine dr st2)))"

section \<open>The run\<close>

datatype chaos_result =
    ChaosFailed error
  | ChaosReplayed nat string
  | ChaosViolated nat "violation list"
  | ChaosNotQuiet
  | ChaosFinished "violation list" report chaos

text \<open>Iterations from number \<open>i\<close> on, with a verification at every multiple of \<open>every\<close>.\<close>

fun run_iterations :: "nat \<Rightarrow> nat \<Rightarrow> nat \<Rightarrow> chaos_draws list \<Rightarrow> chaos \<Rightarrow> chaos_result + chaos" where
  "run_iterations users every i [] st = Inr st"
| "run_iterations users every i (dr # drs) st =
    (case chaos_iteration users dr st of
       Failed e \<Rightarrow> Inl (ChaosFailed e)
     | Replayed key \<Rightarrow> Inl (ChaosReplayed i key)
     | Going st1 \<Rightarrow>
         if i mod every \<noteq> 0 then run_iterations users every (Suc i) drs st1
         else
           (case Verify (cd_gen dr) (id_hashes (cd_inbox dr)) (cd_stamp dr) (cd_now dr) False (ch_sim st1) (ch_db st1) of
              (Inl e, d) \<Rightarrow> Inl (ChaosFailed e)
            | (Inr vs, d) \<Rightarrow>
                if vs \<noteq> [] then Inl (ChaosViolated i vs)
                else run_iterations users every (Suc i) drs (st1\<lparr>ch_db := d\<rparr>)))"

fun chaos_markets :: "nat list \<Rightarrow> (nat \<Rightarrow> nat) \<Rightarrow> db \<Rightarrow> error + db" where
  "chaos_markets [] mark d = Inr d"
| "chaos_markets (i # is) mark d =
    try_bind (SeedMarket (market_name i) (question i) (200000 + int (Intn (mark i) 600000)) d) (chaos_markets is mark)"

text \<open>
  Markets are listed in an empty store, the iterations run, everything lands, and strict verification
  has the last word. There is one element of \<open>drs\<close> per iteration. \<open>rds\<close> are the draws of the up to 400 rounds of \<open>Quiesce\<close>, \<open>fin\<close> those of the
  last two passes.
\<close>

definition positive_or :: "int \<Rightarrow> nat \<Rightarrow> nat" where
  "positive_or n def = (if n \<le> 0 then def else nat n)"

definition RunChaos :: "int \<Rightarrow> int \<Rightarrow> int \<Rightarrow> faults \<Rightarrow> string \<Rightarrow> (nat \<Rightarrow> nat) \<Rightarrow> chaos_draws list \<Rightarrow>
    round_draws list \<Rightarrow> chaos_draws \<Rightarrow> chaos_result" where
  "RunChaos users marks every f statePath mark drs rds fin =
    (case chaos_markets [0..<positive_or marks 12] mark schema_db of
       Inl e \<Rightarrow> ChaosFailed e
     | Inr d0 \<Rightarrow>
     (case run_iterations (positive_or users 8) (positive_or every 25) 1 drs
         \<lparr>ch_sim = New (if fa_confirms f = 0 then DefaultFaults else f) statePath None, ch_db = d0, ch_market = positive_or marks 12, ch_keys = []\<rparr> of
       Inl r \<Rightarrow> r
     | Inr st \<Rightarrow>
     (case Quiesce rds (ch_sim st, ch_db st) of
       (QuiesceFailed e, w) \<Rightarrow> ChaosFailed e
     | (NotQuiesced, w) \<Rightarrow> ChaosNotQuiet
     | (Quiet, s, d) \<Rightarrow>
     (case Verify (cd_gen fin) (id_hashes (cd_inbox fin)) (cd_stamp fin) (cd_now fin) True s d of
       (Inl e, d1) \<Rightarrow> ChaosFailed e
     | (Inr vs, d1) \<Rightarrow>
     (case Reconcile (cd_gen fin) (id_hashes (cd_inbox fin)) (cd_stamp fin) s d1 of
       (Inl e, d2) \<Rightarrow> ChaosFailed e
     | (Inr rep, d2) \<Rightarrow> ChaosFinished vs rep (st\<lparr>ch_sim := s, ch_db := d2\<rparr>))))))"

end
