(* ===== verification/Recall.thy ===== *)
theory Recall
  imports Stream
begin

text \<open>
  The engine's memory: in every run rows are only added to the intents, each keeps its id, key, kind,
  user and amount, and a withdrawal that was accepted under a key is answered from the store forever.
\<close>

section \<open>Intents are never forgotten\<close>

text \<open>What a row keeps forever; rows are only appended.\<close>

definition core_row :: "intent_row \<Rightarrow> string \<times> string option \<times> intent_kind \<times> string option \<times> int" where
  "core_row r = (in_id r, in_key r, in_kind r, in_user r, in_amount r)"

definition grows :: "db \<Rightarrow> db \<Rightarrow> bool" where
  "grows d d' \<longleftrightarrow> prefix (map core_row (intents d)) (map core_row (intents d'))"

lemma grows_same: "intents d' = intents d \<Longrightarrow> grows d d'"
  by (simp add: grows_def)

lemma grows_new: "intents d' = intents d @ [r] \<Longrightarrow> grows d d'"
  by (simp add: grows_def)

lemma grows_update:
  assumes "intents d' = update_where p f (intents d)" and "\<And>r. core_row (f r) = core_row r"
  shows "grows d d'"
  using assms by (simp add: grows_def update_where_def comp_def if_distrib cong: if_cong)

lemma grows_trans: "grows a b \<Longrightarrow> grows b c \<Longrightarrow> grows a c"
  using prefix_order.trans by (auto simp: grows_def)

lemma Confirm_grows:
  assumes inv: "store_inv d" and res: "Confirm gen ntid iid h x d = Inr d'"
  shows "grows d d'"
proof -
  note parts = store_invD [OF inv]
  have bk: "intent_books d" using parts(6) by (simp add: intent_inv_def)
  have commit: "grows d d'" if "d' = set_confirmed iid h x tid d1" "intents d1 = intents d" for tid d1
    by (rule grows_update [of d' "\<lambda>r. in_id r = iid" "\<lambda>r. r\<lparr>in_state := StateConfirmed, in_height := Some h,
        in_hash := Some x, in_final_transfer := tid\<rparr>"]) (simp_all add: that set_confirmed_rows core_row_def)
  show ?thesis using bk res
  proof (cases rule: Confirm_cases)
    case (withdraw r i rep d1)
    show ?thesis by (rule commit [OF withdraw(5)]) (simp add: PostTx_frame [OF withdraw(4)])
  next
    case (settle r m outcome d1)
    show ?thesis by (rule commit [OF settle(7)])
      (use settleMarketTx_frame [OF settle(6) parts(4,5)] in \<open>simp add: trade_frame_def\<close>)
  next
    case (escrow r)
    show ?thesis by (rule commit [OF escrow(4)]) simp
  qed (simp add: grows_same)
qed

lemma Expire_grows:
  assumes inv: "store_inv d" and res: "Expire ntid iid height now d = Inr d'"
  shows "grows d d'"
proof -
  have bk: "intent_books d" using store_invD(6) [OF inv] by (simp add: intent_inv_def)
  show ?thesis using bk res
  proof (cases rule: Expire_cases)
    case (withdraw r i rep d1)
    show ?thesis
      by (rule grows_update [of d' "\<lambda>r. in_id r = iid" "\<lambda>r. r\<lparr>in_state := StateExpired\<rparr>"])
         (simp_all add: withdraw(7) PostTx_frame [OF withdraw(6)] core_row_def)
  next
    case (settle r)
    show ?thesis
      by (rule grows_update [of d' "\<lambda>r. in_id r = iid" "\<lambda>r. r\<lparr>in_deadline := now + 60000\<rparr>"])
         (simp_all add: settle(4) core_row_def)
  next
    case (escrow r)
    show ?thesis
      by (rule grows_update [of d' "\<lambda>r. in_id r = iid" "\<lambda>r. r\<lparr>in_state := StateExpired\<rparr>"])
         (simp_all add: escrow(4) core_row_def)
  qed (simp add: grows_same)
qed

lemma sys_step_grows:
  assumes "sys_step (s, d) (s', d')" and c: "coupled amt hist (s, d)"
  shows "grows d d'"
proof -
  note inv = coupledD(2) [OF c]
  note parts = store_invD [OF inv]
  from assms(1) show ?thesis
  proof cases
    case (open_position npid ntid user marketID side sz idemKey pid)
    then show ?thesis using OpenPosition_frame [OF parts(4,5)] by (intro grows_same) (simp add: trade_frame_def)
  next
    case (close_position ntid pid mark reason)
    then show ?thesis using ClosePosition_frame [OF parts(4,5)] by (intro grows_same) (simp add: trade_frame_def)
  next
    case (withdraw nid amount ntid user key now x)
    obtain i rep where x: "x = (i, rep)" by (cases x)
    let ?x = "sm_head s + WithdrawExpiryBlocks"
    from withdraw(4) x have res: "RequestWithdraw nid ntid user amount key ?x now d = Inr ((i, rep), d')"
      by (simp add: app_RequestWithdraw_def VaultState_def Let_def)
    from res show ?thesis
    proof (cases rule: RequestWithdraw_cases)
      case (replay old)
      then show ?thesis by (simp add: grows_same)
    next
      case fresh
      have nid: "id_ok nid" using fresh_id_plain [OF withdraw(2)] by simp
      show ?thesis by (rule reserve_withdraw_spec [OF parts(4,6) nid fresh(1) withdraw(3) fresh(3)]) (rule grows_new)
    qed
  next
    case (settlement nid marketID outcome now x)
    obtain i rep where x: "x = (i, rep)" by (cases x)
    from settlement(3) [unfolded x] show ?thesis
      by (cases rule: RequestSettlement_cases) (auto simp: grows_same insert_outbox_def intro: grows_new)
  next
    case (escrow nid target marketID expiry now x)
    obtain i rep where x: "x = (i, rep)" by (cases x)
    from escrow(5) [unfolded x] show ?thesis
      by (cases rule: RequestEscrowSet_cases) (auto simp: grows_same insert_outbox_def intro: grows_new)
  next
    case (submitted iid chainTx msg)
    have "intents d' = update_where (\<lambda>r. in_id r = iid) (submit_row chainTx msg) (intents d)"
      using submitted(2) by (simp add: MarkSubmitted_rows)
    then show ?thesis by (rule grows_update) (simp add: core_row_def submit_row_def)
  next
    case (deposit e ntid)
    then show ?thesis using ApplyDeposit_trades [of ntid e d d'] by (intro grows_same) (simp add: trades_def)
  next
    case (revert_block gen hash)
    obtain n e where r: "RevertBlock gen hash d = ((n, e), d')" using revert_block(2) by (metis prod.collapse)
    show ?thesis using RevertBlock_spec(3) [OF parts(4,2) r] by (intro grows_same) (simp add: revert_frame_def)
  next
    case (confirm iid gen ntid)
    show ?thesis by (rule Confirm_grows [OF inv confirm(4)])
  next
    case (expire iid ntid now)
    show ?thesis by (rule Expire_grows [OF inv expire(3)])
  qed (auto intro!: grows_same simp: SeedMarket_def SetMark_def Let_def Freeze_def Unfreeze_def same_books_def RecordEvent_def
      AdvanceCursor_def SetEventStatus_def MarkFactFinalized_def split: if_splits)
qed

lemma steps_grow:
  assumes "steps w w'" and "coupled amt hist w"
  shows "grows (snd w) (snd w')"
  using assms
proof (induction rule: rtranclp_induct)
  case (step u v)
  obtain amt1 new where "coupled amt1 (hist @ new) u" using steps_coupled [OF step(1,4)] by blast
  then have "grows (snd u) (snd v)" using step(2) sys_step_grows by (cases u; cases v) auto
  with step show ?case using grows_trans by blast
qed (simp add: grows_same)

section \<open>A recorded request is answered from the store\<close>

text \<open>The first row of the key holds the request: its intent, the user and the amount.\<close>

definition answered_by :: "db \<Rightarrow> string \<Rightarrow> string \<times> string \<times> int \<Rightarrow> bool" where
  "answered_by d i q \<longleftrightarrow> (case q of (key, user, amt) \<Rightarrow> key \<noteq> [] \<and> 0 < amt \<and>
     (\<exists>k. find (\<lambda>c. fst (snd c) = Some key) (map core_row (intents d)) = Some (i, Some key, k, Some user, amt)))"

lemma find_prefix: "prefix xs ys \<Longrightarrow> find P xs = Some x \<Longrightarrow> find P ys = Some x"
proof -
  have "find P xs = Some x \<Longrightarrow> find P (xs @ zs) = Some x" for zs by (induction xs) auto
  then show "prefix xs ys \<Longrightarrow> find P xs = Some x \<Longrightarrow> find P ys = Some x" by (auto simp: prefix_def)
qed

lemma answered_grows: "grows d d' \<Longrightarrow> answered_by d i q \<Longrightarrow> answered_by d' i q"
  unfolding grows_def answered_by_def by (auto dest: find_prefix)

lemma find_core: "find (\<lambda>c. fst (snd c) = Some key) (map core_row rows) = map_option core_row (select_one (\<lambda>r. in_key r = Some key) rows)"
  by (induction rows) (auto simp: core_row_def select_one_def)

lemma answered_row:
  assumes "answered_by d i (key, user, amt)"
  obtains old where "select_one (\<lambda>r. in_key r = Some key) (intents d) = Some old"
    "in_id old = i" "in_user old = Some user" "in_amount old = amt"
  using assms by (auto simp: answered_by_def find_core core_row_def)

lemma replay_of_answered:
  assumes "answered_by d i (key, user, amt)"
  shows "app_RequestWithdraw nid ntid user amt key now s d = Inr ((i, True), d)"
proof -
  obtain old where "select_one (\<lambda>r. in_key r = Some key) (intents d) = Some old"
    "in_id old = i" "in_user old = Some user" "in_amount old = amt"
    using assms by (rule answered_row)
  moreover have "key \<noteq> []" "0 < amt" using assms by (simp_all add: answered_by_def)
  ultimately show ?thesis by (simp add: app_RequestWithdraw_def Let_def RequestWithdraw_def text_or_empty_def)
qed

lemma accepted_answered:
  assumes res: "app_RequestWithdraw nid ntid user amt key now s d = Inr ((i, rep), d')" and inv: "store_inv d"
    and key: "key \<noteq> []" "user \<noteq> []" and nid: "fresh_id nid" and amt: "int64 amt"
  shows "answered_by d' i (key, user, amt)"
proof (cases "select_one (\<lambda>r. in_key r = Some key) (intents d)")
  case None
  let ?x = "vs_head (VaultState s) + WithdrawExpiryBlocks"
  have pos: "0 < amt" and r: "reserve_withdraw nid ntid user amt key ?x now d = Inr ((i, rep), d')"
    using res None key by (auto simp: app_RequestWithdraw_def RequestWithdraw_def Let_def split: if_splits)
  have id: "id_ok nid" using fresh_id_plain [OF nid] by simp
  show ?thesis
  proof (rule reserve_withdraw_spec [OF store_invD(4,6) [OF inv] id pos amt r])
    assume i: "i = nid" and it: "intents d' = intents d @ [(new_intent nid (null_if_empty key) Withdraw (Some user) None amt
        (now + WithdrawTTL) ?x)\<lparr>in_reserve_transfer := Some ntid\<rparr>]"
    have "select_one p (xs @ [r]) = Some r" if "select_one p xs = None" "p r" for p xs and r :: intent_row
      using that by (induction xs) (auto simp: select_one_def split: if_splits)
    then have "select_one (\<lambda>r. in_key r = Some key) (intents d') = Some ((new_intent nid (null_if_empty key) Withdraw (Some user) None amt
        (now + WithdrawTTL) ?x)\<lparr>in_reserve_transfer := Some ntid\<rparr>)"
      using None key unfolding it by (simp add: new_intent_def null_if_empty_def)
    then show ?thesis using key pos i by (simp add: answered_by_def find_core core_row_def new_intent_def null_if_empty_def)
  qed
next
  case (Some old)
  have "in_key old = Some key" using select_one_SomeD [OF Some] by simp
  moreover have "d' = d" "in_id old = i" "0 < amt" "text_or_empty (in_user old) = user" "in_amount old = amt"
    using res Some key by (auto simp: app_RequestWithdraw_def RequestWithdraw_def Let_def split: if_splits)
  moreover from this key have "in_user old = Some user" by (cases "in_user old") (auto simp: text_or_empty_def)
  ultimately show ?thesis using Some key by (simp add: answered_by_def find_core core_row_def)
qed


end
