(* ===== verification/ChaosRuns.thy ===== *)
theory ChaosRuns
  imports Chaos Serve Verdict Recall
begin

text \<open>
  What the fault harness can find. The draws of a run are lawful when its ids are fresh and what the
  code draws from a set comes from that set; then every state of the run is reachable, every recorded
  request stays answered by the store, and the deposits of the run fit an \<open>int64\<close>.
\<close>

section \<open>The chain of a run\<close>

text \<open>
  \<open>H\<close> holds every hash drawn so far. A deposit of the harness is at most 500 units.
\<close>

definition modest :: "string set \<Rightarrow> sim \<Rightarrow> bool" where
  "modest H s \<longleftrightarrow> (\<exists>hist. sim_inv hist s \<and> bl_hash ` set (hist @ sm_pending s) \<subseteq> H \<and>
     (\<forall>t \<in> txs_of hist s. tx_kind t = ''deposit'' \<longrightarrow> tx_amount t \<le> 500 * One \<and> used (sm_next_deposit s) (tx_nonce t)))"

lemma modest_New: "modest {} (New f statePath None)"
proof -
  have "sim_inv [] (New f statePath None)" by (rule New_empty)
  then show ?thesis unfolding modest_def by (intro exI [of _ "[]"]) (simp add: txs_of_def New_def Let_def)
qed

lemma modest_fresh:
  assumes "modest H s" and "h \<notin> H"
  shows "h \<notin> ran (sm_hash_at s)"
proof -
  obtain hist where "sim_inv hist s" and sub: "bl_hash ` set (hist @ sm_pending s) \<subseteq> H"
    using assms(1) by (auto simp: modest_def)
  then have ok: "hashes_ok (hist @ sm_pending s) (sm_hash_at s)" by (simp add: chain_ok_def)
  have "x \<in> H" if "sm_hash_at s k = Some x" for k x
  proof -
    have "\<exists>b \<in> set (hist @ sm_pending s). bl_height b = k \<and> bl_hash b = x"
      using ok [unfolded hashes_ok_def, THEN spec, THEN spec, THEN iffD1, OF that] .
    then obtain b where "b \<in> set (hist @ sm_pending s)" "bl_hash b = x" by blast
    then show "x \<in> H" using sub by blast
  qed
  with assms(2) show ?thesis by (auto simp: ran_def)
qed

lemma modest_call:
  assumes "modest H s" and "tx_kind t \<noteq> ''deposit''"
  shows "modest H (s\<lparr>sm_mempool := sm_mempool s @ [t]\<rparr>)"
  using assms unfolding modest_def by (auto simp: chain_ok_def txs_of_def)

lemma modest_persist [simp]: "modest H (persistLocked w s) = modest H s"
  by (simp add: modest_def persistLocked_def chain_ok_def txs_of_def)

lemma modest_Submit:
  assumes "modest H s" and "tx_kind t \<noteq> ''deposit''"
  shows "modest H (snd (Submit u1 u2 w t s)) \<and> sm_next_deposit (snd (Submit u1 u2 w t s)) = sm_next_deposit s"
proof -
  have "modest H (persistLocked w (s\<lparr>sm_mempool := sm_mempool s @ [t]\<rparr>))" using modest_call [OF assms] by simp
  moreover have "sm_next_deposit (persistLocked w (s\<lparr>sm_mempool := sm_mempool s @ [t]\<rparr>)) = sm_next_deposit s"
    by (simp add: persistLocked_def)
  ultimately show ?thesis using assms(1) by (auto simp: Submit_def Let_def)
qed

lemma modest_Cancel:
  assumes "modest H s"
  shows "modest H (snd (Cancel n x s)) \<and> sm_next_deposit (snd (Cancel n x s)) = sm_next_deposit s"
  using assms modest_call [of H s "cancel_tx n x"] by (auto simp: Cancel_def cancel_tx_def)

lemma modest_Deposit:
  assumes "modest H s" and "amount \<le> 500 * One" and "0 \<le> sm_next_deposit s"
  shows "modest H (snd (Deposit user amount s)) \<and> sm_next_deposit (snd (Deposit user amount s)) = sm_next_deposit s + 1"
proof -
  let ?n = "sm_next_deposit s + 1"
  obtain hist where h: "sim_inv hist s" "bl_hash ` set (hist @ sm_pending s) \<subseteq> H"
    "\<forall>t \<in> txs_of hist s. tx_kind t = ''deposit'' \<longrightarrow> tx_amount t \<le> 500 * One \<and> used (sm_next_deposit s) (tx_nonce t)"
    using assms(1) by (auto simp: modest_def)
  have "used ?n (dep_id ?n)" unfolding used_def using assms(3) by (intro exI [of _ ?n]) simp
  moreover have "used ?n x" if "used (sm_next_deposit s) x" for x using used_mono [OF that] by simp
  ultimately have "modest H (snd (Deposit user amount s))"
    unfolding modest_def using h assms(2)
    by (intro exI [of _ hist]) (auto simp: Deposit_def Let_def chain_ok_def txs_of_def dep_id_def)
  then show ?thesis by (simp add: Deposit_def Let_def)
qed

lemma modest_Mine:
  assumes "modest H s"
  shows "modest (insert (block_hash (md_hash md)) H) (Mine md s) \<and> sm_next_deposit (Mine md s) = sm_next_deposit s"
proof -
  obtain hist where h: "sim_inv hist s" "bl_hash ` set (hist @ sm_pending s) \<subseteq> H"
    "\<forall>t \<in> txs_of hist s. tx_kind t = ''deposit'' \<longrightarrow> tx_amount t \<le> 500 * One \<and> used (sm_next_deposit s) (tx_nonce t)"
    using assms by (auto simp: modest_def)
  obtain keep gone b new where sh: "sm_pending s = keep @ gone" "sim_inv (hist @ new) (Mine md s)"
    "(hist @ new) @ sm_pending (Mine md s) = hist @ keep @ [b]" "bl_hash b = block_hash (md_hash md)"
    "set (bl_txs b) \<subseteq> set (sm_mempool s) \<union> (\<Union>c \<in> set gone. set (bl_txs c))" "sm_mempool (Mine md s) = []"
    "sm_next_deposit (Mine md s) = sm_next_deposit s"
    by (rule Mine_shape [OF h(1), of md]) blast
  have "txs_of (hist @ new) (Mine md s) \<subseteq> txs_of hist s"
    using sh(1,5,6) unfolding txs_of_def sh(3) by auto
  moreover have "bl_hash ` set ((hist @ new) @ sm_pending (Mine md s)) \<subseteq> insert (block_hash (md_hash md)) H"
    using h(2) sh(1,4) unfolding sh(3) by auto
  ultimately show ?thesis unfolding modest_def using sh(2,7) h(3) by (intro conjI exI [of _ "hist @ new"]) auto
qed

lemma modest_send_all:
  assumes "modest H s" and "\<forall>j \<in> set js. tx_kind (tx_of_payload (ob_payload j)) \<noteq> ''deposit''"
  shows "modest H (fst (fold (send_job now draws) js (s, d))) \<and>
    sm_next_deposit (fst (fold (send_job now draws) js (s, d))) = sm_next_deposit s"
  using assms
proof (induction js arbitrary: s d)
  case (Cons j js)
  obtain s1 d1 where r: "send_job now draws j (s, d) = (s1, d1)" by (metis surj_pair)
  obtain u1 u2 w where dr: "draws (ob_id j) = (u1, u2, w)" by (metis prod.collapse)
  have "s1 = snd (Submit u1 u2 w (tx_of_payload (ob_payload j)) s)"
    using r by (auto simp: send_job_def dr split: prod.splits sum.splits)
  with modest_Submit [OF Cons.prems(1), of "tx_of_payload (ob_payload j)" u1 u2 w] Cons.prems(2)
  have "modest H s1 \<and> sm_next_deposit s1 = sm_next_deposit s" by simp
  with Cons.IH [of s1 d1] Cons.prems(2) show ?case by (simp add: r)
qed simp

lemma modest_OutboxTick:
  assumes "modest H s" and c: "coupled amt hist (s, d)" and "OutboxTick now draws (s, d) = (n, s', d')"
  shows "modest H s' \<and> sm_next_deposit s' = sm_next_deposit s"
proof -
  have "tx_kind (tx_of_payload (ob_payload j)) \<noteq> ''deposit''" if "j \<in> set (outbox_jobs now d)" for j
  proof -
    have "j \<in> set (outbox d)" using that by (auto simp: outbox_jobs_def dest: in_set_takeD)
    then show ?thesis using c by (auto simp: coupled_def db_coupled_def known_payload_def intent_tx_def)
  qed
  then show ?thesis using modest_send_all [OF assms(1), of "outbox_jobs now d" now draws] assms(3)
    by (simp add: OutboxTick_def Let_def) (metis fst_conv)
qed

lemma resolve_one_sim:
  assumes "resolve_one gen gens now head it (s, d) = (r, s', d')"
  shows "s' = s \<or> (\<exists>n x. s' = snd (Cancel n x s))"
proof -
  let ?C = "Cancel (in_id it) (in_expiry it) s"
  have "s' = s \<or> s' = snd ?C"
    using assms unfolding resolve_one_def Let_def by (cases ?C) (auto split: if_splits sum.splits)
  then show ?thesis by blast
qed

lemma modest_resolve_all:
  "resolve_all gen gens now head its n (s, d) = (r, s', d') \<Longrightarrow> modest H s \<Longrightarrow>
    modest H s' \<and> sm_next_deposit s' = sm_next_deposit s"
proof (induction its arbitrary: n s d)
  case (Cons it its)
  obtain x e s1 d1 where o: "resolve_one gen gens now head it (s, d) = ((x, e), s1, d1)" by (metis surj_pair)
  from resolve_one_sim [OF o] modest_Cancel [OF Cons.prems(2)] Cons.prems(2)
  have "modest H s1 \<and> sm_next_deposit s1 = sm_next_deposit s" by auto
  with Cons.IH [of _ s1 d1] Cons.prems(1) show ?case by (cases e) (auto simp: o)
qed simp

section \<open>The deposits fit\<close>

lemma used_card: "0 \<le> n \<Longrightarrow> finite {x. used n x} \<and> int (card {x. used n x}) \<le> n"
proof -
  assume n: "0 \<le> n"
  have eq: "{x. used n x} = dep_id ` {1..n}" by (auto simp: used_def image_iff int_one_le_iff_zero_less)
  have "card (dep_id ` {1..n}) \<le> card {1..n}" by (rule card_image_le) simp
  then show ?thesis unfolding eq using n by simp
qed

lemma modest_deposits:
  assumes "modest H s" and "0 \<le> sm_next_deposit s"
  shows "sum_list (map ev_amount (FinalizedFacts ''deposit'' s)) \<le> 500 * One * sm_next_deposit s"
proof -
  obtain hist where h: "sim_inv hist s"
    "\<forall>t \<in> txs_of hist s. tx_kind t = ''deposit'' \<longrightarrow> tx_amount t \<le> 500 * One \<and> used (sm_next_deposit s) (tx_nonce t)"
    using assms(1) by (auto simp: modest_def)
  let ?ds = "filter (\<lambda>c. tx_kind (fst c) = ''deposit'') (calls hist)"
  have dep: "tx_amount (fst c) \<le> 500 * One" "used (sm_next_deposit s) (tx_nonce (fst c))" if "c \<in> set ?ds" for c
  proof -
    have "c \<in> set (calls hist)" using that by simp
    then obtain b where "b \<in> set hist" "fst c \<in> set (bl_txs b)" by (metis set_calls prod.collapse)
    then have "fst c \<in> txs_of hist s" by (auto simp: txs_of_def)
    then show "tx_amount (fst c) \<le> 500 * One" "used (sm_next_deposit s) (tx_nonce (fst c))" using h(2) that by auto
  qed
  have "deposit_sum (calls hist) = sum_list (map (\<lambda>c. tx_amount (fst c)) ?ds)"
    by (simp add: deposit_sum_def sum_list_map_filter' case_prod_beta')
  also have "\<dots> \<le> sum_list (map (\<lambda>c. 500 * One) ?ds)" by (rule sum_list_mono) (rule dep(1))
  also have "\<dots> = 500 * One * int (length ?ds)" by (simp add: sum_list_triv)
  also have "\<dots> \<le> 500 * One * sm_next_deposit s"
  proof -
    have "distinct (map call_nonce (calls hist))"
      using h(1) calls_distinct executes_all_append by (auto simp: chain_ok_def)
    then have "distinct (map call_nonce ?ds)" by (rule distinct_map_filter)
    then have "length ?ds = card (call_nonce ` set ?ds)" using distinct_card [of "map call_nonce ?ds"] by simp
    moreover have "call_nonce ` set ?ds \<subseteq> {x. used (sm_next_deposit s) x}"
      using dep(2) by (auto simp: call_nonce_def split: if_splits)
    ultimately have "int (length ?ds) \<le> sm_next_deposit s"
      using used_card [OF assms(2)] card_mono [of "{x. used (sm_next_deposit s) x}" "call_nonce ` set ?ds"] by linarith
    then show ?thesis by (simp add: One_def)
  qed
  finally show ?thesis using final_deposits_sum [OF h(1)] by simp
qed

section \<open>Sound states\<close>

definition answered :: "db \<Rightarrow> string \<times> string \<times> int \<Rightarrow> bool" where
  "answered d q \<longleftrightarrow> (\<exists>i. answered_by d i q)"

lemma chaos_replay_quiet:
  assumes "\<forall>q \<in> set (ch_keys st). answered (ch_db st) q"
  shows "chaos_replay dr st = Going st"
proof (cases "ch_keys st = []")
  case False
  let ?q = "ch_keys st ! Intn (cd_pick dr) (length (ch_keys st))"
  obtain key user amt where q: "?q = (key, user, amt)" by (metis prod.collapse)
  have "?q \<in> set (ch_keys st)" using False by (intro nth_mem) (simp add: Intn_def)
  then obtain i where "answered_by (ch_db st) i (key, user, amt)" using assms q by (auto simp: answered_def)
  from replay_of_answered [OF this] have
    "app_RequestWithdraw (cd_nid dr) (cd_ntid dr) user amt key (cd_now dr) (ch_sim st) (ch_db st) = Inr ((i, True), ch_db st)" .
  then show ?thesis using False q by (simp add: chaos_replay_def Let_def)
qed (simp add: chaos_replay_def)

definition lawful_chaos :: "chaos_draws \<Rightarrow> bool" where
  "lawful_chaos dr \<longleftrightarrow> fresh_id (cd_nid dr) \<and> (\<forall>m. fresh_id (cd_gen dr m)) \<and>
     (\<forall>hs. set (id_heights (cd_inbox dr) hs) \<subseteq> set hs) \<and> (\<forall>os. set os \<subseteq> set (id_hashes (cd_inbox dr) os))"

definition drawn_hash :: "chaos_draws \<Rightarrow> string" where
  "drawn_hash dr = block_hash (md_hash (cd_block dr))"

text \<open>After \<open>k\<close> iterations at most \<open>k\<close> deposits were sent.\<close>

definition sound :: "string set \<Rightarrow> nat \<Rightarrow> chaos \<Rightarrow> bool" where
  "sound H k st \<longleftrightarrow> sys_reachable (ch_sim st, ch_db st) \<and> (\<forall>q \<in> set (ch_keys st). answered (ch_db st) q) \<and>
     modest H (ch_sim st) \<and> 0 \<le> sm_next_deposit (ch_sim st) \<and> sm_next_deposit (ch_sim st) \<le> int k"

definition keeps :: "(chaos \<Rightarrow> bool) \<Rightarrow> chaos_step \<Rightarrow> bool" where
  "keeps P r = (case r of Going st \<Rightarrow> P st | Failed e \<Rightarrow> True | Replayed key \<Rightarrow> False)"

lemma keeps_simps [simp]: "keeps P (Going st) = P st" "keeps P (Failed e)" "\<not> keeps P (Replayed key)"
  by (simp_all add: keeps_def)

lemma keeps_bind: "keeps P r \<Longrightarrow> (\<And>st. P st \<Longrightarrow> keeps Q (f st)) \<Longrightarrow> keeps Q (chaos_bind r f)"
  by (cases r) (simp_all add: chaos_bind_def)

lemma keeps_mono: "keeps P r \<Longrightarrow> (\<And>st. P st \<Longrightarrow> Q st) \<Longrightarrow> keeps Q r"
  by (cases r) simp_all

lemma keeps_refused [simp]: "P st \<Longrightarrow> keeps P (refused_or_failed e st)"
  by (simp add: refused_or_failed_def)

lemma sound_Suc: "sound H k st \<Longrightarrow> sound H (Suc k) st"
  by (simp add: sound_def)

lemma sound_coupled:
  assumes "sound H k st"
  obtains amt hist where "coupled amt hist (ch_sim st, ch_db st)"
  using assms sys_reachable_coupled [of "(ch_sim st, ch_db st)"] unfolding sound_def by blast

lemma sound_steps:
  assumes "sound H k st" and run: "steps (ch_sim st, ch_db st) (s, d)"
    and "modest H s" "sm_next_deposit s = sm_next_deposit (ch_sim st)"
  shows "sound H k (st\<lparr>ch_sim := s, ch_db := d\<rparr>)"
proof -
  obtain amt hist where "coupled amt hist (ch_sim st, ch_db st)" by (rule sound_coupled [OF assms(1)])
  from steps_grow [OF run this] have "grows (ch_db st) d" by simp
  then have "answered (ch_db st) q \<Longrightarrow> answered d q" for q unfolding answered_def using answered_grows by blast
  then show ?thesis using assms steps_reachable [OF run] by (simp add: sound_def)
qed

lemma sound_store:
  assumes "sound H k st" and "steps (ch_sim st, ch_db st) (ch_sim st, d)"
  shows "sound H k (st\<lparr>ch_db := d\<rparr>)"
proof -
  have "modest H (ch_sim st)" using assms(1) by (simp add: sound_def)
  from sound_steps [OF assms this refl] show ?thesis by simp
qed

lemmas sound_step = sound_store [OF _ steps_one]

section \<open>The operations\<close>

lemma pick_market_sound:
  assumes "sound H k st" and "pick_market dr st = Inr (market, st')"
  shows "sound H k st'"
proof (cases "st' = st")
  case False
  then obtain d where d: "SeedMarket market (question (Suc (ch_market st))) (150000 + int (Intn (cd_mark dr) 700000)) (ch_db st) = Inr d"
    "st' = st\<lparr>ch_market := Suc (ch_market st), ch_db := d\<rparr>"
    using assms(2) by (auto simp: pick_market_def Let_def split: if_splits sum.splits)
  from sound_step [OF assms(1) sys_step.seed [OF d(1)]] show ?thesis by (simp add: d(2) sound_def)
qed (use assms in simp)

lemma Intn_less: "0 < n \<Longrightarrow> Intn raw n < n"
  by (simp add: Intn_def)

lemma chaos_deposit_sound:
  assumes "sound H k st"
  shows "keeps (sound H (Suc k)) (chaos_deposit dr user st)"
proof -
  let ?a = "int (1 + Intn (cd_amount dr) 500) * One"
  have a: "?a \<le> 500 * One" "int64 ?a" using Intn_less [of 500 "cd_amount dr"] by (simp_all add: One_def int64_def)
  have "sys_reachable (snd (Deposit user ?a (ch_sim st)), ch_db st)"
    using assms sys_reachable.step sys_step.chain_deposit [OF a(2)] by (auto simp: sound_def)
  then show ?thesis using assms modest_Deposit [OF _ a(1), of H "ch_sim st" user]
    by (simp add: chaos_deposit_def sound_def)
qed

lemma chaos_withdraw_sound:
  assumes st: "sound H k st" and dr: "lawful_chaos dr" and user: "user \<noteq> []"
  shows "keeps (sound H k) (chaos_withdraw dr user st)"
proof -
  define amt where "amt = int (1 + Intn (cd_amount dr) 200) * One"
  define key where "key = request_key (cd_index dr) user"
  have a: "int64 amt" using Intn_less [of 200 "cd_amount dr"] by (simp add: amt_def One_def int64_def)
  have nid: "fresh_id (cd_nid dr)" using dr by (simp add: lawful_chaos_def)
  obtain am hist where c: "coupled am hist (ch_sim st, ch_db st)" by (rule sound_coupled [OF st])
  have w: "chaos_withdraw dr user st = (case app_RequestWithdraw (cd_nid dr) (cd_ntid dr) user amt key (cd_now dr) (ch_sim st) (ch_db st) of
      Inl e \<Rightarrow> refused_or_failed e st | Inr (x, d) \<Rightarrow> Going (st\<lparr>ch_db := d, ch_keys := ch_keys st @ [(key, user, amt)]\<rparr>))"
    by (simp only: chaos_withdraw_def Let_def amt_def key_def)
  show ?thesis
  proof (cases "app_RequestWithdraw (cd_nid dr) (cd_ntid dr) user amt key (cd_now dr) (ch_sim st) (ch_db st)")
    case (Inr y)
    obtain i rep d where y: "y = ((i, rep), d)" by (metis prod.collapse)
    have "answered_by d i (key, user, amt)"
      by (rule accepted_answered [OF Inr [unfolded y] coupledD(2) [OF c] _ user nid a]) (simp add: key_def request_key_def)
    then have "answered d (key, user, amt)" unfolding answered_def by blast
    moreover have "sound H k (st\<lparr>ch_db := d\<rparr>)"
      by (rule sound_step [OF st sys_step.withdraw [OF nid a Inr [unfolded y]]])
    ultimately show ?thesis by (simp add: w Inr y sound_def)
  qed (simp add: w st)
qed

lemma chaos_op_sound:
  assumes st: "sound H k st" and dr: "lawful_chaos dr" and user: "user \<noteq> []"
  shows "keeps (sound H (Suc k)) (chaos_op dr user market st)"
proof -
  have later: "keeps (sound H (Suc k)) r" if "keeps (sound H k) r" for r
    using that by (rule keeps_mono) (rule sound_Suc)
  have store: "keeps (sound H k) (Going (st\<lparr>ch_db := d\<rparr>))" if "sys_step (ch_sim st, ch_db st) (ch_sim st, d)" for d
    using sound_step [OF st that] by simp
  have "keeps (sound H k) (chaos_open dr user market st)"
    using st store sys_step.open_position by (auto simp: chaos_open_def Let_def split: sum.splits prod.splits)
  moreover have "keeps (sound H k) (chaos_close dr st)"
    using st store sys_step.close_position by (auto simp: chaos_close_def split: option.splits sum.splits prod.splits)
  moreover have "keeps (sound H k) (chaos_settle dr market st)"
    using st store sys_step.settlement [of "cd_nid dr"] dr
    by (auto simp: chaos_settle_def Let_def lawful_chaos_def split: sum.splits prod.splits)
  moreover have "keeps (sound H k) (chaos_replay dr st)"
    using st chaos_replay_quiet [of st dr] by (simp add: sound_def)
  moreover have "keeps (sound H k) (chaos_prices dr st)"
    using sound_store [OF st PriceTick_steps] by (auto simp: chaos_prices_def split: option.splits)
  ultimately show ?thesis
    using chaos_deposit_sound [OF st] chaos_withdraw_sound [OF assms] later by (simp add: chaos_op_def Let_def)
qed

lemma chaos_mine_sound:
  assumes st: "sound H k st" and fresh: "drawn_hash dr \<notin> H"
  shows "sound (insert (drawn_hash dr) H) k (chaos_mine dr st)"
proof -
  have m: "modest H (ch_sim st)" using st by (simp add: sound_def)
  have big: "modest (insert (drawn_hash dr) H) (ch_sim st)" using m by (auto simp: modest_def)
  have "sys_step (ch_sim st, ch_db st) (Mine (cd_block dr) (ch_sim st), ch_db st)"
    using modest_fresh [OF m fresh] by (intro sys_step.mine) (simp add: drawn_hash_def)
  then have "sys_reachable (Mine (cd_block dr) (ch_sim st), ch_db st)"
    using st sys_reachable.step by (auto simp: sound_def)
  then show ?thesis using st big modest_Mine [OF m, of "cd_block dr"]
    by (auto simp: chaos_mine_def sound_def drawn_hash_def)
qed

section \<open>The workers\<close>

lemma run_worker_sound:
  assumes st: "sound H k st" and dr: "lawful_chaos dr"
    and res: "run_worker dr j (ch_sim st, ch_db st) = (e, s, d)"
  shows "sound H k (st\<lparr>ch_sim := s, ch_db := d\<rparr>)"
proof -
  obtain amt hist where c: "coupled amt hist (ch_sim st, ch_db st)" by (rule sound_coupled [OF st])
  have m: "modest H (ch_sim st)" using st by (simp add: sound_def)
  have "steps (ch_sim st, ch_db st) (s, d) \<and> modest H s \<and> sm_next_deposit s = sm_next_deposit (ch_sim st)"
  proof (cases j)
    case Outbox
    with res have t: "OutboxTick (cd_now dr) (cd_outbox dr) (ch_sim st, ch_db st) =
        (fst (OutboxTick (cd_now dr) (cd_outbox dr) (ch_sim st, ch_db st)), s, d)"
      by (simp add: run_worker_def prod_eq_iff)
    from OutboxTick_steps [OF t] modest_OutboxTick [OF m c t] show ?thesis by simp
  next
    case Inbox
    with res m InboxTick_steps [of "cd_gen dr" "cd_now dr" "cd_inbox dr" "ch_sim st" "ch_db st" _ d, OF _ c] dr
    show ?thesis by (auto simp: run_worker_def lawful_chaos_def split: prod.splits)
  next
    case Resolver
    obtain r where t: "ResolverTick (cd_gen dr) (cd_gens dr) (cd_now dr) (ch_sim st, ch_db st) = (r, s, d)"
      using res Resolver by (auto simp: run_worker_def split: prod.splits)
    from ResolverTick_steps [OF t c] modest_resolve_all [OF _ m] t show ?thesis by (auto simp: ResolverTick_def)
  next
    case Liquidator
    with res m LiquidatorTick_steps show ?thesis by (auto simp: run_worker_def split: prod.splits)
  next
    case EscrowWorker
    with res m EscrowTick_steps [OF _ c] dr show ?thesis
      by (auto simp: run_worker_def lawful_chaos_def split: prod.splits sum.splits)
  qed
  then show ?thesis using sound_steps [OF st] by simp
qed

lemma run_workers_sound: "sound H k st \<Longrightarrow> lawful_chaos dr \<Longrightarrow> keeps (sound H k) (run_workers dr js st)"
proof (induction js arbitrary: st)
  case (Cons j js)
  obtain e s d where r: "run_worker dr j (ch_sim st, ch_db st) = (e, s, d)" by (metis prod.collapse)
  from run_worker_sound [OF Cons.prems r] Cons.IH Cons.prems(2) show ?case
    by (simp add: r Let_def split: option.split)
qed simp

lemma chaos_iteration_sound:
  assumes st: "sound H k st" and dr: "lawful_chaos dr" and fresh: "drawn_hash dr \<notin> H"
  shows "keeps (sound (insert (drawn_hash dr) H) (Suc k)) (chaos_iteration users dr st)"
proof (cases "pick_market dr st")
  case (Inr y)
  obtain market st1 where y: "y = (market, st1)" by (metis surj_pair)
  let ?user = "user_name (Intn (cd_user dr) users)"
  have "keeps (sound H (Suc k)) (chaos_op dr ?user market st1)"
    by (rule chaos_op_sound [OF pick_market_sound [OF st Inr [unfolded y]] dr]) (simp add: user_name_def)
  then have "keeps (sound (insert (drawn_hash dr) H) (Suc k))
      (chaos_bind (chaos_op dr ?user market st1) (\<lambda>st2. run_workers dr (picked_workers dr) (chaos_mine dr st2)))"
    by (rule keeps_bind) (intro run_workers_sound chaos_mine_sound fresh dr)
  then show ?thesis by (simp add: chaos_iteration_def Inr y)
qed (simp add: chaos_iteration_def)

section \<open>The run\<close>

definition only_chain_trouble :: "violation list \<Rightarrow> bool" where
  "only_chain_trouble vs \<longleftrightarrow> list_all (\<lambda>v. vi_id v = ''I2'' \<or> vi_id v = ''I7'') vs"

lemma chain_checks: "only_chain_trouble (check_I2 r @ check_I7 d)"
proof -
  have id: "vi_id (broken i t) = i" for i t by (simp add: broken_def)
  then show ?thesis unfolding only_chain_trouble_def check_I2_def check_I7_def by (auto simp: list_all_iff)
qed

text \<open>A result that blames neither the ledger nor the idempotency keys.\<close>

fun clean :: "chaos_result \<Rightarrow> bool" where
  "clean (ChaosReplayed i key) = False"
| "clean (ChaosViolated i vs) = only_chain_trouble vs"
| "clean _ = True"

definition clean_so_far :: "chaos_result + chaos \<Rightarrow> bool" where
  "clean_so_far r = (case r of Inl res \<Rightarrow> clean res | Inr st \<Rightarrow> sys_reachable (ch_sim st, ch_db st))"

lemma clean_so_far_simps [simp]:
  "clean_so_far (Inl res) = clean res" "clean_so_far (Inr st) = sys_reachable (ch_sim st, ch_db st)"
  by (simp_all add: clean_so_far_def)

lemma sound_verify:
  assumes st: "sound H k st" and dr: "lawful_chaos dr" and k: "k \<le> 18446744073"
    and res: "Verify (cd_gen dr) (id_hashes (cd_inbox dr)) stamp now False (ch_sim st) (ch_db st) = (x, d)"
  shows "sound H k (st\<lparr>ch_db := d\<rparr>)" and "x = Inr vs \<Longrightarrow> only_chain_trouble vs"
proof -
  obtain amt hist where c: "coupled amt hist (ch_sim st, ch_db st)" by (rule sound_coupled [OF st])
  have run: "steps (ch_sim st, ch_db st) (ch_sim st, d)"
    using Verify_steps [OF c, of "cd_gen dr" "id_hashes (cd_inbox dr)" stamp now False] res by simp
  show "sound H k (st\<lparr>ch_db := d\<rparr>)" by (rule sound_store [OF st run])
  have reach: "sys_reachable (ch_sim st, ch_db st)" using st by (simp add: sound_def)
  have "sum_list (map ev_amount (FinalizedFacts ''deposit'' (ch_sim st))) \<le> 500 * One * sm_next_deposit (ch_sim st)"
    by (rule modest_deposits [of H]) (use st in \<open>simp_all add: sound_def\<close>)
  also have "\<dots> \<le> 9223372036854775807" using st k by (simp add: sound_def One_def)
  finally have cap: "sum_list (map ev_amount (FinalizedFacts ''deposit'' (ch_sim st))) \<le> 9223372036854775807" .
  assume "x = Inr vs"
  with res have v: "Verify (cd_gen dr) (id_hashes (cd_inbox dr)) stamp now False (ch_sim st) (ch_db st) = (Inr vs, d)" by simp
  have ord: "set os \<subseteq> set (id_hashes (cd_inbox dr) os)" for os using dr by (simp add: lawful_chaos_def)
  from verifier_verdict [OF reach ord cap v] obtain r where "vs = check_I2 r @ check_I7 d" by blast
  then show "only_chain_trouble vs" by (simp add: chain_checks)
qed

lemma run_iterations_sound:
  assumes "sound H k st" and "\<forall>dr \<in> set drs. lawful_chaos dr" and "distinct (map drawn_hash drs)"
    and "H \<inter> drawn_hash ` set drs = {}" and "k + length drs \<le> 18446744073"
  shows "clean_so_far (run_iterations users every i drs st)"
  using assms
proof (induction drs arbitrary: H k st i)
  case Nil
  then show ?case by (simp add: sound_def)
next
  case (Cons dr drs)
  let ?H = "insert (drawn_hash dr) H"
  have dr: "lawful_chaos dr" "drawn_hash dr \<notin> H" using Cons.prems(2,4) by auto
  have rest: "\<forall>x \<in> set drs. lawful_chaos x" "distinct (map drawn_hash drs)" "?H \<inter> drawn_hash ` set drs = {}"
    "Suc k + length drs \<le> 18446744073" using Cons.prems(2-5) by auto
  note one = chaos_iteration_sound [OF Cons.prems(1) dr, of users]
  show ?case
  proof (cases "chaos_iteration users dr st")
    case (Going st1)
    with one have s1: "sound ?H (Suc k) st1" by simp
    obtain x d where v: "Verify (cd_gen dr) (id_hashes (cd_inbox dr)) (cd_stamp dr) (cd_now dr) False (ch_sim st1) (ch_db st1) = (x, d)"
      by (metis surj_pair)
    have k: "Suc k \<le> 18446744073" using rest(4) by simp
    note sv = sound_verify [OF s1 dr(1) k v]
    from Cons.IH [OF s1 rest] Cons.IH [OF sv(1) rest] sv(2) show ?thesis
      by (auto simp: Going v split: sum.split)
  next
    case (Replayed key)
    with one show ?thesis by simp
  qed simp
qed

lemma chaos_markets_steps: "chaos_markets is mark d = Inr d' \<Longrightarrow> steps (s, d) (s, d')"
proof (induction "is" arbitrary: d)
  case (Cons i js)
  then obtain d1 where d1: "SeedMarket (market_name i) (question i) (200000 + int (Intn (mark i) 600000)) d = Inr d1"
    "chaos_markets js mark d1 = Inr d'" by auto
  show ?case by (rule steps_first [OF sys_step.seed [OF d1(1)] Cons.IH [OF d1(2)]])
qed simp

lemma chaos_start_sound:
  assumes "chaos_markets is mark schema_db = Inr d"
  shows "sound {} 0 \<lparr>ch_sim = New f statePath None, ch_db = d, ch_market = n, ch_keys = []\<rparr>"
  using steps_reachable [OF chaos_markets_steps [OF assms] sys_reachable.boot] modest_New
  by (simp add: sound_def) (simp add: New_def Let_def)

lemma RunChaos_clean:
  assumes drs: "\<forall>dr \<in> set drs. lawful_chaos dr" "distinct (map drawn_hash drs)" "length drs \<le> 18446744073"
  shows "clean (RunChaos users marks every f statePath mark drs rds fin)"
proof (cases "chaos_markets [0..<positive_or marks 12] mark schema_db")
  case (Inr d0)
  let ?st = "\<lparr>ch_sim = New (if fa_confirms f = 0 then DefaultFaults else f) statePath None, ch_db = d0, ch_market = positive_or marks 12, ch_keys = []\<rparr>"
  have "clean_so_far (run_iterations (positive_or users 8) (positive_or every 25) 1 drs ?st)"
    by (rule run_iterations_sound [OF chaos_start_sound [OF Inr]]) (use drs in simp_all)
  then show ?thesis by (auto simp: RunChaos_def Inr split: sum.split prod.split quiesce_result.split)
qed (simp add: RunChaos_def)

end
