(* ===== verification/ChaosClaims.thy ===== *)
theory ChaosClaims
  imports ChaosRuns SystemExample
begin

text \<open>
  What a client's retry finds, whatever happened in between, and what the fault harness can report.
\<close>

section \<open>Retries\<close>

text \<open>
  C31: once a withdrawal request was accepted, the same key, user and amount get the same intent from
  the store and change nothing, after any transactions of the engine, any mining, faults and
  reorganisations, and even when withdrawals are halted or the user is frozen by then.
\<close>

theorem accepted_request_is_remembered:
  assumes reach: "sys_reachable (s, d)"
    and res: "app_RequestWithdraw nid ntid user amt key now s d = Inr ((i, rep), d1)"
    and fresh: "fresh_id nid" "int64 amt" "key \<noteq> []" "user \<noteq> []"
    and later: "steps (s, d1) (s', d')"
  shows "app_RequestWithdraw nid' ntid' user amt key now' s' d' = Inr ((i, True), d')"
proof -
  obtain am hist where c: "coupled am hist (s, d)" using sys_reachable_coupled [OF reach] by blast
  have a: "answered_by d1 i (key, user, amt)"
    by (rule accepted_answered [OF res coupledD(2) [OF c] fresh(3,4,1,2)])
  from steps_coupled [OF steps_one [OF sys_step.withdraw [OF fresh(1,2) res]] c]
  obtain am1 new where "coupled am1 (hist @ new) (s, d1)" by blast
  from steps_grow [OF later this] answered_grows a have "answered_by d' i (key, user, amt)" by auto
  then show ?thesis by (rule replay_of_answered)
qed

definition ex_credit :: "string \<Rightarrow> stored_event" where
  "ex_credit h = \<lparr>se_id = ''dep-1@'' @ h, se_fact = ''dep-1'', se_seq = 1, se_kind = ''deposit'',
     se_user = ''ann'', se_amount = 100, se_market = [], se_height = 1, se_hash = h, se_status = EvReceived\<rparr>"

definition ex_nid :: string where "ex_nid = NewID (replicate 16 0)"

lemma ex_credit_logged: "sm_log ex_live \<noteq> []" "stored_of (sm_log ex_live ! 0) = ex_credit (block_hash 1)" "sm_head ex_live = 2"
  by (simp_all add: ex_live_def ex_chain_defs sim_evals stored_of_def ex_credit_def ex_digits)

lemma ex_credit_recorded: "recorded (snd (RecordEvent (ex_credit h) schema_db)) (ex_credit h)"
  by (simp add: recorded_def RecordEvent_def schema_db_def ex_credit_def read_event_def event_payload_def
    json_str_def json_int_def)

lemma ex_accepts: "case ApplyDeposit ''t1'' (ex_credit h) (snd (RecordEvent (ex_credit h) schema_db)) of Inl e \<Rightarrow> False
    | Inr d \<Rightarrow> (case RequestWithdraw ex_nid ''t3'' ''ann'' 30 ''k1'' (2 + WithdrawExpiryBlocks) 0 d of Inl e \<Rightarrow> False | Inr x \<Rightarrow> True)"
  by code_simp

lemma ex_accepted:
  obtains d i rep d1 where "sys_reachable (ex_live, d)"
    "app_RequestWithdraw ex_nid ''t3'' ''ann'' 30 ''k1'' 0 ex_live d = Inr ((i, rep), d1)"
proof -
  let ?e = "ex_credit (block_hash 1)"
  let ?d0 = "snd (RecordEvent ?e schema_db)"
  obtain d where d: "ApplyDeposit ''t1'' ?e ?d0 = Inr d"
    "case RequestWithdraw ex_nid ''t3'' ''ann'' 30 ''k1'' (2 + WithdrawExpiryBlocks) 0 d of Inl e \<Rightarrow> False | Inr x \<Rightarrow> True"
    using ex_accepts [of "block_hash 1"] by (auto split: sum.splits)
  have "sys_step (ex_live, schema_db) (ex_live, ?d0)"
    using sys_step.record_event [of "sm_log ex_live ! 0" ex_live ?e schema_db] ex_credit_logged by simp
  then have r0: "sys_reachable (ex_live, ?d0)" by (rule sys_reachable.step [OF ex_live_reachable])
  have "sys_step (ex_live, ?d0) (ex_live, d)"
    by (rule sys_step.deposit [OF disjI1 [OF ex_credit_recorded] _ d(1)]) (simp add: ex_credit_def)
  then have "sys_reachable (ex_live, d)" by (rule sys_reachable.step [OF r0])
  then show ?thesis using d(2) that
    by (auto simp: app_RequestWithdraw_def VaultState_def ex_credit_logged Let_def split: sum.splits)
qed

theorem accepted_request_is_remembered_witness:
  "\<exists>i d. app_RequestWithdraw ''i2'' ''t4'' ''ann'' 30 ''k1'' 9 ex_live (Freeze ''*'' ''halt'' d) = Inr ((i, True), Freeze ''*'' ''halt'' d)"
proof -
  obtain d i rep d1 where w: "sys_reachable (ex_live, d)"
    "app_RequestWithdraw ex_nid ''t3'' ''ann'' 30 ''k1'' 0 ex_live d = Inr ((i, rep), d1)" by (rule ex_accepted)
  have "fresh_id ex_nid" "int64 30" unfolding fresh_id_def ex_nid_def int64_def by auto
  from accepted_request_is_remembered [OF w this _ _ steps_one [OF sys_step.freeze], of "''i2''" "''t4''" 9 "''*''" "''halt''"]
  show ?thesis by auto
qed

section \<open>The fault harness\<close>




end
