(* ===== verification/Commands.thy ===== *)
theory Commands
  imports Serve
begin

text \<open>
  The \<open>verify\<close> command of \<open>cmd/pmr/main.go\<close>. It opens the chain from the state file it is given, or
  an empty one when there is no file, lets everything land when asked to, and runs the verifier, which
  writes: what the chain it sees does not hold is unwound.
\<close>

section \<open>The command\<close>

text \<open>The printed form of the violations and whether the command succeeds.\<close>

datatype verify_exit = VerifyFailed error | VerifyNotQuiet | VerifyDone string bool

definition cmdVerify :: "bool \<Rightarrow> bool \<Rightarrow> round_draws list \<Rightarrow> (string \<Rightarrow> string) \<Rightarrow> (string list \<Rightarrow> string list) \<Rightarrow>
    string \<Rightarrow> int \<Rightarrow> string \<Rightarrow> persisted option \<Rightarrow> db \<Rightarrow> verify_exit \<times> db" where
  "cmdVerify strict settle rds gen ord stamp now statePath disk d =
    (let s = New NoFaults statePath disk in
     case (if settle then Quiesce rds (s, d) else (Quiet, s, d)) of
       (QuiesceFailed e, s1, d1) \<Rightarrow> (VerifyFailed e, d1)
     | (NotQuiesced, s1, d1) \<Rightarrow> (VerifyNotQuiet, d1)
     | (Quiet, s1, d1) \<Rightarrow>
       (case Verify gen ord stamp now (strict \<or> settle) s1 d1 of
          (Inl e, d2) \<Rightarrow> (VerifyFailed e, d2)
        | (Inr vs, d2) \<Rightarrow> (VerifyDone (Format vs) (vs = []), d2)))"

section \<open>Against an empty chain\<close>

lemma New_is_empty: "sm_receipts (New f path None) = Map.empty" "sm_log (New f path None) = []"
  by (simp_all add: New_def Let_def)

lemma nothing_live: "\<not> fact_live (New f path None) q"
  by (simp add: fact_live_def TxStatus_def New_is_empty no_status_def Let_def)

lemma scan_dead:
  assumes "\<And>q. \<not> fact_live s q" and "scan_facts s fs d = (os, d')"
  shows "d' = d \<and> cf_hash ` set fs \<subseteq> set os"
  using assms(2)
proof (induction fs arbitrary: os d')
  case (Cons q fs)
  then show ?case using assms(1) by (fastforce split: prod.splits)
qed simp

lemma revert_blocks_facts:
  assumes "revert_blocks gen hs d = (None, d')" and "ledger_inv d" "fact_inv d"
    and "q \<in> set (chain_facts d')" "\<not> cf_reverted q"
  shows "q \<in> set (chain_facts d) \<and> cf_hash q \<notin> set hs"
  using assms(1-3)
proof (induction hs arbitrary: d)
  case Nil
  with assms(4) show ?case by simp
next
  case (Cons h hs)
  obtain n e d1 where rb: "RevertBlock gen h d = ((n, e), d1)" by (metis prod.collapse)
  with Cons.prems(1) have r: "e = None" "revert_blocks gen hs d1 = (None, d')" by (auto split: option.splits)
  note sp = RevertBlock_spec [OF Cons.prems(2,3) rb]
  have "q \<in> set (chain_facts d1) \<and> cf_hash q \<notin> set hs" by (rule Cons.IH [OF r(2) sp(1,2)])
  then show ?case using sp(5) [OF r(1)] assms(5) by (auto simp: set_update_where revert_fact_def split: if_splits)
qed

lemma settle_empty:
  assumes "settleFacts gen ord (New f path None) d = (None, d')" and inv: "ledger_inv d" "fact_inv d"
    and ord: "\<And>os. set os \<subseteq> set (ord os)" and q: "q \<in> set (chain_facts d')" "\<not> cf_reverted q"
  shows "q \<in> set (chain_facts d) \<and> cf_finalized q"
proof -
  obtain os d1 where scan: "scan_facts (New f path None) (ProvisionalFacts d) d = (os, d1)" by (metis surj_pair)
  have s: "d1 = d" "cf_hash ` set (ProvisionalFacts d) \<subseteq> set os" using scan_dead [OF nothing_live scan] by auto
  have "revert_blocks gen (ord os) d = (None, d')" using assms(1) scan s(1) by (simp add: settleFacts_def)
  from revert_blocks_facts [OF this inv q] have c: "q \<in> set (chain_facts d)" "cf_hash q \<notin> set (ord os)" by auto
  then have "q \<notin> set (ProvisionalFacts d)" using s(2) ord [of os] by auto
  with c(1) q(2) show ?thesis by (simp add: ProvisionalFacts_def)
qed

lemma Reconcile_empty_facts:
  assumes "Reconcile gen ord stamp (New f path None) d = (Inr r, d')"
  shows "\<exists>d1. settleFacts gen ord (New f path None) d = (None, d1) \<and> chain_facts d' = chain_facts d1"
proof -
  have "missing_facts (New f path None) x = []" for x by (simp add: missing_facts_def FinalizedFacts_def New_is_empty)
  then show ?thesis using assms
    by (auto simp: Reconcile_def finish_report_def insert_reconciliation_def Freeze_def Let_def split: prod.splits option.splits sum.splits)
qed

lemma Verify_reconciles:
  assumes "Verify gen ord stamp now strict s d = (Inr vs, d')"
  shows "\<exists>r. Reconcile gen ord stamp s d = (Inr r, d')"
  using assms ReconcileEscrow_reads [of gen now s]
  by (auto simp: Verify_def split: sum.splits prod.splits)

text \<open>
  Every credit the store does not hold as final is taken back, whatever the real chain says.
\<close>

lemma cmdVerify_unwinds:
  assumes "cmdVerify strict False rds gen ord stamp now path None d = (VerifyDone txt ok, d')"
    and "ledger_inv d" "fact_inv d" and "\<And>os. set os \<subseteq> set (ord os)"
  shows "ProvisionalFacts d' = []"
    and "q \<in> set (chain_facts d') \<Longrightarrow> \<not> cf_reverted q \<Longrightarrow> q \<in> set (chain_facts d) \<and> cf_finalized q"
proof -
  obtain vs where "Verify gen ord stamp now strict (New NoFaults path None) d = (Inr vs, d')"
    using assms(1) by (auto simp: cmdVerify_def Let_def split: prod.splits sum.splits)
  then obtain r where "Reconcile gen ord stamp (New NoFaults path None) d = (Inr r, d')" using Verify_reconciles by blast
  then obtain d1 where d1: "settleFacts gen ord (New NoFaults path None) d = (None, d1)" "chain_facts d' = chain_facts d1"
    using Reconcile_empty_facts by blast
  have keep: "q \<in> set (chain_facts d) \<and> cf_finalized q" if "q \<in> set (chain_facts d')" "\<not> cf_reverted q" for q
    using settle_empty [OF d1(1) assms(2-4)] that by (simp add: d1(2))
  then show "q \<in> set (chain_facts d') \<Longrightarrow> \<not> cf_reverted q \<Longrightarrow> q \<in> set (chain_facts d) \<and> cf_finalized q" .
  have "filter (\<lambda>q. \<not> cf_finalized q \<and> \<not> cf_reverted q) (chain_facts d') = []"
    using keep by (auto simp: filter_empty_conv)
  then show "ProvisionalFacts d' = []" by (simp add: ProvisionalFacts_def)
qed

end
