(* ===== verification/CommandClaims.thy ===== *)
theory CommandClaims
  imports Commands Example
begin

text \<open>What the \<open>verify\<close> command does when it is not given the chain's state file.\<close>

text \<open>
  C37: \<open>pmr verify\<close> without the chain's state file is no mere check. It compares the store with an empty
  chain, so a run that ends without a database error has taken back every credit that is not yet
  marked final, in any reachable store: afterwards no provisional credit is left, and each
  credit that still counts was final before.
\<close>

theorem verify_without_chain_unwinds_deposits:
  assumes "store_reachable d" and "\<And>os. set os \<subseteq> set (ord os)"
    and "cmdVerify strict False rds gen ord stamp now path None d = (VerifyDone out ok, d')"
  shows "ProvisionalFacts d' = [] \<and>
    {q \<in> set (chain_facts d'). \<not> cf_reverted q} \<subseteq> {q \<in> set (chain_facts d). cf_finalized q}"
  using cmdVerify_unwinds [OF assms(3) store_invD(4,2) [OF store_reachable_inv [OF assms(1)]] assms(2)] by blast

lemma ex_verify: "case cmdVerify False False [] (\<lambda>_. ''t9'') (\<lambda>os. os) ''now'' 0 [] None ex_funded of
    (VerifyDone out ok, d') \<Rightarrow> True | _ \<Rightarrow> False"
  by code_simp

theorem verify_without_chain_unwinds_deposits_witness:
  "\<exists>out ok d'. cmdVerify False False [] (\<lambda>_. ''t9'') (\<lambda>os. os) ''now'' 0 [] None ex_funded = (VerifyDone out ok, d') \<and>
     length (ProvisionalFacts ex_funded) = 1 \<and> ProvisionalFacts d' = []"
proof -
  obtain out ok d' where v: "cmdVerify False False [] (\<lambda>_. ''t9'') (\<lambda>os. os) ''now'' 0 [] None ex_funded = (VerifyDone out ok, d')"
    using ex_verify by (auto split: prod.splits verify_exit.splits)
  have "length (ProvisionalFacts ex_funded) = 1" by code_simp
  with v verify_without_chain_unwinds_deposits [OF ex_reachable(3) subset_refl v] show ?thesis by blast
qed

end
