(* ===== verification/Bench.thy ===== *)
theory Bench
  imports Chaos Doubles
begin

text \<open>
  The load run of \<open>internal/app/bench.go\<close>: the guarded publications of the price phase, the funding of
  the hot accounts through the chain, the writers that fight over them in any interleaving, and the
  reconciliation passes. Durations are inputs; only what the run does and how it summarises them is here.
\<close>

section \<open>Latencies\<close>

record latency =
  la_n :: nat
  la_p50 :: int
  la_p99 :: int
  la_max :: int

text \<open>The index of a quantile is a product of doubles, truncated.\<close>

definition quantile :: "int list \<Rightarrow> rat \<Rightarrow> int" where
  "quantile d q =
    (let i = nat \<lfloor>double (q * of_nat (length d))\<rfloor>
     in d ! (if i \<ge> length d then length d - 1 else i))"

definition summarise :: "int list \<Rightarrow> latency" where
  "summarise d =
    (if d = [] then \<lparr>la_n = 0, la_p50 = 0, la_p99 = 0, la_max = 0\<rparr>
     else let s = sort d in
       \<lparr>la_n = length s, la_p50 = quantile s (1 / 2), la_p99 = quantile s (double (99 / 100)), la_max = s ! (length s - 1)\<rparr>)"

section \<open>Prices\<close>

text \<open>Sixteen workers share the markets by consecutive ranges.\<close>

definition share :: "nat \<Rightarrow> nat \<Rightarrow> nat list" where
  "share n w = (let per = (n + 16 - 1) div 16; lo = w * per; hi = min ((w + 1) * per) n in if lo \<ge> hi then [] else [lo..<hi])"

text \<open>
  The draws of one tick of one market: whether the phase still runs, the coin for a stale tick and its
  number, the price, and whether the feed takes it.
\<close>

record tick_draws =
  td_runs :: bool
  td_coin :: nat
  td_seq :: nat
  td_price :: nat
  td_taken :: bool

record bench_market =
  bm_latest :: int
  bm_stale :: nat
  bm_published :: "(int \<times> int) list"

definition bench_tick :: "nat \<Rightarrow> tick_draws \<Rightarrow> bench_market \<Rightarrow> bench_market" where
  "bench_tick t dr m =
    (if \<not> td_runs dr then m
     else let sq = (if t > 0 \<and> Intn (td_coin dr) 20 = 0 then int (Intn (td_seq dr) t + 1) else int (t + 1))
       in if sq \<le> bm_latest m then m\<lparr>bm_stale := bm_stale m + 1\<rparr>
          else if \<not> td_taken dr then m
          else m\<lparr>bm_latest := sq, bm_published := bm_published m @ [(sq, 100000 + int (Intn (td_price dr) 800000))]\<rparr>)"

fun bench_ticks :: "nat \<Rightarrow> tick_draws list \<Rightarrow> bench_market \<Rightarrow> bench_market" where
  "bench_ticks t [] m = m"
| "bench_ticks t (dr # drs) m = bench_ticks (Suc t) drs (bench_tick t dr m)"

section \<open>Hot accounts\<close>

definition hot_name :: "nat \<Rightarrow> string" where
  "hot_name i = ''bench'' @ pad 2 i"

definition hot_users :: "nat \<Rightarrow> string list" where
  "hot_users n = map hot_name [0..<n]"

definition bench_deposits :: "string list \<Rightarrow> sim \<Rightarrow> sim" where
  "bench_deposits hs s = fold (\<lambda>h s. snd (Deposit h (1000000 * One) s)) hs s"

text \<open>The rounds that mine and ingest, eight of them; the first error ends the run.\<close>

record fund_draws =
  fd_block :: mine_draws
  fd_gen :: "string \<Rightarrow> string"
  fd_now :: int
  fd_inbox :: inbox_draws

fun bench_rounds :: "fund_draws list \<Rightarrow> sim \<times> db \<Rightarrow> error option \<times> sim \<times> db" where
  "bench_rounds [] w = (None, w)"
| "bench_rounds (dr # drs) w =
    (case w of (s, d) \<Rightarrow>
     let s1 = Mine (fd_block dr) s
     in case InboxTick (fd_gen dr) (fd_now dr) (fd_inbox dr) s1 d of
          ((n, Some e), d1) \<Rightarrow> (Some e, s1, d1)
        | ((n, None), d1) \<Rightarrow> bench_rounds drs (s1, d1))"

definition funded :: "string list \<Rightarrow> db \<Rightarrow> bool" where
  "funded hs d \<longleftrightarrow> list_all (\<lambda>h. Balance d (AvailableAcct h) \<noteq> 0) hs"

section \<open>Writers\<close>

text \<open>One transfer: writer, number, the draws of the two accounts, of the second choice, and of the amount.\<close>

record write_draws =
  wd_writer :: nat
  wd_number :: nat
  wd_from :: nat
  wd_to :: nat
  wd_again :: nat
  wd_amount :: nat
  wd_ntid :: string

definition bench_transfer :: "string list \<Rightarrow> write_draws \<Rightarrow> transfer" where
  "bench_transfer hot dr =
    (let n = length hot;
         from = hot ! Intn (wd_from dr) n;
         to0 = hot ! Intn (wd_to dr) n;
         to = (if from = to0 then hot ! ((Intn (wd_again dr) n + 1) mod n) else to0);
         amt = int (1 + Intn (wd_amount dr) 100) * One
     in Transfer ''bench.transfer'' (''bench-'' @ digits (wd_writer dr) @ ''-'' @ digits (wd_number dr))
          [Leg (AvailableAcct from) (- amt), Leg (AvailableAcct to) amt])"

text \<open>The transfers in the order they commit; a refused one counts as a conflict.\<close>

fun bench_writes :: "string list \<Rightarrow> write_draws list \<Rightarrow> nat \<times> db \<Rightarrow> nat \<times> db" where
  "bench_writes hot [] w = w"
| "bench_writes hot (dr # drs) (n, d) =
    (case PostTx (wd_ntid dr) (bench_transfer hot dr) d of
       Inl e \<Rightarrow> bench_writes hot drs (Suc n, d)
     | Inr (x, d') \<Rightarrow> bench_writes hot drs (n, d'))"

section \<open>Reconciliation\<close>

fun bench_passes :: "nat \<Rightarrow> (string \<Rightarrow> string) \<Rightarrow> (string list \<Rightarrow> string list) \<Rightarrow> string \<Rightarrow> int \<Rightarrow> sim \<Rightarrow> db \<Rightarrow> error option \<times> db" where
  "bench_passes 0 gen ord stamp now s d = (None, d)"
| "bench_passes (Suc n) gen ord stamp now s d =
    (case Reconcile gen ord stamp s d of
       (Inl e, d1) \<Rightarrow> (Some e, d1)
     | (Inr r, d1) \<Rightarrow>
     (case ReconcileEscrow gen False now s d1 of
       (Inl e, d2) \<Rightarrow> (Some e, d2)
     | (Inr esc, d2) \<Rightarrow> bench_passes n gen ord stamp now s d2))"

text \<open>The run after the price phase: eight rounds of funding, the writers, two times five passes.\<close>

datatype bench_exit = BenchFailed error | BenchUnfunded | BenchDone nat

definition bench_run :: "int \<Rightarrow> fund_draws list \<Rightarrow> write_draws list \<Rightarrow> (string \<Rightarrow> string) \<Rightarrow> (string list \<Rightarrow> string list) \<Rightarrow>
    string \<Rightarrow> int \<Rightarrow> sim \<Rightarrow> db \<Rightarrow> bench_exit \<times> sim \<times> db" where
  "bench_run hotAccounts fds wds gen ord stamp now s d =
    (let hot = hot_users (positive_or hotAccounts 4) in
     case bench_rounds fds (bench_deposits hot s, d) of
       (Some e, s1, d1) \<Rightarrow> (BenchFailed e, s1, d1)
     | (None, s1, d1) \<Rightarrow>
         if \<not> funded hot d1 then (BenchUnfunded, s1, d1)
         else (case bench_writes hot wds (0, d1) of
           (conflicts, d2) \<Rightarrow>
             (case bench_passes 10 gen ord stamp now s1 d2 of
                (Some e, d3) \<Rightarrow> (BenchFailed e, s1, d3)
              | (None, d3) \<Rightarrow> (BenchDone conflicts, s1, d3))))"

section \<open>What the run keeps\<close>

lemma share_covers: "concat (map (share n) [0..<16]) = [0..<n]"
proof -
  let ?per = "(n + 16 - 1) div 16"
  have "concat (map (share n) [0..<k]) = [0..<min (k * ?per) n]" for k
  proof (induction k)
    case (Suc k)
    have "[0..<min (k * ?per) n] @ share n k = [0..<min (Suc k * ?per) n]"
    proof (cases "k * ?per < n")
      case True
      then have "[0..<min (Suc k * ?per) n] = [0..<k * ?per] @ [k * ?per..<min (Suc k * ?per) n]"
        using upt_add_eq_append [of 0 "k * ?per" "min (Suc k * ?per) n - k * ?per"] by simp
      with True show ?thesis by (auto simp: share_def Let_def)
    next
      case False
      then have "min (Suc k * ?per) n = n" "min (k * ?per) n = n" by auto
      with False show ?thesis by (simp add: share_def Let_def)
    qed
    with Suc show ?case by simp
  qed (simp add: min_def)
  moreover have "n \<le> 16 * ?per" by linarith
  ultimately show ?thesis by (simp add: min_absorb2)
qed

definition guarded :: "bench_market \<Rightarrow> bool" where
  "guarded m \<longleftrightarrow> sorted_wrt (<) (map fst (bm_published m)) \<and> (\<forall>p \<in> set (bm_published m). fst p \<le> bm_latest m)"

lemma bench_tick_guarded: "guarded m \<Longrightarrow> guarded (bench_tick t dr m)"
  by (fastforce simp: guarded_def bench_tick_def Let_def sorted_wrt_append)

lemma bench_ticks_guarded: "guarded m \<Longrightarrow> guarded (bench_ticks t drs m)"
  by (induction drs arbitrary: t m) (simp_all add: bench_tick_guarded)

lemma bench_ticks_count:
  "length (bm_published (bench_ticks t drs m)) + bm_stale (bench_ticks t drs m) \<le>
    length (bm_published m) + bm_stale m + length drs"
proof (induction drs arbitrary: t m)
  case (Cons dr drs)
  have "length (bm_published (bench_tick t dr m)) + bm_stale (bench_tick t dr m) \<le> length (bm_published m) + bm_stale m + 1"
    by (simp add: bench_tick_def Let_def)
  with Cons [of "Suc t" "bench_tick t dr m"] show ?case by simp
qed simp

text \<open>A transfer moves money between two of the hot accounts.\<close>

definition hot_total :: "string list \<Rightarrow> db \<Rightarrow> int" where
  "hot_total hot d = (\<Sum>h \<in> set hot. Balance d (AvailableAcct h))"

lemma bench_transfer_legs:
  assumes "hot \<noteq> []"
  obtains f u a where "t_legs (bench_transfer hot dr) = [Leg (AvailableAcct f) (- a), Leg (AvailableAcct u) a]"
    "f \<in> set hot" "u \<in> set hot" "0 < a" "a \<le> 100 * One"
proof -
  let ?n = "length hot"
  have n: "0 < ?n" using assms by simp
  then have hot: "hot ! Intn r ?n \<in> set hot" "hot ! ((Intn r ?n + 1) mod ?n) \<in> set hot" for r
    by (simp_all add: Intn_def)
  have "Intn (wd_amount dr) 100 < 100" by (simp add: Intn_def)
  then have "0 < int (1 + Intn (wd_amount dr) 100) * One" "int (1 + Intn (wd_amount dr) 100) * One \<le> 100 * One"
    by (simp_all add: One_def)
  then show ?thesis using hot that
    by (simp add: bench_transfer_def Let_def Transfer_def)
qed

lemma bench_write_conserves:
  assumes inv: "ledger_inv d" and hot: "hot \<noteq> []" and res: "PostTx (wd_ntid dr) (bench_transfer hot dr) d = Inr (x, d')"
  shows "ledger_inv d'" and "hot_total hot d' = hot_total hot d"
    and "a \<notin> AvailableAcct ` set hot \<Longrightarrow> Balance d' a = Balance d a"
proof -
  obtain f u n where legs: "t_legs (bench_transfer hot dr) = [Leg (AvailableAcct f) (- n), Leg (AvailableAcct u) n]"
    and fu: "f \<in> set hot" "u \<in> set hot" and n: "0 < n" "n \<le> 100 * One" by (rule bench_transfer_legs [OF hot])
  have i: "i64 n = n" "i64 (- n) = - n" using n by (simp_all add: One_def int64_def i64_id)
  have zero: "sum_list (map lg_amount (t_legs (bench_transfer hot dr))) = 0" unfolding legs by (simp add: Leg_def i)
  have tot: "leg_total (t_legs (bench_transfer hot dr)) a =
      (if a = AvailableAcct u then n else 0) - (if a = AvailableAcct f then n else 0)" for a
    unfolding legs by (simp add: leg_total_Leg i)
  have "leg_delta (t_legs (bench_transfer hot dr)) a =
      (if a = AvailableAcct u then n else 0) - (if a = AvailableAcct f then n else 0)" for a
    unfolding legs by (auto simp: leg_delta_def Leg_def i)
  then have ex: "leg_delta (t_legs (bench_transfer hot dr)) a = leg_total (t_legs (bench_transfer hot dr)) a" for a
    by (simp only: tot)
  show "ledger_inv d'" by (rule PostTx_inv_balanced [OF res inv zero ex])
  have bal: "d' = d \<or> (\<forall>a. Balance d' a = Balance d a + leg_total (t_legs (bench_transfer hot dr)) a)"
  proof -
    obtain j rep where "PostTx (wd_ntid dr) (bench_transfer hot dr) d = Inr ((j, rep), d')" using res by (cases x) auto
    moreover have "distinct (map ba_code (account_balances d))" using inv by (simp add: ledger_inv_def)
    ultimately show ?thesis by (cases rule: PostTx_cases) (auto simp: ex)
  qed
  show "Balance d' a = Balance d a" if "a \<notin> AvailableAcct ` set hot"
    using bal that fu by (auto simp: tot)
  have "(\<Sum>h \<in> set hot. (if AvailableAcct h = AvailableAcct u then n else 0) - (if AvailableAcct h = AvailableAcct f then n else 0)) = 0"
    using fu by (simp add: AvailableAcct_def sum_subtractf)
  with bal show "hot_total hot d' = hot_total hot d" by (auto simp: hot_total_def tot sum.distrib)
qed

lemma bench_writes_conserve:
  "bench_writes hot drs (n, d) = (n', d') \<Longrightarrow> ledger_inv d \<Longrightarrow> hot \<noteq> [] \<Longrightarrow>
    ledger_inv d' \<and> hot_total hot d' = hot_total hot d \<and> (\<forall>a. a \<notin> AvailableAcct ` set hot \<longrightarrow> Balance d' a = Balance d a)"
proof (induction drs arbitrary: n d)
  case (Cons dr drs)
  show ?case
  proof (cases "PostTx (wd_ntid dr) (bench_transfer hot dr) d")
    case (Inr y)
    obtain x d1 where y: "y = (x, d1)" by (metis surj_pair)
    note one = bench_write_conserves [OF Cons.prems(2,3) Inr [unfolded y]]
    from Cons.IH [of n d1] Cons.prems one show ?thesis by (simp add: Inr y)
  qed (use Cons in simp)
qed simp

end
