(* ===== verification/Spec2Isabelle.thy ===== *)
theory Spec2Isabelle
  imports PaymentClaims ChainClaims TraceClaims SystemClaims FeedClaims HttpClaims ChaosClaims CommandClaims Bench
begin

text \<open>
  A verification development for \<open>prediction-margin-reconciler\<close>, a margin engine for prediction markets
  in Go that keeps its money in a Postgres ledger and in a vault contract on a chain, and reconciles the
  two. All paths below are under \<open>src/\<close>.

  \<^bold>\<open>The program.\<close> Users deposit on the chain, trade positions in the ledger and withdraw on the chain.
  The store (\<open>internal/core\<close>) is a set of tables with transactions over them: a double-entry ledger,
  markets and positions, intents with an outbox, and an inbox of chain events with provisional credits
  and freezes. The chain (\<open>internal/chain/sim.go\<close>) is a simulator that mines, reorganises, loses
  receipts and delivers events badly; a Rust contract (\<open>contracts/vault/src/lib.rs\<close>) states the same
  vault. Workers (\<open>internal/app/app.go\<close>) carry intents to the chain and facts back; \<open>escrow.go\<close> keeps
  the vault's per-market escrow in line, \<open>reconcile.go\<close> explains the difference of ledger and chain,
  heals lost deposits and halts withdrawals, \<open>verify.go\<close> checks eight invariants, \<open>chaos.go\<close> and
  \<open>bench.go\<close> drive all of it, \<open>pricefeed\<close> caches marks, and \<open>httpapi\<close> and \<open>cmd/pmr\<close> expose it.

  \<^bold>\<open>Theories and code.\<close>
  \<^item> \<open>Prelude\<close>: \<open>int64\<close> arithmetic, errors as sums, lists as tables. \<open>Core\<close>: \<open>core.go\<close>. \<open>Schema\<close>:
    \<open>schema.sql\<close>, a record per row and a list per table. \<open>Ledger\<close>: \<open>ledger.go\<close>. \<open>Market\<close>: \<open>market.go\<close>.
    \<open>Freezes\<close> and \<open>Inbox\<close>: \<open>inbox.go\<close>. \<open>Intent\<close>: \<open>intent.go\<close>; \<open>Transitions\<close> proves what each
    transition does to the books. \<open>Store\<close>: the invariant of all tables together, the step relation of
    single transactions, and the custody equation; its claims are in this theory and \<open>PaymentClaims\<close>,
    its concrete states in \<open>Example\<close>.
  \<^item> \<open>Vault\<close> and \<open>Sim\<close>: \<open>sim.go\<close>; \<open>Contract\<close>: \<open>lib.rs\<close>; \<open>Replay\<close> and \<open>Trace\<close>:
    \<open>bin/replay.rs\<close>, whose claim is in \<open>TraceClaims\<close>. \<open>Finality\<close> holds the
    invariant of a chain with a ghost history of final blocks, \<open>Reads\<close> what its reads mean,
    \<open>ChainExample\<close> concrete chains, \<open>ChainClaims\<close> the claims.
  \<^item> \<open>App\<close>: \<open>app.go\<close>; \<open>Escrow\<close>: \<open>escrow.go\<close>; \<open>Reconcile\<close>: \<open>reconcile.go\<close>; \<open>Verify\<close>: \<open>verify.go\<close>.
    \<open>Coupling\<close> is the invariant that ties store and chain, \<open>System\<close> the transition system of single
    transactions, calls, blocks and faults in any order, \<open>Workers\<close> and \<open>Ticks\<close> show every pass to be a
    run of it. \<open>Residue\<close>, \<open>Refunds\<close>, \<open>Tidy\<close> and \<open>Verdict\<close> compute what the reconciler and the verifier
    report; \<open>Stream\<close> treats the event cursor and \<open>Quiesce\<close>; \<open>Recall\<close> shows that intents are never
    forgotten. Claims are in \<open>SystemClaims\<close>, states in \<open>SystemExample\<close>.
  \<^item> \<open>Feed\<close>, \<open>FeedClaims\<close>: \<open>pricefeed/feed.go\<close>. \<open>Doubles\<close>: the rounding of JSON numbers. \<open>Http\<close>:
    \<open>httpapi/http.go\<close>. \<open>Serve\<close>: \<open>cmdServe\<close> of \<open>main.go\<close>; \<open>Phantom\<close>: the injected fault; \<open>HttpClaims\<close>
    their claims. \<open>Commands\<close>: \<open>cmdVerify\<close>. \<open>Chaos\<close>, \<open>ChaosRuns\<close>, \<open>ChaosClaims\<close>: \<open>chaos.go\<close>.
    \<open>Bench\<close>: \<open>bench.go\<close>.

  \<^bold>\<open>State and operations.\<close> A function of a store method takes the database and returns an error or a
  result with the new database; an error leaves the database as it was, as the rollback of \<open>tx\<close> does.
  Workers return what they wrote before they stopped. The simulator is a record with the fields of \<open>Sim\<close>.
  What the code draws or reads from outside is an argument: fresh ids and clocks, the probabilities
  of faults as rational draws, the order in which maps and unordered queries are read, the depth of
  a reorganisation and the order it refills the mempool in. \<open>int64\<close> values are \<open>int\<close> with the
  wrap-around written out; \<open>u128\<close> amounts of the contract are \<open>nat\<close> with their panics; heights and sequence
  numbers are unbounded. Concurrency is the free order of the steps: transactions of Postgres are atomic,
  and an operation that reads outside its transaction (\<open>ClosePosition\<close>) is split at that point.

  \<^bold>\<open>What is shown.\<close> The ledger balances, never overdraws and replays keyed transfers; positions
  close once and pay exactly; a withdrawal reserves once and is paid or refunded, never both; deposits
  are credited once and orphaned credits are clawed back; internal money is exactly custody. The chain is
  consistent through reorganisations and restarts, final is final, the vault never owes more than it
  holds, and the contract accepts the trace a simulator writes and agrees with it. Together: the reconciler's unexplained part is
  exactly what the chain paid of refunded withdrawals, runs without deep reorganisations balance, the
  verifier finds nothing else but stalled escrow, a retried request is answered as before, and the
  chaos harness can report nothing but trouble with the chain. Where the code falls short the theorems
  say so: position sizes and zero-sum checks that wrap, refunds that a reorganisation undoes, a stream
  that stalls at an orphaned entry, settlement keys a client can take, a server that never issues
  escrow, and a verify command that unwinds deposits when it is not given the chain.

  \<^bold>\<open>Interfaces.\<close> Locales state the contracts between components and are interpreted on the model:
  \<open>double_entry\<close> on \<open>PostTx\<close>, \<open>nonce_contract\<close> on the executor of the simulator and on the Rust contract,
  \<open>price_cache\<close> on the in-memory feed.

  \<^bold>\<open>Bounds and fuel.\<close> The Redis reply reader takes one unit of fuel per byte of its input and one more, which
  always suffices. The cursor loop of the inbox takes the length of its batch. \<open>Quiesce\<close>, chaos and bench runs have
  one list element of draws per round; the 18 446 744 073 iterations of the chaos claim keep the
  deposits of a run within an \<open>int64\<close>. Hypotheses on runs: ids come from \<open>NewID\<close>, a mined block has
  a hash no block of the chain has, and the finalised deposits add up to at most \<open>2 ^ 63 - 1\<close>.

  \<^bold>\<open>Not modelled.\<close> Opening the database, applying the schema file and the connection pool; SQL itself, whose
  statements are translated to operations on lists; \<open>Snapshot\<close>, which only copies fields; JSON
  encoding and request routing, the panel page, flags and printing; \<open>cmdDemo\<close> and \<open>cmdTrace\<close>,
  scripts over modelled operations; the counters and durations of the harnesses; the Redis
  server, a parameter of the client; and the TypeScript watcher, a client of the HTTP API.
\<close>

section \<open>The store\<close>

text \<open>
  C9: every database the store's transactions can reach satisfies the ledger's, the markets', the
  intents' and the inbox's invariants and the equation of custody.
\<close>

theorem reachable_store_is_sound:
  "store_reachable d \<Longrightarrow> ledger_inv d \<and> market_inv d \<and> intent_inv d \<and> fact_inv d \<and> custody_inv d"
  using store_reachable_inv [of d] by (simp add: store_inv_def core_inv_def)

theorem reachable_store_is_sound_witness:
  "ledger_inv ex_paid \<and> market_inv ex_paid \<and> intent_inv ex_paid \<and> fact_inv ex_paid \<and> custody_inv ex_paid"
  by (rule reachable_store_is_sound [OF ex_reachable(6)])

text \<open>
  C10: what users, margin accounts, fees and insurance hold together is exactly the live deposits
  less the withdrawals the chain has confirmed; this is the number the reconciler compares with
  custody.
\<close>

theorem internal_total_is_custody:
  "store_reachable d \<Longrightarrow> InternalTotal d = scan_int64 (live_deposits d - paid_out d)"
  using internal_is_custody [OF store_reachable_inv] by (simp add: InternalTotal_def)

theorem internal_total_is_custody_witness:
  "InternalTotal ex_paid = Inr 70"
proof -
  have "live_deposits ex_paid - paid_out ex_paid = 70" by code_simp
  then show ?thesis
    using internal_total_is_custody [OF ex_reachable(6)] by (simp add: scan_int64_def int64_def)
qed

text \<open>
  In every reachable database the margin accounts add up to the collateral of the open
  positions (invariant I4 of the verifier), so \<open>MarginTotal\<close> and \<open>OpenCollateral\<close> return the same.
\<close>

theorem margin_matches_collateral:
  "store_reachable d \<Longrightarrow> MarginTotal d = OpenCollateral d"
  using margin_total_is_collateral [of d] store_invD(4,5) [OF store_reachable_inv, of d]
  by (simp add: MarginTotal_def OpenCollateral_def)

theorem margin_matches_collateral_witness:
  "MarginTotal ex_trading = OpenCollateral ex_trading \<and> OpenCollateral ex_trading = Inr 10"
proof -
  have "OpenCollateral ex_trading = Inr 10" by code_simp
  with margin_matches_collateral [OF ex_reachable(4)] show ?thesis by simp
qed

text \<open>
  In every reachable database a user's pending account holds exactly the user's withdrawals
  in flight, every intent has its outbox row (I6), and no market has two escrow instructions in
  flight.
\<close>

theorem pending_is_in_flight:
  assumes "store_reachable d"
  shows "Balance d (PendingAcct u) = pending_sum d u \<and>
    (\<forall>r \<in> set (intents d). in_id r \<in> ob_intent ` set (outbox d)) \<and> one_escrow_inflight (intents d)"
  using store_invD(6) [OF store_reachable_inv [OF assms]]
  by (simp add: intent_inv_def intent_books_def)

theorem pending_is_in_flight_witness:
  "Balance ex_pending (PendingAcct ''ann'') = pending_sum ex_pending ''ann'' \<and> pending_sum ex_pending ''ann'' = 30"
proof -
  have "pending_sum ex_pending ''ann'' = 30" by code_simp
  with pending_is_in_flight [OF ex_reachable(5), of "''ann''"] show ?thesis by simp
qed

section \<open>The ledger\<close>

text \<open>
  C11: posting a transfer whose legs are exact under a fresh id and an unused key succeeds exactly
  when every account it touches stays in the range of \<open>bigint\<close> and every user account stays
  non-negative; then it moves each account by its legs, keeps the ledger's invariant, and owns the
  key from then on.
\<close>

theorem post_succeeds_exactly:
  assumes "ledger_inv d" and "legs_exact (t_legs t)" and "t_key t = [] \<or> posted d (t_key t) = None"
    and "n \<notin> tr_id ` set (transfers d)"
  shows "(\<exists>d'. PostTx n t d = Inr ((n, False), d') \<and> ledger_inv d' \<and>
      (\<forall>a. Balance d' a = Balance d a + leg_total (t_legs t) a) \<and>
      (\<forall>k. posted d' k = (if t_key t \<noteq> [] \<and> k = t_key t then Some n else posted d k))) \<longleftrightarrow>
    (\<forall>a \<in> lg_account ` set (t_legs t). int64 (Balance d a + leg_total (t_legs t) a) \<and>
       (mustStayNonNegative a \<longrightarrow> 0 \<le> Balance d a + leg_total (t_legs t) a))"
    (is "?post \<longleftrightarrow> ?ok")
proof
  assume ?post
  then obtain d' where d': "ledger_inv d'" "\<And>a. Balance d' a = Balance d a + leg_total (t_legs t) a" by blast
  show ?ok
    using ledger_inv_int64 [OF d'(1)] ledger_inv_nonneg [OF d'(1)] by (auto simp flip: d'(2))
next
  assume ?ok
  then obtain d' where post: "PostTx n t d = Inr ((n, False), d')"
    using PostTx_succeeds [OF assms] by blast
  then show ?post
    using pg.post_inv [OF assms(1,2) post] pg.post_moves [OF assms(1,2) post] pg.post_key [OF assms(1) post]
    by blast
qed

theorem post_succeeds_exactly_witness:
  "\<exists>d'. PostTx ''t7'' (Transfer ''k'' ''key'' [Leg (AvailableAcct ''ann'') (- 5), Leg (AvailableAcct ''bob'') 5])
      ex_funded = Inr ((''t7'', False), d') \<and> Balance d' (AvailableAcct ''bob'') = 5"
proof -
  let ?t = "Transfer ''k'' ''key'' [Leg (AvailableAcct ''ann'') (- 5), Leg (AvailableAcct ''bob'') 5]"
  have b: "Balance ex_funded (AvailableAcct ''ann'') = 100" "Balance ex_funded (AvailableAcct ''bob'') = 0"
    by code_simp+
  have t: "leg_total (t_legs ?t) (AvailableAcct ''ann'') = - 5" "leg_total (t_legs ?t) (AvailableAcct ''bob'') = 5"
    by code_simp+
  have h: "legs_exact (t_legs ?t)" "t_key ?t = [] \<or> posted ex_funded (t_key ?t) = None"
    "''t7'' \<notin> tr_id ` set (transfers ex_funded)" by code_simp+
  have "lg_account ` set (t_legs ?t) = {AvailableAcct ''ann'', AvailableAcct ''bob''}"
    by (simp add: Transfer_def)
  then have "\<forall>a \<in> lg_account ` set (t_legs ?t). int64 (Balance ex_funded a + leg_total (t_legs ?t) a) \<and>
      (mustStayNonNegative a \<longrightarrow> 0 \<le> Balance ex_funded a + leg_total (t_legs ?t) a)"
    by (simp add: b t int64_def)
  then obtain d' where "PostTx ''t7'' ?t ex_funded = Inr ((''t7'', False), d')"
    "\<forall>a. Balance d' a = Balance ex_funded a + leg_total (t_legs ?t) a"
    using post_succeeds_exactly [OF store_invD(4) [OF ex_inv(3)] h] by blast
  then show ?thesis using b t by auto
qed

text \<open>
  C12: retrying a keyed transfer that was posted, under any new id and even with other funds gone,
  returns the first transfer's id, reports a replay, and changes nothing.
\<close>

theorem post_retry_changes_nothing:
  assumes "ledger_inv d" and "legs_exact (t_legs t)" and "t_key t \<noteq> []"
    and "PostTx n t d = Inr ((i, r), d')"
  shows "PostTx m t d' = Inr ((i, True), d')"
  using assms by (rule pg.retry)

theorem post_retry_changes_nothing_witness:
  "\<exists>d'. PostTx ''t7'' (Transfer ''k'' ''key'' [Leg (AvailableAcct ''ann'') (- 5), Leg (AvailableAcct ''bob'') 5])
      ex_funded = Inr ((''t7'', False), d') \<and>
    PostTx ''t8'' (Transfer ''k'' ''key'' [Leg (AvailableAcct ''ann'') (- 5), Leg (AvailableAcct ''bob'') 5])
      d' = Inr ((''t7'', True), d')"
proof -
  let ?t = "Transfer ''k'' ''key'' [Leg (AvailableAcct ''ann'') (- 5), Leg (AvailableAcct ''bob'') 5]"
  have h: "legs_exact (t_legs ?t)" "t_key ?t \<noteq> []" by code_simp+
  have "(case PostTx ''t7'' ?t ex_funded of Inr ((i, r), d') \<Rightarrow> i = ''t7'' \<and> \<not> r | Inl e \<Rightarrow> False)" by code_simp
  then obtain d' where p: "PostTx ''t7'' ?t ex_funded = Inr ((''t7'', False), d')"
    by (auto split: sum.splits prod.splits)
  with post_retry_changes_nothing [OF store_invD(4) [OF ex_inv(3)] h p] show ?thesis by blast
qed

text \<open>
  A transfer that would take a user account below zero is refused, whatever the other legs,
  and nothing of it is written.
\<close>

theorem overdraft_is_refused:
  assumes "ledger_inv d" and "legs_exact (t_legs t)" and "t_key t = [] \<or> posted d (t_key t) = None"
    and "n \<notin> tr_id ` set (transfers d)"
    and "mustStayNonNegative a" and "Balance d a + leg_total (t_legs t) a < 0"
  shows "PostTx n t d = Inl ErrInsufficientFunds \<or> PostTx n t d = Inl ErrRange"
  using assms by (rule PostTx_refused)

theorem overdraft_is_refused_witness:
  "\<exists>e. PostTx ''t7'' (Transfer ''k'' '''' [Leg (AvailableAcct ''ann'') (- 500), Leg (AvailableAcct ''bob'') 500])
    ex_funded = Inl e"
proof -
  let ?t = "Transfer ''k'' '''' [Leg (AvailableAcct ''ann'') (- 500), Leg (AvailableAcct ''bob'') 500]"
  have h: "legs_exact (t_legs ?t)" "t_key ?t = [] \<or> posted ex_funded (t_key ?t) = None"
    "''t7'' \<notin> tr_id ` set (transfers ex_funded)" "mustStayNonNegative (AvailableAcct ''ann'')"
    "Balance ex_funded (AvailableAcct ''ann'') + leg_total (t_legs ?t) (AvailableAcct ''ann'') < 0"
    by code_simp+
  show ?thesis using overdraft_is_refused [OF store_invD(4) [OF ex_inv(3)] h] by blast
qed

text \<open>
  The zero-sum check of \<open>PostTx\<close> adds in \<open>int64\<close>. Two legs of \<open>-2^63\<close> add up to \<open>-2^64\<close>, pass
  the check, and leave a ledger in which a transfer does not balance.
\<close>

theorem zero_sum_check_wraps:
  "\<exists>d'. PostTx ''t'' (Transfer ''k'' '''' [Leg ''a'' (- 9223372036854775808),
      Leg ''b'' (- 9223372036854775808)]) schema_db = Inr ((''t'', False), d') \<and>
    transfer_sum d' ''t'' = - 18446744073709551616 \<and> \<not> ledger_inv d'"
proof -
  let ?p = "PostTx ''t'' (Transfer ''k'' '''' [Leg ''a'' (- 9223372036854775808),
      Leg ''b'' (- 9223372036854775808)]) schema_db"
  have "case ?p of Inl _ \<Rightarrow> False
     | Inr ((i, r), d') \<Rightarrow> i = ''t'' \<and> \<not> r \<and> transfer_sum d' ''t'' = - 18446744073709551616"
    by code_simp
  then obtain d' where "?p = Inr ((''t'', False), d')" "transfer_sum d' ''t'' = - 18446744073709551616"
    by (auto split: sum.splits prod.splits)
  moreover from this have "\<not> ledger_inv d'" using ledger_inv_transfer_sum [of d' "''t''"] by auto
  ultimately show ?thesis by blast
qed

section \<open>Markets and positions\<close>

text \<open>
  C13: opening a position under a fresh key against an open market posts exactly the initial
  margin of its worst case, out of the user's available money into the user's margin account,
  records the position at the market's mark, and needs that money to be there.
\<close>

theorem open_position_posts_margin:
  assumes inv: "ledger_inv d" "market_inv d"
    and fresh: "idemKey = [] \<or> Some idemKey \<notin> po_key ` set (positions d)"
    and res: "OpenPosition npid ntid user marketID side sz idemKey d = Inr (pid, d')"
  shows "\<exists>m \<in> set (markets d). mk_id m = marketID \<and> mk_state m = MarketOpen \<and> pid = npid \<and>
    (let c = mul (worstCase side sz (mk_mark m)) InitialMarginRate in
     0 < c \<and> c \<le> Balance d (AvailableAcct user) \<and>
     (\<forall>a. Balance d' a = Balance d a - (if a = AvailableAcct user then c else 0)
        + (if a = MarginAcct user then c else 0)) \<and>
     (\<exists>p. positions d' = positions d @ [p] \<and> po_id p = npid \<and> po_user p = user \<and> po_side p = side \<and>
        po_size p = sz \<and> po_entry p = mk_mark m \<and> po_collateral p = c \<and> po_state p = PositionOpen))"
proof -
  have "(if idemKey = [] then None else select_one (\<lambda>p. po_key p = Some idemKey) (positions d)) = None"
    using fresh by (auto simp: select_one_None_iff image_iff)
  then have "open_new_position npid ntid user marketID side sz idemKey d = Inr (pid, d')"
    using res by (simp add: OpenPosition_def split: if_splits)
  from inv this show ?thesis
  proof (cases rule: open_new_position_spec)
    case (1 m p i)
    have "ledger_inv (d\<lparr>positions := positions d @ [p]\<rparr>)" using inv by simp
    note two = pg.two_legs [OF this _ less_imp_le [OF 1(7)] _ 1(10)]
    show ?thesis
      by (rule bexI [OF _ 1(3)]) (use 1(1,4-8) two in \<open>auto simp: Let_def\<close>)
  qed
qed

theorem open_position_posts_margin_witness:
  "Balance ex_trading (MarginAcct ''ann'') = 10 \<and>
   (\<exists>m \<in> set (markets ex_funded). mul (worstCase ''long'' 80 (mk_mark m)) InitialMarginRate = 10)"
proof -
  have b: "Balance ex_trading (MarginAcct ''ann'') = 10" "Balance ex_funded (MarginAcct ''ann'') = 0" by code_simp+
  show ?thesis
    using open_position_posts_margin [OF store_invD(4,5) [OF ex_inv(3)] _ ex_step_open] b by (auto simp: Let_def)
qed



text \<open>
  C15: of two workers that read the same open position, the one that updates second is told there
  is a conflict and moves nothing, whatever marks and reasons they bring: no double liquidation.
\<close>

theorem position_closes_once:
  assumes "market_inv d" and "p \<in> set (positions d)"
    and "close_read_position t1 p m1 r1 d = Inr d1"
  shows "close_read_position t2 p m2 r2 d1 = Inl ErrConflict"
  using second_closer_conflicts [OF _ assms(2,3)] assms(1) by (simp add: market_inv_def)

theorem position_closes_once_witness:
  "\<exists>p d1. close_read_position ''t5'' p 600000 ''liquidation'' ex_trading = Inr d1 \<and>
    close_read_position ''t6'' p 610000 ''liquidation'' d1 = Inl ErrConflict"
proof -
  let ?p = "\<lparr>po_id = ''p1'', po_user = ''ann'', po_market = ''m'', po_side = ''long'', po_size = 80,
    po_entry = 500000, po_collateral = 10, po_key = None, po_state = PositionOpen, po_version = 0\<rparr>"
  have mem: "?p \<in> set (positions ex_trading)" by code_simp
  have "case close_read_position ''t5'' ?p 600000 ''liquidation'' ex_trading of Inr d' \<Rightarrow> True | Inl e \<Rightarrow> False"
    by code_simp
  then obtain d1 where "close_read_position ''t5'' ?p 600000 ''liquidation'' ex_trading = Inr d1"
    by (auto split: sum.splits)
  with position_closes_once [OF store_invD(5) [OF ex_inv(4)] mem this] show ?thesis by blast
qed

end
